(* ===== verification/Prelude.thy ===== *)
theory Prelude
  imports Main "HOL-Library.Word" "HOL-Library.Signed_Division"
begin

text \<open>
  What every component of the development shares: the result type of a contract action
  (an aborting \<open>check\<close> against the new state), its two combinators with the rewrite
  rules that take a successful run apart, the integers of C++ at their widths, and a locale
  for state machines whose steps may abort.
\<close>

section \<open>Results of actions\<close>

text \<open>
  An action of a contract either aborts, which rolls back everything it did, or returns.
  \<open>Check\<close> is a failed \<open>check(cond, message)\<close> of the source, \<open>Missing_auth\<close> a failed
  \<open>require_auth\<close>, \<open>Library\<close> an abort inside the contract development toolkit (asset
  arithmetic, tables), and \<open>Undefined\<close> an operation that C++ leaves undefined (a cast of
  a double that does not fit, an integer division by zero, a null dereference).
\<close>

datatype error = Check string | Missing_auth "64 word" | Library string | Undefined string

type_synonym 'a result = "error + 'a"

named_theorems result_simps \<open>rules that take a successful run apart\<close>

definition check :: "bool \<Rightarrow> string \<Rightarrow> 'a result \<Rightarrow> 'a result" where
  "check b msg r = (if b then r else Inl (Check msg))"

definition bind_result :: "'a result \<Rightarrow> ('a \<Rightarrow> 'b result) \<Rightarrow> 'b result" where
  "bind_result r f = (case r of Inl e \<Rightarrow> Inl e | Inr x \<Rightarrow> f x)"

definition some_or :: "'a option \<Rightarrow> error \<Rightarrow> ('a \<Rightarrow> 'b result) \<Rightarrow> 'b result" where
  "some_or x e f = (case x of None \<Rightarrow> Inl e | Some y \<Rightarrow> f y)"

definition is_ok :: "'a result \<Rightarrow> bool" where
  "is_ok r = (case r of Inl _ \<Rightarrow> False | Inr _ \<Rightarrow> True)"

lemma check_simps [simp]:
  "check True msg r = r"
  "check False msg r = Inl (Check msg)"
  by (simp_all add: check_def)

lemma check_Inr [simp, result_simps]: "check b msg r = Inr x \<longleftrightarrow> b \<and> r = Inr x"
  by (simp add: check_def)

lemma bind_result_simps [simp]:
  "bind_result (Inr x) f = f x"
  "bind_result (Inl e) f = Inl e"
  by (simp_all add: bind_result_def)

lemma bind_result_Inr [simp, result_simps]:
  "bind_result r f = Inr y \<longleftrightarrow> (\<exists>x. r = Inr x \<and> f x = Inr y)"
  by (cases r) auto

lemma some_or_simps [simp]:
  "some_or (Some x) e f = f x"
  "some_or None e f = Inl e"
  by (simp_all add: some_or_def)

lemma some_or_Inr [simp, result_simps]:
  "some_or x e f = Inr y \<longleftrightarrow> (\<exists>z. x = Some z \<and> f z = Inr y)"
  by (cases x) auto

lemma is_ok_simps [simp]:
  "is_ok (Inr x)"
  "\<not> is_ok (Inl e)"
  by (simp_all add: is_ok_def)

lemma is_ok_check [simp]: "is_ok (check b msg r) \<longleftrightarrow> b \<and> is_ok r"
  by (simp add: check_def)

lemma is_ok_iff: "is_ok r \<longleftrightarrow> (\<exists>x. r = Inr x)"
  by (cases r) auto

lemma check_cong: "b = b' \<Longrightarrow> (b' \<Longrightarrow> r = r') \<Longrightarrow> check b msg r = check b' msg r'"
  by (simp add: check_def)

text \<open>A loop over a list whose body may abort.\<close>

fun fold_result :: "('a \<Rightarrow> 's \<Rightarrow> 's result) \<Rightarrow> 'a list \<Rightarrow> 's \<Rightarrow> 's result" where
  "fold_result f [] s = Inr s"
| "fold_result f (x # xs) s = bind_result (f x s) (fold_result f xs)"

lemma fold_result_append:
  "fold_result f (xs @ ys) s = bind_result (fold_result f xs s) (fold_result f ys)"
  by (induction xs arbitrary: s) (auto simp: bind_result_def split: sum.split)

lemma fold_result_inv:
  assumes "fold_result f xs s = Inr s'" and "I s"
    and "\<And>x s s'. x \<in> set xs \<Longrightarrow> I s \<Longrightarrow> f x s = Inr s' \<Longrightarrow> I s'"
  shows "I s'"
  using assms by (induction xs arbitrary: s) auto

text \<open>A loop over distinct keys whose body touches the row of its key only acts row by row.\<close>

lemma fold_result_pointwise:
  assumes "fold_result f xs s = Inr s'" and "distinct (map fst xs)" and "I s"
    and "\<And>k e s s'. I s \<Longrightarrow> f (k, e) s = Inr s' \<Longrightarrow>
           I s' \<and> Q k e (look s k) (look s' k) \<and> (\<forall>j. j \<noteq> k \<longrightarrow> look s' j = look s j)"
  shows "I s' \<and> (\<forall>j. case map_of xs j of None \<Rightarrow> look s' j = look s j | Some e \<Rightarrow> Q j e (look s j) (look s' j))"
  using assms(1-3)
proof (induction xs arbitrary: s)
  case (Cons x xs)
  obtain k e where x: "x = (k, e)" by (cases x)
  obtain t where t: "f (k, e) s = Inr t" and rest: "fold_result f xs t = Inr s'"
    using Cons.prems(1) by (auto simp: x)
  note step = assms(4) [OF Cons.prems(3) t]
  have IH: "I s' \<and> (\<forall>j. case map_of xs j of None \<Rightarrow> look s' j = look t j | Some e \<Rightarrow> Q j e (look t j) (look s' j))"
    by (rule Cons.IH [OF rest]) (use Cons.prems(2) step in auto)
  have fresh: "map_of xs k = None" using Cons.prems(2) by (auto simp: x map_of_eq_None_iff)
  show ?case
  proof (intro conjI allI)
    fix j
    show "case map_of (x # xs) j of None \<Rightarrow> look s' j = look s j | Some e \<Rightarrow> Q j e (look s j) (look s' j)"
      using IH step fresh by (cases "j = k") (auto simp: x split: option.splits dest: spec [of _ j])
  qed (use IH in simp)
qed simp

section \<open>Integers at their widths\<close>

text \<open>
  The signed 64-bit integers of the source are \<open>int\<close> with the wrap-around of the
  instruction written out where the source computes; the unsigned ones likewise, or words
  where the code works on their bits. Integer division truncates towards zero (\<open>sdiv\<close>).
\<close>

definition i64 :: "int \<Rightarrow> int" where
  "i64 x = (x + 2 ^ 63) mod 2 ^ 64 - 2 ^ 63"

definition u64 :: "int \<Rightarrow> int" where "u64 x = x mod 2 ^ 64"
definition u32 :: "int \<Rightarrow> int" where "u32 x = x mod 2 ^ 32"
definition u16 :: "int \<Rightarrow> int" where "u16 x = x mod 2 ^ 16"
definition u8 :: "int \<Rightarrow> int" where "u8 x = x mod 2 ^ 8"

definition in_i64 :: "int \<Rightarrow> bool" where
  "in_i64 x \<longleftrightarrow> - (2 ^ 63) \<le> x \<and> x < 2 ^ 63"

lemma i64_id [simp]: "- (2 ^ 63) \<le> x \<Longrightarrow> x < 2 ^ 63 \<Longrightarrow> i64 x = x"
  by (simp add: i64_def)

lemma i64_range: "- (2 ^ 63) \<le> i64 x" "i64 x < 2 ^ 63"
proof -
  have "0 \<le> (x + 2 ^ 63) mod 2 ^ 64" by simp
  then show "- (2 ^ 63) \<le> i64 x" unfolding i64_def by linarith
  have "(x + 2 ^ 63) mod 2 ^ 64 < 2 ^ 64" by simp
  then show "i64 x < 2 ^ 63" unfolding i64_def by simp
qed

lemma in_i64_i64 [simp]: "in_i64 (i64 x)"
  using i64_range by (simp add: in_i64_def)

lemma in_i64_id: "in_i64 x \<Longrightarrow> i64 x = x"
  by (simp add: in_i64_def)

lemma u64_id [simp]: "0 \<le> x \<Longrightarrow> x < 2 ^ 64 \<Longrightarrow> u64 x = x"
  by (simp add: u64_def)

lemma u32_id [simp]: "0 \<le> x \<Longrightarrow> x < 2 ^ 32 \<Longrightarrow> u32 x = x"
  by (simp add: u32_def)

lemma u16_id [simp]: "0 \<le> x \<Longrightarrow> x < 2 ^ 16 \<Longrightarrow> u16 x = x"
  by (simp add: u16_def)

lemma u_ranges [simp]:
  "0 \<le> u64 x" "u64 x < 2 ^ 64" "0 \<le> u32 x" "u32 x < 2 ^ 32" "0 \<le> u16 x" "u16 x < 2 ^ 16"
  by (simp_all add: u64_def u32_def u16_def)

text \<open>Sums of wrapped numbers, seen modulo \<open>2 ^ 64\<close>.\<close>

lemma u64_wrap [simp]:
  "u64 (i64 x) = u64 x" "u64 (u64 x) = u64 x"
  "u64 (x + i64 y) = u64 (x + y)" "u64 (i64 x + y) = u64 (x + y)"
  "u64 (x + u64 y) = u64 (x + y)" "u64 (u64 x + y) = u64 (x + y)"
  "u64 (x - i64 y) = u64 (x - y)" "u64 (i64 x - y) = u64 (x - y)"
  "u64 (x - u64 y) = u64 (x - y)" "u64 (u64 x - y) = u64 (x - y)"
proof -
  have i: "u64 (a + b * i64 y) = u64 (a + b * y)" for a b y
  proof -
    have "i64 y = y - 2 ^ 64 * ((y + 2 ^ 63) div 2 ^ 64)"
      unfolding i64_def using mult_div_mod_eq [of "2 ^ 64" "y + 2 ^ 63"] by linarith
    then have "a + b * i64 y = (a + b * y) + 2 ^ 64 * (- b * ((y + 2 ^ 63) div 2 ^ 64))"
      by (simp only: right_diff_distrib) (simp add: algebra_simps)
    then show ?thesis unfolding u64_def by (simp only: mod_mult_self2)
  qed
  show "u64 (i64 x) = u64 x" "u64 (x + i64 y) = u64 (x + y)" "u64 (i64 x + y) = u64 (x + y)"
    "u64 (x - i64 y) = u64 (x - y)" "u64 (i64 x - y) = u64 (x - y)"
    using i [of 0 1 x] i [of x 1 y] i [of y 1 x] i [of x "- 1" y] i [of "- y" 1 x]
    by (simp_all add: add.commute)
  show "u64 (u64 x) = u64 x" "u64 (x + u64 y) = u64 (x + y)" "u64 (u64 x + y) = u64 (x + y)"
    "u64 (x - u64 y) = u64 (x - y)" "u64 (u64 x - y) = u64 (x - y)"
    by (simp_all add: u64_def mod_simps)
qed

text \<open>Sums of wrapped numbers at the width of 64 bits.\<close>

lemma i64_congs:
  "i64 (i64 x + y) = i64 (x + y)" "i64 (x + i64 y) = i64 (x + y)"
  "i64 (i64 x - y) = i64 (x - y)" "i64 (x - i64 y) = i64 (x - y)" "i64 (- i64 x) = i64 (- x)"
proof -
  show a: "i64 (i64 x + y) = i64 (x + y)" for x y
  proof -
    have "i64 x + y + 2 ^ 63 = (x + 2 ^ 63) mod 2 ^ 64 + y" by (simp add: i64_def)
    then show ?thesis by (simp add: i64_def mod_simps algebra_simps)
  qed
  show "i64 (x + i64 y) = i64 (x + y)" for x y using a [of y x] by (simp add: add.commute)
  show "i64 (i64 x - y) = i64 (x - y)" using a [of x "- y"] by simp
  show neg: "i64 (x - i64 y) = i64 (x - y)" for x y
  proof -
    have "i64 y = y - 2 ^ 64 * ((y + 2 ^ 63) div 2 ^ 64)"
      unfolding i64_def using mult_div_mod_eq [of "2 ^ 64" "y + 2 ^ 63"] by linarith
    then have "x - i64 y + 2 ^ 63 = (x - y + 2 ^ 63) + 2 ^ 64 * ((y + 2 ^ 63) div 2 ^ 64)" by simp
    then show ?thesis unfolding i64_def [of "x - i64 y"] i64_def [of "x - y"] by (simp only: mod_mult_self2)
  qed
  show "i64 (- i64 x) = i64 (- x)" using neg [of 0 x] by simp
qed

lemma i64_add_cong: "i64 a = i64 b \<Longrightarrow> i64 c = i64 d \<Longrightarrow> i64 (a + c) = i64 (b + d)"
  by (metis i64_congs(1,2))

lemma i64_diff_cong: "i64 a = i64 b \<Longrightarrow> i64 c = i64 d \<Longrightarrow> i64 (a - c) = i64 (b - d)"
  by (metis i64_congs(3,4))

lemma u64_add_cong: "u64 a = u64 b \<Longrightarrow> u64 c = u64 d \<Longrightarrow> u64 (a + c) = u64 (b + d)"
  unfolding u64_def by (rule mod_add_cong)

lemma u64_diff_cong: "u64 a = u64 b \<Longrightarrow> u64 c = u64 d \<Longrightarrow> u64 (a - c) = u64 (b - d)"
  unfolding u64_def by (rule mod_diff_cong)

lemma sdiv_nonneg: "0 \<le> (a::int) \<Longrightarrow> 0 < b \<Longrightarrow> a sdiv b = a div b"
  by (cases "a = 0") (simp_all add: signed_divide_int_def)

section \<open>Machines whose steps may abort\<close>

text \<open>
  A contract is a state and a family of actions. An aborted action leaves the state as it
  was, so a history is the list of the actions that were pushed and the state after it is
  \<open>run\<close>; an invariant that every successful action keeps holds after every history.
\<close>

fun run :: "('a \<Rightarrow> 's \<Rightarrow> 's result) \<Rightarrow> 'a list \<Rightarrow> 's \<Rightarrow> 's" where
  "run step [] s = s"
| "run step (a # as) s = run step as (case step a s of Inl _ \<Rightarrow> s | Inr s' \<Rightarrow> s')"

lemma run_append: "run step (xs @ ys) s = run step ys (run step xs s)"
  by (induction xs arbitrary: s) auto

text \<open>The actions of a history that succeeded, in order.\<close>

fun effective :: "('a \<Rightarrow> 's \<Rightarrow> 's result) \<Rightarrow> 'a list \<Rightarrow> 's \<Rightarrow> 'a list" where
  "effective step [] s = []"
| "effective step (a # as) s =
     (case step a s of Inl _ \<Rightarrow> effective step as s | Inr s' \<Rightarrow> a # effective step as s')"

lemma effective_snoc:
  "effective step (as @ [a]) s =
     effective step as s @ (case step a (run step as s) of Inl _ \<Rightarrow> [] | Inr _ \<Rightarrow> [a])"
  by (induction as arbitrary: s) (auto split: sum.split)

lemma effective_subset: "set (effective step as s) \<subseteq> set as"
  by (induction as arbitrary: s) (auto split: sum.split)

text \<open>A relation between what succeeded and the state, kept by every successful action, always holds.\<close>

lemma effective_induct [consumes 1, case_names Nil Snoc]:
  assumes "list_all adm as" and "P [] s0"
    and "\<And>es s a s'. \<lbrakk> P es s; adm a; step a s = Inr s' \<rbrakk> \<Longrightarrow> P (es @ [a]) s'"
  shows "P (effective step as s0) (run step as s0)"
  using assms(1)
proof (induction as rule: rev_induct)
  case (snoc a as)
  then show ?case
    using assms(3) by (auto simp: effective_snoc run_append split: sum.split)
qed (simp add: assms(2))

locale contract_machine =
  fixes step :: "'a \<Rightarrow> 's \<Rightarrow> 's result"
    and admissible :: "'a \<Rightarrow> bool"
    and inv :: "'s \<Rightarrow> bool"
  assumes step_inv: "\<lbrakk> admissible a; inv s; step a s = Inr s' \<rbrakk> \<Longrightarrow> inv s'"
begin

lemma run_inv: "list_all admissible as \<Longrightarrow> inv s \<Longrightarrow> inv (run step as s)"
  by (induction as arbitrary: s) (auto intro: step_inv split: sum.split)

lemma run_inv_prefix:
  "list_all admissible (as @ bs) \<Longrightarrow> inv s \<Longrightarrow> inv (run step as s)"
  by (rule run_inv) simp_all

end

end
