(* ===== verification/Tables.thy ===== *)
theory Tables
  imports Prelude "HOL-Library.Product_Lexorder"
begin

text \<open>
  The tables of the contracts (\<open>eosio::multi_index\<close>): rows ordered by their primary
  key, each with the account that pays for its RAM. A table that the code instantiates once
  per scope is one table whose key is the pair of the scope and the primary key.

  The type keeps the order of the keys as its invariant, so that \<open>begin\<close>, \<open>end\<close> and
  iteration mean what they mean in the code. The locale \<open>multi_index\<close> states what the
  contracts rely on.
\<close>

type_synonym name = "64 word"

section \<open>Ordered rows\<close>

fun put_row :: "'k::linorder \<Rightarrow> 'r \<Rightarrow> ('k \<times> 'r) list \<Rightarrow> ('k \<times> 'r) list" where
  "put_row k r [] = [(k, r)]"
| "put_row k r (x # xs) =
     (if fst x < k then x # put_row k r xs
      else if fst x = k then (k, r) # xs
      else (k, r) # x # xs)"

definition drop_row :: "'k::linorder \<Rightarrow> ('k \<times> 'r) list \<Rightarrow> ('k \<times> 'r) list" where
  "drop_row k xs = filter (\<lambda>x. fst x \<noteq> k) xs"

definition keys_ordered :: "('k::linorder \<times> 'r) list \<Rightarrow> bool" where
  "keys_ordered xs \<longleftrightarrow> sorted_wrt (<) (map fst xs)"

lemma fst_set_put_row: "fst ` set (put_row k r xs) = insert k (fst ` set xs)"
  by (induction xs) auto

lemma keys_ordered_put_row: "keys_ordered xs \<Longrightarrow> keys_ordered (put_row k r xs)"
proof (induction xs)
  case Nil
  show ?case by (simp add: keys_ordered_def)
next
  case (Cons x xs)
  have below: "\<forall>y \<in> fst ` set xs. fst x < y" and tail: "keys_ordered xs"
    using Cons.prems by (auto simp: keys_ordered_def)
  have "keys_ordered (put_row k r xs)" by (rule Cons.IH [OF tail])
  moreover have "fst x < k \<Longrightarrow> \<forall>y \<in> fst ` set (put_row k r xs). fst x < y"
    using below by (auto simp: fst_set_put_row)
  ultimately show ?case
    using below tail by (auto simp: keys_ordered_def dest: less_trans)
qed

lemma keys_ordered_drop_row: "keys_ordered xs \<Longrightarrow> keys_ordered (drop_row k xs)"
  by (induction xs) (auto simp: keys_ordered_def drop_row_def)

lemma map_of_put_row:
  "keys_ordered xs \<Longrightarrow> map_of (put_row k r xs) j = (if j = k then Some r else map_of xs j)"
proof (induction xs)
  case Nil
  show ?case by simp
next
  case (Cons x xs)
  then have "keys_ordered xs" by (simp add: keys_ordered_def)
  with Cons.IH show ?case by (cases x) auto
qed

lemma map_of_drop_row: "map_of (drop_row k xs) j = (if j = k then None else map_of xs j)"
  by (induction xs) (auto simp: drop_row_def)

lemma keys_ordered_distinct: "keys_ordered xs \<Longrightarrow> distinct (map fst xs)"
  by (simp add: keys_ordered_def strict_sorted_iff)

lemma keys_ordered_unique:
  assumes "keys_ordered xs" and "keys_ordered ys" and "map_of xs = map_of ys"
  shows "xs = ys"
proof -
  have d: "distinct (map fst xs)" "distinct (map fst ys)"
    using assms(1,2) by (auto intro: keys_ordered_distinct)
  have "set xs = set ys"
  proof (rule set_eqI)
    fix p
    show "p \<in> set xs \<longleftrightarrow> p \<in> set ys"
      using d assms(3) by (cases p) (metis map_of_eq_Some_iff)
  qed
  moreover have "sorted (map fst xs)" "sorted (map fst ys)"
    using assms(1,2) by (auto simp: keys_ordered_def strict_sorted_iff)
  moreover have "inj_on fst (set xs)" "inj_on fst (set ys)"
    using d by (simp_all add: distinct_map)
  ultimately show ?thesis
    using d by (metis distinct_map map_sorted_distinct_set_unique sup.idem)
qed

section \<open>The table type\<close>

typedef (overloaded) ('k::linorder, 'e) ordered_rows = "{xs :: ('k \<times> 'e) list. keys_ordered xs}"
  morphisms entries Ordered_rows
  by (rule exI [of _ "[]"]) (simp add: keys_ordered_def)

setup_lifting type_definition_ordered_rows

lift_definition no_rows :: "('k::linorder, 'e) ordered_rows" is "[]"
  by (simp add: keys_ordered_def)

lift_definition put_entry :: "'k::linorder \<Rightarrow> 'e \<Rightarrow> ('k, 'e) ordered_rows \<Rightarrow> ('k, 'e) ordered_rows" is
  put_row
  by (rule keys_ordered_put_row)

lift_definition erase_row :: "'k::linorder \<Rightarrow> ('k, 'e) ordered_rows \<Rightarrow> ('k, 'e) ordered_rows" is
  drop_row
  by (rule keys_ordered_drop_row)

lift_definition entry :: "('k::linorder, 'e) ordered_rows \<Rightarrow> 'k \<Rightarrow> 'e option" is
  map_of .

type_synonym ('k, 'v) table = "('k, name \<times> 'v) ordered_rows"

definition put :: "'k::linorder \<Rightarrow> name \<Rightarrow> 'v \<Rightarrow> ('k, 'v) table \<Rightarrow> ('k, 'v) table" where
  "put k p v t = put_entry k (p, v) t"

text \<open>
  \<open>find_row\<close> is the row of a key; \<open>row_payer\<close> the account billed for it. \<open>emplace_row\<close> adds a row
  for a key that has none (the toolkit aborts otherwise), \<open>modify_row\<close> replaces a row and
  bills \<open>Some p\<close>, or the payer it had (\<open>same_payer\<close>).
\<close>

definition find_row :: "('k::linorder, 'v) table \<Rightarrow> 'k \<Rightarrow> 'v option" where
  "find_row t k = map_option snd (entry t k)"

definition row_payer :: "('k::linorder, 'v) table \<Rightarrow> 'k \<Rightarrow> name option" where
  "row_payer t k = map_option fst (entry t k)"

definition emplace_row :: "name \<Rightarrow> 'k::linorder \<Rightarrow> 'v \<Rightarrow> ('k, 'v) table \<Rightarrow> ('k, 'v) table result" where
  "emplace_row p k v t =
     (case find_row t k of None \<Rightarrow> Inr (put k p v t)
      | Some _ \<Rightarrow> Inl (Library ''primary key already exists''))"

definition modify_row :: "name option \<Rightarrow> 'k::linorder \<Rightarrow> 'v \<Rightarrow> ('k, 'v) table \<Rightarrow> ('k, 'v) table" where
  "modify_row p k v t =
     (case row_payer t k of None \<Rightarrow> t
      | Some q \<Rightarrow> put k (case p of None \<Rightarrow> q | Some r \<Rightarrow> r) v t)"

definition rows :: "('k::linorder, 'v) table \<Rightarrow> ('k \<times> 'v) list" where
  "rows t = map (\<lambda>(k, p, v). (k, v)) (entries t)"

abbreviation same_payer :: "name option" where "same_payer \<equiv> None"

lemma table_eqI:
  assumes "\<And>k. entry s k = entry t k"
  shows "s = t"
  using assms by transfer (auto intro!: keys_ordered_unique)

lemma entry_put_entry: "entry (put_entry k e t) j = (if j = k then Some e else entry t j)"
  by transfer (simp add: map_of_put_row)

lemma entry_put [simp]: "entry (put k p v t) j = (if j = k then Some (p, v) else entry t j)"
  by (simp add: put_def entry_put_entry)

lemma entry_erase [simp]: "entry (erase_row k t) j = (if j = k then None else entry t j)"
  by transfer (simp add: map_of_drop_row)

lemma entry_no_rows [simp]: "entry no_rows j = None"
  by transfer simp

lemma find_row_put [simp]: "find_row (put k p v t) j = (if j = k then Some v else find_row t j)"
  by (simp add: find_row_def)

lemma find_row_erase [simp]: "find_row (erase_row k t) j = (if j = k then None else find_row t j)"
  by (simp add: find_row_def)

lemma find_row_no_rows [simp]: "find_row no_rows j = None"
  by (simp add: find_row_def)

lemma row_payer_put [simp]: "row_payer (put k p v t) j = (if j = k then Some p else row_payer t j)"
  by (simp add: row_payer_def)

lemma row_payer_erase [simp]: "row_payer (erase_row k t) j = (if j = k then None else row_payer t j)"
  by (simp add: row_payer_def)

lemma row_payer_no_rows [simp]: "row_payer no_rows j = None"
  by (simp add: row_payer_def)

lemma row_payer_None_iff: "row_payer t k = None \<longleftrightarrow> find_row t k = None"
  by (simp add: row_payer_def find_row_def)

lemma row_payer_of_find: "find_row t k = Some v \<Longrightarrow> \<exists>p. row_payer t k = Some p"
  by (auto simp: row_payer_def find_row_def)

lemma find_row_modify [simp]:
  "find_row (modify_row p k v t) j = (if j = k \<and> find_row t k \<noteq> None then Some v else find_row t j)"
  by (cases "entry t k") (auto simp: modify_row_def row_payer_def find_row_def)

lemma row_payer_modify [simp]:
  "row_payer (modify_row p k v t) j =
     (if j = k \<and> find_row t k \<noteq> None then (case p of None \<Rightarrow> row_payer t k | Some r \<Rightarrow> Some r)
      else row_payer t j)"
  by (cases "entry t k") (auto simp: modify_row_def row_payer_def find_row_def split: option.split)

lemma emplace_row_Inr [simp, result_simps]:
  "emplace_row p k v t = Inr t' \<longleftrightarrow> find_row t k = None \<and> t' = put k p v t"
  by (auto simp: emplace_row_def split: option.split)

lemma emplace_row_fresh [simp]: "find_row t k = None \<Longrightarrow> emplace_row p k v t = Inr (put k p v t)"
  by (simp add: emplace_row_def)

lemma put_put [simp]: "put k p v (put k q w t) = put k p v t"
  by (rule table_eqI) simp

lemma erase_put [simp]: "find_row t k = None \<Longrightarrow> erase_row k (put k p v t) = t"
  by (rule table_eqI) (simp add: find_row_def)

lemma modify_put [simp]:
  "modify_row p k w (put k q v t) = put k (case p of None \<Rightarrow> q | Some r \<Rightarrow> r) w t"
  by (simp add: modify_row_def)

section \<open>Iteration\<close>

lemma entries_put_row [simp]: "entries (put k p v t) = put_row k (p, v) (entries t)"
  by (simp add: put_def put_entry.rep_eq)

lemma entries_erase [simp]: "entries (erase_row k t) = drop_row k (entries t)"
  by (simp add: erase_row.rep_eq)

lemma entries_no_rows [simp]: "entries no_rows = []"
  by (simp add: no_rows.rep_eq)

lemma rows_no_rows [simp]: "rows no_rows = []"
  by (simp add: rows_def)

lemma map_payer_put_row:
  "map (\<lambda>(k, p, v). (k, v)) (put_row k (p, v) xs) = put_row k v (map (\<lambda>(k, p, v). (k, v)) xs)"
  by (induction xs) auto

lemma rows_put [simp]: "rows (put k p v t) = put_row k v (rows t)"
  by (simp add: rows_def map_payer_put_row)

lemma rows_erase [simp]: "rows (erase_row k t) = drop_row k (rows t)"
  by (auto simp: rows_def drop_row_def filter_map o_def case_prod_unfold)

lemma map_fst_rows: "map fst (rows t) = map fst (entries t)"
  by (simp add: rows_def case_prod_unfold)

lemma keys_ordered_rows: "keys_ordered (rows t)"
  using entries [of t] by (simp add: keys_ordered_def map_fst_rows)

lemma map_of_rows: "map_of (rows t) k = find_row t k"
proof -
  have "map_of (map (\<lambda>(k, p, v). (k, v)) xs) k = map_option snd (map_of xs k)" for xs
    by (induction xs) auto
  then show ?thesis by (simp add: rows_def find_row_def entry.rep_eq)
qed

lemma in_rows_iff: "(k, v) \<in> set (rows t) \<longleftrightarrow> find_row t k = Some v"
  by (metis map_of_rows keys_ordered_rows keys_ordered_distinct map_of_eq_Some_iff)

definition all_rows :: "('k::linorder \<Rightarrow> 'v \<Rightarrow> bool) \<Rightarrow> ('k, 'v) table \<Rightarrow> bool" where
  "all_rows P t \<longleftrightarrow> list_all (\<lambda>(k, v). P k v) (rows t)"

definition sum_rows :: "('k::linorder \<Rightarrow> 'v \<Rightarrow> int) \<Rightarrow> ('k, 'v) table \<Rightarrow> int" where
  "sum_rows g t = (\<Sum>(k, v) \<leftarrow> rows t. g k v)"

text \<open>Iteration starts at the least key and ends at the greatest.\<close>

lemma rows_head_least:
  assumes "rows t = (k, r) # rs" and "find_row t j = Some r'"
  shows "k \<le> j"
proof -
  have "(j, r') \<in> set (rows t)" using assms(2) by (simp add: in_rows_iff)
  then show ?thesis using keys_ordered_rows [of t] assms(1) by (auto simp: keys_ordered_def)
qed

lemma rows_last_greatest:
  assumes "rows t \<noteq> []" and "find_row t j = Some r'"
  shows "j \<le> fst (last (rows t))"
proof -
  have "(j, r') \<in> set (rows t)" using assms(2) by (simp add: in_rows_iff)
  moreover obtain xs y where eq: "rows t = xs @ [y]" using assms(1) by (cases "rows t" rule: rev_cases) auto
  moreover have "\<forall>z \<in> set xs. fst z < fst y"
    using keys_ordered_rows [of t] unfolding keys_ordered_def eq by (simp add: sorted_wrt_append)
  ultimately show ?thesis by (auto simp: eq)
qed

lemma rows_last: "rows t \<noteq> [] \<Longrightarrow> find_row t (fst (last (rows t))) = Some (snd (last (rows t)))"
  by (simp flip: in_rows_iff)

lemma rows_Nil_iff: "rows t = [] \<longleftrightarrow> (\<forall>j. find_row t j = None)"
proof
  assume "rows t = []"
  then have "(j, v) \<notin> set (rows t)" for j v by simp
  then show "\<forall>j. find_row t j = None" unfolding in_rows_iff by (metis not_None_eq)
next
  assume none: "\<forall>j. find_row t j = None"
  show "rows t = []"
  proof (rule ccontr)
    assume "rows t \<noteq> []"
    then show False using rows_last [of t] none by simp
  qed
qed

lemma rows_erase_head: "rows t = (k, r) # rs \<Longrightarrow> rows (erase_row k t) = rs"
proof -
  assume eq: "rows t = (k, r) # rs"
  then have "\<forall>x \<in> set rs. fst x \<noteq> k" using keys_ordered_rows [of t] by (auto simp: keys_ordered_def)
  then show ?thesis by (simp add: eq drop_row_def)
qed

lemma all_rows_iff: "all_rows P t \<longleftrightarrow> (\<forall>k v. find_row t k = Some v \<longrightarrow> P k v)"
  by (auto simp: all_rows_def list_all_iff simp flip: in_rows_iff)

lemma all_rowsD: "all_rows P t \<Longrightarrow> find_row t k = Some v \<Longrightarrow> P k v"
  by (simp add: all_rows_iff)

lemma all_rows_put: "all_rows P t \<Longrightarrow> P k v \<Longrightarrow> all_rows P (put k p v t)"
  by (simp add: all_rows_iff)

lemma all_rows_modify: "all_rows P t \<Longrightarrow> P k v \<Longrightarrow> all_rows P (modify_row p k v t)"
  by (simp add: all_rows_iff)

lemma all_rows_erase: "all_rows P t \<Longrightarrow> all_rows P (erase_row k t)"
  by (simp add: all_rows_iff)

lemma all_rows_no_rows [simp]: "all_rows P no_rows"
  by (simp add: all_rows_iff)

lemma sum_list_put_row:
  "keys_ordered xs \<Longrightarrow>
   (\<Sum>(k, v) \<leftarrow> put_row k v xs. g k v) =
   (\<Sum>(k, v) \<leftarrow> xs. g k v) + (g k v :: int) - (case map_of xs k of None \<Rightarrow> 0 | Some w \<Rightarrow> g k w)"
proof (induction xs)
  case Nil
  show ?case by simp
next
  case (Cons x xs)
  obtain j w where x: "x = (j, w)" by (cases x)
  have tail: "keys_ordered xs" and below: "\<forall>y \<in> fst ` set xs. j < y"
    using Cons.prems x by (auto simp: keys_ordered_def)
  have "j \<ge> k \<Longrightarrow> map_of xs k = None"
    using below by (auto simp: map_of_eq_None_iff)
  then show ?case
    using Cons.IH [OF tail] x by auto
qed

lemma sum_list_drop_row:
  "keys_ordered xs \<Longrightarrow>
   (\<Sum>(k, v) \<leftarrow> drop_row k xs. g k v) =
   (\<Sum>(k, v) \<leftarrow> xs. g k v) - (case map_of xs k of None \<Rightarrow> 0 | Some w \<Rightarrow> (g k w :: int))"
proof (induction xs)
  case Nil
  show ?case by (simp add: drop_row_def)
next
  case (Cons x xs)
  obtain j w where x: "x = (j, w)" by (cases x)
  have tail: "keys_ordered xs" and below: "\<forall>y \<in> fst ` set xs. j < y"
    using Cons.prems x by (auto simp: keys_ordered_def)
  have "map_of xs j = None"
    using below by (auto simp: map_of_eq_None_iff)
  then show ?case
    using Cons.IH [OF tail] x by (auto simp: drop_row_def)
qed

lemma sum_rows_no_rows [simp]: "sum_rows g no_rows = 0"
  by (simp add: sum_rows_def)

lemma sum_rows_put:
  "sum_rows g (put k p v t) =
   sum_rows g t + g k v - (case find_row t k of None \<Rightarrow> 0 | Some w \<Rightarrow> g k w)"
  by (simp add: sum_rows_def sum_list_put_row keys_ordered_rows map_of_rows)

lemma sum_rows_erase:
  "sum_rows g (erase_row k t) = sum_rows g t - (case find_row t k of None \<Rightarrow> 0 | Some w \<Rightarrow> g k w)"
  by (simp add: sum_rows_def sum_list_drop_row keys_ordered_rows map_of_rows)

lemma sum_rows_modify:
  "find_row t k = Some w \<Longrightarrow> sum_rows g (modify_row p k v t) = sum_rows g t + g k v - g k w"
  by (auto simp: modify_row_def sum_rows_put dest: row_payer_of_find split: option.split)

lemma sum_rows_nonneg: "all_rows (\<lambda>k v. 0 \<le> g k v) t \<Longrightarrow> 0 \<le> sum_rows g t"
  unfolding sum_rows_def all_rows_def by (auto intro!: sum_list_nonneg simp: list_all_iff)

lemma sum_rows_zero: "all_rows (\<lambda>k v. g k v = 0) t \<Longrightarrow> sum_rows g t = 0"
proof -
  have "list_all (\<lambda>(k, v). g k v = 0) xs \<Longrightarrow> (\<Sum>(k, v) \<leftarrow> xs. g k v) = 0" for xs
    by (induction xs) auto
  then show "all_rows (\<lambda>k v. g k v = 0) t \<Longrightarrow> sum_rows g t = 0"
    by (simp add: all_rows_def sum_rows_def)
qed

lemma row_le_sum_rows:
  assumes "all_rows (\<lambda>k v. 0 \<le> g k v) t" and "find_row t k = Some v"
  shows "g k v \<le> sum_rows g t"
proof -
  have "0 \<le> sum_rows g (erase_row k t)"
    by (rule sum_rows_nonneg [OF all_rows_erase [OF assms(1)]])
  then show ?thesis using assms(2) by (simp add: sum_rows_erase)
qed

section \<open>What the contracts rely on\<close>

text \<open>
  The contract a table offers its users, as documented for \<open>eosio::multi_index\<close>: a row
  is found after it was emplaced or modified, is gone after it was erased, and no operation
  touches the row of another key. \<open>same_payer\<close> keeps the account billed.
\<close>

locale multi_index =
  fixes new :: "'t"
    and look :: "'t \<Rightarrow> 'k \<Rightarrow> 'v option"
    and bill :: "'t \<Rightarrow> 'k \<Rightarrow> name option"
    and ins :: "name \<Rightarrow> 'k \<Rightarrow> 'v \<Rightarrow> 't \<Rightarrow> 't result"
    and upd :: "name option \<Rightarrow> 'k \<Rightarrow> 'v \<Rightarrow> 't \<Rightarrow> 't"
    and del :: "'k \<Rightarrow> 't \<Rightarrow> 't"
  assumes look_new: "look new k = None"
    and ins_ok: "is_ok (ins p k v t) \<longleftrightarrow> look t k = None"
    and look_ins: "ins p k v t = Inr t' \<Longrightarrow> look t' j = (if j = k then Some v else look t j)"
    and bill_ins: "ins p k v t = Inr t' \<Longrightarrow> bill t' j = (if j = k then Some p else bill t j)"
    and look_upd: "look t k \<noteq> None \<Longrightarrow> look (upd q k v t) j = (if j = k then Some v else look t j)"
    and bill_upd: "look t k \<noteq> None \<Longrightarrow>
      bill (upd q k v t) j = (if j = k \<and> q \<noteq> None then q else bill t j)"
    and look_del: "look (del k t) j = (if j = k then None else look t j)"
begin

lemma ins_once: "ins p k v t = Inr t' \<Longrightarrow> \<not> is_ok (ins q k w t')"
  by (simp add: ins_ok look_ins)

lemma ins_after_del: "is_ok (ins p k v (del k t))"
  by (simp add: ins_ok look_del)

lemma look_upd_upd:
  "look t k \<noteq> None \<Longrightarrow> look (upd q k w (upd p k v t)) j = look (upd q k w t) j"
  by (simp add: look_upd)

lemma look_del_ins: "ins p k v t = Inr t' \<Longrightarrow> look (del k t') j = look t j"
  by (simp add: look_del look_ins) (metis ins_ok is_ok_simps(1))

end

interpretation table_index: multi_index no_rows find_row row_payer emplace_row modify_row erase_row
  by unfold_locales (auto simp: is_ok_iff split: option.splits)

end
