(* ===== verification/Float64.thy ===== *)
theory Float64
  imports Prelude Complex_Main
begin

text \<open>
  The \<open>double\<close> of the source: IEEE binary64 with rounding to nearest, ties to even, on exact
  rationals. A finite double is the rational it stands for, so the sign of a zero is not kept
  (no code here divides by a zero whose sign could matter). The lemmas are what the contracts'
  bounds rest on: rounding is monotone, leaves a representable number as it is, and has a
  relative error of at most \<open>2 ^ -53\<close>.
\<close>

section \<open>Rounding\<close>

fun ilog2 :: "nat \<Rightarrow> nat" where
  "ilog2 n = (if n < 2 then 0 else Suc (ilog2 (n div 2)))"

declare ilog2.simps [simp del]

definition exponent_of :: "rat \<Rightarrow> int" where
  "exponent_of x =
     (if 1 \<le> x then int (ilog2 (nat \<lfloor>x\<rfloor>))
      else - int (Suc (ilog2 (nat (\<lceil>1 / x\<rceil> - 1)))))"

definition ulp_exponent :: "rat \<Rightarrow> int" where
  "ulp_exponent x = max (exponent_of \<bar>x\<bar> - 52) (- 1074)"

definition half_even :: "rat \<Rightarrow> int" where
  "half_even y =
     (let f = \<lfloor>y\<rfloor>; d = y - of_int f in
      if d < 1 / 2 then f else if 1 / 2 < d then f + 1 else if even f then f else f + 1)"

definition rnd :: "rat \<Rightarrow> rat" where
  "rnd x = (if x = 0 then 0 else
     (let u = 2 powi ulp_exponent x in of_int (half_even (x / u)) * u))"

section \<open>Doubles\<close>

datatype f64 = Fin rat | PInf | MInf | NaN

definition to_double :: "rat \<Rightarrow> f64" where
  "to_double x =
     (let r = rnd x in
      if \<bar>r\<bar> < 2 ^ 1024 then Fin r else if 0 < x then PInf else MInf)"

definition of_i64 :: "int \<Rightarrow> f64" where
  "of_i64 n = to_double (of_int n)"

fun fneg :: "f64 \<Rightarrow> f64" where
  "fneg (Fin x) = Fin (- x)"
| "fneg PInf = MInf"
| "fneg MInf = PInf"
| "fneg NaN = NaN"

fun fadd :: "f64 \<Rightarrow> f64 \<Rightarrow> f64" where
  "fadd (Fin x) (Fin y) = to_double (x + y)"
| "fadd NaN _ = NaN"
| "fadd _ NaN = NaN"
| "fadd PInf MInf = NaN"
| "fadd MInf PInf = NaN"
| "fadd PInf _ = PInf"
| "fadd MInf _ = MInf"
| "fadd _ PInf = PInf"
| "fadd _ MInf = MInf"

definition fsub :: "f64 \<Rightarrow> f64 \<Rightarrow> f64" where
  "fsub x y = fadd x (fneg y)"

text \<open>Infinity times a number of the given sign.\<close>

definition signed_inf :: "rat \<Rightarrow> f64" where
  "signed_inf s = (if s = 0 then NaN else if 0 < s then PInf else MInf)"

fun fsign :: "f64 \<Rightarrow> rat" where
  "fsign (Fin x) = (if x = 0 then 0 else if 0 < x then 1 else - 1)"
| "fsign PInf = 1"
| "fsign MInf = - 1"
| "fsign NaN = 0"

fun fmul :: "f64 \<Rightarrow> f64 \<Rightarrow> f64" where
  "fmul (Fin x) (Fin y) = to_double (x * y)"
| "fmul NaN _ = NaN"
| "fmul _ NaN = NaN"
| "fmul x y = signed_inf (fsign x * fsign y)"

fun fdiv :: "f64 \<Rightarrow> f64 \<Rightarrow> f64" where
  "fdiv (Fin x) (Fin y) = (if y = 0 then signed_inf (fsign (Fin x)) else to_double (x / y))"
| "fdiv NaN _ = NaN"
| "fdiv _ NaN = NaN"
| "fdiv (Fin x) _ = Fin 0"
| "fdiv x (Fin y) = signed_inf (fsign x * (if y = 0 then 1 else fsign (Fin y)))"
| "fdiv _ _ = NaN"

fun flt :: "f64 \<Rightarrow> f64 \<Rightarrow> bool" where
  "flt (Fin x) (Fin y) = (x < y)"
| "flt NaN _ = False"
| "flt _ NaN = False"
| "flt PInf _ = False"
| "flt _ MInf = False"
| "flt _ _ = True"

fun feq :: "f64 \<Rightarrow> f64 \<Rightarrow> bool" where
  "feq NaN _ = False"
| "feq x y = (x = y)"

definition fle :: "f64 \<Rightarrow> f64 \<Rightarrow> bool" where
  "fle x y \<longleftrightarrow> flt x y \<or> feq x y"

text \<open>Truncation towards zero, the part of the casts that C++ defines.\<close>

definition trunc_rat :: "rat \<Rightarrow> int" where
  "trunc_rat x = (if 0 \<le> x then \<lfloor>x\<rfloor> else \<lceil>x\<rceil>)"

fun to_i64 :: "f64 \<Rightarrow> int result" where
  "to_i64 (Fin x) =
     (if in_i64 (trunc_rat x) then Inr (trunc_rat x) else Inl (Undefined ''cast of a double to int64''))"
| "to_i64 _ = Inl (Undefined ''cast of a double to int64'')"

fun fceil :: "f64 \<Rightarrow> f64" where
  "fceil (Fin x) = Fin (of_int \<lceil>x\<rceil>)"
| "fceil x = x"

text \<open>The functions of the C++ mathematics library that the contracts call.\<close>

record libm =
  math_pow :: "f64 \<Rightarrow> f64 \<Rightarrow> f64"
  math_exp :: "f64 \<Rightarrow> f64"

section \<open>Exponents\<close>

lemma ilog2_bounds: "0 < n \<Longrightarrow> 2 ^ ilog2 n \<le> n \<and> n < 2 ^ Suc (ilog2 n)"
proof (induction n rule: ilog2.induct)
  case (1 n)
  show ?case
  proof (cases "n < 2")
    case True
    then show ?thesis using 1 by (simp add: ilog2.simps)
  next
    case False
    then have "2 ^ ilog2 (n div 2) \<le> n div 2 \<and> n div 2 < 2 ^ Suc (ilog2 (n div 2))"
      using 1 by simp
    then have "2 * 2 ^ ilog2 (n div 2) \<le> n" "n < 2 * 2 ^ Suc (ilog2 (n div 2))" by linarith+
    then show ?thesis using False by (simp add: ilog2.simps [of n])
  qed
qed

lemma ilog2_rat:
  assumes "0 < n"
  shows "(2 :: rat) ^ ilog2 n \<le> of_nat n" and "of_nat n + 1 \<le> (2 :: rat) ^ Suc (ilog2 n)"
proof -
  have "of_nat (2 ^ ilog2 n) \<le> (of_nat n :: rat)" "(of_nat (Suc n) :: rat) \<le> of_nat (2 ^ Suc (ilog2 n))"
    using ilog2_bounds [OF assms] by (simp_all only: of_nat_le_iff Suc_le_eq)
  then show "(2 :: rat) ^ ilog2 n \<le> of_nat n" and "of_nat n + 1 \<le> (2 :: rat) ^ Suc (ilog2 n)"
    by (simp_all only: of_nat_power of_nat_numeral of_nat_Suc add.commute)
qed

lemma exponent_bounds:
  assumes "0 < x"
  shows "2 powi exponent_of x \<le> x" and "x < 2 powi (exponent_of x + 1)"
proof -
  have "2 powi exponent_of x \<le> x \<and> x < 2 powi (exponent_of x + 1)"
  proof (cases "1 \<le> x")
    case True
    define n where "n = nat \<lfloor>x\<rfloor>"
    have fl: "1 \<le> \<lfloor>x\<rfloor>" using True by linarith
    then have n: "0 < n" "int n = \<lfloor>x\<rfloor>" unfolding n_def by simp_all
    have "of_nat n \<le> x" "x < of_nat n + 1"
      using n(2) by (metis of_int_floor_le of_int_of_nat_eq, metis floor_correct of_int_of_nat_eq of_int_1 of_int_add)
    then have "2 ^ ilog2 n \<le> x" "x < 2 ^ Suc (ilog2 n)" using ilog2_rat [OF n(1)] by linarith+
    moreover have "exponent_of x = int (ilog2 n)" using True by (simp add: exponent_of_def n_def)
    ultimately show ?thesis by (simp add: power_int_add)
  next
    case False
    define k where "k = \<lceil>1 / x\<rceil>"
    define m where "m = nat (k - 1)"
    have "1 < 1 / x" using False assms by simp
    then have "1 < k" unfolding k_def less_ceiling_iff by simp
    then have m: "0 < m" "int m + 1 = k" unfolding m_def by simp_all
    have "of_nat m < 1 / x" "1 / x \<le> of_nat m + 1"
      using m(2) unfolding k_def by linarith+
    then have "2 ^ ilog2 m < 1 / x" "1 / x \<le> 2 ^ Suc (ilog2 m)"
      using ilog2_rat [OF m(1)] by linarith+
    then have "1 / 2 ^ Suc (ilog2 m) \<le> x" "x < 1 / 2 ^ ilog2 m"
      using assms by (simp_all add: field_simps)
    moreover have e: "exponent_of x = - int (Suc (ilog2 m))" using False by (simp add: exponent_of_def m_def k_def)
    moreover have "exponent_of x + 1 = - int (ilog2 m)" unfolding e by simp
    ultimately show ?thesis by (simp only: power_int_minus_divide power_int_of_nat)
  qed
  then show "2 powi exponent_of x \<le> x" and "x < 2 powi (exponent_of x + 1)" by blast+
qed

lemma powi_less_iff: "(2 :: rat) powi a < 2 powi b \<longleftrightarrow> a < b"
  by (metis not_less one_less_numeral_iff less_imp_le power_int_increasing power_int_strict_increasing
      semiring_norm(76) one_le_numeral)

lemma powi_le_iff: "(2 :: rat) powi a \<le> 2 powi b \<longleftrightarrow> a \<le> b"
  by (simp add: powi_less_iff flip: not_less)

lemma exponent_unique:
  assumes "2 powi e \<le> x" and "x < 2 powi (e + 1)"
  shows "exponent_of x = e"
proof -
  have "0 < x" using assms(1) by (meson less_le_trans zero_less_power_int zero_less_numeral)
  note b = exponent_bounds [OF this]
  have "(2 :: rat) powi e < 2 powi (exponent_of x + 1)" "(2 :: rat) powi exponent_of x < 2 powi (e + 1)"
    using assms b by linarith+
  then have "e < exponent_of x + 1" "exponent_of x < e + 1"
    by (simp_all add: powi_less_iff)
  then show ?thesis by simp
qed

lemma exponent_mono: "0 < x \<Longrightarrow> x \<le> y \<Longrightarrow> exponent_of x \<le> exponent_of y"
proof -
  assume x: "0 < x" "x \<le> y"
  have "(2 :: rat) powi exponent_of x < 2 powi (exponent_of y + 1)"
    using exponent_bounds(1) [OF x(1)] exponent_bounds(2) [of y] x by linarith
  then show ?thesis by (simp add: powi_less_iff)
qed

section \<open>Rounding to an integer\<close>

lemma half_even_cases: "half_even y = \<lfloor>y\<rfloor> \<or> half_even y = \<lfloor>y\<rfloor> + 1"
  by (simp add: half_even_def Let_def)

lemma half_even_of_int [simp]: "half_even (of_int n) = n"
  by (simp add: half_even_def)

lemma half_even_dist: "\<bar>of_int (half_even y) - y\<bar> \<le> 1 / 2"
proof -
  have "of_int \<lfloor>y\<rfloor> \<le> y" "y < of_int \<lfloor>y\<rfloor> + 1" by (rule of_int_floor_le) linarith
  then show ?thesis by (auto simp: half_even_def Let_def abs_le_iff)
qed

lemma half_even_mono: "y \<le> z \<Longrightarrow> half_even y \<le> half_even z"
proof -
  assume yz: "y \<le> z"
  then consider "\<lfloor>y\<rfloor> = \<lfloor>z\<rfloor>" | "\<lfloor>y\<rfloor> + 1 \<le> \<lfloor>z\<rfloor>" using floor_mono [OF yz] by linarith
  then show ?thesis
  proof cases
    case 1
    then show ?thesis using yz by (auto simp: half_even_def Let_def)
  next
    case 2
    then show ?thesis using half_even_cases [of y] half_even_cases [of z] by auto
  qed
qed

lemma half_even_floor:
  "\<lfloor>y\<rfloor> = f \<Longrightarrow> half_even y =
     (if y < of_int f + 1 / 2 then f else if of_int f + 1 / 2 < y then f + 1
      else if even f then f else f + 1)"
  unfolding half_even_def Let_def by (simp only: diff_less_eq less_diff_eq add.commute)

lemma half_even_minus: "half_even (- y) = - half_even y"
proof (cases "y = of_int \<lfloor>y\<rfloor>")
  case True
  then show ?thesis by (metis half_even_of_int of_int_minus)
next
  case False
  obtain f where f: "\<lfloor>y\<rfloor> = f" by blast
  have "of_int f < y" "y < of_int f + 1"
    using False of_int_floor_le [of y] floor_correct [of y] by (auto simp: less_le simp flip: f)
  then have neg: "\<lfloor>- y\<rfloor> = - f - 1" by (intro floor_unique) auto
  consider "y < of_int f + 1 / 2" | "y = of_int f + 1 / 2" | "of_int f + 1 / 2 < y" by linarith
  then show ?thesis
    by cases (unfold half_even_floor [OF f] half_even_floor [OF neg], auto)
qed

section \<open>Rounding to a double\<close>

definition representable :: "rat \<Rightarrow> bool" where
  "representable x \<longleftrightarrow> (\<exists>m e. x = of_int m * 2 powi e \<and> \<bar>m\<bar> \<le> 2 ^ 53 \<and> - 1074 \<le> e)"

lemma representable_0 [simp]: "representable 0"
  unfolding representable_def by (rule exI [of _ 0], rule exI [of _ 0]) simp

lemma representable_minus [simp]: "representable (- x) \<longleftrightarrow> representable x"
proof -
  have "representable (- x)" if r: "representable x" for x
  proof -
    obtain m e where "x = of_int m * 2 powi e" "\<bar>m\<bar> \<le> 2 ^ 53" "- 1074 \<le> e"
      using r unfolding representable_def by (elim exE conjE)
    then show ?thesis
      unfolding representable_def by (intro exI [of _ "- m"] exI [of _ e]) simp
  qed
  from this [of x] this [of "- x"] show ?thesis by auto
qed

lemma representable_int: "\<bar>n\<bar> \<le> 2 ^ 53 \<Longrightarrow> representable (of_int n)"
  unfolding representable_def by (rule exI [of _ n], rule exI [of _ 0]) simp

lemma representable_powi: "- 1074 \<le> e \<Longrightarrow> representable (2 powi e)"
  unfolding representable_def by (rule exI [of _ 1], rule exI [of _ e]) simp

lemma rnd_0 [simp]: "rnd 0 = 0"
  by (simp add: rnd_def)

lemma rnd_minus: "rnd (- x) = - rnd x"
  by (simp add: rnd_def Let_def ulp_exponent_def half_even_minus)

lemma rnd_nonneg: "0 \<le> x \<Longrightarrow> 0 \<le> rnd x"
proof -
  assume "0 \<le> x"
  then have "half_even 0 \<le> half_even (x / 2 powi ulp_exponent x)" by (intro half_even_mono) simp
  then show ?thesis using half_even_of_int [of 0] by (simp add: rnd_def Let_def)
qed

text \<open>A number, in units of its last place, is below \<open>2 ^ 53\<close>.\<close>

lemma scaled_bound:
  assumes "x \<noteq> 0"
  shows "\<bar>x\<bar> / 2 powi ulp_exponent x < 2 ^ 53"
proof -
  have "\<bar>x\<bar> < 2 powi (exponent_of \<bar>x\<bar> + 1)" using assms by (intro exponent_bounds) simp
  also have "\<dots> \<le> 2 powi (53 + ulp_exponent x)"
    by (simp add: powi_le_iff ulp_exponent_def)
  also have "\<dots> = 2 ^ 53 * 2 powi ulp_exponent x" by (simp add: power_int_add)
  finally show ?thesis by (simp add: divide_less_eq)
qed

lemma rnd_representable: "representable (rnd x)"
proof (cases "x = 0")
  case False
  let ?u = "ulp_exponent x"
  have "\<bar>x / 2 powi ?u\<bar> < 2 ^ 53" using scaled_bound [OF False] by (simp add: abs_divide)
  then have "x / 2 powi ?u \<le> of_int (2 ^ 53)" "of_int (- (2 ^ 53)) \<le> x / 2 powi ?u"
    unfolding abs_less_iff by simp_all
  then have "half_even (x / 2 powi ?u) \<le> half_even (of_int (2 ^ 53))"
    "half_even (of_int (- (2 ^ 53))) \<le> half_even (x / 2 powi ?u)"
    by (simp_all only: half_even_mono)
  then have "\<bar>half_even (x / 2 powi ?u)\<bar> \<le> 2 ^ 53" by (simp only: half_even_of_int abs_le_iff) simp
  moreover have "- 1074 \<le> ?u" by (simp add: ulp_exponent_def)
  ultimately show ?thesis
    using False unfolding representable_def rnd_def Let_def by auto
qed simp

lemma rnd_multiple:
  assumes "x = of_int m * 2 powi e" and "x \<noteq> 0" and "ulp_exponent x \<le> e"
  shows "rnd x = x"
proof -
  let ?u = "ulp_exponent x"
  have "e = ?u + int (nat (e - ?u))" using assms(3) by simp
  then have "(2 :: rat) powi e = 2 powi ?u * 2 ^ nat (e - ?u)"
    by (metis power_int_add power_int_of_nat zero_neq_numeral)
  then have "x = of_int (m * 2 ^ nat (e - ?u)) * 2 powi ?u" using assms(1) by (simp add: mult_ac)
  then have "x / 2 powi ?u = of_int (m * 2 ^ nat (e - ?u))"
    by (metis nonzero_mult_div_cancel_right power_int_not_zero zero_neq_numeral)
  then have "rnd x = of_int (m * 2 ^ nat (e - ?u)) * 2 powi ?u"
    using assms(2) by (simp only: rnd_def Let_def half_even_of_int) simp
  also have "\<dots> = x" using \<open>x / 2 powi ?u = _\<close> by (metis nonzero_eq_divide_eq power_int_not_zero zero_neq_numeral)
  finally show ?thesis .
qed

lemma rnd_id:
  assumes "representable x"
  shows "rnd x = x"
proof (cases "x = 0")
  case False
  obtain m e where x: "x = of_int m * 2 powi e" "\<bar>m\<bar> \<le> 2 ^ 53" "- 1074 \<le> e"
    using assms unfolding representable_def by (elim exE conjE)
  have low: "\<bar>m'\<bar> < 2 ^ 53 \<Longrightarrow> - 1074 \<le> e' \<Longrightarrow> x = of_int m' * 2 powi e' \<Longrightarrow> rnd x = x" for m' e'
  proof (rule rnd_multiple)
    assume m: "\<bar>m'\<bar> < 2 ^ 53" and e: "- 1074 \<le> e'" and eq: "x = of_int m' * 2 powi e'"
    have "2 powi exponent_of \<bar>x\<bar> \<le> \<bar>x\<bar>" using False by (intro exponent_bounds) simp
    also have "\<bar>x\<bar> = of_int \<bar>m'\<bar> * 2 powi e'" by (simp add: eq abs_mult)
    also have "\<dots> < 2 ^ 53 * 2 powi e'"
    proof -
      have "(of_int \<bar>m'\<bar> :: rat) < of_int (2 ^ 53)" using m by (simp only: of_int_less_iff)
      then show ?thesis by simp
    qed
    also have "\<dots> = 2 powi (e' + 53)" by (simp add: power_int_add)
    finally have "exponent_of \<bar>x\<bar> < e' + 53" by (simp only: powi_less_iff)
    then show "ulp_exponent x \<le> e'" using e by (simp add: ulp_exponent_def)
  qed (use False in auto)
  show ?thesis
  proof (cases "\<bar>m\<bar> < 2 ^ 53")
    case True
    then show ?thesis using low x by blast
  next
    case False
    then have "m = 2 * (sgn m * 2 ^ 52)" using x(2) by (auto simp: sgn_if abs_if split: if_splits)
    then have "x = of_int (sgn m * 2 ^ 52) * 2 powi (e + 1)"
      using x(1) by (simp add: power_int_add mult_ac)
    moreover have "\<bar>sgn m * 2 ^ 52\<bar> < 2 ^ 53" by (simp add: abs_mult sgn_if)
    ultimately show ?thesis using low [of "sgn m * 2 ^ 52" "e + 1"] x(3) by simp
  qed
qed simp

text \<open>Rounding is monotone, so a representable bound of a number bounds its rounding.\<close>

lemma rnd_le_powi:
  assumes "0 < x" and "x \<le> 2 powi k" and "ulp_exponent x \<le> k"
  shows "rnd x \<le> 2 powi k"
proof -
  let ?u = "ulp_exponent x"
  have split: "(2 :: rat) powi k = of_int (2 ^ nat (k - ?u)) * 2 powi ?u"
    using power_int_add [of "2 :: rat" "k - ?u" ?u] power_int_of_nat [of "2 :: rat" "nat (k - ?u)"] assms(3)
    by simp
  have "x / 2 powi ?u \<le> of_int (2 ^ nat (k - ?u))"
    using assms(2) unfolding split by (simp add: divide_le_eq)
  then have "half_even (x / 2 powi ?u) \<le> 2 ^ nat (k - ?u)"
    using half_even_mono half_even_of_int by metis
  then have "of_int (half_even (x / 2 powi ?u)) \<le> (of_int (2 ^ nat (k - ?u)) :: rat)"
    by (simp only: of_int_le_iff)
  then show ?thesis using assms(1) unfolding split rnd_def Let_def by simp
qed

lemma rnd_ge_powi:
  assumes "0 < x" and "2 powi k \<le> x" and "ulp_exponent x \<le> k"
  shows "2 powi k \<le> rnd x"
proof -
  let ?u = "ulp_exponent x"
  have split: "(2 :: rat) powi k = of_int (2 ^ nat (k - ?u)) * 2 powi ?u"
    using power_int_add [of "2 :: rat" "k - ?u" ?u] power_int_of_nat [of "2 :: rat" "nat (k - ?u)"] assms(3)
    by simp
  have "of_int (2 ^ nat (k - ?u)) \<le> x / 2 powi ?u"
    using assms(2) unfolding split by (simp add: le_divide_eq)
  then have "2 ^ nat (k - ?u) \<le> half_even (x / 2 powi ?u)"
    using half_even_mono half_even_of_int by metis
  then have "(of_int (2 ^ nat (k - ?u)) :: rat) \<le> of_int (half_even (x / 2 powi ?u))"
    by (simp only: of_int_le_iff)
  then show ?thesis using assms(1) unfolding split rnd_def Let_def by simp
qed

lemma rnd_mono_pos:
  assumes "0 < x" and "x \<le> y"
  shows "rnd x \<le> rnd y"
proof (cases "ulp_exponent x = ulp_exponent y")
  case True
  have "x / 2 powi ulp_exponent x \<le> y / 2 powi ulp_exponent x"
    using assms by (simp add: divide_right_mono)
  then have "half_even (x / 2 powi ulp_exponent x) \<le> half_even (y / 2 powi ulp_exponent x)"
    by (rule half_even_mono)
  then show ?thesis using assms True by (simp add: rnd_def Let_def)
next
  case False
  have e: "exponent_of x \<le> exponent_of y" using assms by (rule exponent_mono)
  then have lt: "exponent_of x < exponent_of y" and u: "ulp_exponent y = exponent_of y - 52"
    "ulp_exponent x < exponent_of y - 52"
    using False assms by (auto simp: ulp_exponent_def max_def split: if_splits)
  have "x < 2 powi (exponent_of x + 1)" using assms(1) by (rule exponent_bounds)
  also have "\<dots> \<le> 2 powi exponent_of y" using lt by (simp add: powi_le_iff)
  finally have "rnd x \<le> 2 powi exponent_of y" using assms u by (intro rnd_le_powi) simp_all
  also have "\<dots> \<le> rnd y" using assms u by (intro rnd_ge_powi exponent_bounds) simp_all
  finally show ?thesis .
qed

lemma rnd_mono: "x \<le> y \<Longrightarrow> rnd x \<le> rnd y"
proof -
  assume xy: "x \<le> y"
  consider "0 < x" | "x \<le> 0" "0 \<le> y" | "y < 0" by linarith
  then show ?thesis
  proof cases
    case 1
    then show ?thesis using xy by (rule rnd_mono_pos)
  next
    case 2
    then show ?thesis using rnd_nonneg [of y] rnd_nonneg [of "- x"] by (simp add: rnd_minus)
  next
    case 3
    then show ?thesis using rnd_mono_pos [of "- y" "- x"] xy by (simp add: rnd_minus)
  qed
qed

lemma rnd_le: "x \<le> r \<Longrightarrow> representable r \<Longrightarrow> rnd x \<le> r"
  by (metis rnd_id rnd_mono)

lemma le_rnd: "r \<le> x \<Longrightarrow> representable r \<Longrightarrow> r \<le> rnd x"
  by (metis rnd_id rnd_mono)

text \<open>The relative error of rounding, above the subnormal numbers.\<close>

lemma rnd_error:
  assumes "2 powi - 1022 \<le> \<bar>x\<bar>"
  shows "\<bar>rnd x - x\<bar> \<le> \<bar>x\<bar> / 2 ^ 53"
proof -
  let ?u = "ulp_exponent x"
  have "(0 :: rat) < 2 powi - 1022" by simp
  then have pos: "0 < \<bar>x\<bar>" using assms by linarith
  note b = exponent_bounds [OF pos]
  have nz: "x \<noteq> 0" using pos by simp
  have "(2 :: rat) powi - 1022 < 2 powi (exponent_of \<bar>x\<bar> + 1)" using assms b(2) by linarith
  then have "- 1074 \<le> exponent_of \<bar>x\<bar> - 52" unfolding powi_less_iff by linarith
  then have u: "exponent_of \<bar>x\<bar> = ?u + 52" by (simp add: ulp_exponent_def)
  have "(2 :: rat) powi (?u + 52) = 2 powi ?u * 2 ^ 52" by (simp add: power_int_add)
  then have ux: "2 powi ?u * 2 ^ 52 \<le> \<bar>x\<bar>" using b(1) u by simp
  have "\<bar>rnd x - x\<bar> = \<bar>of_int (half_even (x / 2 powi ?u)) - x / 2 powi ?u\<bar> * 2 powi ?u"
  proof -
    have scale: "\<bar>a * P - x\<bar> = \<bar>a - x / P\<bar> * P" if "0 < P" for a P :: rat
    proof -
      have "\<bar>a - x / P\<bar> * P = \<bar>(a - x / P) * P\<bar>" using that by (simp add: abs_mult)
      also have "(a - x / P) * P = a * P - x" using that by (simp add: left_diff_distrib)
      finally show ?thesis by simp
    qed
    show ?thesis using nz by (simp only: rnd_def Let_def if_False) (rule scale, simp)
  qed
  also have "\<dots> \<le> 1 / 2 * 2 powi ?u" by (intro mult_right_mono half_even_dist) simp
  also have "\<dots> \<le> \<bar>x\<bar> / 2 ^ 53" using ux by simp
  finally show ?thesis .
qed

section \<open>Doubles of moderate size\<close>

lemma rnd_abs: "\<bar>rnd x\<bar> = rnd \<bar>x\<bar>"
  using rnd_nonneg [of x] rnd_nonneg [of "- x"] by (cases "0 \<le> x") (auto simp: rnd_minus abs_if)

lemma to_double_Fin: "\<bar>x\<bar> \<le> 2 ^ 1000 \<Longrightarrow> to_double x = Fin (rnd x)"
proof -
  assume x: "\<bar>x\<bar> \<le> 2 ^ 1000"
  have "representable (2 ^ 1000)"
    using representable_powi [of 1000] by (simp only: power_int_numeral)
  then have "\<bar>rnd x\<bar> \<le> 2 ^ 1000" unfolding rnd_abs by (rule rnd_le [OF x])
  also have "(2 :: rat) ^ 1000 < 2 ^ 1024" by (rule power_strict_increasing) simp_all
  finally show ?thesis by (simp only: to_double_def Let_def if_True)
qed

lemma rnd_of_int: "\<bar>n\<bar> \<le> 2 ^ 53 \<Longrightarrow> rnd (of_int n) = of_int n"
  by (rule rnd_id, rule representable_int)

lemma of_i64_Fin: "\<bar>n\<bar> \<le> 2 ^ 64 \<Longrightarrow> of_i64 n = Fin (rnd (of_int n))"
proof -
  assume "\<bar>n\<bar> \<le> 2 ^ 64"
  then have "of_int \<bar>n\<bar> \<le> (of_int (2 ^ 64) :: rat)" by (simp only: of_int_le_iff)
  also have "(of_int (2 ^ 64) :: rat) \<le> 2 ^ 1000"
    using power_increasing [of 64 1000 "2 :: rat"] by simp
  finally show ?thesis unfolding of_i64_def by (intro to_double_Fin) simp
qed

lemma of_i64_exact: "\<bar>n\<bar> \<le> 2 ^ 53 \<Longrightarrow> of_i64 n = Fin (of_int n)"
  by (subst of_i64_Fin) (simp_all add: rnd_of_int)

lemma to_i64_Inr: "to_i64 x = Inr n \<longleftrightarrow> (\<exists>r. x = Fin r \<and> n = trunc_rat r \<and> in_i64 n)"
  by (cases x) auto

lemma trunc_rat_of_int [simp]: "trunc_rat (of_int n) = n"
  by (simp add: trunc_rat_def)

lemma trunc_rat_mono: "x \<le> y \<Longrightarrow> trunc_rat x \<le> trunc_rat y"
proof -
  assume xy: "x \<le> y"
  then have "\<lfloor>x\<rfloor> \<le> \<lfloor>y\<rfloor>" "\<lceil>x\<rceil> \<le> \<lceil>y\<rceil>" by (rule floor_mono, rule ceiling_mono)
  moreover have "\<lceil>x\<rceil> \<le> \<lfloor>y\<rfloor>" if "x < 0" "0 \<le> y"
  proof -
    have "\<lceil>x\<rceil> \<le> 0" "0 \<le> \<lfloor>y\<rfloor>" using that by simp_all
    then show ?thesis by (rule order_trans)
  qed
  ultimately show ?thesis unfolding trunc_rat_def using xy by auto
qed

text \<open>Bounds of a rounded quantity that is not subnormal, as the contracts' proofs use them.\<close>

lemma rnd_upper: "1 / 2 ^ 200 \<le> x \<Longrightarrow> rnd x \<le> x * (1 + 1 / 2 ^ 53)"
  and rnd_lower: "1 / 2 ^ 200 \<le> x \<Longrightarrow> x * (1 - 1 / 2 ^ 53) \<le> rnd x"
proof -
  assume x: "1 / 2 ^ 200 \<le> x"
  have "(2 :: rat) powi - 1022 = 1 / 2 ^ 1022"
    by (simp only: power_int_minus_divide power_int_numeral)
  also have "\<dots> \<le> 1 / 2 ^ 200"
    by (intro divide_left_mono power_increasing) simp_all
  finally have "2 powi - 1022 \<le> x" using x by (rule order_trans)
  moreover have "0 \<le> x" using x by (rule order_trans [rotated]) simp
  ultimately have "\<bar>rnd x - x\<bar> \<le> x / 2 ^ 53" using rnd_error [of x] by simp
  then show "rnd x \<le> x * (1 + 1 / 2 ^ 53)" "x * (1 - 1 / 2 ^ 53) \<le> rnd x"
    unfolding abs_le_iff by (simp_all add: field_simps)
qed

text \<open>Whole numbers up to \<open>2 ^ 53\<close> are exact; with these rules \<open>simp\<close> evaluates small cases.\<close>

lemma to_double_int: "\<bar>n\<bar> \<le> 2 ^ 53 \<Longrightarrow> to_double (of_int n) = Fin (of_int n)"
  using of_i64_exact [of n] by (simp add: of_i64_def)

lemma to_double_simps [simp]:
  "to_double 0 = Fin 0" "to_double 1 = Fin 1" "to_double (- 1) = Fin (- 1)"
  "(numeral k :: int) \<le> 9007199254740992 \<Longrightarrow> to_double (numeral k) = Fin (numeral k)"
  "(numeral k :: int) \<le> 9007199254740992 \<Longrightarrow> to_double (- numeral k) = Fin (- numeral k)"
  using to_double_int [of 0] to_double_int [of 1] to_double_int [of "- 1"]
    to_double_int [of "numeral k"] to_double_int [of "- numeral k"] by simp_all

lemma of_i64_simps [simp]:
  "of_i64 0 = Fin 0" "of_i64 1 = Fin 1" "of_i64 (- 1) = Fin (- 1)"
  "(numeral k :: int) \<le> 9007199254740992 \<Longrightarrow> of_i64 (numeral k) = Fin (numeral k)"
  "(numeral k :: int) \<le> 9007199254740992 \<Longrightarrow> of_i64 (- numeral k) = Fin (- numeral k)"
  by (simp_all add: of_i64_def)

lemma trunc_rat_numeral [simp]:
  "trunc_rat 0 = 0" "trunc_rat 1 = 1" "trunc_rat (numeral k) = numeral k" "trunc_rat (- numeral k) = - numeral k"
  using trunc_rat_of_int [of 0] trunc_rat_of_int [of 1] trunc_rat_of_int [of "numeral k"]
    trunc_rat_of_int [of "- numeral k"] by simp_all

section \<open>Evaluation\<close>

text \<open>Rounding a rational between two powers of two, on concrete values.\<close>

lemma half_even_near:
  assumes "\<bar>y - of_int m\<bar> < 1 / 2"
  shows "half_even y = m"
proof -
  have "\<bar>of_int (half_even y) - of_int m :: rat\<bar> < 1" using assms half_even_dist [of y] by linarith
  then have "\<bar>of_int (half_even y - m) :: rat\<bar> < 1" by simp
  then have "\<bar>half_even y - m\<bar> < 1" by (simp only: of_int_abs [symmetric] of_int_less_1_iff)
  then show ?thesis by simp
qed

lemma to_double_eval:
  assumes "2 powi e \<le> x" and "x < 2 powi (e + 1)" and "- 1022 \<le> e"
    and "2 * \<bar>x - of_int m * 2 powi (e - 52)\<bar> < 2 powi (e - 52)" and "\<bar>of_int m * 2 powi (e - 52)\<bar> < (2 :: rat) ^ 1024"
  shows "to_double x = Fin (of_int m * 2 powi (e - 52))"
proof -
  let ?u = "2 powi (e - 52) :: rat"
  have pos: "0 < ?u" by simp
  have "0 < (2 :: rat) powi e" by simp
  then have x: "0 < x" using assms(1) by linarith
  have "exponent_of x = e" by (rule exponent_unique [OF assms(1,2)])
  then have ulp: "ulp_exponent x = e - 52" using assms(3) x by (simp add: ulp_exponent_def)
  have "x / ?u - of_int m = (x - of_int m * ?u) / ?u" using pos by (simp add: diff_divide_distrib)
  then have "\<bar>x / ?u - of_int m\<bar> = \<bar>x - of_int m * ?u\<bar> / ?u" using pos by (simp add: abs_divide)
  also have "\<dots> < 1 / 2" using assms(4) pos by (simp add: field_simps)
  finally have "half_even (x / ?u) = m" by (rule half_even_near)
  then have "rnd x = of_int m * ?u" using x by (simp add: rnd_def ulp)
  then show ?thesis using assms(5) by (simp add: to_double_def)
qed

end
