(* ===== verification/Chain.thy ===== *)
theory Chain
  imports Tables Float64
begin

unbundle bit_operations_syntax

text \<open>
  What the contracts see of the chain and of the contract development toolkit, none of which
  is part of the repository: names, symbols and assets as data, the operations of the toolkit
  on them as a record of parameters (\<open>cdt\<close>) whose documented behaviour is the locale
  \<open>asset_library\<close>, and the context of an action (\<open>ctx\<close>: the contract's own account, the
  permission levels that authorised the action, the accounts that exist, the time).
\<close>

section \<open>Names, symbols, assets\<close>

type_synonym bytes = "8 word list"

type_synonym symbol_code = "64 word"

datatype symbol = Symbol (sym_precision: nat) (sym_code: symbol_code)

record asset =
  amount :: int
  asset_symbol :: symbol

definition max_amount :: int where "max_amount = 2 ^ 62 - 1"

definition asset_in_range :: "asset \<Rightarrow> bool" where
  "asset_in_range a \<longleftrightarrow> \<bar>amount a\<bar> \<le> max_amount"

text \<open>
  The literal \<open>"abc"_n\<close>: five bits a character for the first twelve, four for a
  thirteenth, over the alphabet \<open>.12345a..z\<close>.
\<close>

definition char_value :: "char \<Rightarrow> name" where
  "char_value c =
     (let n = of_char c :: nat in
      if 97 \<le> n \<and> n \<le> 122 then of_nat (n - 91)
      else if 49 \<le> n \<and> n \<le> 53 then of_nat (n - 48) else 0)"

fun name_bits :: "nat \<Rightarrow> string \<Rightarrow> name" where
  "name_bits i [] = 0"
| "name_bits i (c # cs) =
     (if i < 12 then push_bit (64 - 5 * (i + 1)) (char_value c) OR name_bits (Suc i) cs
      else char_value c AND 15)"

definition name_of :: "string \<Rightarrow> name" where
  "name_of s = name_bits 0 s"

section \<open>The toolkit\<close>

text \<open>
  Operations of the toolkit. \<open>None\<close> is an abort: assets of different symbols cannot be
  added, subtracted or compared, a sum or difference outside the range of an asset aborts,
  and so does constructing an asset out of range or of an invalid symbol.
\<close>

record cdt =
  asset_plus :: "asset \<Rightarrow> asset \<Rightarrow> asset option"
  asset_minus :: "asset \<Rightarrow> asset \<Rightarrow> asset option"
  asset_neg :: "asset \<Rightarrow> asset"
  asset_less :: "asset \<Rightarrow> asset \<Rightarrow> bool option"
  asset_div :: "asset \<Rightarrow> int \<Rightarrow> asset option"
  asset_valid :: "asset \<Rightarrow> bool"
  symbol_valid :: "symbol \<Rightarrow> bool"
  mk_asset :: "int \<Rightarrow> symbol \<Rightarrow> asset option"
  name_suffix :: "name \<Rightarrow> name"
  name_to_string :: "name \<Rightarrow> string"
  asset_to_string :: "asset \<Rightarrow> string"

lemma in_range_i64: "asset_in_range a \<Longrightarrow> in_i64 (amount a)"
  unfolding asset_in_range_def max_amount_def in_i64_def abs_le_iff by simp

lemma in_range_arith:
  assumes "asset_in_range a" and "asset_in_range b"
  shows "i64 (amount a + amount b) = amount a + amount b" and "i64 (amount a - amount b) = amount a - amount b"
    and "i64 (- amount a) = - amount a"
  using assms unfolding asset_in_range_def max_amount_def abs_le_iff by simp_all

locale asset_library =
  fixes L :: cdt
  assumes plus_wrap: "\<lbrakk> in_i64 (amount a); in_i64 (amount b) \<rbrakk> \<Longrightarrow>
      asset_plus L a b =
        (if asset_symbol a = asset_symbol b \<and> \<bar>i64 (amount a + amount b)\<bar> \<le> max_amount
         then Some (a\<lparr>amount := i64 (amount a + amount b)\<rparr>) else None)"
    and minus_wrap: "\<lbrakk> in_i64 (amount a); in_i64 (amount b) \<rbrakk> \<Longrightarrow>
      asset_minus L a b =
        (if asset_symbol a = asset_symbol b \<and> \<bar>i64 (amount a - amount b)\<bar> \<le> max_amount
         then Some (a\<lparr>amount := i64 (amount a - amount b)\<rparr>) else None)"
    and neg_wrap: "in_i64 (amount a) \<Longrightarrow> asset_neg L a = a\<lparr>amount := i64 (- amount a)\<rparr>"
    and less_ok: "asset_less L a b =
        (if asset_symbol a = asset_symbol b then Some (amount a < amount b) else None)"
    and div_ok: "asset_in_range a \<Longrightarrow> 0 < d \<Longrightarrow>
      asset_div L a d = Some (a\<lparr>amount := amount a sdiv d\<rparr>)"
    and valid_ok: "asset_valid L a \<longleftrightarrow> asset_in_range a \<and> symbol_valid L (asset_symbol a)"
    and mk_ok: "mk_asset L n s =
        (if \<bar>n\<bar> \<le> max_amount \<and> symbol_valid L s then Some \<lparr>amount = n, asset_symbol = s\<rparr> else None)"
begin

text \<open>On assets in range nothing wraps.\<close>

lemma plus_ok:
  "\<lbrakk> asset_in_range a; asset_in_range b \<rbrakk> \<Longrightarrow>
   asset_plus L a b =
     (if asset_symbol a = asset_symbol b \<and> \<bar>amount a + amount b\<bar> \<le> max_amount
      then Some (a\<lparr>amount := amount a + amount b\<rparr>) else None)"
  using in_range_i64 [of a] in_range_i64 [of b] in_range_arith [of a b] by (simp add: plus_wrap)

lemma minus_ok:
  "\<lbrakk> asset_in_range a; asset_in_range b \<rbrakk> \<Longrightarrow>
   asset_minus L a b =
     (if asset_symbol a = asset_symbol b \<and> \<bar>amount a - amount b\<bar> \<le> max_amount
      then Some (a\<lparr>amount := amount a - amount b\<rparr>) else None)"
  using in_range_i64 [of a] in_range_i64 [of b] in_range_arith [of a b] by (simp add: minus_wrap)

lemma neg_ok: "asset_in_range a \<Longrightarrow> asset_neg L a = a\<lparr>amount := - amount a\<rparr>"
  using in_range_i64 [of a] in_range_arith [of a a] by (simp add: neg_wrap)

lemma plus_Some:
  "\<lbrakk> asset_in_range a; asset_in_range b; asset_plus L a b = Some r \<rbrakk> \<Longrightarrow>
   asset_symbol a = asset_symbol b \<and> asset_symbol r = asset_symbol a \<and>
   amount r = amount a + amount b \<and> asset_in_range r"
  by (auto simp: plus_ok asset_in_range_def split: if_splits)

lemma minus_Some:
  "\<lbrakk> asset_in_range a; asset_in_range b; asset_minus L a b = Some r \<rbrakk> \<Longrightarrow>
   asset_symbol a = asset_symbol b \<and> asset_symbol r = asset_symbol a \<and>
   amount r = amount a - amount b \<and> asset_in_range r"
  by (auto simp: minus_ok asset_in_range_def split: if_splits)

text \<open>Subtracting what was added gives back the asset: the toolkit's operations are inverse.\<close>

lemma plus_minus:
  "\<lbrakk> asset_in_range a; asset_in_range b; asset_plus L a b = Some r \<rbrakk> \<Longrightarrow> asset_minus L r b = Some a"
  by (auto simp: plus_ok minus_ok asset_in_range_def split: if_splits)

lemma valid_in_range: "asset_valid L a \<Longrightarrow> asset_in_range a"
  by (simp add: valid_ok)

lemma mk_Some: "mk_asset L n s = Some a \<Longrightarrow> amount a = n \<and> asset_symbol a = s \<and> asset_in_range a"
  by (auto simp: mk_ok asset_in_range_def split: if_splits)

end

text \<open>An instance of the toolkit that behaves as documented; the witnesses run on it.\<close>

definition std_cdt :: cdt where
  "std_cdt = \<lparr>
     asset_plus = (\<lambda>a b.
       if asset_symbol a = asset_symbol b \<and> \<bar>i64 (amount a + amount b)\<bar> \<le> max_amount
       then Some (a\<lparr>amount := i64 (amount a + amount b)\<rparr>) else None),
     asset_minus = (\<lambda>a b.
       if asset_symbol a = asset_symbol b \<and> \<bar>i64 (amount a - amount b)\<bar> \<le> max_amount
       then Some (a\<lparr>amount := i64 (amount a - amount b)\<rparr>) else None),
     asset_neg = (\<lambda>a. a\<lparr>amount := i64 (- amount a)\<rparr>),
     asset_less = (\<lambda>a b.
       if asset_symbol a = asset_symbol b then Some (amount a < amount b) else None),
     asset_div = (\<lambda>a d. if d = 0 then None else Some (a\<lparr>amount := amount a sdiv d\<rparr>)),
     asset_valid = (\<lambda>a. asset_in_range a \<and> sym_code (asset_symbol a) \<noteq> 0),
     symbol_valid = (\<lambda>s. sym_code s \<noteq> 0),
     mk_asset = (\<lambda>n s.
       if \<bar>n\<bar> \<le> max_amount \<and> sym_code s \<noteq> 0
       then Some \<lparr>amount = n, asset_symbol = s\<rparr> else None),
     name_suffix = (\<lambda>n. n),
     name_to_string = (\<lambda>n. ''''), asset_to_string = (\<lambda>a. '''') \<rparr>"

interpretation std_library: asset_library std_cdt
  by unfold_locales (auto simp: std_cdt_def)

section \<open>The context of an action\<close>

type_synonym permission_level = "name \<times> name"

record ctx =
  ctx_lib :: cdt
  ctx_math :: libm
  ctx_self :: name
  ctx_auths :: "permission_level list"
  ctx_is_account :: "name \<Rightarrow> bool"
  ctx_now :: int
  ctx_slot :: int

text \<open>
  \<open>has_auth(n)\<close>: some permission of \<open>n\<close> authorised the action; \<open>require_auth\<close> aborts
  without it. \<open>ctx_now\<close> is \<open>current_time_point()\<close> in microseconds since the epoch and
  \<open>ctx_slot\<close> the slot of \<open>current_block_time()\<close>.
\<close>

definition has_auth :: "ctx \<Rightarrow> name \<Rightarrow> bool" where
  "has_auth c n \<longleftrightarrow> list_ex (\<lambda>p. fst p = n) (ctx_auths c)"

definition require_auth :: "ctx \<Rightarrow> name \<Rightarrow> 'a result \<Rightarrow> 'a result" where
  "require_auth c n r = (if has_auth c n then r else Inl (Missing_auth n))"

definition require_auth_level :: "ctx \<Rightarrow> permission_level \<Rightarrow> 'a result \<Rightarrow> 'a result" where
  "require_auth_level c p r = (if List.member (ctx_auths c) p then r else Inl (Missing_auth (fst p)))"

lemma require_auth_Inr [simp, result_simps]:
  "require_auth c n r = Inr x \<longleftrightarrow> has_auth c n \<and> r = Inr x"
  by (simp add: require_auth_def)

lemma require_auth_level_Inr [simp, result_simps]:
  "require_auth_level c p r = Inr x \<longleftrightarrow> p \<in> set (ctx_auths c) \<and> r = Inr x"
  by (simp add: require_auth_level_def)

lemma is_ok_require_auth [simp]: "is_ok (require_auth c n r) \<longleftrightarrow> has_auth c n \<and> is_ok r"
  by (simp add: require_auth_def)

lemma require_auth_level_has_auth: "(a, p) \<in> set (ctx_auths c) \<Longrightarrow> has_auth c a"
  by (force simp: has_auth_def list_ex_iff)

abbreviation overflow :: error where "overflow \<equiv> Library ''asset arithmetic''"

section \<open>Inputs of the witnesses\<close>

text \<open>
  A mathematics library for the witnesses: powers with a whole exponent, and no decay.
\<close>

definition std_libm :: libm where
  "std_libm = \<lparr>
     math_pow = (\<lambda>x y. case (x, y) of (Fin a, Fin b) \<Rightarrow> to_double (a powi \<lfloor>b\<rfloor>) | _ \<Rightarrow> NaN),
     math_exp = (\<lambda>x. Fin 1)\<rparr>"

text \<open>A context for the witnesses: the given accounts signed, every account exists.\<close>

definition sample_ctx :: "name \<Rightarrow> name list \<Rightarrow> ctx" where
  "sample_ctx self signers = \<lparr>ctx_lib = std_cdt, ctx_math = std_libm, ctx_self = self,
     ctx_auths = map (\<lambda>n. (n, 1)) signers, ctx_is_account = (\<lambda>_. True), ctx_now = 0, ctx_slot = 0\<rparr>"

definition wax :: symbol where "wax = Symbol 8 5783895"

definition wax_asset :: "int \<Rightarrow> asset" where "wax_asset n = \<lparr>amount = n, asset_symbol = wax\<rparr>"

lemma sample_lib_ok [simp]: "asset_library (ctx_lib (sample_ctx self signers))"
  by (simp add: sample_ctx_def std_library.asset_library_axioms)

lemma std_cdt_simps:
  "name_suffix std_cdt w = w" "mk_asset std_cdt n wax = (if \<bar>n\<bar> \<le> max_amount then Some (wax_asset n) else None)"
  by (simp_all add: std_cdt_def wax_asset_def wax_def)

lemmas sample_simps = sample_ctx_def std_cdt_def wax_asset_def wax_def has_auth_def Let_def
  asset_in_range_def max_amount_def

end
