(* ===== verification/Token.thy ===== *)
theory Token
  imports Chain
begin

text \<open>
  The token contract (\<open>contracts/eosio.token\<close>): its two tables, one definition per action,
  and the ledger that it keeps. The tables \<open>stat\<close> and \<open>accounts\<close> are scoped by symbol code
  and by owner, so their keys are pairs. The lemmas show what each action does on success, that
  every history keeps the supply of a token equal to the sum of its balances and within its
  maximum, and that no balance shrinks without its owner's authority.
\<close>

section \<open>State\<close>

record account =
  acc_balance :: asset

record currency_stats =
  st_supply :: asset
  st_max_supply :: asset
  st_issuer :: name

record token_state =
  stats :: "(symbol_code \<times> symbol_code, currency_stats) table"
  accounts :: "(name \<times> symbol_code, account) table"
  notified :: "name list"

definition account_key :: "account \<Rightarrow> symbol_code" where
  "account_key a = sym_code (asset_symbol (acc_balance a))"

definition stats_key :: "currency_stats \<Rightarrow> symbol_code" where
  "stats_key st = sym_code (asset_symbol (st_supply st))"

definition require_recipient :: "name \<Rightarrow> token_state \<Rightarrow> token_state" where
  "require_recipient n s = s\<lparr>notified := notified s @ [n]\<rparr>"

section \<open>Actions\<close>

definition token_create :: "ctx \<Rightarrow> name \<Rightarrow> asset \<Rightarrow> token_state \<Rightarrow> token_state result" where
  "token_create c issuer maximum_supply s =
     require_auth c (ctx_self c) (
     let symb = asset_symbol maximum_supply in
     check (asset_valid (ctx_lib c) maximum_supply) ''invalid supply'' (
     check (amount maximum_supply > 0) ''max-supply must be positive'' (
     check (find_row (stats s) (sym_code symb, sym_code symb) = None)
       ''token with symbol already exists'' (
     let row = \<lparr>st_supply = \<lparr>amount = 0, asset_symbol = symb\<rparr>,
                st_max_supply = maximum_supply, st_issuer = issuer\<rparr> in
     Inr (s\<lparr>stats := put (sym_code symb, stats_key row) (ctx_self c) row (stats s)\<rparr>)))))"

definition sub_balance :: "ctx \<Rightarrow> name \<Rightarrow> asset \<Rightarrow> token_state \<Rightarrow> token_state result" where
  "sub_balance c owner v s =
     (let k = (owner, sym_code (asset_symbol v)) in
      some_or (find_row (accounts s) k) (Check ''no balance object found'') (\<lambda>from.
      check (amount (acc_balance from) \<ge> amount v) ''overdrawn balance'' (
      some_or (asset_minus (ctx_lib c) (acc_balance from) v) overflow (\<lambda>b.
      Inr (s\<lparr>accounts := modify_row (Some owner) k (from\<lparr>acc_balance := b\<rparr>) (accounts s)\<rparr>)))))"

definition add_balance :: "ctx \<Rightarrow> name \<Rightarrow> asset \<Rightarrow> name \<Rightarrow> token_state \<Rightarrow> token_state result" where
  "add_balance c owner v ram_payer s =
     (let k = (owner, sym_code (asset_symbol v)) in
      case find_row (accounts s) k of
        None \<Rightarrow>
          let row = \<lparr>acc_balance = v\<rparr> in
          Inr (s\<lparr>accounts := put (owner, account_key row) ram_payer row (accounts s)\<rparr>)
      | Some to \<Rightarrow>
          some_or (asset_plus (ctx_lib c) (acc_balance to) v) overflow (\<lambda>b.
          Inr (s\<lparr>accounts := modify_row same_payer k (to\<lparr>acc_balance := b\<rparr>) (accounts s)\<rparr>)))"

definition token_issue :: "ctx \<Rightarrow> name \<Rightarrow> asset \<Rightarrow> string \<Rightarrow> token_state \<Rightarrow> token_state result" where
  "token_issue c to quantity memo s =
     (let symb = asset_symbol quantity; k = (sym_code symb, sym_code symb) in
      check (symbol_valid (ctx_lib c) symb) ''invalid symbol name'' (
      check (length memo \<le> 256) ''memo has more than 256 bytes'' (
      some_or (find_row (stats s) k)
        (Check ''token with symbol does not exist, create token before issue'') (\<lambda>st.
      check (to = st_issuer st) ''tokens can only be issued to issuer account'' (
      require_auth c (st_issuer st) (
      check (asset_valid (ctx_lib c) quantity) ''invalid quantity'' (
      check (amount quantity > 0) ''must issue positive quantity'' (
      check (asset_symbol quantity = asset_symbol (st_supply st)) ''symbol precision mismatch'' (
      check (amount quantity \<le> i64 (amount (st_max_supply st) - amount (st_supply st)))
        ''quantity exceeds available supply'' (
      some_or (asset_plus (ctx_lib c) (st_supply st) quantity) overflow (\<lambda>supply.
      let s1 = s\<lparr>stats := modify_row same_payer k (st\<lparr>st_supply := supply\<rparr>) (stats s)\<rparr> in
      add_balance c (st_issuer st) quantity (st_issuer st) s1)))))))))))"

definition token_retire :: "ctx \<Rightarrow> asset \<Rightarrow> string \<Rightarrow> token_state \<Rightarrow> token_state result" where
  "token_retire c quantity memo s =
     (let symb = asset_symbol quantity; k = (sym_code symb, sym_code symb) in
      check (symbol_valid (ctx_lib c) symb) ''invalid symbol name'' (
      check (length memo \<le> 256) ''memo has more than 256 bytes'' (
      some_or (find_row (stats s) k) (Check ''token with symbol does not exist'') (\<lambda>st.
      require_auth c (st_issuer st) (
      check (asset_valid (ctx_lib c) quantity) ''invalid quantity'' (
      check (amount quantity > 0) ''must retire positive quantity'' (
      check (asset_symbol quantity = asset_symbol (st_supply st)) ''symbol precision mismatch'' (
      some_or (asset_minus (ctx_lib c) (st_supply st) quantity) overflow (\<lambda>supply.
      let s1 = s\<lparr>stats := modify_row same_payer k (st\<lparr>st_supply := supply\<rparr>) (stats s)\<rparr> in
      sub_balance c (st_issuer st) quantity s1)))))))))"

definition token_transfer ::
  "ctx \<Rightarrow> name \<Rightarrow> name \<Rightarrow> asset \<Rightarrow> string \<Rightarrow> token_state \<Rightarrow> token_state result" where
  "token_transfer c from to quantity memo s =
     check (from \<noteq> to) ''cannot transfer to self'' (
     require_auth c from (
     check (ctx_is_account c to) ''to account does not exist'' (
     let symb = sym_code (asset_symbol quantity) in
     some_or (find_row (stats s) (symb, symb)) (Check ''unable to find key'') (\<lambda>st.
     let s1 = require_recipient to (require_recipient from s) in
     check (asset_valid (ctx_lib c) quantity) ''invalid quantity'' (
     check (amount quantity > 0) ''must transfer positive quantity'' (
     check (asset_symbol quantity = asset_symbol (st_supply st)) ''symbol precision mismatch'' (
     check (length memo \<le> 256) ''memo has more than 256 bytes'' (
     let payer = (if has_auth c to then to else from) in
     bind_result (sub_balance c from quantity s1) (\<lambda>s2.
     add_balance c to quantity payer s2)))))))))"

definition token_open :: "ctx \<Rightarrow> name \<Rightarrow> symbol \<Rightarrow> name \<Rightarrow> token_state \<Rightarrow> token_state result" where
  "token_open c owner symb ram_payer s =
     require_auth c ram_payer (
     check (ctx_is_account c owner) ''owner account does not exist'' (
     let code = sym_code symb in
     some_or (find_row (stats s) (code, code)) (Check ''symbol does not exist'') (\<lambda>st.
     check (asset_symbol (st_supply st) = symb) ''symbol precision mismatch'' (
     case find_row (accounts s) (owner, code) of
       Some _ \<Rightarrow> Inr s
     | None \<Rightarrow>
         some_or (mk_asset (ctx_lib c) 0 symb) overflow (\<lambda>zero.
         let row = \<lparr>acc_balance = zero\<rparr> in
         Inr (s\<lparr>accounts := put (owner, account_key row) ram_payer row (accounts s)\<rparr>))))))"

definition token_close :: "ctx \<Rightarrow> name \<Rightarrow> symbol \<Rightarrow> token_state \<Rightarrow> token_state result" where
  "token_close c owner symb s =
     require_auth c owner (
     let k = (owner, sym_code symb) in
     some_or (find_row (accounts s) k)
       (Check ''Balance row already deleted or never existed. Action won't have any effect.'') (\<lambda>it.
     check (amount (acc_balance it) = 0) ''Cannot close because the balance is not zero.'' (
     Inr (s\<lparr>accounts := erase_row k (accounts s)\<rparr>))))"

text \<open>The two reads the system contract makes of the token tables.\<close>

definition get_supply :: "token_state \<Rightarrow> symbol_code \<Rightarrow> asset result" where
  "get_supply s code =
     some_or (find_row (stats s) (code, code)) (Check ''invalid supply symbol code'')
       (\<lambda>st. Inr (st_supply st))"

definition get_balance :: "token_state \<Rightarrow> name \<Rightarrow> symbol_code \<Rightarrow> asset result" where
  "get_balance s owner code =
     some_or (find_row (accounts s) (owner, code)) (Check ''no balance with specified symbol'')
       (\<lambda>a. Inr (acc_balance a))"

text \<open>A pushed action is its context and its arguments.\<close>

datatype token_action =
    Create name asset
  | Issue name asset string
  | Retire asset string
  | Transfer name name asset string
  | Open name symbol name
  | Close name symbol

fun token_step :: "ctx \<times> token_action \<Rightarrow> token_state \<Rightarrow> token_state result" where
  "token_step (c, Create issuer m) s = token_create c issuer m s"
| "token_step (c, Issue to q memo) s = token_issue c to q memo s"
| "token_step (c, Retire q memo) s = token_retire c q memo s"
| "token_step (c, Transfer from to q memo) s = token_transfer c from to q memo s"
| "token_step (c, Open owner symb p) s = token_open c owner symb p s"
| "token_step (c, Close owner symb) s = token_close c owner symb s"

definition empty_token :: token_state where
  "empty_token = \<lparr>stats = no_rows, accounts = no_rows, notified = []\<rparr>"

section \<open>The ledger\<close>

text \<open>
  The abstract view of the state: what an account holds of a token, how much of it exists,
  and the sum of all balances.
\<close>

definition balance_of :: "token_state \<Rightarrow> name \<Rightarrow> symbol_code \<Rightarrow> int" where
  "balance_of s owner code =
     (case find_row (accounts s) (owner, code) of None \<Rightarrow> 0 | Some a \<Rightarrow> amount (acc_balance a))"

definition supply_of :: "token_state \<Rightarrow> symbol_code \<Rightarrow> int" where
  "supply_of s code =
     (case find_row (stats s) (code, code) of None \<Rightarrow> 0 | Some st \<Rightarrow> amount (st_supply st))"

definition circulating :: "token_state \<Rightarrow> symbol_code \<Rightarrow> int" where
  "circulating s code =
     sum_rows (\<lambda>k a. if snd k = code then amount (acc_balance a) else 0) (accounts s)"

definition stats_ok :: "token_state \<Rightarrow> bool" where
  "stats_ok s \<longleftrightarrow>
     all_rows (\<lambda>k st. fst k = snd k \<and> stats_key st = snd k
       \<and> asset_symbol (st_max_supply st) = asset_symbol (st_supply st)
       \<and> 0 \<le> amount (st_supply st) \<and> amount (st_supply st) \<le> amount (st_max_supply st)
       \<and> amount (st_max_supply st) \<le> max_amount) (stats s)"

definition accounts_ok :: "token_state \<Rightarrow> bool" where
  "accounts_ok s \<longleftrightarrow>
     all_rows (\<lambda>k a. 0 \<le> amount (acc_balance a) \<and> amount (acc_balance a) \<le> max_amount
       \<and> (case find_row (stats s) (snd k, snd k) of None \<Rightarrow> False
          | Some st \<Rightarrow> asset_symbol (acc_balance a) = asset_symbol (st_supply st))) (accounts s)"

definition supply_backed :: "token_state \<Rightarrow> bool" where
  "supply_backed s \<longleftrightarrow>
     all_rows (\<lambda>k st. circulating s (snd k) = amount (st_supply st)) (stats s)"

definition token_inv :: "token_state \<Rightarrow> bool" where
  "token_inv s \<longleftrightarrow> stats_ok s \<and> accounts_ok s \<and> supply_backed s"

definition amount_for :: "name \<Rightarrow> asset \<Rightarrow> name \<Rightarrow> symbol_code \<Rightarrow> int" where
  "amount_for owner v o' code = (if o' = owner \<and> code = sym_code (asset_symbol v) then amount v else 0)"

definition of_code :: "asset \<Rightarrow> symbol_code \<Rightarrow> int" where
  "of_code v code = (if code = sym_code (asset_symbol v) then amount v else 0)"

lemma token_inv_empty: "token_inv empty_token"
  by (simp add: token_inv_def stats_ok_def accounts_ok_def supply_backed_def empty_token_def)

lemma stats_okD:
  "stats_ok s \<Longrightarrow> find_row (stats s) (i, j) = Some st \<Longrightarrow>
   i = j \<and> sym_code (asset_symbol (st_supply st)) = j
   \<and> asset_symbol (st_max_supply st) = asset_symbol (st_supply st)
   \<and> 0 \<le> amount (st_supply st) \<and> amount (st_supply st) \<le> amount (st_max_supply st)
   \<and> amount (st_max_supply st) \<le> max_amount"
  unfolding stats_ok_def stats_key_def by (drule (1) all_rowsD) simp

lemma accounts_okD:
  "accounts_ok s \<Longrightarrow> find_row (accounts s) (w, k) = Some a \<Longrightarrow>
   0 \<le> amount (acc_balance a) \<and> amount (acc_balance a) \<le> max_amount
   \<and> (\<exists>st. find_row (stats s) (k, k) = Some st
        \<and> asset_symbol (acc_balance a) = asset_symbol (st_supply st))"
  unfolding accounts_ok_def by (drule (1) all_rowsD) (auto split: option.splits)

lemma supply_backedD:
  "supply_backed s \<Longrightarrow> find_row (stats s) (i, k) = Some st \<Longrightarrow> circulating s k = amount (st_supply st)"
  unfolding supply_backed_def by (drule (1) all_rowsD) simp

lemma balance_nonneg: "accounts_ok s \<Longrightarrow> 0 \<le> balance_of s w k"
  by (auto simp: balance_of_def dest: accounts_okD split: option.split)

lemma balance_le_circulating:
  assumes "accounts_ok s"
  shows "balance_of s w k \<le> circulating s k"
proof -
  let ?g = "\<lambda>i a. if snd i = k then amount (acc_balance a) else 0"
  have nonneg: "all_rows (\<lambda>i a. 0 \<le> ?g i a) (accounts s)"
    using assms by (auto simp: all_rows_iff dest: accounts_okD)
  show ?thesis
  proof (cases "find_row (accounts s) (w, k)")
    case None
    then show ?thesis
      using sum_rows_nonneg [OF nonneg] by (simp add: balance_of_def circulating_def)
  next
    case (Some a)
    then show ?thesis
      using row_le_sum_rows [OF nonneg Some] by (simp add: balance_of_def circulating_def)
  qed
qed

lemma circulating_eq_supply:
  assumes "token_inv s"
  shows "circulating s k = supply_of s k"
proof (cases "find_row (stats s) (k, k)")
  case None
  have "all_rows (\<lambda>i a. (if snd i = k then amount (acc_balance a) else 0) = 0) (accounts s)"
    using assms None by (auto simp: token_inv_def all_rows_iff dest: accounts_okD)
  then have "circulating s k = 0"
    unfolding circulating_def by (rule sum_rows_zero)
  with None show ?thesis by (simp add: supply_of_def)
next
  case (Some st)
  with assms show ?thesis by (simp add: token_inv_def supply_of_def supply_backedD)
qed

subsection \<open>What the two balance operations do\<close>

lemma sub_balance_effect:
  assumes lib: "asset_library (ctx_lib c)" and ok: "accounts_ok s"
    and v: "0 \<le> amount v" "amount v \<le> max_amount"
    and run: "sub_balance c w v s = Inr s'"
  shows "stats s' = stats s" "accounts_ok s'"
    "balance_of s' w' k = balance_of s w' k - amount_for w v w' k"
    "circulating s' k = circulating s k - of_code v k"
    "amount v \<le> balance_of s w (sym_code (asset_symbol v))"
    "notified s' = notified s"
proof -
  let ?k = "(w, sym_code (asset_symbol v))"
  from run obtain a b where a: "find_row (accounts s) ?k = Some a"
    and enough: "amount v \<le> amount (acc_balance a)"
    and b: "asset_minus (ctx_lib c) (acc_balance a) v = Some b"
    and s': "s' = s\<lparr>accounts := modify_row (Some w) ?k (a\<lparr>acc_balance := b\<rparr>) (accounts s)\<rparr>"
    by (auto simp: sub_balance_def Let_def)
  from accounts_okD [OF ok a] v have "asset_in_range (acc_balance a)" "asset_in_range v"
    by (auto simp: asset_in_range_def)
  with b have b': "asset_symbol b = asset_symbol (acc_balance a)"
    "amount b = amount (acc_balance a) - amount v"
    using asset_library.minus_Some [OF lib] by blast+
  show "stats s' = stats s" "notified s' = notified s" by (simp_all add: s')
  show "accounts_ok s'"
    using ok accounts_okD [OF ok a] enough v b' unfolding accounts_ok_def s'
    by (auto intro!: all_rows_modify)
  show "balance_of s' w' k = balance_of s w' k - amount_for w v w' k"
    using a by (auto simp: balance_of_def s' b' amount_for_def)
  show "circulating s' k = circulating s k - of_code v k"
    using a by (auto simp: circulating_def s' sum_rows_modify b' of_code_def)
  show "amount v \<le> balance_of s w (sym_code (asset_symbol v))"
    using a enough by (simp add: balance_of_def)
qed

lemma add_balance_effect:
  assumes lib: "asset_library (ctx_lib c)" and ok: "accounts_ok s"
    and v: "0 \<le> amount v" "amount v \<le> max_amount"
    and st: "find_row (stats s) (sym_code (asset_symbol v), sym_code (asset_symbol v)) = Some st"
      "asset_symbol v = asset_symbol (st_supply st)"
    and run: "add_balance c w v p s = Inr s'"
  shows "stats s' = stats s" "accounts_ok s'"
    "balance_of s' w' k = balance_of s w' k + amount_for w v w' k"
    "circulating s' k = circulating s k + of_code v k"
    "notified s' = notified s"
    "row_payer (accounts s') (w, sym_code (asset_symbol v)) =
       (case row_payer (accounts s) (w, sym_code (asset_symbol v)) of None \<Rightarrow> Some p | Some q \<Rightarrow> Some q)"
proof -
  let ?k = "(w, sym_code (asset_symbol v))"
  have "stats s' = stats s \<and> accounts_ok s' \<and> balance_of s' w' k = balance_of s w' k + amount_for w v w' k
      \<and> circulating s' k = circulating s k + of_code v k \<and> notified s' = notified s
      \<and> row_payer (accounts s') ?k =
          (case row_payer (accounts s) ?k of None \<Rightarrow> Some p | Some q \<Rightarrow> Some q)"
  proof (cases "find_row (accounts s) ?k")
    case None
    then have s': "s' = s\<lparr>accounts := put ?k p \<lparr>acc_balance = v\<rparr> (accounts s)\<rparr>"
      using run by (simp add: add_balance_def account_key_def)
    have "accounts_ok s'"
      using ok v st unfolding accounts_ok_def s' by (auto intro!: all_rows_put)
    moreover have "row_payer (accounts s) ?k = None"
      using None by (simp add: row_payer_None_iff)
    ultimately show ?thesis
      using None
      by (auto simp: s' balance_of_def circulating_def sum_rows_put amount_for_def of_code_def)
  next
    case (Some a)
    then obtain b where b: "asset_plus (ctx_lib c) (acc_balance a) v = Some b"
      and s': "s' = s\<lparr>accounts := modify_row same_payer ?k (a\<lparr>acc_balance := b\<rparr>) (accounts s)\<rparr>"
      using run by (auto simp: add_balance_def Let_def)
    from accounts_okD [OF ok Some] v have "asset_in_range (acc_balance a)" "asset_in_range v"
      by (auto simp: asset_in_range_def)
    with b have b': "asset_symbol b = asset_symbol (acc_balance a)"
      "amount b = amount (acc_balance a) + amount v" "asset_in_range b"
      using asset_library.plus_Some [OF lib] by blast+
    have "accounts_ok s'"
      using ok accounts_okD [OF ok Some] v b' unfolding accounts_ok_def s'
      by (auto intro!: all_rows_modify simp: asset_in_range_def)
    with Some row_payer_of_find [OF Some] show ?thesis
      by (auto simp: s' balance_of_def circulating_def sum_rows_modify b' amount_for_def of_code_def)
  qed
  then show "stats s' = stats s" "accounts_ok s'"
    "balance_of s' w' k = balance_of s w' k + amount_for w v w' k"
    "circulating s' k = circulating s k + of_code v k" "notified s' = notified s"
    "row_payer (accounts s') ?k =
       (case row_payer (accounts s) ?k of None \<Rightarrow> Some p | Some q \<Rightarrow> Some q)"
    by blast+
qed

subsection \<open>What the actions do\<close>

lemma supply_backedI:
  "stats_ok s \<Longrightarrow> (\<And>k. circulating s k = supply_of s k) \<Longrightarrow> supply_backed s"
  unfolding supply_backed_def all_rows_iff by (auto simp: supply_of_def dest: stats_okD)

lemma accounts_ok_stats:
  assumes ok: "accounts_ok s" and same: "accounts s' = accounts s"
    and kept: "\<And>k st. find_row (stats s) (k, k) = Some st \<Longrightarrow>
      \<exists>st'. find_row (stats s') (k, k) = Some st'
        \<and> asset_symbol (st_supply st') = asset_symbol (st_supply st)"
  shows "accounts_ok s'"
  unfolding accounts_ok_def all_rows_iff same
proof (intro allI impI)
  fix i a
  assume "find_row (accounts s) i = Some a"
  with ok obtain st where "0 \<le> amount (acc_balance a)" "amount (acc_balance a) \<le> max_amount"
    "find_row (stats s) (snd i, snd i) = Some st"
    "asset_symbol (acc_balance a) = asset_symbol (st_supply st)"
    using accounts_okD [OF ok, of "fst i" "snd i" a] by auto
  then show "0 \<le> amount (acc_balance a) \<and> amount (acc_balance a) \<le> max_amount \<and>
      (case find_row (stats s') (snd i, snd i) of None \<Rightarrow> False
       | Some st \<Rightarrow> asset_symbol (acc_balance a) = asset_symbol (st_supply st))"
    using kept [of "snd i" st] by auto
qed

lemma create_effect:
  assumes lib: "asset_library (ctx_lib c)" and inv: "token_inv s"
    and run: "token_create c issuer m s = Inr s'"
  shows "token_inv s'" "accounts s' = accounts s" "supply_of s' k = supply_of s k"
    "has_auth c (ctx_self c)" "notified s' = notified s"
proof -
  let ?k = "sym_code (asset_symbol m)"
  let ?row = "\<lparr>st_supply = \<lparr>amount = 0, asset_symbol = asset_symbol m\<rparr>,
    st_max_supply = m, st_issuer = issuer\<rparr>"
  from run have new: "find_row (stats s) (?k, ?k) = None" and m: "asset_valid (ctx_lib c) m" "0 < amount m"
    and s': "s' = s\<lparr>stats := put (?k, ?k) (ctx_self c) ?row (stats s)\<rparr>"
    by (auto simp: token_create_def Let_def stats_key_def)
  from run show "has_auth c (ctx_self c)" by (simp add: token_create_def)
  have range: "amount m \<le> max_amount"
    using asset_library.valid_in_range [OF lib m(1)] m(2) by (simp add: asset_in_range_def)
  show "accounts s' = accounts s" "notified s' = notified s" by (simp_all add: s')
  show sup: "supply_of s' k = supply_of s k" for k using new by (simp add: supply_of_def s')
  have "stats_ok s'"
    using inv range m unfolding token_inv_def stats_ok_def s'
    by (auto intro!: all_rows_put simp: stats_key_def)
  moreover have "accounts_ok s'"
    by (rule accounts_ok_stats [of s]) (use inv new in \<open>auto simp: token_inv_def s'\<close>)
  moreover have "circulating s' k = supply_of s' k" for k
    using circulating_eq_supply [OF inv] sup by (simp add: s' circulating_def)
  ultimately show "token_inv s'" by (simp add: token_inv_def supply_backedI)
qed

lemma issue_effect:
  assumes lib: "asset_library (ctx_lib c)" and inv: "token_inv s"
    and run: "token_issue c to q memo s = Inr s'"
  shows "token_inv s'" "supply_of s' k = supply_of s k + of_code q k"
    "balance_of s' w k = balance_of s w k + amount_for to q w k" "has_auth c to"
    "0 < amount q" "notified s' = notified s"
proof -
  let ?k = "sym_code (asset_symbol q)"
  from run obtain st sup where st: "find_row (stats s) (?k, ?k) = Some st"
    and to: "to = st_issuer st" "has_auth c (st_issuer st)"
    and q: "asset_valid (ctx_lib c) q" "0 < amount q" "asset_symbol q = asset_symbol (st_supply st)"
    and max: "amount q \<le> i64 (amount (st_max_supply st) - amount (st_supply st))"
    and sup: "asset_plus (ctx_lib c) (st_supply st) q = Some sup"
    and add: "add_balance c (st_issuer st) q (st_issuer st)
       (s\<lparr>stats := modify_row same_payer (?k, ?k) (st\<lparr>st_supply := sup\<rparr>) (stats s)\<rparr>) = Inr s'"
    by (auto simp: token_issue_def Let_def)
  let ?s1 = "s\<lparr>stats := modify_row same_payer (?k, ?k) (st\<lparr>st_supply := sup\<rparr>) (stats s)\<rparr>"
  from inv have sok: "stats_ok s" and aok: "accounts_ok s" by (simp_all add: token_inv_def)
  note row = stats_okD [OF sok st]
  have qr: "amount q \<le> max_amount"
    using asset_library.valid_in_range [OF lib q(1)] q(2) by (simp add: asset_in_range_def)
  have sup': "asset_symbol sup = asset_symbol (st_supply st)" "amount sup = amount (st_supply st) + amount q"
    using asset_library.plus_Some [OF lib _ _ sup] row qr q(2) by (auto simp: asset_in_range_def)
  have "i64 (amount (st_max_supply st) - amount (st_supply st))
      = amount (st_max_supply st) - amount (st_supply st)"
    using row by (simp add: max_amount_def)
  with max sup' have max': "amount sup \<le> amount (st_max_supply st)" by simp
  have sok1: "stats_ok ?s1"
    using sok row sup' max' q(2) unfolding stats_ok_def
    by (auto intro!: all_rows_modify simp: stats_key_def)
  have aok1: "accounts_ok ?s1"
    by (rule accounts_ok_stats [OF aok]) (use st sup' in auto)
  have st1: "find_row (stats ?s1) (?k, ?k) = Some (st\<lparr>st_supply := sup\<rparr>)"
    using st by simp
  note eff = add_balance_effect [OF lib aok1 _ qr st1 _ add]
  have q0: "0 \<le> amount q" and sy: "asset_symbol q = asset_symbol (st_supply (st\<lparr>st_supply := sup\<rparr>))"
    using q sup' by simp_all
  have sup_s': "supply_of s' k = supply_of s k + of_code q k" for k
    using eff(1) [OF q0 sy] st sup' by (auto simp: supply_of_def of_code_def)
  then show "supply_of s' k = supply_of s k + of_code q k" .
  show "balance_of s' w k = balance_of s w k + amount_for to q w k"
    using eff(3) [OF q0 sy, of w k] to by (simp add: balance_of_def)
  show "has_auth c to" "0 < amount q" using to q by simp_all
  show "notified s' = notified s" using eff(5) [OF q0 sy] by simp
  have "circulating s' k = supply_of s' k" for k
    using eff(4) [OF q0 sy, of k] sup_s' [of k] circulating_eq_supply [OF inv, of k]
    by (simp add: circulating_def)
  moreover have "stats_ok s'" using sok1 eff(1) [OF q0 sy] by (simp add: stats_ok_def)
  ultimately show "token_inv s'"
    using eff(2) [OF q0 sy] by (simp add: token_inv_def supply_backedI)
qed

lemma retire_effect:
  assumes lib: "asset_library (ctx_lib c)" and inv: "token_inv s"
    and run: "token_retire c q memo s = Inr s'"
  shows "token_inv s'" "supply_of s' k = supply_of s k - of_code q k"
    "\<exists>issuer. has_auth c issuer \<and> (\<forall>w k. balance_of s' w k = balance_of s w k - amount_for issuer q w k)"
    "0 < amount q" "notified s' = notified s"
proof -
  let ?k = "sym_code (asset_symbol q)"
  from run obtain st sup where st: "find_row (stats s) (?k, ?k) = Some st"
    and auth: "has_auth c (st_issuer st)"
    and q: "asset_valid (ctx_lib c) q" "0 < amount q" "asset_symbol q = asset_symbol (st_supply st)"
    and sup: "asset_minus (ctx_lib c) (st_supply st) q = Some sup"
    and sub: "sub_balance c (st_issuer st) q
       (s\<lparr>stats := modify_row same_payer (?k, ?k) (st\<lparr>st_supply := sup\<rparr>) (stats s)\<rparr>) = Inr s'"
    by (auto simp: token_retire_def Let_def)
  let ?s1 = "s\<lparr>stats := modify_row same_payer (?k, ?k) (st\<lparr>st_supply := sup\<rparr>) (stats s)\<rparr>"
  from inv have sok: "stats_ok s" and aok: "accounts_ok s" by (simp_all add: token_inv_def)
  note row = stats_okD [OF sok st]
  have qr: "amount q \<le> max_amount"
    using asset_library.valid_in_range [OF lib q(1)] q(2) by (simp add: asset_in_range_def)
  have sup': "asset_symbol sup = asset_symbol (st_supply st)" "amount sup = amount (st_supply st) - amount q"
    using asset_library.minus_Some [OF lib _ _ sup] row qr q(2) by (auto simp: asset_in_range_def)
  have aok1: "accounts_ok ?s1"
    by (rule accounts_ok_stats [OF aok]) (use st sup' in auto)
  have q0: "0 \<le> amount q" using q by simp
  note eff = sub_balance_effect [OF lib aok1 q0 qr sub]
  have "balance_of s w ?k \<le> amount (st_supply st)" for w
    using balance_le_circulating [OF aok, of w ?k] circulating_eq_supply [OF inv, of ?k] st
    by (simp add: supply_of_def)
  moreover have "amount q \<le> balance_of s (st_issuer st) ?k"
    using eff(5) by (simp add: balance_of_def)
  ultimately have nonneg: "0 \<le> amount sup" using sup' by (metis diff_ge_0_iff_ge order_trans)
  have sok1: "stats_ok ?s1"
    using sok row sup' nonneg q0 unfolding stats_ok_def
    by (auto intro!: all_rows_modify simp: stats_key_def)
  have sup_s': "supply_of s' k = supply_of s k - of_code q k" for k
    using eff(1) st sup' by (auto simp: supply_of_def of_code_def)
  then show "supply_of s' k = supply_of s k - of_code q k" .
  show "\<exists>issuer. has_auth c issuer \<and> (\<forall>w k. balance_of s' w k = balance_of s w k - amount_for issuer q w k)"
    using auth eff(3) by (auto simp: balance_of_def)
  show "0 < amount q" by (rule q(2))
  show "notified s' = notified s" using eff(6) by simp
  have "circulating s' k = supply_of s' k" for k
    using eff(4) [of k] sup_s' [of k] circulating_eq_supply [OF inv, of k] by (simp add: circulating_def)
  moreover have "stats_ok s'" using sok1 eff(1) by (simp add: stats_ok_def)
  ultimately show "token_inv s'" using eff(2) by (simp add: token_inv_def supply_backedI)
qed

lemma transfer_effect:
  assumes lib: "asset_library (ctx_lib c)" and inv: "token_inv s"
    and run: "token_transfer c f t q memo s = Inr s'"
  shows "token_inv s'" "stats s' = stats s" "has_auth c f" "f \<noteq> t" "0 < amount q"
    "amount q \<le> balance_of s f (sym_code (asset_symbol q))"
    "balance_of s' w k = balance_of s w k - amount_for f q w k + amount_for t q w k"
    "notified s' = notified s @ [f, t]"
    "row_payer (accounts s') (t, sym_code (asset_symbol q)) =
       (case row_payer (accounts s) (t, sym_code (asset_symbol q)) of
          None \<Rightarrow> Some (if has_auth c t then t else f) | Some p \<Rightarrow> Some p)"
proof -
  let ?k = "sym_code (asset_symbol q)"
  let ?s1 = "require_recipient t (require_recipient f s)"
  let ?p = "if has_auth c t then t else f"
  from run obtain st s2 where ft: "f \<noteq> t" "has_auth c f"
    and st: "find_row (stats s) (?k, ?k) = Some st"
    and q: "asset_valid (ctx_lib c) q" "0 < amount q" "asset_symbol q = asset_symbol (st_supply st)"
    and sub: "sub_balance c f q ?s1 = Inr s2" and add: "add_balance c t q ?p s2 = Inr s'"
    by (auto simp: token_transfer_def Let_def)
  from inv have sok: "stats_ok s" and aok: "accounts_ok s" by (simp_all add: token_inv_def)
  have q0: "0 \<le> amount q" using q by simp
  have qr: "amount q \<le> max_amount"
    using asset_library.valid_in_range [OF lib q(1)] q(2) by (simp add: asset_in_range_def)
  have aok1: "accounts_ok ?s1"
    by (rule accounts_ok_stats [OF aok]) (auto simp: require_recipient_def)
  note eff1 = sub_balance_effect [OF lib aok1 q0 qr sub]
  have st2: "find_row (stats s2) (?k, ?k) = Some st"
    using st eff1(1) by (simp add: require_recipient_def)
  note eff2 = add_balance_effect [OF lib eff1(2) q0 qr st2 q(3) add]
  show stats': "stats s' = stats s" using eff1(1) eff2(1) by (simp add: require_recipient_def)
  show "has_auth c f" "f \<noteq> t" "0 < amount q" using ft q by simp_all
  show "amount q \<le> balance_of s f ?k"
    using eff1(5) by (simp add: balance_of_def require_recipient_def)
  show "balance_of s' w k = balance_of s w k - amount_for f q w k + amount_for t q w k"
    using eff1(3) [of w k] eff2(3) [of w k] by (simp add: balance_of_def require_recipient_def)
  show "notified s' = notified s @ [f, t]"
    using eff1(6) eff2(5) by (simp add: require_recipient_def)
  have "row_payer (accounts s2) (t, ?k) = row_payer (accounts s) (t, ?k)"
    using sub ft by (auto simp: sub_balance_def Let_def require_recipient_def)
  then show "row_payer (accounts s') (t, ?k) =
       (case row_payer (accounts s) (t, ?k) of None \<Rightarrow> Some ?p | Some p \<Rightarrow> Some p)"
    using eff2(6) by simp
  have "circulating s' k = supply_of s' k" for k
    using eff1(4) [of k] eff2(4) [of k] circulating_eq_supply [OF inv, of k] stats'
    by (simp add: circulating_def supply_of_def require_recipient_def)
  moreover have "stats_ok s'" using sok stats' by (simp add: stats_ok_def)
  ultimately show "token_inv s'" using eff2(2) by (simp add: token_inv_def supply_backedI)
qed

lemma open_effect:
  assumes lib: "asset_library (ctx_lib c)" and inv: "token_inv s"
    and run: "token_open c w symb p s = Inr s'"
  shows "token_inv s'" "stats s' = stats s" "has_auth c p" "balance_of s' x k = balance_of s x k"
    "notified s' = notified s" "find_row (accounts s') (w, sym_code symb) \<noteq> None"
proof -
  let ?k = "(w, sym_code symb)"
  from run obtain st where st: "find_row (stats s) (sym_code symb, sym_code symb) = Some st"
    "asset_symbol (st_supply st) = symb" and auth: "has_auth c p"
    by (auto simp: token_open_def Let_def)
  from inv have sok: "stats_ok s" and aok: "accounts_ok s" and bok: "supply_backed s"
    by (simp_all add: token_inv_def)
  have "token_inv s' \<and> stats s' = stats s \<and> balance_of s' x k = balance_of s x k
      \<and> notified s' = notified s \<and> find_row (accounts s') ?k \<noteq> None"
  proof (cases "find_row (accounts s) ?k")
    case (Some a)
    then have "s' = s" using run st by (auto simp: token_open_def Let_def)
    then show ?thesis using inv Some by simp
  next
    case None
    then obtain z where z: "mk_asset (ctx_lib c) 0 symb = Some z"
      and s': "s' = s\<lparr>accounts := put (w, account_key \<lparr>acc_balance = z\<rparr>) p \<lparr>acc_balance = z\<rparr> (accounts s)\<rparr>"
      using run st by (auto simp: token_open_def Let_def)
    have z': "amount z = 0" "asset_symbol z = symb"
      using asset_library.mk_Some [OF lib z] by simp_all
    have "accounts_ok s'"
      using aok z' st unfolding accounts_ok_def s'
      by (auto intro!: all_rows_put simp: account_key_def max_amount_def)
    moreover have "circulating s' k = supply_of s' k" for k
      using circulating_eq_supply [OF inv, of k] None z'
      by (simp add: s' circulating_def supply_of_def sum_rows_put account_key_def)
    ultimately show ?thesis
      using sok None z'
      by (auto simp: token_inv_def s' balance_of_def account_key_def stats_ok_def
          intro!: supply_backedI)
  qed
  then show "token_inv s'" "stats s' = stats s" "balance_of s' x k = balance_of s x k"
    "notified s' = notified s" "find_row (accounts s') ?k \<noteq> None" by blast+
  show "has_auth c p" by (rule auth)
qed

lemma close_effect:
  assumes inv: "token_inv s" and run: "token_close c w symb s = Inr s'"
  shows "token_inv s'" "stats s' = stats s" "has_auth c w" "balance_of s' x k = balance_of s x k"
    "notified s' = notified s" "find_row (accounts s') (w, sym_code symb) = None"
proof -
  let ?k = "(w, sym_code symb)"
  from run obtain a where a: "find_row (accounts s) ?k = Some a" "amount (acc_balance a) = 0"
    and auth: "has_auth c w" and s': "s' = s\<lparr>accounts := erase_row ?k (accounts s)\<rparr>"
    by (auto simp: token_close_def Let_def)
  from inv have sok: "stats_ok s" and aok: "accounts_ok s" by (simp_all add: token_inv_def)
  have "accounts_ok s'" using aok unfolding accounts_ok_def s' by (auto intro: all_rows_erase)
  moreover have "circulating s' k = supply_of s' k" for k
    using circulating_eq_supply [OF inv, of k] a
    by (simp add: s' circulating_def supply_of_def sum_rows_erase)
  ultimately show "token_inv s'"
    using sok by (auto simp: token_inv_def s' stats_ok_def intro!: supply_backedI)
  show "stats s' = stats s" "has_auth c w" "notified s' = notified s"
    "find_row (accounts s') ?k = None" using auth by (simp_all add: s')
  show "balance_of s' x k = balance_of s x k" using a by (auto simp: s' balance_of_def)
qed

subsection \<open>When the balance operations succeed\<close>

lemma sub_balance_ok:
  assumes lib: "asset_library (ctx_lib c)" and ok: "accounts_ok s"
    and v: "0 < amount v" "amount v \<le> max_amount"
    and st: "find_row (stats s) (sym_code (asset_symbol v), sym_code (asset_symbol v)) = Some st"
      "asset_symbol v = asset_symbol (st_supply st)"
  shows "is_ok (sub_balance c w v s) \<longleftrightarrow> amount v \<le> balance_of s w (sym_code (asset_symbol v))"
proof (cases "find_row (accounts s) (w, sym_code (asset_symbol v))")
  case None
  with v show ?thesis by (simp add: sub_balance_def balance_of_def)
next
  case (Some a)
  note row = accounts_okD [OF ok Some]
  have "asset_minus (ctx_lib c) (acc_balance a) v =
      Some ((acc_balance a)\<lparr>amount := amount (acc_balance a) - amount v\<rparr>)"
    if "amount v \<le> amount (acc_balance a)"
    using that row st v by (auto simp: asset_library.minus_ok [OF lib] asset_in_range_def)
  with Some show ?thesis by (auto simp: sub_balance_def balance_of_def Let_def)
qed

lemma add_balance_ok:
  assumes lib: "asset_library (ctx_lib c)" and ok: "accounts_ok s"
    and v: "0 < amount v"
    and st: "find_row (stats s) (sym_code (asset_symbol v), sym_code (asset_symbol v)) = Some st"
      "asset_symbol v = asset_symbol (st_supply st)"
    and room: "balance_of s w (sym_code (asset_symbol v)) + amount v \<le> max_amount"
  shows "is_ok (add_balance c w v p s)"
proof (cases "find_row (accounts s) (w, sym_code (asset_symbol v))")
  case None
  then show ?thesis by (simp add: add_balance_def Let_def)
next
  case (Some a)
  note row = accounts_okD [OF ok Some]
  have "asset_plus (ctx_lib c) (acc_balance a) v =
      Some ((acc_balance a)\<lparr>amount := amount (acc_balance a) + amount v\<rparr>)"
    using row st v room Some
    by (auto simp: asset_library.plus_ok [OF lib] asset_in_range_def balance_of_def)
  with Some show ?thesis by (simp add: add_balance_def Let_def)
qed

section \<open>The contract as a machine\<close>

definition lib_ok :: "ctx \<times> 'a \<Rightarrow> bool" where
  "lib_ok a \<longleftrightarrow> asset_library (ctx_lib (fst a))"

lemma token_step_inv:
  assumes "lib_ok a" and "token_inv s" and "token_step a s = Inr s'"
  shows "token_inv s'"
  using assms
  by (cases "(a, s)" rule: token_step.cases)
     (auto simp: lib_ok_def intro: create_effect(1) issue_effect(1) retire_effect(1)
        transfer_effect(1) open_effect(1) close_effect(1))

interpretation ledger: contract_machine token_step lib_ok token_inv
  by unfold_locales (rule token_step_inv)

section \<open>Properties\<close>

definition sample_history :: "(ctx \<times> token_action) list" where
  "sample_history =
     [(sample_ctx 7 [7], Create 1 (wax_asset 100)),
      (sample_ctx 7 [1], Issue 1 (wax_asset 60) ''''),
      (sample_ctx 7 [1], Transfer 1 2 (wax_asset 25) ''rent''),
      (sample_ctx 7 [1], Issue 1 (wax_asset 50) ''over the maximum'')]"

lemma sample_history_ok: "list_all lib_ok sample_history"
  by (simp add: sample_history_def lib_ok_def)

lemmas token_defs = token_create_def token_issue_def token_retire_def token_transfer_def
  token_open_def token_close_def sub_balance_def add_balance_def require_recipient_def
  stats_key_def account_key_def require_auth_def

text \<open>
  C7: after every history of pushed actions, from the empty contract, the balances of a token
  add up to its recorded supply, no balance is negative and none exceeds the supply, and the
  supply of a token lies between zero and the maximum it was created with.
\<close>

theorem supply_is_conserved:
  assumes "list_all lib_ok as" and "s = run token_step as empty_token"
  shows "circulating s code = supply_of s code \<and>
    0 \<le> balance_of s w code \<and> balance_of s w code \<le> supply_of s code \<and>
    (case find_row (stats s) (code, code) of
       None \<Rightarrow> supply_of s code = 0
     | Some st \<Rightarrow> supply_of s code \<le> amount (st_max_supply st))"
proof -
  have inv: "token_inv s"
    using ledger.run_inv [OF assms(1) token_inv_empty] assms(2) by simp
  then have ok: "accounts_ok s" "stats_ok s" by (simp_all add: token_inv_def)
  show ?thesis
    using circulating_eq_supply [OF inv, of code] balance_nonneg [OF ok(1), of w code]
      balance_le_circulating [OF ok(1), of w code] stats_okD [OF ok(2), of code code]
    by (auto simp: supply_of_def split: option.splits)
qed

theorem supply_is_conserved_witness:
  "circulating (run token_step sample_history empty_token) 5783895 = 60 \<and>
   balance_of (run token_step sample_history empty_token) 2 5783895 = 25"
proof -
  have "circulating (run token_step sample_history empty_token) 5783895 =
      supply_of (run token_step sample_history empty_token) 5783895"
    using supply_is_conserved [OF sample_history_ok refl] by blast
  moreover have "supply_of (run token_step sample_history empty_token) 5783895 = 60"
    "balance_of (run token_step sample_history empty_token) 2 5783895 = 25"
    by (simp_all add: sample_history_def empty_token_def token_defs sample_simps
        supply_of_def balance_of_def)
  ultimately show ?thesis by simp
qed

text \<open>
  C8: a successful transfer was authorised by its sender, moved exactly the quantity from the
  sender to the receiver (all other balances, of this and of every other token, and all supplies
  stay), notified both, and billed a new balance row to the receiver when the receiver signed,
  to the sender otherwise.
\<close>

theorem transfer_moves_exactly:
  assumes "asset_library (ctx_lib c)" and "token_inv s"
    and "token_transfer c from to q memo s = Inr s'"
  shows "has_auth c from \<and> from \<noteq> to \<and> 0 < amount q \<and> stats s' = stats s \<and>
    (\<forall>w k. balance_of s' w k = balance_of s w k - amount_for from q w k + amount_for to q w k) \<and>
    notified s' = notified s @ [from, to] \<and>
    row_payer (accounts s') (to, sym_code (asset_symbol q)) =
      (case row_payer (accounts s) (to, sym_code (asset_symbol q)) of
         None \<Rightarrow> Some (if has_auth c to then to else from)
       | Some p \<Rightarrow> Some p)"
  using transfer_effect [OF assms] by blast

definition sample_ledger :: token_state where
  "sample_ledger = run token_step (take 2 sample_history) empty_token"

lemma sample_ledger_inv: "token_inv sample_ledger"
  unfolding sample_ledger_def
  by (rule ledger.run_inv_prefix [of _ "drop 2 sample_history"])
     (simp_all add: sample_history_ok token_inv_empty del: take_Suc_Cons)

lemma sample_ledger_eq:
  "sample_ledger = \<lparr>stats = put (5783895, 5783895) 7
      \<lparr>st_supply = wax_asset 60, st_max_supply = wax_asset 100, st_issuer = 1\<rparr> no_rows,
    accounts = put (1, 5783895) 1 \<lparr>acc_balance = wax_asset 60\<rparr> no_rows, notified = []\<rparr>"
  by (simp add: sample_ledger_def sample_history_def empty_token_def token_defs sample_simps
      modify_row_def)

theorem transfer_moves_exactly_witness:
  "\<exists>s'. token_transfer (sample_ctx 7 [1]) 1 2 (wax_asset 25) ''rent'' sample_ledger = Inr s' \<and>
     balance_of s' 1 5783895 = 35 \<and> balance_of s' 2 5783895 = 25 \<and> notified s' = [1, 2]"
proof -
  obtain s' where s': "token_transfer (sample_ctx 7 [1]) 1 2 (wax_asset 25) ''rent'' sample_ledger = Inr s'"
    by (simp add: sample_ledger_eq token_defs sample_simps)
  have "\<forall>w k. balance_of s' w k = balance_of sample_ledger w k
      - amount_for 1 (wax_asset 25) w k + amount_for 2 (wax_asset 25) w k"
    and "notified s' = notified sample_ledger @ [1, 2]"
    using transfer_moves_exactly [OF sample_lib_ok sample_ledger_inv s'] by blast+
  then show ?thesis
    using s' by (simp add: sample_ledger_eq balance_of_def amount_for_def wax_asset_def wax_def)
qed

text \<open>
  In every state a history can reach, a transfer succeeds exactly when the code's checks
  pass and the sender holds the quantity: crediting the receiver never overflows, because no
  balance exceeds the supply of the token.
\<close>

theorem transfer_succeeds_iff:
  assumes "asset_library (ctx_lib c)" and "token_inv s"
  shows "is_ok (token_transfer c from to q memo s) \<longleftrightarrow>
    from \<noteq> to \<and> has_auth c from \<and> ctx_is_account c to \<and> asset_valid (ctx_lib c) q \<and>
    0 < amount q \<and> length memo \<le> 256 \<and>
    (case find_row (stats s) (sym_code (asset_symbol q), sym_code (asset_symbol q)) of
       None \<Rightarrow> False | Some st \<Rightarrow> asset_symbol q = asset_symbol (st_supply st)) \<and>
    amount q \<le> balance_of s from (sym_code (asset_symbol q))"
proof -
  let ?k = "sym_code (asset_symbol q)" and ?s1 = "require_recipient to (require_recipient from s)"
  let ?p = "if has_auth c to then to else from"
  from assms(2) have sok: "stats_ok s" and aok: "accounts_ok s" by (simp_all add: token_inv_def)
  have aok1: "accounts_ok ?s1"
    by (rule accounts_ok_stats [OF aok]) (auto simp: require_recipient_def)
  have pays: "is_ok (bind_result (sub_balance c from q ?s1) (add_balance c to q ?p))
      \<longleftrightarrow> amount q \<le> balance_of s from ?k"
    if q: "0 < amount q" "asset_valid (ctx_lib c) q"
      and st: "find_row (stats s) (?k, ?k) = Some st" "asset_symbol q = asset_symbol (st_supply st)" for st
  proof -
    have qr: "amount q \<le> max_amount"
      using asset_library.valid_in_range [OF assms(1) q(2)] q(1) by (simp add: asset_in_range_def)
    have st1: "find_row (stats ?s1) (?k, ?k) = Some st" using st by (simp add: require_recipient_def)
    have bal1: "balance_of ?s1 w ?k = balance_of s w ?k" for w
      by (simp add: balance_of_def require_recipient_def)
    have "is_ok (add_balance c to q ?p s2)" if sub: "sub_balance c from q ?s1 = Inr s2" for s2
    proof (rule add_balance_ok [OF assms(1)])
      note eff = sub_balance_effect [OF assms(1) aok1 less_imp_le [OF q(1)] qr sub]
      show "accounts_ok s2" by (rule eff(2))
      show "find_row (stats s2) (?k, ?k) = Some st" using st1 eff(1) by simp
      have "balance_of s2 to ?k + amount q \<le> circulating s ?k"
        using balance_le_circulating [OF eff(2), of to ?k] eff(4) [of ?k]
        by (simp add: of_code_def circulating_def require_recipient_def)
      also have "\<dots> \<le> max_amount"
        using circulating_eq_supply [OF assms(2), of ?k] stats_okD [OF sok st(1)] st(1)
        by (simp add: supply_of_def)
      finally show "balance_of s2 to ?k + amount q \<le> max_amount" .
    qed (use q st in simp_all)
    then show ?thesis
      using sub_balance_ok [OF assms(1) aok1 q(1) qr st1 st(2), of "from"] bal1
      by (cases "sub_balance c from q ?s1") simp_all
  qed
  show ?thesis
    using pays
    by (cases "find_row (stats s) (?k, ?k)") (auto simp: token_transfer_def Let_def)
qed

theorem transfer_succeeds_iff_witness:
  "is_ok (token_transfer (sample_ctx 7 [1]) 1 2 (wax_asset 60) '''' sample_ledger) \<and>
   \<not> is_ok (token_transfer (sample_ctx 7 [1]) 1 2 (wax_asset 61) '''' sample_ledger)"
  unfolding transfer_succeeds_iff [OF sample_lib_ok sample_ledger_inv]
  by (simp add: sample_ledger_eq sample_simps balance_of_def)

text \<open>
  C9: no history-reachable state lets anyone take another account's tokens: an action that
  lowers a balance was authorised by the account that held it.
\<close>

theorem only_the_owner_spends:
  assumes "asset_library (ctx_lib c)" and "token_inv s"
    and "token_step (c, act) s = Inr s'" and "balance_of s' w code < balance_of s w code"
  shows "has_auth c w"
proof (cases act)
  case (Create i m)
  then show ?thesis
    using assms create_effect(2) [OF assms(1,2)] by (auto simp: balance_of_def)
next
  case (Issue to q memo)
  then show ?thesis
    using assms issue_effect(3,5) [OF assms(1,2)] by (fastforce simp: amount_for_def split: if_splits)
next
  case (Retire q memo)
  then have run: "token_retire c q memo s = Inr s'" using assms(3) by simp
  obtain issuer where "has_auth c issuer"
    "\<forall>w k. balance_of s' w k = balance_of s w k - amount_for issuer q w k"
    using retire_effect(3) [OF assms(1,2) run] by blast
  then show ?thesis using assms(4) by (auto simp: amount_for_def split: if_splits)
next
  case (Transfer f t q memo)
  then have run: "token_transfer c f t q memo s = Inr s'" using assms(3) by simp
  show ?thesis
    using assms(4) transfer_effect(3,5,7) [OF assms(1,2) run] by (auto simp: amount_for_def split: if_splits)
next
  case (Open x y z)
  then show ?thesis using assms open_effect(4) [OF assms(1,2)] by auto
next
  case (Close x y)
  then show ?thesis using assms close_effect(4) [OF assms(2)] by auto
qed

theorem only_the_owner_spends_witness:
  "\<exists>s'. token_step (sample_ctx 7 [1], Transfer 1 2 (wax_asset 25) '''') sample_ledger = Inr s' \<and>
     balance_of s' 1 5783895 < balance_of sample_ledger 1 5783895 \<and> has_auth (sample_ctx 7 [1]) 1"
proof -
  obtain s' where s': "token_step (sample_ctx 7 [1], Transfer 1 2 (wax_asset 25) '''') sample_ledger = Inr s'"
    and less: "balance_of s' 1 5783895 < balance_of sample_ledger 1 5783895"
    by (simp add: sample_ledger_eq token_defs sample_simps balance_of_def)
  show ?thesis
    using only_the_owner_spends [OF sample_lib_ok sample_ledger_inv s' less] s' less by blast
qed

end
