(* ===== verification/Msig.thy ===== *)
theory Msig
  imports Chain "HOL-Library.Multiset"
begin

text \<open>
  The multi-signature contract (\<open>contracts/eosio.msig\<close>): proposals, the approvals they ask for
  and have been given (in the current table and in the one of older proposals), and the accounts
  that invalidated all their earlier approvals. The lemmas show that a transaction is executed
  only on approvals that were signed for and are still valid, inside its window of time, and once.
\<close>

section \<open>State\<close>

text \<open>
  What the contract asks the chain and the toolkit: to unpack a transaction (\<open>None\<close> when the
  bytes do not parse), whether a set of permission levels authorises it, and a hash.
\<close>

record action =
  act_account :: name
  act_name :: name
  act_authorization :: "permission_level list"
  act_data :: bytes

record transaction_header =
  expiration :: int
  delay_sec :: int

record msig_host =
  unpack_header :: "bytes \<Rightarrow> transaction_header option"
  unpack_context_free :: "bytes \<Rightarrow> action list option"
  unpack_actions :: "bytes \<Rightarrow> action list option"
  check_transaction_authorization :: "bytes \<Rightarrow> permission_level list \<Rightarrow> int"
  sha256 :: "bytes \<Rightarrow> bytes"

text \<open>
  \<open>earliest_exec_time\<close> is a binary extension (outer \<open>None\<close>: absent, a proposal written by an
  older version) of an optional time (inner \<open>None\<close>: not authorised yet).
\<close>

record proposal =
  proposal_name :: name
  packed_transaction :: bytes
  earliest_exec_time :: "int option option"

record approval =
  level :: permission_level
  time :: int

record approvals_info =
  ap_version :: int
  ap_proposal_name :: name
  requested_approvals :: "approval list"
  provided_approvals :: "approval list"

record old_approvals_info =
  old_proposal_name :: name
  old_requested :: "permission_level list"
  old_provided :: "permission_level list"

record invalidation =
  inv_account :: name
  last_invalidation_time :: int

record msig_state =
  ms_proposals :: "(name \<times> name, proposal) table"
  ms_approvals :: "(name \<times> name, approvals_info) table"
  ms_old_approvals :: "(name \<times> name, old_approvals_info) table"
  ms_invalidations :: "(name, invalidation) table"
  ms_sent :: "action list"

section \<open>Helpers of the contract\<close>

definition time_sec :: "int \<Rightarrow> int" where
  "time_sec t = u32 (t sdiv 1000000)"

definition get_trx_header :: "msig_host \<Rightarrow> bytes \<Rightarrow> transaction_header result" where
  "get_trx_header h b = some_or (unpack_header h b) (Library ''unpack'') Inr"

definition trx_is_authorized :: "msig_host \<Rightarrow> permission_level list \<Rightarrow> bytes \<Rightarrow> bool" where
  "trx_is_authorized h approvals b \<longleftrightarrow> check_transaction_authorization h b approvals \<noteq> 0"

fun remove_first :: "('a \<Rightarrow> bool) \<Rightarrow> 'a list \<Rightarrow> 'a list" where
  "remove_first P [] = []"
| "remove_first P (x # xs) = (if P x then xs else x # remove_first P xs)"

datatype approval_table = New_table | Old_table

definition still_valid :: "msig_state \<Rightarrow> approval \<Rightarrow> bool" where
  "still_valid s p \<longleftrightarrow>
     (case find_row (ms_invalidations s) (fst (level p)) of
        None \<Rightarrow> True | Some i \<Rightarrow> last_invalidation_time i < time p)"

definition get_approvals_and_adjust_table ::
  "name \<Rightarrow> name \<Rightarrow> (approval_table \<Rightarrow> msig_state \<Rightarrow> msig_state) \<Rightarrow> msig_state
     \<Rightarrow> (permission_level list \<times> msig_state) result" where
  "get_approvals_and_adjust_table proposer pname table_op s =
     (case find_row (ms_approvals s) (proposer, pname) of
        Some row \<Rightarrow>
          Inr (map level (filter (still_valid s) (provided_approvals row)), table_op New_table s)
      | None \<Rightarrow>
          some_or (find_row (ms_old_approvals s) (proposer, pname)) (Check ''proposal not found'')
            (\<lambda>row. Inr (filter (\<lambda>p. find_row (ms_invalidations s) (fst p) = None) (old_provided row),
              table_op Old_table s)))"

definition no_op :: "approval_table \<Rightarrow> msig_state \<Rightarrow> msig_state" where
  "no_op t s = s"

definition erase_approvals :: "name \<Rightarrow> name \<Rightarrow> approval_table \<Rightarrow> msig_state \<Rightarrow> msig_state" where
  "erase_approvals proposer pname t s =
     (case t of
        New_table \<Rightarrow> s\<lparr>ms_approvals := erase_row (proposer, pname) (ms_approvals s)\<rparr>
      | Old_table \<Rightarrow> s\<lparr>ms_old_approvals := erase_row (proposer, pname) (ms_old_approvals s)\<rparr>)"

section \<open>Actions\<close>

definition propose ::
  "msig_host \<Rightarrow> ctx \<Rightarrow> name \<Rightarrow> name \<Rightarrow> permission_level list \<Rightarrow> bytes \<Rightarrow> msig_state \<Rightarrow> msig_state result"
where
  "propose h c proposer pname requested trx s =
     require_auth c proposer (
     bind_result (get_trx_header h trx) (\<lambda>trx_header.
     check (expiration trx_header \<ge> time_sec (ctx_now c)) ''transaction expired'' (
     some_or (unpack_context_free h trx) (Library ''unpack'') (\<lambda>context_free_actions.
     check (context_free_actions = [])
       ''not allowed to `propose` a transaction with context-free actions'' (
     check (find_row (ms_proposals s) (proposer, pname) = None)
       ''proposal with the same name exists'' (
     check (check_transaction_authorization h trx requested > 0)
       ''transaction authorization failed'' (
     let prop = \<lparr>proposal_name = pname, packed_transaction = trx, earliest_exec_time = Some None\<rparr>;
         row = \<lparr>ap_version = 1, ap_proposal_name = pname,
                requested_approvals = map (\<lambda>l. \<lparr>level = l, time = 0\<rparr>) requested,
                provided_approvals = []\<rparr> in
     bind_result (emplace_row proposer (proposer, pname) prop (ms_proposals s)) (\<lambda>ps.
     bind_result (emplace_row proposer (proposer, pname) row (ms_approvals s)) (\<lambda>aps.
     Inr (s\<lparr>ms_proposals := ps, ms_approvals := aps\<rparr>))))))))))"

text \<open>
  The first half of \<open>approve\<close> moves the level from the requested to the provided approvals, of
  the table that holds the proposal; the second half starts the delay when the approvals given
  authorise the transaction.
\<close>

definition move_to_provided ::
  "ctx \<Rightarrow> name \<Rightarrow> name \<Rightarrow> permission_level \<Rightarrow> msig_state \<Rightarrow> msig_state result" where
  "move_to_provided c proposer pname lvl s =
     (case find_row (ms_approvals s) (proposer, pname) of
        Some apps \<Rightarrow>
          check (list_ex (\<lambda>a. level a = lvl) (requested_approvals apps))
            ''approval is not on the list of requested approvals'' (
          Inr (s\<lparr>ms_approvals := modify_row (Some proposer) (proposer, pname)
            (apps\<lparr>provided_approvals := provided_approvals apps @ [\<lparr>level = lvl, time = ctx_now c\<rparr>],
                  requested_approvals := remove_first (\<lambda>a. level a = lvl) (requested_approvals apps)\<rparr>)
            (ms_approvals s)\<rparr>))
      | None \<Rightarrow>
          some_or (find_row (ms_old_approvals s) (proposer, pname)) (Check ''proposal not found'') (\<lambda>apps.
          check (List.member (old_requested apps) lvl)
            ''approval is not on the list of requested approvals'' (
          Inr (s\<lparr>ms_old_approvals := modify_row (Some proposer) (proposer, pname)
            (apps\<lparr>old_provided := old_provided apps @ [lvl],
                  old_requested := remove_first (\<lambda>l. l = lvl) (old_requested apps)\<rparr>)
            (ms_old_approvals s)\<rparr>))))"

definition set_earliest ::
  "name \<Rightarrow> name \<Rightarrow> proposal \<Rightarrow> int option \<Rightarrow> msig_state \<Rightarrow> msig_state" where
  "set_earliest proposer pname prop t s =
     s\<lparr>ms_proposals := modify_row (Some proposer) (proposer, pname)
        (prop\<lparr>earliest_exec_time := Some t\<rparr>) (ms_proposals s)\<rparr>"

definition approve ::
  "msig_host \<Rightarrow> ctx \<Rightarrow> name \<Rightarrow> name \<Rightarrow> permission_level \<Rightarrow> bytes option \<Rightarrow> msig_state \<Rightarrow> msig_state result"
where
  "approve h c proposer pname lvl proposal_hash s =
     require_auth_level c lvl (
     some_or (find_row (ms_proposals s) (proposer, pname)) (Check ''proposal not found'') (\<lambda>prop.
     check (case proposal_hash of None \<Rightarrow> True | Some x \<Rightarrow> sha256 h (packed_transaction prop) = x)
       ''hash mismatch'' (
     bind_result (move_to_provided c proposer pname lvl s) (\<lambda>s1.
     bind_result (get_trx_header h (packed_transaction prop)) (\<lambda>trx_header.
     case earliest_exec_time prop of
       Some None \<Rightarrow>
         bind_result (get_approvals_and_adjust_table proposer pname no_op s1) (\<lambda>(approvals, s2).
         Inr (if trx_is_authorized h approvals (packed_transaction prop)
              then set_earliest proposer pname prop
                     (Some (i64 (ctx_now c + i64 (delay_sec trx_header * 1000000)))) s2
              else s2))
     | Some (Some _) \<Rightarrow> Inr s1
     | None \<Rightarrow>
         check (delay_sec trx_header = 0)
           ''old proposals are not allowed to have non-zero `delay_sec`; cancel and retry''
           (Inr s1))))))"

definition move_to_requested ::
  "ctx \<Rightarrow> name \<Rightarrow> name \<Rightarrow> permission_level \<Rightarrow> msig_state \<Rightarrow> msig_state result" where
  "move_to_requested c proposer pname lvl s =
     (case find_row (ms_approvals s) (proposer, pname) of
        Some apps \<Rightarrow>
          check (list_ex (\<lambda>a. level a = lvl) (provided_approvals apps)) ''no approval previously granted'' (
          Inr (s\<lparr>ms_approvals := modify_row (Some proposer) (proposer, pname)
            (apps\<lparr>requested_approvals := requested_approvals apps @ [\<lparr>level = lvl, time = ctx_now c\<rparr>],
                  provided_approvals := remove_first (\<lambda>a. level a = lvl) (provided_approvals apps)\<rparr>)
            (ms_approvals s)\<rparr>))
      | None \<Rightarrow>
          some_or (find_row (ms_old_approvals s) (proposer, pname)) (Check ''proposal not found'') (\<lambda>apps.
          check (List.member (old_provided apps) lvl) ''no approval previously granted'' (
          Inr (s\<lparr>ms_old_approvals := modify_row (Some proposer) (proposer, pname)
            (apps\<lparr>old_requested := old_requested apps @ [lvl],
                  old_provided := remove_first (\<lambda>l. l = lvl) (old_provided apps)\<rparr>)
            (ms_old_approvals s)\<rparr>))))"

definition unapprove ::
  "msig_host \<Rightarrow> ctx \<Rightarrow> name \<Rightarrow> name \<Rightarrow> permission_level \<Rightarrow> msig_state \<Rightarrow> msig_state result" where
  "unapprove h c proposer pname lvl s =
     require_auth_level c lvl (
     bind_result (move_to_requested c proposer pname lvl s) (\<lambda>s1.
     some_or (find_row (ms_proposals s1) (proposer, pname)) (Check ''proposal not found'') (\<lambda>prop.
     case earliest_exec_time prop of
       Some (Some _) \<Rightarrow>
         bind_result (get_approvals_and_adjust_table proposer pname no_op s1) (\<lambda>(approvals, s2).
         Inr (if \<not> trx_is_authorized h approvals (packed_transaction prop)
              then set_earliest proposer pname prop None s2 else s2))
     | Some None \<Rightarrow> Inr s1
     | None \<Rightarrow>
         bind_result (get_trx_header h (packed_transaction prop)) (\<lambda>trx_header.
         check (delay_sec trx_header = 0)
           ''old proposals are not allowed to have non-zero `delay_sec`; cancel and retry''
           (Inr s1)))))"

definition cancel ::
  "msig_host \<Rightarrow> ctx \<Rightarrow> name \<Rightarrow> name \<Rightarrow> name \<Rightarrow> msig_state \<Rightarrow> msig_state result" where
  "cancel h c proposer pname canceler s =
     require_auth c canceler (
     some_or (find_row (ms_proposals s) (proposer, pname)) (Check ''proposal not found'') (\<lambda>prop.
     bind_result (if canceler \<noteq> proposer
                  then bind_result (get_trx_header h (packed_transaction prop)) (\<lambda>th.
                    check (expiration th < time_sec (ctx_now c)) ''cannot cancel until expiration'' (Inr ()))
                  else Inr ()) (\<lambda>_.
     let s1 = s\<lparr>ms_proposals := erase_row (proposer, pname) (ms_proposals s)\<rparr> in
     case find_row (ms_approvals s1) (proposer, pname) of
       Some _ \<Rightarrow> Inr (erase_approvals proposer pname New_table s1)
     | None \<Rightarrow>
         check (find_row (ms_old_approvals s1) (proposer, pname) \<noteq> None) ''proposal not found''
           (Inr (erase_approvals proposer pname Old_table s1)))))"

definition exec ::
  "msig_host \<Rightarrow> ctx \<Rightarrow> name \<Rightarrow> name \<Rightarrow> name \<Rightarrow> msig_state \<Rightarrow> msig_state result" where
  "exec h c proposer pname executer s =
     require_auth c executer (
     some_or (find_row (ms_proposals s) (proposer, pname)) (Check ''proposal not found'') (\<lambda>prop.
     bind_result (get_trx_header h (packed_transaction prop)) (\<lambda>trx_header.
     check (expiration trx_header \<ge> time_sec (ctx_now c)) ''transaction expired'' (
     some_or (unpack_context_free h (packed_transaction prop)) (Library ''unpack'') (\<lambda>context_free_actions.
     check (context_free_actions = [])
       ''not allowed to `exec` a transaction with context-free actions'' (
     some_or (unpack_actions h (packed_transaction prop)) (Library ''unpack'') (\<lambda>actions.
     bind_result (get_approvals_and_adjust_table proposer pname (erase_approvals proposer pname) s)
       (\<lambda>(approvals, s1).
     check (trx_is_authorized h approvals (packed_transaction prop)) ''transaction authorization failed'' (
     bind_result (case earliest_exec_time prop of
         Some (Some t) \<Rightarrow> check (t \<le> ctx_now c) ''too early to execute'' (Inr ())
       | _ \<Rightarrow> check (delay_sec trx_header = 0)
           ''old proposals are not allowed to have non-zero `delay_sec`; cancel and retry'' (Inr ()))
       (\<lambda>_.
     let s2 = s1\<lparr>ms_sent := ms_sent s1 @ actions\<rparr> in
     Inr (s2\<lparr>ms_proposals := erase_row (proposer, pname) (ms_proposals s2)\<rparr>)))))))))))"

definition invalidate :: "ctx \<Rightarrow> name \<Rightarrow> msig_state \<Rightarrow> msig_state result" where
  "invalidate c account s =
     require_auth c account (
     let t = ms_invalidations s; row = \<lparr>inv_account = account, last_invalidation_time = ctx_now c\<rparr> in
     case find_row t account of
       None \<Rightarrow> Inr (s\<lparr>ms_invalidations := put account account row t\<rparr>)
     | Some it \<Rightarrow> Inr (s\<lparr>ms_invalidations :=
         modify_row (Some account) account (it\<lparr>last_invalidation_time := ctx_now c\<rparr>) t\<rparr>))"

datatype msig_action =
    Propose name name "permission_level list" bytes
  | Approve name name permission_level "bytes option"
  | Unapprove name name permission_level
  | Cancel name name name
  | Exec name name name
  | Invalidate name

fun msig_step :: "msig_host \<Rightarrow> ctx \<times> msig_action \<Rightarrow> msig_state \<Rightarrow> msig_state result" where
  "msig_step h (c, Propose p n requested trx) s = propose h c p n requested trx s"
| "msig_step h (c, Approve p n lvl hash) s = approve h c p n lvl hash s"
| "msig_step h (c, Unapprove p n lvl) s = unapprove h c p n lvl s"
| "msig_step h (c, Cancel p n canceler) s = cancel h c p n canceler s"
| "msig_step h (c, Exec p n executer) s = exec h c p n executer s"
| "msig_step h (c, Invalidate account) s = invalidate c account s"

definition empty_msig :: msig_state where
  "empty_msig = \<lparr>ms_proposals = no_rows, ms_approvals = no_rows, ms_old_approvals = no_rows,
     ms_invalidations = no_rows, ms_sent = []\<rparr>"

section \<open>Approvals that count\<close>

text \<open>
  The levels that are put to the chain when a proposal is checked: those given and not
  invalidated since (for an old proposal, by accounts that never invalidated).
\<close>

definition counted_approvals :: "msig_state \<Rightarrow> name \<Rightarrow> name \<Rightarrow> permission_level list" where
  "counted_approvals s p n =
     (case find_row (ms_approvals s) (p, n) of
        Some row \<Rightarrow> map level (filter (still_valid s) (provided_approvals row))
      | None \<Rightarrow> (case find_row (ms_old_approvals s) (p, n) of
          Some row \<Rightarrow> filter (\<lambda>q. find_row (ms_invalidations s) (fst q) = None) (old_provided row)
        | None \<Rightarrow> []))"

lemma get_approvals_Inr:
  "get_approvals_and_adjust_table p n f s = Inr r \<longleftrightarrow>
     (find_row (ms_approvals s) (p, n) \<noteq> None \<or> find_row (ms_old_approvals s) (p, n) \<noteq> None) \<and>
     r = (counted_approvals s p n,
          f (if find_row (ms_approvals s) (p, n) \<noteq> None then New_table else Old_table) s)"
  by (auto simp: get_approvals_and_adjust_table_def counted_approvals_def split: option.splits)

lemma remove_first_subset: "set (remove_first P xs) \<subseteq> set xs"
  by (induction xs) auto

lemma remove_first_append: "list_ex P xs \<Longrightarrow> remove_first P (xs @ ys) = remove_first P xs @ ys"
  by (induction xs) auto

lemma remove_first_append2: "\<not> list_ex P xs \<Longrightarrow> remove_first P (xs @ ys) = xs @ remove_first P ys"
  by (induction xs) auto

lemma mset_remove_first_level:
  "list_ex (\<lambda>a. level a = l) xs \<Longrightarrow>
   mset (map level xs) = mset (map level (remove_first (\<lambda>a. level a = l) xs)) + {#l#}"
  by (induction xs) auto

section \<open>What one action does to one proposal\<close>

text \<open>
  \<open>move_to_provided\<close> and \<open>move_to_requested\<close> touch one row of one of the two approval tables.
\<close>

lemma move_to_provided_Inr:
  "move_to_provided c p n l s = Inr s' \<Longrightarrow>
   ms_proposals s' = ms_proposals s \<and> ms_invalidations s' = ms_invalidations s \<and> ms_sent s' = ms_sent s
   \<and> (\<forall>k. (find_row (ms_approvals s') k = None) = (find_row (ms_approvals s) k = None))
   \<and> (\<forall>k. (find_row (ms_old_approvals s') k = None) = (find_row (ms_old_approvals s) k = None))"
  by (auto simp: move_to_provided_def split: option.splits if_splits)

lemma move_to_requested_Inr:
  "move_to_requested c p n l s = Inr s' \<Longrightarrow>
   ms_proposals s' = ms_proposals s \<and> ms_invalidations s' = ms_invalidations s \<and> ms_sent s' = ms_sent s
   \<and> (\<forall>k. (find_row (ms_approvals s') k = None) = (find_row (ms_approvals s) k = None))
   \<and> (\<forall>k. (find_row (ms_old_approvals s') k = None) = (find_row (ms_old_approvals s) k = None))"
  by (auto simp: move_to_requested_def split: option.splits if_splits)

text \<open>The second half of \<open>approve\<close> and of \<open>unapprove\<close>, on the state after the first.\<close>

definition started_timer ::
  "msig_host \<Rightarrow> ctx \<Rightarrow> name \<Rightarrow> name \<Rightarrow> proposal \<Rightarrow> transaction_header \<Rightarrow> msig_state \<Rightarrow> msig_state" where
  "started_timer h c p n pr th s =
     (if earliest_exec_time pr = Some None
         \<and> trx_is_authorized h (counted_approvals s p n) (packed_transaction pr)
      then set_earliest p n pr (Some (i64 (ctx_now c + i64 (delay_sec th * 1000000)))) s
      else s)"

definition reset_timer ::
  "msig_host \<Rightarrow> name \<Rightarrow> name \<Rightarrow> proposal \<Rightarrow> msig_state \<Rightarrow> msig_state" where
  "reset_timer h p n pr s =
     (if earliest_exec_time pr \<noteq> None \<and> earliest_exec_time pr \<noteq> Some None
         \<and> \<not> trx_is_authorized h (counted_approvals s p n) (packed_transaction pr)
      then set_earliest p n pr None s else s)"

lemma approve_Inr:
  assumes "approve h c p n l x s = Inr s'"
  obtains pr s1 th where
    "l \<in> set (ctx_auths c)" "find_row (ms_proposals s) (p, n) = Some pr"
    "case x of None \<Rightarrow> True | Some d \<Rightarrow> sha256 h (packed_transaction pr) = d"
    "move_to_provided c p n l s = Inr s1"
    "unpack_header h (packed_transaction pr) = Some th"
    "s' = started_timer h c p n pr th s1"
proof -
  from assms obtain pr s1 th where pr: "l \<in> set (ctx_auths c)"
    "find_row (ms_proposals s) (p, n) = Some pr"
    "case x of None \<Rightarrow> True | Some d \<Rightarrow> sha256 h (packed_transaction pr) = d"
    "move_to_provided c p n l s = Inr s1" "unpack_header h (packed_transaction pr) = Some th"
    and rest: "(case earliest_exec_time pr of
       Some None \<Rightarrow>
         bind_result (get_approvals_and_adjust_table p n no_op s1) (\<lambda>(approvals, s2).
         Inr (if trx_is_authorized h approvals (packed_transaction pr)
              then set_earliest p n pr (Some (i64 (ctx_now c + i64 (delay_sec th * 1000000)))) s2
              else s2))
     | Some (Some _) \<Rightarrow> Inr s1
     | None \<Rightarrow> check (delay_sec th = 0)
           ''old proposals are not allowed to have non-zero `delay_sec`; cancel and retry''
           (Inr s1)) = Inr s'"
    by (auto simp: approve_def get_trx_header_def)
  have "s' = started_timer h c p n pr th s1"
    using rest by (cases "earliest_exec_time pr")
      (auto simp: started_timer_def get_approvals_Inr no_op_def split: option.splits if_splits)
  with pr show thesis by (rule that)
qed

lemma unapprove_Inr:
  assumes "unapprove h c p n l s = Inr s'"
  obtains pr s1 where
    "l \<in> set (ctx_auths c)" "find_row (ms_proposals s) (p, n) = Some pr"
    "move_to_requested c p n l s = Inr s1" "s' = reset_timer h p n pr s1"
proof -
  from assms obtain pr s1 where pr: "l \<in> set (ctx_auths c)" "move_to_requested c p n l s = Inr s1"
    "find_row (ms_proposals s1) (p, n) = Some pr"
    and rest: "(case earliest_exec_time pr of
       Some (Some _) \<Rightarrow>
         bind_result (get_approvals_and_adjust_table p n no_op s1) (\<lambda>(approvals, s2).
         Inr (if \<not> trx_is_authorized h approvals (packed_transaction pr)
              then set_earliest p n pr None s2 else s2))
     | Some None \<Rightarrow> Inr s1
     | None \<Rightarrow>
         bind_result (get_trx_header h (packed_transaction pr)) (\<lambda>trx_header.
         check (delay_sec trx_header = 0)
           ''old proposals are not allowed to have non-zero `delay_sec`; cancel and retry''
           (Inr s1))) = Inr s'"
    by (auto simp: unapprove_def)
  have "s' = reset_timer h p n pr s1"
    using rest by (cases "earliest_exec_time pr")
      (auto simp: reset_timer_def get_approvals_Inr no_op_def split: option.splits if_splits)
  then show thesis using pr move_to_requested_Inr [OF pr(2)] by (auto intro: that)
qed

lemma cancel_Inr:
  assumes "cancel h c p n who s = Inr s'"
  shows "has_auth c who \<and> (\<exists>pr. find_row (ms_proposals s) (p, n) = Some pr \<and>
      (who \<noteq> p \<longrightarrow> (\<exists>th. unpack_header h (packed_transaction pr) = Some th
         \<and> expiration th < time_sec (ctx_now c)))) \<and>
    (find_row (ms_approvals s) (p, n) \<noteq> None \<or> find_row (ms_old_approvals s) (p, n) \<noteq> None) \<and>
    s' = erase_approvals p n (if find_row (ms_approvals s) (p, n) \<noteq> None then New_table else Old_table)
           (s\<lparr>ms_proposals := erase_row (p, n) (ms_proposals s)\<rparr>)"
  using assms
  by (auto simp: cancel_def get_trx_header_def Let_def split: option.splits if_splits)

lemma exec_timing:
  "(case e of Some (Some t) \<Rightarrow> check (t \<le> m) x (Inr ()) | _ \<Rightarrow> check d y (Inr ())) = Inr u \<longleftrightarrow>
   (case e of Some (Some t) \<Rightarrow> t \<le> m | _ \<Rightarrow> d)"
  by (cases e) (auto split: option.splits)

lemma exec_Inr:
  assumes "exec h c p n who s = Inr s'"
  obtains pr th acts where
    "has_auth c who" "find_row (ms_proposals s) (p, n) = Some pr"
    "unpack_header h (packed_transaction pr) = Some th"
    "time_sec (ctx_now c) \<le> expiration th"
    "unpack_context_free h (packed_transaction pr) = Some []"
    "unpack_actions h (packed_transaction pr) = Some acts"
    "trx_is_authorized h (counted_approvals s p n) (packed_transaction pr)"
    "case earliest_exec_time pr of Some (Some t) \<Rightarrow> t \<le> ctx_now c | _ \<Rightarrow> delay_sec th = 0"
    "find_row (ms_approvals s) (p, n) \<noteq> None \<or> find_row (ms_old_approvals s) (p, n) \<noteq> None"
    "s' = (erase_approvals p n (if find_row (ms_approvals s) (p, n) \<noteq> None then New_table else Old_table) s)
       \<lparr>ms_sent := ms_sent s @ acts, ms_proposals := erase_row (p, n) (ms_proposals s)\<rparr>"
  using assms
  by (auto simp: exec_def get_trx_header_def get_approvals_Inr Let_def erase_approvals_def exec_timing
      split: if_splits)

lemma propose_Inr:
  "propose h c p n req trx s = Inr s' \<longleftrightarrow>
   has_auth c p \<and> (\<exists>th. unpack_header h trx = Some th \<and> time_sec (ctx_now c) \<le> expiration th) \<and>
   unpack_context_free h trx = Some [] \<and> find_row (ms_proposals s) (p, n) = None \<and>
   find_row (ms_approvals s) (p, n) = None \<and> 0 < check_transaction_authorization h trx req \<and>
   s' = s\<lparr>ms_proposals := put (p, n) p
            \<lparr>proposal_name = n, packed_transaction = trx, earliest_exec_time = Some None\<rparr> (ms_proposals s),
          ms_approvals := put (p, n) p
            \<lparr>ap_version = 1, ap_proposal_name = n,
             requested_approvals = map (\<lambda>l. \<lparr>level = l, time = 0\<rparr>) req,
             provided_approvals = []\<rparr> (ms_approvals s)\<rparr>"
  by (auto simp: propose_def get_trx_header_def Let_def)

section \<open>Histories\<close>

text \<open>
  What a history of pushed actions, from the empty contract, leaves behind: every approval that
  is on record was pushed by someone who signed with that level, at the time recorded; a running
  delay was started by an approval; and the tables agree on which proposals exist.
\<close>

definition granted ::
  "(ctx \<times> msig_action) set \<Rightarrow> name \<Rightarrow> name \<Rightarrow> permission_level \<Rightarrow> int \<Rightarrow> bool" where
  "granted A p n l t \<longleftrightarrow>
     (\<exists>c x. (c, Approve p n l x) \<in> A \<and> l \<in> set (ctx_auths c) \<and> ctx_now c = t)"

definition timer_from ::
  "msig_host \<Rightarrow> (ctx \<times> msig_action) set \<Rightarrow> name \<Rightarrow> name \<Rightarrow> bytes \<Rightarrow> int \<Rightarrow> bool" where
  "timer_from h A p n trx t \<longleftrightarrow>
     (\<exists>c l x th. (c, Approve p n l x) \<in> A \<and> l \<in> set (ctx_auths c) \<and> unpack_header h trx = Some th
        \<and> t = i64 (ctx_now c + i64 (delay_sec th * 1000000)))"

definition not_proposing :: "name \<Rightarrow> name \<Rightarrow> ctx \<times> msig_action \<Rightarrow> bool" where
  "not_proposing p n a \<longleftrightarrow> (case snd a of Propose q m _ _ \<Rightarrow> q \<noteq> p \<or> m \<noteq> n | _ \<Rightarrow> True)"

definition approvals_granted :: "(ctx \<times> msig_action) set \<Rightarrow> name \<Rightarrow> name \<Rightarrow> msig_state \<Rightarrow> bool" where
  "approvals_granted A p n s \<longleftrightarrow>
     (\<forall>row. find_row (ms_approvals s) (p, n) = Some row \<longrightarrow>
        (\<forall>a \<in> set (provided_approvals row). granted A p n (level a) (time a)))"

definition timer_started ::
  "msig_host \<Rightarrow> (ctx \<times> msig_action) set \<Rightarrow> name \<Rightarrow> name \<Rightarrow> bytes \<Rightarrow> msig_state \<Rightarrow> bool" where
  "timer_started h A p n trx s \<longleftrightarrow>
     (\<forall>pr. find_row (ms_proposals s) (p, n) = Some pr \<longrightarrow>
        packed_transaction pr = trx \<and> earliest_exec_time pr \<noteq> None \<and>
        (\<forall>t. earliest_exec_time pr = Some (Some t) \<longrightarrow> timer_from h A p n trx t))"

definition tables_agree :: "msig_state \<Rightarrow> bool" where
  "tables_agree s \<longleftrightarrow>
     (\<forall>k. find_row (ms_old_approvals s) k = None) \<and>
     (\<forall>k. find_row (ms_proposals s) k = None \<longleftrightarrow> find_row (ms_approvals s) k = None)"

lemma find_set_earliest:
  "find_row (ms_proposals (set_earliest p n pr t s)) k =
     (if k = (p, n) \<and> find_row (ms_proposals s) k \<noteq> None
      then Some (pr\<lparr>earliest_exec_time := Some t\<rparr>) else find_row (ms_proposals s) k)"
  "ms_approvals (set_earliest p n pr t s) = ms_approvals s"
  "ms_old_approvals (set_earliest p n pr t s) = ms_old_approvals s"
  "ms_invalidations (set_earliest p n pr t s) = ms_invalidations s"
  "ms_sent (set_earliest p n pr t s) = ms_sent s"
  by (auto simp: set_earliest_def)

lemma timer_frames:
  "ms_approvals (started_timer h c p n pr th s) = ms_approvals s"
  "ms_old_approvals (started_timer h c p n pr th s) = ms_old_approvals s"
  "(find_row (ms_proposals (started_timer h c p n pr th s)) k = None) = (find_row (ms_proposals s) k = None)"
  "ms_invalidations (started_timer h c p n pr th s) = ms_invalidations s"
  "ms_sent (started_timer h c p n pr th s) = ms_sent s"
  "ms_approvals (reset_timer h p n pr s) = ms_approvals s"
  "ms_old_approvals (reset_timer h p n pr s) = ms_old_approvals s"
  "(find_row (ms_proposals (reset_timer h p n pr s)) k = None) = (find_row (ms_proposals s) k = None)"
  "ms_invalidations (reset_timer h p n pr s) = ms_invalidations s"
  "ms_sent (reset_timer h p n pr s) = ms_sent s"
  by (auto simp: started_timer_def reset_timer_def find_set_earliest)

lemma erase_approvals_simps:
  "find_row (ms_approvals (erase_approvals p n t s)) k =
     (if t = New_table \<and> k = (p, n) then None else find_row (ms_approvals s) k)"
  "find_row (ms_old_approvals (erase_approvals p n t s)) k =
     (if t = Old_table \<and> k = (p, n) then None else find_row (ms_old_approvals s) k)"
  "ms_proposals (erase_approvals p n t s) = ms_proposals s"
  "ms_invalidations (erase_approvals p n t s) = ms_invalidations s"
  "ms_sent (erase_approvals p n t s) = ms_sent s"
  by (cases t; simp add: erase_approvals_def)+

lemma tables_agree_step:
  assumes ok: "tables_agree s" and run: "msig_step h (c, act) s = Inr s'"
  shows "tables_agree s'"
proof (cases act)
  case (Propose p n req trx)
  then show ?thesis using run ok by (auto simp: propose_Inr tables_agree_def)
next
  case (Approve p n l x)
  then have "approve h c p n l x s = Inr s'" using run by simp
  then obtain pr s1 th where "move_to_provided c p n l s = Inr s1" "s' = started_timer h c p n pr th s1"
    by (rule approve_Inr)
  then show ?thesis
    using ok move_to_provided_Inr [of c p n l s s1] by (simp add: tables_agree_def timer_frames)
next
  case (Unapprove p n l)
  then have "unapprove h c p n l s = Inr s'" using run by simp
  then obtain pr s1 where "move_to_requested c p n l s = Inr s1" "s' = reset_timer h p n pr s1"
    by (rule unapprove_Inr)
  then show ?thesis
    using ok move_to_requested_Inr [of c p n l s s1] by (simp add: tables_agree_def timer_frames)
next
  case (Cancel p n who)
  then show ?thesis
    using ok cancel_Inr [of h c p n who s s'] run
    by (auto simp: tables_agree_def erase_approvals_simps)
next
  case (Exec p n who)
  then have "exec h c p n who s = Inr s'" using run by simp
  then show ?thesis
    by (rule exec_Inr) (use ok in \<open>auto simp: tables_agree_def erase_approvals_simps\<close>)
next
  case (Invalidate a)
  then show ?thesis
    using run ok by (auto simp: invalidate_def Let_def tables_agree_def split: option.splits)
qed

lemma move_to_provided_granted:
  assumes ok: "approvals_granted A p n s" and run: "move_to_provided c q m l s = Inr s1"
    and "(c, Approve q m l x) \<in> A" and "l \<in> set (ctx_auths c)"
  shows "approvals_granted A p n s1"
  using assms unfolding approvals_granted_def
  by (auto simp: move_to_provided_def granted_def split: option.splits if_splits) blast+

lemma move_to_requested_granted:
  assumes ok: "approvals_granted A p n s" and run: "move_to_requested c q m l s = Inr s1"
  shows "approvals_granted A p n s1"
  using assms unfolding approvals_granted_def
  by (auto simp: move_to_requested_def dest!: subsetD [OF remove_first_subset] split: option.splits if_splits)

lemma approvals_granted_step:
  assumes ok: "approvals_granted A p n s" and run: "msig_step h (c, act) s = Inr s'" and mem: "(c, act) \<in> A"
  shows "approvals_granted A p n s'"
proof (cases act)
  case (Propose q m req trx)
  then show ?thesis using run ok by (auto simp: propose_Inr approvals_granted_def)
next
  case (Approve q m l x)
  then have "approve h c q m l x s = Inr s'" using run by simp
  then obtain pr s1 th where l: "l \<in> set (ctx_auths c)" and s1: "move_to_provided c q m l s = Inr s1"
    and s': "s' = started_timer h c q m pr th s1"
    by (rule approve_Inr)
  show ?thesis
    using move_to_provided_granted [OF ok s1 _ l] mem Approve
    by (simp add: approvals_granted_def timer_frames s')
next
  case (Unapprove q m l)
  then have "unapprove h c q m l s = Inr s'" using run by simp
  then obtain pr s1 where s1: "move_to_requested c q m l s = Inr s1" and s': "s' = reset_timer h q m pr s1"
    by (rule unapprove_Inr)
  show ?thesis
    using move_to_requested_granted [OF ok s1] by (simp add: approvals_granted_def timer_frames s')
next
  case (Cancel q m who)
  then show ?thesis
    using ok cancel_Inr [of h c q m who s s'] run
    by (auto simp: approvals_granted_def erase_approvals_simps split: if_splits)
next
  case (Exec q m who)
  then have "exec h c q m who s = Inr s'" using run by simp
  then show ?thesis
    by (rule exec_Inr)
       (use ok in \<open>auto simp: approvals_granted_def erase_approvals_simps split: if_splits\<close>)
next
  case (Invalidate a)
  then show ?thesis
    using run ok by (auto simp: invalidate_def Let_def approvals_granted_def split: option.splits)
qed

lemma timer_started_step:
  assumes ok: "timer_started h A p n trx s" and run: "msig_step h (c, act) s = Inr s'"
    and mem: "(c, act) \<in> A" and other: "not_proposing p n (c, act)"
  shows "timer_started h A p n trx s'"
proof (cases act)
  case (Propose q m req b)
  then show ?thesis using run ok other by (auto simp: propose_Inr timer_started_def not_proposing_def)
next
  case (Approve q m l x)
  then have "approve h c q m l x s = Inr s'" using run by simp
  then obtain pr s1 th where l: "l \<in> set (ctx_auths c)"
    and pr: "find_row (ms_proposals s) (q, m) = Some pr" "unpack_header h (packed_transaction pr) = Some th"
    and move: "move_to_provided c q m l s = Inr s1" and s': "s' = started_timer h c q m pr th s1"
    by (rule approve_Inr)
  have ps: "ms_proposals s1 = ms_proposals s" using move_to_provided_Inr [OF move] by blast
  have "timer_from h A q m (packed_transaction pr) (i64 (ctx_now c + i64 (delay_sec th * 1000000)))"
    using l pr mem Approve unfolding timer_from_def by blast
  then show ?thesis
    using ok ps pr unfolding timer_started_def s' started_timer_def
    by (auto simp: find_set_earliest)
next
  case (Unapprove q m l)
  then have "unapprove h c q m l s = Inr s'" using run by simp
  then obtain pr s1 where pr: "find_row (ms_proposals s) (q, m) = Some pr"
    and move: "move_to_requested c q m l s = Inr s1" and s': "s' = reset_timer h q m pr s1"
    by (rule unapprove_Inr)
  have "ms_proposals s1 = ms_proposals s" using move_to_requested_Inr [OF move] by blast
  then show ?thesis
    using ok pr unfolding timer_started_def s' reset_timer_def by (auto simp: find_set_earliest)
next
  case (Cancel q m who)
  then show ?thesis
    using ok cancel_Inr [of h c q m who s s'] run
    by (auto simp: timer_started_def erase_approvals_simps)
next
  case (Exec q m who)
  then have "exec h c q m who s = Inr s'" using run by simp
  then show ?thesis
    by (rule exec_Inr) (use ok in \<open>auto simp: timer_started_def\<close>)
next
  case (Invalidate a)
  then show ?thesis
    using run ok by (auto simp: invalidate_def Let_def timer_started_def split: option.splits)
qed

interpretation msig_tables: contract_machine "msig_step h" "\<lambda>_. True" tables_agree for h
  by unfold_locales (auto intro: tables_agree_step)

lemma tables_agree_empty: "tables_agree empty_msig"
  by (simp add: tables_agree_def empty_msig_def)

lemma tables_agree_run: "tables_agree (run (msig_step h) as empty_msig)"
  by (rule msig_tables.run_inv) (simp_all add: list_all_iff tables_agree_empty)

text \<open>
  \<open>since_proposal\<close>: what is on record of a proposal comes from the actions \<open>A\<close>, which followed its
  \<open>propose\<close>; \<open>proposed\<close>: the history holds that \<open>propose\<close>, of exactly the recorded transaction.
\<close>

definition since_proposal ::
  "msig_host \<Rightarrow> (ctx \<times> msig_action) set \<Rightarrow> name \<Rightarrow> name \<Rightarrow> bytes \<Rightarrow> msig_state \<Rightarrow> bool" where
  "since_proposal h A p n trx s \<longleftrightarrow> approvals_granted A p n s \<and> timer_started h A p n trx s"

lemma since_proposal_step:
  "since_proposal h A p n trx s \<Longrightarrow> msig_step h a s = Inr s' \<Longrightarrow> a \<in> A \<Longrightarrow> not_proposing p n a \<Longrightarrow>
   since_proposal h A p n trx s'"
  by (cases a) (auto simp: since_proposal_def intro: approvals_granted_step timer_started_step)

lemma since_proposal_mono:
  "since_proposal h A p n trx s \<Longrightarrow> A \<subseteq> B \<Longrightarrow> since_proposal h B p n trx s"
  unfolding since_proposal_def approvals_granted_def timer_started_def granted_def timer_from_def by blast

definition proposed ::
  "msig_host \<Rightarrow> (ctx \<times> msig_action) list \<Rightarrow> name \<Rightarrow> name \<Rightarrow> bytes \<Rightarrow> (ctx \<times> msig_action) list \<Rightarrow> bool" where
  "proposed h as p n trx later \<longleftrightarrow>
     (\<exists>earlier c req. as = earlier @ (c, Propose p n req trx) # later \<and> has_auth c p
        \<and> 0 < check_transaction_authorization h trx req \<and> unpack_context_free h trx = Some [])"

lemma proposed_snoc: "proposed h as p n trx later \<Longrightarrow> proposed h (as @ [a]) p n trx (later @ [a])"
  unfolding proposed_def by force

definition backed :: "msig_host \<Rightarrow> (ctx \<times> msig_action) list \<Rightarrow> name \<Rightarrow> name \<Rightarrow> msig_state \<Rightarrow> bool" where
  "backed h as p n s \<longleftrightarrow> find_row (ms_proposals s) (p, n) \<noteq> None \<longrightarrow>
     (\<exists>trx later. proposed h as p n trx later \<and> since_proposal h (set later) p n trx s)"

text \<open>Without a new \<open>propose\<close> a proposal that is gone stays gone.\<close>

lemma gone_step:
  assumes gone: "find_row (ms_proposals s) (p, n) = None" and run: "msig_step h (c, act) s = Inr s'"
    and other: "not_proposing p n (c, act)"
  shows "find_row (ms_proposals s') (p, n) = None"
proof (cases act)
  case (Propose q m req trx)
  then show ?thesis using run gone other by (auto simp: propose_Inr not_proposing_def)
next
  case (Approve q m l x)
  then have "approve h c q m l x s = Inr s'" using run by simp
  then show ?thesis
    by (rule approve_Inr) (use gone move_to_provided_Inr in \<open>auto simp: timer_frames\<close>)
next
  case (Unapprove q m l)
  then have "unapprove h c q m l s = Inr s'" using run by simp
  then show ?thesis
    by (rule unapprove_Inr) (use gone move_to_requested_Inr in \<open>auto simp: timer_frames\<close>)
next
  case (Cancel q m who)
  then show ?thesis
    using gone cancel_Inr [of h c q m who s s'] run by (auto simp: erase_approvals_simps)
next
  case (Exec q m who)
  then have "exec h c q m who s = Inr s'" using run by simp
  then show ?thesis by (rule exec_Inr) (use gone in auto)
next
  case (Invalidate a)
  then show ?thesis using run gone by (auto simp: invalidate_def Let_def split: option.splits)
qed

interpretation msig_gone: contract_machine "msig_step h" "not_proposing p n"
    "\<lambda>s. find_row (ms_proposals s) (p, n) = None" for h p n
  by unfold_locales (auto dest: gone_step)

lemma backed_step:
  assumes ok: "backed h as p n s" and run: "msig_step h a s = Inr s'"
  shows "backed h (as @ [a]) p n s'"
proof (cases "not_proposing p n a")
  case other: True
  show ?thesis
  proof (cases "find_row (ms_proposals s) (p, n)")
    case None
    then show ?thesis
      using gone_step [of s p n h "fst a" "snd a" s'] run other by (simp add: backed_def)
  next
    case (Some pr)
    then obtain trx later where later: "proposed h as p n trx later"
      "since_proposal h (set later) p n trx s"
      using ok by (auto simp: backed_def)
    have "since_proposal h (set (later @ [a])) p n trx s'"
      by (rule since_proposal_step [OF _ run _ other])
         (auto intro: since_proposal_mono [OF later(2)])
    then show ?thesis using proposed_snoc [OF later(1)] unfolding backed_def by blast
  qed
next
  case False
  then obtain c req trx where a: "a = (c, Propose p n req trx)"
    by (cases a) (auto simp: not_proposing_def split: msig_action.splits)
  have "proposed h (as @ [a]) p n trx []" "since_proposal h (set []) p n trx s'"
    using run by (auto simp: a propose_Inr proposed_def since_proposal_def approvals_granted_def
        timer_started_def)
  then show ?thesis unfolding backed_def by blast
qed

lemma backed_idle:
  assumes ok: "backed h as p n s"
  shows "backed h (as @ [a]) p n s"
proof -
  have "since_proposal h (set later) p n trx s \<Longrightarrow> since_proposal h (set (later @ [a])) p n trx s"
    for later trx
    by (rule since_proposal_mono) auto
  then show ?thesis using ok proposed_snoc unfolding backed_def by blast
qed

lemma backed_run: "backed h as p n (run (msig_step h) as empty_msig)"
proof (induction as rule: rev_induct)
  case Nil
  then show ?case by (simp add: backed_def empty_msig_def)
next
  case (snoc a as)
  then show ?case
    by (cases "msig_step h a (run (msig_step h) as empty_msig)")
       (simp_all add: run_append backed_step backed_idle)
qed

text \<open>The invalidations table holds the time of the last \<open>invalidate\<close> that its account signed.\<close>

definition invalidations_of :: "name \<Rightarrow> (ctx \<times> msig_action) list \<Rightarrow> int list" where
  "invalidations_of a as = map (\<lambda>x. ctx_now (fst x)) (filter (\<lambda>x. snd x = Invalidate a \<and> has_auth (fst x) a) as)"

lemma invalidations_step:
  assumes "msig_step h (c, act) s = Inr s'"
  shows "map_option last_invalidation_time (find_row (ms_invalidations s') a) =
    (if act = Invalidate a then Some (ctx_now c)
     else map_option last_invalidation_time (find_row (ms_invalidations s) a)) \<and>
    (act = Invalidate a \<longrightarrow> has_auth c a)"
proof (cases act)
  case (Propose q m req b)
  then show ?thesis using assms by (auto simp: propose_Inr)
next
  case (Approve q m l x)
  then have "approve h c q m l x s = Inr s'" using assms by simp
  then show ?thesis
    by (rule approve_Inr) (use Approve move_to_provided_Inr in \<open>auto simp: timer_frames\<close>)
next
  case (Unapprove q m l)
  then have "unapprove h c q m l s = Inr s'" using assms by simp
  then show ?thesis
    by (rule unapprove_Inr) (use Unapprove move_to_requested_Inr in \<open>auto simp: timer_frames\<close>)
next
  case (Cancel q m who)
  then show ?thesis using cancel_Inr [of h c q m who s s'] assms by (auto simp: erase_approvals_simps)
next
  case (Exec q m who)
  then have "exec h c q m who s = Inr s'" using assms by simp
  then show ?thesis by (rule exec_Inr) (use Exec in \<open>auto simp: erase_approvals_simps\<close>)
next
  case (Invalidate b)
  then show ?thesis
    using assms by (auto simp: invalidate_def Let_def split: option.splits)
qed

lemma invalidations_run:
  "map_option last_invalidation_time (find_row (ms_invalidations (run (msig_step h) as empty_msig)) a) =
   (if invalidations_of a as = [] then None else Some (last (invalidations_of a as)))"
proof (induction as rule: rev_induct)
  case Nil
  then show ?case by (simp add: empty_msig_def invalidations_of_def)
next
  case (snoc x as)
  obtain c act where x: "x = (c, act)" by (cases x)
  let ?s = "run (msig_step h) as empty_msig"
  show ?case
  proof (cases "msig_step h x ?s")
    case (Inl e)
    then have "\<not> (act = Invalidate a \<and> has_auth c a)"
      by (auto simp: x invalidate_def require_auth_def Let_def split: option.splits if_splits)
    then show ?thesis using snoc Inl by (auto simp: run_append x invalidations_of_def)
  next
    case (Inr s')
    then show ?thesis
      using snoc invalidations_step [of h c act ?s s' a]
      by (auto simp: run_append x invalidations_of_def)
  qed
qed

section \<open>Properties\<close>

text \<open>An approval of \<open>l\<close> given in \<open>as\<close> after the last invalidation of its account in \<open>all\<close>.\<close>

definition approved_and_valid ::
  "(ctx \<times> msig_action) list \<Rightarrow> (ctx \<times> msig_action) list \<Rightarrow> name \<Rightarrow> name \<Rightarrow> permission_level \<Rightarrow> bool" where
  "approved_and_valid all as p n l \<longleftrightarrow>
     (\<exists>t. granted (set as) p n l t \<and>
        (invalidations_of (fst l) all = [] \<or> last (invalidations_of (fst l) all) < t))"

lemma counted_are_approved:
  assumes s: "s = run (msig_step h) as empty_msig" and since: "approvals_granted (set later) p n s"
    and l: "l \<in> set (counted_approvals s p n)"
  shows "approved_and_valid as later p n l"
proof -
  have "tables_agree s" unfolding s by (rule tables_agree_run)
  then obtain row where row: "find_row (ms_approvals s) (p, n) = Some row"
    using l by (auto simp: counted_approvals_def tables_agree_def split: option.splits)
  then obtain a where a: "a \<in> set (provided_approvals row)" "still_valid s a" "l = level a"
    using l by (auto simp: counted_approvals_def)
  have "granted (set later) p n l (time a)"
    using since row a by (simp add: approvals_granted_def)
  moreover have "invalidations_of (fst l) as = [] \<or> last (invalidations_of (fst l) as) < time a"
    using a(2,3) invalidations_run [of h as "fst l"]
    by (auto simp: still_valid_def s split: option.splits if_splits)
  ultimately show ?thesis unfolding approved_and_valid_def by blast
qed

text \<open>
  C10: after every history of pushed actions, \<open>exec\<close> runs exactly the actions of the transaction
  that the proposer put up under that name, not expired, and only when the chain accepts it on
  the authority of permission levels each of which approved it after it was proposed (a signed
  \<open>approve\<close> in the history), with no later \<open>invalidate\<close> of that level's account.
\<close>

theorem exec_is_approved:
  assumes "s = run (msig_step h) as empty_msig" and "exec h c p n who s = Inr s'"
  shows "\<exists>trx later acts levels th. proposed h as p n trx later \<and>
    unpack_actions h trx = Some acts \<and> ms_sent s' = ms_sent s @ acts \<and>
    unpack_header h trx = Some th \<and> time_sec (ctx_now c) \<le> expiration th \<and>
    check_transaction_authorization h trx levels \<noteq> 0 \<and>
    (\<forall>l \<in> set levels. approved_and_valid as later p n l)"
proof -
  obtain pr th acts where pr: "find_row (ms_proposals s) (p, n) = Some pr"
    and th: "unpack_header h (packed_transaction pr) = Some th" "time_sec (ctx_now c) \<le> expiration th"
    and acts: "unpack_actions h (packed_transaction pr) = Some acts"
    and auth: "trx_is_authorized h (counted_approvals s p n) (packed_transaction pr)"
    and s': "s' = (erase_approvals p n
        (if find_row (ms_approvals s) (p, n) \<noteq> None then New_table else Old_table) s)
        \<lparr>ms_sent := ms_sent s @ acts, ms_proposals := erase_row (p, n) (ms_proposals s)\<rparr>"
    using assms(2) by (rule exec_Inr)
  obtain trx later where later: "proposed h as p n trx later" "since_proposal h (set later) p n trx s"
    using backed_run [of h as p n] pr unfolding backed_def assms(1) by blast
  have "packed_transaction pr = trx" using later(2) pr by (simp add: since_proposal_def timer_started_def)
  moreover have "\<forall>l \<in> set (counted_approvals s p n). approved_and_valid as later p n l"
    using counted_are_approved [OF assms(1)] later(2) by (simp add: since_proposal_def)
  ultimately show ?thesis
    using later(1) th acts auth s' by (auto simp: trx_is_authorized_def)
qed

text \<open>
  A host for the witnesses: every byte string is a transaction of one action, which asks for the
  permission (2, 1), expires at second 100 and has the delay given.
\<close>

definition sample_host :: "int \<Rightarrow> msig_host" where
  "sample_host d = \<lparr>unpack_header = (\<lambda>b. Some \<lparr>expiration = 100, delay_sec = d\<rparr>),
     unpack_context_free = (\<lambda>b. Some []),
     unpack_actions = (\<lambda>b. Some [\<lparr>act_account = 9, act_name = 8, act_authorization = [(2, 1)], act_data = b\<rparr>]),
     check_transaction_authorization = (\<lambda>b ls. if List.member ls (2, 1) then 1 else 0),
     sha256 = (\<lambda>b. b)\<rparr>"

definition at_time :: "int \<Rightarrow> name list \<Rightarrow> ctx" where
  "at_time t signers = (sample_ctx 7 signers)\<lparr>ctx_now := t\<rparr>"

lemma at_time_simps [simp]: "ctx_now (at_time t ns) = t"
  "ctx_auths (at_time t ns) = map (\<lambda>n. (n, 1)) ns"
  "has_auth (at_time t ns) n \<longleftrightarrow> n \<in> set ns"
  by (auto simp: at_time_def sample_ctx_def has_auth_def list_ex_iff)

definition sample_approved :: "(ctx \<times> msig_action) list" where
  "sample_approved =
     [(at_time 0 [1], Propose 1 5 [(2, 1)] [42]), (at_time 1000000 [2], Approve 1 5 (2, 1) None)]"

lemmas msig_defs = propose_def approve_def unapprove_def exec_def invalidate_def cancel_def
  move_to_provided_def move_to_requested_def get_approvals_and_adjust_table_def get_trx_header_def
  trx_is_authorized_def still_valid_def no_op_def erase_approvals_def set_earliest_def
  emplace_row_def modify_row_def require_auth_def require_auth_level_def

lemmas sample_msig = sample_approved_def sample_host_def empty_msig_def msig_defs
  time_sec_def Let_def

lemma sample_exec:
  "\<exists>s'. exec (sample_host 5) (at_time 6000000 [3]) 1 5 3
      (run (msig_step (sample_host 5)) sample_approved empty_msig) = Inr s' \<and>
    map act_data (ms_sent s') = [[42]]"
  by (simp add: sample_msig sdiv_nonneg)

theorem exec_is_approved_witness:
  "\<exists>later levels. check_transaction_authorization (sample_host 5) [42] levels \<noteq> 0 \<and>
    (\<forall>l \<in> set levels. approved_and_valid sample_approved later 1 5 l)"
proof -
  obtain s' where s': "exec (sample_host 5) (at_time 6000000 [3]) 1 5 3
      (run (msig_step (sample_host 5)) sample_approved empty_msig) = Inr s'"
    using sample_exec by blast
  obtain trx later acts levels th where "proposed (sample_host 5) sample_approved 1 5 trx later"
    "check_transaction_authorization (sample_host 5) trx levels \<noteq> 0"
    "\<forall>l \<in> set levels. approved_and_valid sample_approved later 1 5 l"
    using exec_is_approved [OF refl s'] by blast
  moreover from this(1) have "trx = [42]"
    by (auto simp: proposed_def sample_approved_def Cons_eq_append_conv)
  ultimately show ?thesis by blast
qed

text \<open>
  C11: a transaction is executed at most once: after a successful \<open>exec\<close> of a proposal no history
  without a new \<open>propose\<close> of that name, whatever else is pushed, lets it be executed again.
\<close>

theorem executed_once:
  assumes "exec h c p n who s = Inr s'" and "list_all (not_proposing p n) as"
  shows "\<not> is_ok (exec h d p n other (run (msig_step h) as s'))"
proof -
  have "find_row (ms_proposals s') (p, n) = None"
    using assms(1) by (rule exec_Inr) simp
  then have gone: "find_row (ms_proposals (run (msig_step h) as s')) (p, n) = None"
    by (rule msig_gone.run_inv [OF assms(2)])
  show ?thesis
  proof
    assume "is_ok (exec h d p n other (run (msig_step h) as s'))"
    then obtain s'' where "exec h d p n other (run (msig_step h) as s') = Inr s''"
      by (auto simp: is_ok_iff)
    then show False by (rule exec_Inr) (simp add: gone)
  qed
qed

theorem executed_once_witness:
  "\<exists>s'. exec (sample_host 5) (at_time 6000000 [3]) 1 5 3
      (run (msig_step (sample_host 5)) sample_approved empty_msig) = Inr s' \<and>
    \<not> is_ok (exec (sample_host 5) (at_time 6000001 [3]) 1 5 3
      (run (msig_step (sample_host 5)) [(at_time 6000000 [2], Approve 1 5 (2, 1) None)] s'))"
proof -
  obtain s' where s': "exec (sample_host 5) (at_time 6000000 [3]) 1 5 3
      (run (msig_step (sample_host 5)) sample_approved empty_msig) = Inr s'"
    using sample_exec by blast
  show ?thesis
    using executed_once [OF s', of "[(at_time 6000000 [2], Approve 1 5 (2, 1) None)]"
        "at_time 6000001 [3]" 3] s'
    by (simp add: not_proposing_def)
qed

text \<open>
  C12: a transaction with a delay is executed no earlier than its delay after an approval that was
  pushed, signed, after it was proposed (times below 2^62 microseconds do not wrap).
\<close>

theorem delay_is_respected:
  assumes "s = run (msig_step h) as empty_msig" and "exec h c p n who s = Inr s'"
    and "list_all (\<lambda>a. 0 \<le> ctx_now (fst a) \<and> ctx_now (fst a) < 2 ^ 62) as"
  shows "\<exists>trx later th. proposed h as p n trx later \<and> unpack_header h trx = Some th \<and>
    (0 < delay_sec th \<and> delay_sec th < 2 ^ 32 \<longrightarrow>
     (\<exists>l t. granted (set later) p n l t \<and> t + delay_sec th * 1000000 \<le> ctx_now c))"
proof -
  obtain pr th where pr: "find_row (ms_proposals s) (p, n) = Some pr"
    and th: "unpack_header h (packed_transaction pr) = Some th"
    and timing: "case earliest_exec_time pr of Some (Some t) \<Rightarrow> t \<le> ctx_now c | _ \<Rightarrow> delay_sec th = 0"
    using assms(2) by (rule exec_Inr)
  obtain trx later where later: "proposed h as p n trx later" "since_proposal h (set later) p n trx s"
    using backed_run [of h as p n] pr unfolding backed_def assms(1) by blast
  have trx: "packed_transaction pr = trx" and started:
    "\<And>t. earliest_exec_time pr = Some (Some t) \<Longrightarrow> timer_from h (set later) p n trx t"
    using later(2) pr by (simp_all add: since_proposal_def timer_started_def)
  have "\<exists>l t. granted (set later) p n l t \<and> t + delay_sec th * 1000000 \<le> ctx_now c"
    if d: "0 < delay_sec th" "delay_sec th < 2 ^ 32"
  proof -
    obtain t where t: "earliest_exec_time pr = Some (Some t)" "t \<le> ctx_now c"
      using timing d by (auto split: option.splits)
    then obtain c' l x where c': "(c', Approve p n l x) \<in> set later" "l \<in> set (ctx_auths c')"
      and te: "t = i64 (ctx_now c' + i64 (delay_sec th * 1000000))"
      using started [of t] th trx by (auto simp: timer_from_def)
    have "set later \<subseteq> set as" using later(1) by (auto simp: proposed_def)
    then have "0 \<le> ctx_now c'" "ctx_now c' < 2 ^ 62"
      using c'(1) assms(3) by (fastforce simp: list_all_iff)+
    then have "t = ctx_now c' + delay_sec th * 1000000" using te d by simp
    then show ?thesis using c' t(2) unfolding granted_def by blast
  qed
  then show ?thesis using later(1) th trx by blast
qed

theorem delay_is_respected_witness:
  "\<exists>later l t. granted (set later) 1 5 l t \<and> t + 5 * 1000000 \<le> (6000000 :: int)"
proof -
  obtain s' where s': "exec (sample_host 5) (at_time 6000000 [3]) 1 5 3
      (run (msig_step (sample_host 5)) sample_approved empty_msig) = Inr s'"
    using sample_exec by blast
  have "list_all (\<lambda>a. 0 \<le> ctx_now (fst a) \<and> ctx_now (fst a) < 2 ^ 62) sample_approved"
    by (simp add: sample_approved_def)
  from delay_is_respected [OF refl s' this] show ?thesis
    by (auto simp: sample_host_def)
qed

text \<open>
  \<open>approve\<close> and \<open>unapprove\<close> move a level between the two lists of the proposal, so what is
  requested and what is provided together never changes, and an approval that is taken back at
  once leaves the provided approvals as they were.
\<close>

definition all_levels :: "approvals_info \<Rightarrow> permission_level multiset" where
  "all_levels row = mset (map level (requested_approvals row)) + mset (map level (provided_approvals row))"

lemma move_to_provided_row:
  assumes "move_to_provided c p n l s = Inr s1" and "find_row (ms_approvals s) (p, n) = Some row"
  shows "list_ex (\<lambda>a. level a = l) (requested_approvals row)"
    "find_row (ms_approvals s1) (p, n) = Some (row\<lparr>
       provided_approvals := provided_approvals row @ [\<lparr>level = l, time = ctx_now c\<rparr>],
       requested_approvals := remove_first (\<lambda>a. level a = l) (requested_approvals row)\<rparr>)"
  using assms by (auto simp: move_to_provided_def)

lemma move_to_requested_row:
  assumes "move_to_requested c p n l s = Inr s1" and "find_row (ms_approvals s) (p, n) = Some row"
  shows "list_ex (\<lambda>a. level a = l) (provided_approvals row)"
    "find_row (ms_approvals s1) (p, n) = Some (row\<lparr>
       requested_approvals := requested_approvals row @ [\<lparr>level = l, time = ctx_now c\<rparr>],
       provided_approvals := remove_first (\<lambda>a. level a = l) (provided_approvals row)\<rparr>)"
  using assms by (auto simp: move_to_requested_def)

theorem unapprove_undoes_approve:
  assumes "find_row (ms_approvals s) (p, n) = Some row"
    and "\<not> list_ex (\<lambda>a. level a = l) (provided_approvals row)"
    and "approve h c p n l x s = Inr s1" and "unapprove h d p n l s1 = Inr s2"
  shows "\<exists>row1 row2. find_row (ms_approvals s1) (p, n) = Some row1 \<and>
    find_row (ms_approvals s2) (p, n) = Some row2 \<and>
    provided_approvals row1 = provided_approvals row @ [\<lparr>level = l, time = ctx_now c\<rparr>] \<and>
    provided_approvals row2 = provided_approvals row \<and>
    all_levels row1 = all_levels row \<and> all_levels row2 = all_levels row"
proof -
  obtain pr m1 th where m1: "move_to_provided c p n l s = Inr m1"
    and s1: "s1 = started_timer h c p n pr th m1"
    using assms(3) by (rule approve_Inr)
  obtain pr' m2 where m2: "move_to_requested d p n l s1 = Inr m2" and s2: "s2 = reset_timer h p n pr' m2"
    using assms(4) by (rule unapprove_Inr)
  let ?row1 = "row\<lparr>provided_approvals := provided_approvals row @ [\<lparr>level = l, time = ctx_now c\<rparr>],
       requested_approvals := remove_first (\<lambda>a. level a = l) (requested_approvals row)\<rparr>"
  have r1: "find_row (ms_approvals s1) (p, n) = Some ?row1"
    using move_to_provided_row [OF m1 assms(1)] by (simp add: s1 timer_frames)
  note r2 = move_to_requested_row [OF m2 r1]
  have same: "all_levels ?row1 = all_levels row"
    using mset_remove_first_level [OF move_to_provided_row(1) [OF m1 assms(1)]]
    by (simp add: all_levels_def)
  let ?row2 = "?row1\<lparr>requested_approvals := requested_approvals ?row1 @ [\<lparr>level = l, time = ctx_now d\<rparr>],
       provided_approvals := remove_first (\<lambda>a. level a = l) (provided_approvals ?row1)\<rparr>"
  have "find_row (ms_approvals s2) (p, n) = Some ?row2" using r2(2) by (simp add: s2 timer_frames)
  moreover have "provided_approvals ?row2 = provided_approvals row" "all_levels ?row2 = all_levels row"
    using same assms(2) by (simp_all add: remove_first_append2 all_levels_def)
  ultimately show ?thesis using r1 same by fastforce
qed

theorem unapprove_undoes_approve_witness:
  "\<exists>s0 s1 s2 row2. s0 = run (msig_step (sample_host 5)) (take 1 sample_approved) empty_msig \<and>
     approve (sample_host 5) (at_time 1 [2]) 1 5 (2, 1) None s0 = Inr s1 \<and>
     unapprove (sample_host 5) (at_time 2 [2]) 1 5 (2, 1) s1 = Inr s2 \<and>
     find_row (ms_approvals s2) (1, 5) = Some row2 \<and> provided_approvals row2 = []"
proof -
  let ?s0 = "run (msig_step (sample_host 5)) (take 1 sample_approved) empty_msig"
  obtain s1 s2 where run: "approve (sample_host 5) (at_time 1 [2]) 1 5 (2, 1) None ?s0 = Inr s1"
    "unapprove (sample_host 5) (at_time 2 [2]) 1 5 (2, 1) s1 = Inr s2"
    by (simp add: sample_msig sdiv_nonneg)
  obtain row where row: "find_row (ms_approvals ?s0) (1, 5) = Some row" "provided_approvals row = []"
    by (simp add: sample_msig sdiv_nonneg)
  then have "\<not> list_ex (\<lambda>a. level a = (2, 1)) (provided_approvals row)" by simp
  from unapprove_undoes_approve [OF row(1) this run] show ?thesis
    using row run by auto
qed

end
