(* ===== verification/Exchange.thy ===== *)
theory Exchange
  imports Chain
begin

text \<open>
  The RAM market's exchange (\<open>eosio.system/src/exchange_state.cpp\<close>): two connectors and the
  conversions between them, in the doubles the code computes with. The lemmas bound the rounded
  arithmetic: a conversion never pays out the whole reserve, and the product of the reserves
  shrinks by no more than a relative \<open>2 ^ -50\<close> of the traded amount.
\<close>

section \<open>Model\<close>

record connector =
  con_balance :: asset
  con_weight :: f64

record exchange_state =
  ex_supply :: asset
  ex_base :: connector
  ex_quote :: connector

definition get_bancor_output :: "int \<Rightarrow> int \<Rightarrow> int \<Rightarrow> int result" where
  "get_bancor_output inp_reserve out_reserve inp =
     (let ib = of_i64 inp_reserve; ob = of_i64 out_reserve; in' = of_i64 inp in
      bind_result (to_i64 (fdiv (fmul in' ob) (fadd ib in'))) (\<lambda>out.
      Inr (if out < 0 then 0 else out)))"

definition get_bancor_input :: "int \<Rightarrow> int \<Rightarrow> int \<Rightarrow> int result" where
  "get_bancor_input out_reserve inp_reserve out =
     (let ob = of_i64 out_reserve; ib = of_i64 inp_reserve in
      bind_result (to_i64 (fdiv (fmul ib (of_i64 out)) (fsub ob (of_i64 out)))) (\<lambda>inp.
      Inr (if inp < 0 then 0 else inp)))"

text \<open>
  The two halves of \<open>convert\<close> take one connector and return it updated, with the asset and the
  state (the supply).
\<close>

definition convert_to_exchange ::
  "cdt \<Rightarrow> libm \<Rightarrow> connector \<Rightarrow> asset \<Rightarrow> exchange_state \<Rightarrow> (asset \<times> connector \<times> exchange_state) result"
where
  "convert_to_exchange L m reserve payment s =
     (let S0 = of_i64 (amount (ex_supply s)); R0 = of_i64 (amount (con_balance reserve));
          dR = of_i64 (amount payment); F = con_weight reserve;
          dS0 = fmul S0 (fsub (math_pow m (fadd (Fin 1) (fdiv dR R0)) F) (Fin 1));
          dS = (if flt dS0 (Fin 0) then Fin 0 else dS0) in
      some_or (asset_plus L (con_balance reserve) payment) overflow (\<lambda>b.
      bind_result (to_i64 dS) (\<lambda>n.
      let supply = (ex_supply s)\<lparr>amount := i64 (amount (ex_supply s) + n)\<rparr> in
      some_or (mk_asset L n (asset_symbol supply)) overflow (\<lambda>out.
      Inr (out, reserve\<lparr>con_balance := b\<rparr>, s\<lparr>ex_supply := supply\<rparr>)))))"

definition convert_from_exchange ::
  "cdt \<Rightarrow> libm \<Rightarrow> connector \<Rightarrow> asset \<Rightarrow> exchange_state \<Rightarrow> (asset \<times> connector \<times> exchange_state) result"
where
  "convert_from_exchange L m reserve tokens s =
     (let R0 = of_i64 (amount (con_balance reserve)); S0 = of_i64 (amount (ex_supply s));
          dS = of_i64 (i64 (- amount tokens)); Fi = fdiv (Fin 1) (con_weight reserve);
          dR0 = fmul R0 (fsub (math_pow m (fadd (Fin 1) (fdiv dS S0)) Fi) (Fin 1));
          dR = (if flt (Fin 0) dR0 then Fin 0 else dR0) in
      bind_result (to_i64 (fneg dR)) (\<lambda>n.
      let balance = (con_balance reserve)\<lparr>amount := i64 (amount (con_balance reserve) - n)\<rparr> in
      some_or (asset_minus L (ex_supply s) tokens) overflow (\<lambda>supply.
      some_or (mk_asset L n (asset_symbol balance)) overflow (\<lambda>out.
      Inr (out, reserve\<lparr>con_balance := balance\<rparr>, s\<lparr>ex_supply := supply\<rparr>)))))"

definition convert ::
  "cdt \<Rightarrow> libm \<Rightarrow> asset \<Rightarrow> symbol \<Rightarrow> exchange_state \<Rightarrow> (asset \<times> exchange_state) result" where
  "convert L m from to s =
     (let sell_symbol = asset_symbol from; base_symbol = asset_symbol (con_balance (ex_base s));
          quote_symbol = asset_symbol (con_balance (ex_quote s)) in
      check (sell_symbol \<noteq> to) ''cannot convert to the same symbol'' (
      some_or (mk_asset L 0 to) overflow (\<lambda>_.
      if sell_symbol = base_symbol \<and> to = quote_symbol then
        bind_result (convert_to_exchange L m (ex_base s) from s) (\<lambda>(tmp, b, s1).
        bind_result (convert_from_exchange L m (ex_quote s1) tmp (s1\<lparr>ex_base := b\<rparr>)) (\<lambda>(out, q, s2).
        Inr (out, s2\<lparr>ex_quote := q\<rparr>)))
      else if sell_symbol = quote_symbol \<and> to = base_symbol then
        bind_result (convert_to_exchange L m (ex_quote s) from s) (\<lambda>(tmp, q, s1).
        bind_result (convert_from_exchange L m (ex_base s1) tmp (s1\<lparr>ex_quote := q\<rparr>)) (\<lambda>(out, b, s2).
        Inr (out, s2\<lparr>ex_base := b\<rparr>)))
      else Inl (Check ''invalid conversion''))))"

definition trade ::
  "cdt \<Rightarrow> connector \<Rightarrow> connector \<Rightarrow> asset \<Rightarrow> asset \<Rightarrow> (asset \<times> connector \<times> connector) result" where
  "trade L sold bought from out0 =
     bind_result (get_bancor_output (amount (con_balance sold)) (amount (con_balance bought)) (amount from)) (\<lambda>n.
     let out = out0\<lparr>amount := n\<rparr> in
     some_or (asset_plus L (con_balance sold) from) overflow (\<lambda>a.
     some_or (asset_minus L (con_balance bought) out) overflow (\<lambda>b.
     Inr (out, sold\<lparr>con_balance := a\<rparr>, bought\<lparr>con_balance := b\<rparr>))))"

definition direct_convert ::
  "cdt \<Rightarrow> asset \<Rightarrow> symbol \<Rightarrow> exchange_state \<Rightarrow> (asset \<times> exchange_state) result" where
  "direct_convert L from to s =
     (let sell_symbol = asset_symbol from; base_symbol = asset_symbol (con_balance (ex_base s));
          quote_symbol = asset_symbol (con_balance (ex_quote s)) in
      check (sell_symbol \<noteq> to) ''cannot convert to the same symbol'' (
      some_or (mk_asset L 0 to) overflow (\<lambda>out0.
      if sell_symbol = base_symbol \<and> to = quote_symbol then
        bind_result (trade L (ex_base s) (ex_quote s) from out0) (\<lambda>(out, b, q).
        Inr (out, s\<lparr>ex_base := b, ex_quote := q\<rparr>))
      else if sell_symbol = quote_symbol \<and> to = base_symbol then
        bind_result (trade L (ex_quote s) (ex_base s) from out0) (\<lambda>(out, q, b).
        Inr (out, s\<lparr>ex_base := b, ex_quote := q\<rparr>))
      else Inl (Check ''invalid conversion''))))"

section \<open>The rounded quotient\<close>

text \<open>
  The errors of the six roundings in \<open>in * ob / (ib + in)\<close> together, with \<open>e\<close> the error of one:
  \<open>A\<close>, \<open>B\<close>, \<open>X\<close> are the rounded reserves and input, \<open>Q\<close> the rounded quotient.
\<close>

lemma bancor_algebra:
  fixes a b x A B X M D Q e :: "'a :: linordered_field"
  assumes e: "0 \<le> e" "e < 1" "(1 + e) ^ 4 \<le> (1 + 8 * e) * (1 - e) ^ 2"
    and pos: "0 < a" "0 < b" "0 < x" "0 < A" "0 < X" "0 \<le> Q" "0 < D" "0 \<le> B"
    and A: "a * (1 - e) \<le> A" and X: "X \<le> x * (1 + e)" and B: "B \<le> b * (1 + e)"
    and M: "M \<le> X * B * (1 + e)" and D: "(A + X) * (1 - e) \<le> D" and Q: "Q \<le> M / D * (1 + e)"
  shows "Q * (a + x) \<le> b * x * (1 + 8 * e)"
proof -
  have "Q * D \<le> M * (1 + e)" using Q pos(7) by (simp add: field_simps)
  also have "\<dots> \<le> X * B * (1 + e) * (1 + e)" using M e(1) by (intro mult_right_mono) simp_all
  finally have 1: "Q * D \<le> X * B * (1 + e) ^ 2" by (simp add: power2_eq_square mult_ac)
  have "Q * ((A + X) * (1 - e)) \<le> Q * D" using D pos(6) by (rule mult_left_mono)
  with 1 have 2: "Q * (A + X) * (1 - e) \<le> X * B * (1 + e) ^ 2" by (simp add: mult.assoc)
  have "X * (a * (1 - e)) \<le> x * (1 + e) * A" using A X pos e by (intro mult_mono) simp_all
  moreover have "X * x * (1 - e) \<le> X * x * (1 + e)" using pos e by (intro mult_left_mono) simp_all
  ultimately have 3: "X * (a + x) * (1 - e) \<le> x * (1 + e) * (A + X)" by (simp add: algebra_simps)
  have "Q * (a + x) * (1 - e) ^ 2 * (A + X) = (Q * (A + X) * (1 - e)) * ((a + x) * (1 - e))"
    by (simp add: power2_eq_square mult_ac)
  also have "\<dots> \<le> (X * B * (1 + e) ^ 2) * ((a + x) * (1 - e))"
    using 2 pos e by (intro mult_right_mono) simp_all
  also have "\<dots> = (X * (a + x) * (1 - e)) * (B * (1 + e) ^ 2)" by (simp add: mult_ac)
  also have "\<dots> \<le> (x * (1 + e) * (A + X)) * (B * (1 + e) ^ 2)"
    using 3 pos e by (intro mult_right_mono) simp_all
  also have "\<dots> = B * (x * (1 + e) ^ 3) * (A + X)" by (simp add: power2_eq_square power3_eq_cube mult_ac)
  finally have "Q * (a + x) * (1 - e) ^ 2 \<le> B * (x * (1 + e) ^ 3)"
    using add_pos_pos [OF pos(4,5)] by (rule mult_right_le_imp_le)
  also have "\<dots> \<le> b * (1 + e) * (x * (1 + e) ^ 3)" using B pos e by (intro mult_right_mono) simp_all
  also have "\<dots> = b * x * (1 + e) ^ 4" by (simp add: power3_eq_cube power4_eq_xxxx mult_ac)
  also have "\<dots> \<le> b * x * ((1 + 8 * e) * (1 - e) ^ 2)" using e(3) pos by (intro mult_left_mono) simp_all
  finally have "Q * (a + x) * (1 - e) ^ 2 \<le> b * x * (1 + 8 * e) * (1 - e) ^ 2" by (simp add: mult.assoc)
  then show ?thesis using e(2) by (simp add: mult_le_cancel_right)
qed

lemma rnd_pos: "1 / 2 ^ 200 \<le> x \<Longrightarrow> 0 < rnd x"
proof -
  assume x: "1 / 2 ^ 200 \<le> x"
  have "0 < x" by (rule less_le_trans [OF _ x]) simp
  then have "0 < x * (1 - 1 / 2 ^ 53)" by simp
  then show ?thesis using rnd_lower [OF x] by linarith
qed

lemma to_double_pos:
  "0 \<le> x \<Longrightarrow> x \<le> 2 ^ 500 \<Longrightarrow> to_double x = Fin (rnd x)"
  by (rule to_double_Fin) (simp add: order_trans [OF _ power_increasing [of 500 1000 "2 :: rat"]])

lemma rnd_int_bounds:
  assumes "1 \<le> n" and "n \<le> 2 ^ 62"
  shows "of_int n * (1 - 1 / 2 ^ 53) \<le> rnd (of_int n)" and "rnd (of_int n) \<le> of_int n * (1 + 1 / 2 ^ 53)"
    and "1 \<le> rnd (of_int n)" and "rnd (of_int n) \<le> 2 ^ 62" and "of_i64 n = Fin (rnd (of_int n))"
proof -
  have n: "(1 :: rat) \<le> of_int n" "(of_int n :: rat) \<le> 2 ^ 62"
    using of_int_le_iff [of 1 n, where ?'a = rat] of_int_le_iff [of n "2 ^ 62", where ?'a = rat] assms by simp_all
  have "1 / 2 ^ 200 \<le> (1 :: rat)" by simp
  then have small: "1 / 2 ^ 200 \<le> (of_int n :: rat)" using n(1) by (rule order_trans)
  show "of_int n * (1 - 1 / 2 ^ 53) \<le> rnd (of_int n)" by (rule rnd_lower [OF small])
  show "rnd (of_int n) \<le> of_int n * (1 + 1 / 2 ^ 53)" by (rule rnd_upper [OF small])
  show "1 \<le> rnd (of_int n)" using le_rnd [OF n(1)] representable_int [of 1] by simp
  show "rnd (of_int n) \<le> 2 ^ 62" using rnd_le [OF n(2)] representable_powi [of 62] by simp
  show "of_i64 n = Fin (rnd (of_int n))" using assms by (intro of_i64_Fin) simp
qed

text \<open>The output is defined and stays below the real quotient times \<open>1 + 2 ^ -50\<close>.\<close>

lemma bancor_output_bound:
  assumes a: "1 \<le> a" "a \<le> 2 ^ 62" and b: "1 \<le> b" "b \<le> 2 ^ 62" and x: "1 \<le> x" "x \<le> 2 ^ 62"
  shows "\<exists>n. get_bancor_output a b x = Inr n \<and> 0 \<le> n \<and>
    n * (a + x) * 2 ^ 50 \<le> b * x * (2 ^ 50 + 1)"
proof -
  define e :: rat where "e = 1 / 2 ^ 53"
  define A B X where "A = rnd (of_int a)" and "B = rnd (of_int b)" and "X = rnd (of_int x)"
  define M D where "M = rnd (X * B)" and "D = rnd (A + X)"
  define Q where "Q = rnd (M / D)"
  note ra = rnd_int_bounds [OF a, folded A_def e_def] and rb = rnd_int_bounds [OF b, folded B_def e_def]
    and rx = rnd_int_bounds [OF x, folded X_def e_def]
  have XB: "1 * 1 \<le> X * B" "X * B \<le> 2 ^ 62 * 2 ^ 62" using rx rb by (intro mult_mono; simp)+
  have tiny: "1 / 2 ^ 200 \<le> z" if "1 / 2 ^ 100 \<le> z" for z :: rat
    using that by (rule order_trans [rotated]) (intro divide_left_mono power_increasing; simp)
  have one: "1 / 2 ^ 200 \<le> z" if "1 \<le> z" for z :: rat
    using that by (intro tiny order_trans [OF _ that]) simp
  have M1: "1 \<le> M" "M \<le> 2 ^ 124" unfolding M_def
    using le_rnd [of 1 "X * B"] rnd_le [of "X * B" "2 ^ 124"] representable_int [of 1]
      representable_powi [of 124] XB by simp_all
  have D1: "1 \<le> D" "D \<le> 2 ^ 63" unfolding D_def
    using le_rnd [of 1 "A + X"] rnd_le [of "A + X" "2 ^ 63"] representable_int [of 1]
      representable_powi [of 63] ra rx by simp_all
  have MD: "1 / 2 ^ 100 \<le> M / D" "M / D \<le> 2 ^ 124"
  proof -
    have "1 / 2 ^ 100 \<le> 1 / (2 :: rat) ^ 63" by (intro divide_left_mono power_increasing) simp_all
    also have "1 / 2 ^ 63 \<le> M / D" using M1 D1 by (intro frac_le) simp_all
    finally show "1 / 2 ^ 100 \<le> M / D" .
    have "M / D \<le> M / 1" using M1 D1 by (intro divide_left_mono) simp_all
    then show "M / D \<le> 2 ^ 124" using M1 by simp
  qed
  have big: "z \<le> 2 ^ 500" if "z \<le> 2 ^ 124" for z :: rat
    using that by (rule order_trans) (rule power_increasing; simp)
  have "fmul (Fin X) (Fin B) = Fin M" "fadd (Fin A) (Fin X) = Fin D"
    unfolding M_def D_def fmul.simps fadd.simps
    using XB ra rx by (intro to_double_pos big; simp)+
  moreover have "fdiv (Fin M) (Fin D) = Fin Q"
    unfolding Q_def fdiv.simps using D1 MD by (simp del: power_numeral add: to_double_pos big order_trans [OF _ MD(1)])
  ultimately have out: "get_bancor_output a b x = bind_result (to_i64 (Fin Q)) (\<lambda>n. Inr (if n < 0 then 0 else n))"
    by (simp only: get_bancor_output_def Let_def ra rb rx)
  have Q0: "0 \<le> Q" unfolding Q_def by (rule rnd_nonneg) (use M1 D1 in simp)
  have "Q * (of_int a + of_int x) \<le> of_int b * of_int x * (1 + 8 * e)"
  proof (rule bancor_algebra [where A = A and B = B and X = X and M = M and D = D])
    show "(1 + e) ^ 4 \<le> (1 + 8 * e) * (1 - e) ^ 2" by (simp add: e_def power_divide)
    show "M \<le> X * B * (1 + e)" unfolding M_def e_def using XB by (intro rnd_upper one) simp
    show "(A + X) * (1 - e) \<le> D" unfolding D_def e_def using ra rx by (intro rnd_lower one) simp
    show "Q \<le> M / D * (1 + e)" unfolding Q_def e_def using MD by (intro rnd_upper tiny)
  qed (use a b x ra rb rx D1 Q0 in \<open>simp_all add: e_def\<close>)
  then have bound: "Q * (of_int (a + x) * 2 ^ 50) \<le> of_int (b * x * (2 ^ 50 + 1))"
    by (simp add: e_def algebra_simps)
  define n where "n = \<lfloor>Q\<rfloor>"
  have n: "0 \<le> n" "of_int n \<le> Q" using Q0 unfolding n_def by simp_all
  have "of_int (n * (a + x) * 2 ^ 50) = of_int n * (of_int (a + x) * 2 ^ 50 :: rat)" by simp
  also have "\<dots> \<le> Q * (of_int (a + x) * 2 ^ 50)" using n(2) a x by (intro mult_right_mono) simp_all
  also note bound
  finally have fin: "n * (a + x) * 2 ^ 50 \<le> b * x * (2 ^ 50 + 1)" by (simp only: of_int_le_iff)
  have "n * (x * 2 ^ 50) \<le> n * ((a + x) * 2 ^ 50)" using n a by (intro mult_left_mono) simp_all
  then have "(n * 2 ^ 50) * x \<le> (b * (2 ^ 50 + 1)) * x" using fin by (simp add: mult_ac)
  then have "n * 2 ^ 50 \<le> b * (2 ^ 50 + 1)" using x by (simp add: mult_le_cancel_right)
  then have "in_i64 n" using n b unfolding in_i64_def by simp
  then have "get_bancor_output a b x = Inr n" using Q0 n(1) by (simp add: out trunc_rat_def n_def)
  then show ?thesis using n(1) fin by blast
qed

text \<open>So the reserve that is paid from is never emptied while the input is below \<open>2 ^ 50\<close> times the other.\<close>

lemma bancor_output_below_reserve:
  assumes "1 \<le> a" "a \<le> 2 ^ 62" and "1 \<le> b" "b \<le> 2 ^ 62" and "1 \<le> x" "x \<le> 2 ^ 62"
    and "x < a * 2 ^ 50" and "get_bancor_output a b x = Inr n"
  shows "n < b"
proof (rule ccontr)
  assume "\<not> n < b"
  have bound: "n * (a + x) * 2 ^ 50 \<le> b * x * (2 ^ 50 + 1)"
    using bancor_output_bound [OF assms(1-6)] assms(8) by auto
  have "b * ((a + x) * 2 ^ 50) \<le> n * ((a + x) * 2 ^ 50)"
    using \<open>\<not> n < b\<close> assms by (intro mult_right_mono) simp_all
  then have "b * ((a + x) * 2 ^ 50) \<le> b * (x * (2 ^ 50 + 1))" using bound by (simp add: mult_ac)
  then have "(a + x) * 2 ^ 50 \<le> x * (2 ^ 50 + 1)" using assms(3) by (simp add: mult_le_cancel_left)
  then show False using assms(7) by (simp add: algebra_simps)
qed

section \<open>Trades\<close>

definition reserve :: "connector \<Rightarrow> int" where
  "reserve k = amount (con_balance k)"

definition exchange_ok :: "exchange_state \<Rightarrow> bool" where
  "exchange_ok s \<longleftrightarrow>
     asset_in_range (con_balance (ex_base s)) \<and> asset_in_range (con_balance (ex_quote s))
     \<and> 1 \<le> reserve (ex_base s) \<and> 1 \<le> reserve (ex_quote s)
     \<and> asset_symbol (con_balance (ex_base s)) \<noteq> asset_symbol (con_balance (ex_quote s))"

lemma trade_effect:
  assumes lib: "asset_library L" and sold: "asset_in_range (con_balance sold)" "1 \<le> reserve sold"
    and bought: "asset_in_range (con_balance bought)" "1 \<le> reserve bought"
    and x: "asset_in_range from" "1 \<le> amount from" "amount from < reserve sold * 2 ^ 50"
    and symb: "asset_symbol from = asset_symbol (con_balance sold)"
      "asset_symbol out0 = asset_symbol (con_balance bought)"
  shows "\<exists>n. get_bancor_output (reserve sold) (reserve bought) (amount from) = Inr n \<and>
    0 \<le> n \<and> n < reserve bought \<and>
    n * (reserve sold + amount from) * 2 ^ 50 \<le> reserve bought * amount from * (2 ^ 50 + 1) \<and>
    trade L sold bought from out0 =
      (if reserve sold + amount from \<le> max_amount then
         Inr (out0\<lparr>amount := n\<rparr>,
           sold\<lparr>con_balance := (con_balance sold)\<lparr>amount := reserve sold + amount from\<rparr>\<rparr>,
           bought\<lparr>con_balance := (con_balance bought)\<lparr>amount := reserve bought - n\<rparr>\<rparr>)
       else Inl overflow)"
proof -
  have r: "reserve sold \<le> 2 ^ 62" "reserve bought \<le> 2 ^ 62" "amount from \<le> 2 ^ 62"
    using sold bought x by (simp_all add: asset_in_range_def max_amount_def reserve_def)
  obtain n where n: "get_bancor_output (reserve sold) (reserve bought) (amount from) = Inr n" "0 \<le> n"
    "n * (reserve sold + amount from) * 2 ^ 50 \<le> reserve bought * amount from * (2 ^ 50 + 1)"
    using bancor_output_bound [OF sold(2) r(1) bought(2) r(2) x(2) r(3)] by blast
  have less: "n < reserve bought"
    by (rule bancor_output_below_reserve [OF sold(2) r(1) bought(2) r(2) x(2) r(3) x(3) n(1)])
  have "asset_in_range (out0\<lparr>amount := n\<rparr>)"
    using less n(2) bought by (simp add: asset_in_range_def reserve_def)
  then have "asset_minus L (con_balance bought) (out0\<lparr>amount := n\<rparr>) =
      Some ((con_balance bought)\<lparr>amount := reserve bought - n\<rparr>)"
    using asset_library.minus_ok [OF lib bought(1), of "out0\<lparr>amount := n\<rparr>"] less n(2) bought symb
    by (auto simp: asset_in_range_def reserve_def)
  moreover have "asset_plus L (con_balance sold) from =
      (if reserve sold + amount from \<le> max_amount
       then Some ((con_balance sold)\<lparr>amount := reserve sold + amount from\<rparr>) else None)"
    using asset_library.plus_ok [OF lib sold(1) x(1)] sold x symb by (auto simp: reserve_def)
  ultimately show ?thesis
    using n less unfolding trade_def by (simp add: reserve_def)
qed

section \<open>Conversions that return\<close>

text \<open>
  Without assuming anything of the size of the reserves: what is paid in is added to one reserve and
  what is paid out taken from the other, in the arithmetic of the toolkit.
\<close>

definition market_typed :: "exchange_state \<Rightarrow> bool" where
  "market_typed m \<longleftrightarrow> in_i64 (reserve (ex_base m)) \<and> in_i64 (reserve (ex_quote m))"

lemma to_i64_in: "to_i64 x = Inr n \<Longrightarrow> in_i64 n"
  by (cases x) (auto split: if_splits)

lemma get_bancor_output_Inr: "get_bancor_output a b x = Inr n \<Longrightarrow> 0 \<le> n \<and> in_i64 n"
  unfolding get_bancor_output_def Let_def bind_result_Inr
  by (elim exE conjE, drule to_i64_in) (auto simp: in_i64_def split: if_splits)

lemma trade_Inr:
  assumes lib: "asset_library L" and "in_i64 (reserve sold)" "in_i64 (reserve bought)" "in_i64 (amount from)"
    and run: "trade L sold bought from out0 = Inr (out, sold', bought')"
  shows "out = out0\<lparr>amount := amount out\<rparr>" "0 \<le> amount out" "in_i64 (amount out)"
    "get_bancor_output (reserve sold) (reserve bought) (amount from) = Inr (amount out)"
    "sold' = sold\<lparr>con_balance := (con_balance sold)\<lparr>amount := i64 (reserve sold + amount from)\<rparr>\<rparr>"
    "bought' = bought\<lparr>con_balance := (con_balance bought)\<lparr>amount := i64 (reserve bought - amount out)\<rparr>\<rparr>"
proof -
  obtain n a b where n: "get_bancor_output (reserve sold) (reserve bought) (amount from) = Inr n"
    and out: "out = out0\<lparr>amount := n\<rparr>" and a: "asset_plus L (con_balance sold) from = Some a"
    and b: "asset_minus L (con_balance bought) (out0\<lparr>amount := n\<rparr>) = Some b"
    and res: "sold' = sold\<lparr>con_balance := a\<rparr>" "bought' = bought\<lparr>con_balance := b\<rparr>"
    using run by (auto simp: trade_def Let_def reserve_def)
  show "0 \<le> amount out" "in_i64 (amount out)" "out = out0\<lparr>amount := amount out\<rparr>"
    using get_bancor_output_Inr [OF n] by (simp_all add: out)
  then have i: "in_i64 n" by (simp add: out)
  show "get_bancor_output (reserve sold) (reserve bought) (amount from) = Inr (amount out)"
    using n by (simp add: out)
  show "sold' = sold\<lparr>con_balance := (con_balance sold)\<lparr>amount := i64 (reserve sold + amount from)\<rparr>\<rparr>"
    using asset_library.plus_wrap [OF lib, of "con_balance sold" "from"] assms(2,4) a res
    by (auto simp: reserve_def split: if_splits)
  show "bought' = bought\<lparr>con_balance := (con_balance bought)\<lparr>amount := i64 (reserve bought - amount out)\<rparr>\<rparr>"
    using asset_library.minus_wrap [OF lib, of "con_balance bought" "out0\<lparr>amount := n\<rparr>"] assms(3) b res i
    by (auto simp: reserve_def out split: if_splits)
qed

text \<open>A conversion is one trade, in one of the two directions.\<close>

lemma direct_convert_trades:
  assumes lib: "asset_library L" and run: "direct_convert L from to m = Inr (out, m')"
  shows "\<exists>out0. asset_symbol out0 = to \<and> asset_symbol from \<noteq> to \<and>
    ((\<exists>b q. trade L (ex_base m) (ex_quote m) from out0 = Inr (out, b, q) \<and>
        asset_symbol from = asset_symbol (con_balance (ex_base m)) \<and> to = asset_symbol (con_balance (ex_quote m)) \<and>
        m' = m\<lparr>ex_base := b, ex_quote := q\<rparr>) \<or>
      (\<exists>b q. trade L (ex_quote m) (ex_base m) from out0 = Inr (out, q, b) \<and>
        asset_symbol from = asset_symbol (con_balance (ex_quote m)) \<and> to = asset_symbol (con_balance (ex_base m)) \<and>
        m' = m\<lparr>ex_base := b, ex_quote := q\<rparr>))"
proof -
  obtain out0 where out0: "mk_asset L 0 to = Some out0" and ne: "asset_symbol from \<noteq> to"
    using run by (auto simp: direct_convert_def Let_def)
  have "asset_symbol out0 = to" using asset_library.mk_Some [OF lib out0] by simp
  then show ?thesis
    using run out0 ne by (auto simp: direct_convert_def Let_def split: if_splits)
qed

lemma direct_convert_Inr:
  assumes lib: "asset_library L" and typed: "market_typed m" "in_i64 (amount from)"
    and run: "direct_convert L from to m = Inr (out, m')"
  shows "asset_symbol from \<noteq> to" "asset_symbol out = to" "0 \<le> amount out" "in_i64 (amount out)" "market_typed m'"
    "asset_symbol (con_balance (ex_base m')) = asset_symbol (con_balance (ex_base m))"
    "asset_symbol (con_balance (ex_quote m')) = asset_symbol (con_balance (ex_quote m))"
    "(if asset_symbol from = asset_symbol (con_balance (ex_base m)) \<and> to = asset_symbol (con_balance (ex_quote m))
      then reserve (ex_base m') = i64 (reserve (ex_base m) + amount from) \<and>
           reserve (ex_quote m') = i64 (reserve (ex_quote m) - amount out)
      else to = asset_symbol (con_balance (ex_base m)) \<and> asset_symbol from = asset_symbol (con_balance (ex_quote m)) \<and>
           reserve (ex_quote m') = i64 (reserve (ex_quote m) + amount from) \<and>
           reserve (ex_base m') = i64 (reserve (ex_base m) - amount out))"
proof -
  note typed' = typed [unfolded market_typed_def]
  obtain out0 where s0: "asset_symbol out0 = to" and ne: "asset_symbol from \<noteq> to"
    and trades: "(\<exists>b q. trade L (ex_base m) (ex_quote m) from out0 = Inr (out, b, q) \<and>
        asset_symbol from = asset_symbol (con_balance (ex_base m)) \<and> to = asset_symbol (con_balance (ex_quote m)) \<and>
        m' = m\<lparr>ex_base := b, ex_quote := q\<rparr>) \<or>
      (\<exists>b q. trade L (ex_quote m) (ex_base m) from out0 = Inr (out, q, b) \<and>
        asset_symbol from = asset_symbol (con_balance (ex_quote m)) \<and> to = asset_symbol (con_balance (ex_base m)) \<and>
        m' = m\<lparr>ex_base := b, ex_quote := q\<rparr>)"
    using direct_convert_trades [OF lib run] by metis
  from trades consider (base) b q where "trade L (ex_base m) (ex_quote m) from out0 = Inr (out, b, q)"
      "asset_symbol from = asset_symbol (con_balance (ex_base m))" "to = asset_symbol (con_balance (ex_quote m))"
      "m' = m\<lparr>ex_base := b, ex_quote := q\<rparr>"
    | (quote) b q where "trade L (ex_quote m) (ex_base m) from out0 = Inr (out, q, b)"
      "asset_symbol from = asset_symbol (con_balance (ex_quote m))" "to = asset_symbol (con_balance (ex_base m))"
      "m' = m\<lparr>ex_base := b, ex_quote := q\<rparr>"
    by blast
  then have "asset_symbol out = to \<and> 0 \<le> amount out \<and> in_i64 (amount out) \<and> market_typed m' \<and>
    asset_symbol (con_balance (ex_base m')) = asset_symbol (con_balance (ex_base m)) \<and>
    asset_symbol (con_balance (ex_quote m')) = asset_symbol (con_balance (ex_quote m)) \<and>
    (if asset_symbol from = asset_symbol (con_balance (ex_base m)) \<and> to = asset_symbol (con_balance (ex_quote m))
      then reserve (ex_base m') = i64 (reserve (ex_base m) + amount from) \<and>
           reserve (ex_quote m') = i64 (reserve (ex_quote m) - amount out)
      else to = asset_symbol (con_balance (ex_base m)) \<and> asset_symbol from = asset_symbol (con_balance (ex_quote m)) \<and>
           reserve (ex_quote m') = i64 (reserve (ex_quote m) + amount from) \<and>
           reserve (ex_base m') = i64 (reserve (ex_base m) - amount out))"
  proof cases
    case base
    note t = trade_Inr [OF lib _ _ _ base(1)]
    have "asset_symbol out = to" using t(1) typed' s0 by (metis asset.select_convs(2) asset.surjective asset.update_convs(1))
    then show ?thesis using t(2-6) typed' base(2-4) by (simp add: market_typed_def reserve_def)
  next
    case quote
    note t = trade_Inr [OF lib _ _ _ quote(1)]
    have "asset_symbol out = to" using t(1) typed' s0 by (metis asset.select_convs(2) asset.surjective asset.update_convs(1))
    then show ?thesis using t(2-6) typed' quote(2-4) ne by (simp add: market_typed_def reserve_def)
  qed
  with ne show "asset_symbol from \<noteq> to" "asset_symbol out = to" "0 \<le> amount out" "in_i64 (amount out)" "market_typed m'"
    "asset_symbol (con_balance (ex_base m')) = asset_symbol (con_balance (ex_base m))"
    "asset_symbol (con_balance (ex_quote m')) = asset_symbol (con_balance (ex_quote m))"
    "(if asset_symbol from = asset_symbol (con_balance (ex_base m)) \<and> to = asset_symbol (con_balance (ex_quote m))
      then reserve (ex_base m') = i64 (reserve (ex_base m) + amount from) \<and>
           reserve (ex_quote m') = i64 (reserve (ex_quote m) - amount out)
      else to = asset_symbol (con_balance (ex_base m)) \<and> asset_symbol from = asset_symbol (con_balance (ex_quote m)) \<and>
           reserve (ex_quote m') = i64 (reserve (ex_quote m) + amount from) \<and>
           reserve (ex_base m') = i64 (reserve (ex_base m) - amount out))"
    by blast+
qed

text \<open>
  A conversion at the RAM market is defined and succeeds exactly when the reserve that is sold
  to stays in the range of an asset; it pays out less than the whole other reserve, moves nothing
  but the two reserves, and the product of the reserves loses no more than \<open>2 ^ -50\<close> of the
  reserve times the amount traded (the rounding of the doubles).
\<close>

theorem direct_convert_keeps_reserves:
  assumes "asset_library L" and "exchange_ok s" and "asset_in_range from" and "1 \<le> amount from"
    and "symbol_valid L to" and "asset_symbol from \<noteq> to"
    and "(sold, bought) = (ex_base s, ex_quote s) \<or> (sold, bought) = (ex_quote s, ex_base s)"
    and "asset_symbol from = asset_symbol (con_balance sold)"
    and "to = asset_symbol (con_balance bought)" and "amount from < reserve sold * 2 ^ 50"
  shows "\<exists>n. 0 \<le> n \<and> n < reserve bought \<and>
    (reserve sold + amount from) * (reserve bought - n) * 2 ^ 50
      \<ge> reserve sold * reserve bought * 2 ^ 50 - reserve bought * amount from \<and>
    direct_convert L from to s =
      (if reserve sold + amount from \<le> max_amount then
        (let sold' = sold\<lparr>con_balance := (con_balance sold)\<lparr>amount := reserve sold + amount from\<rparr>\<rparr>;
             bought' = bought\<lparr>con_balance := (con_balance bought)\<lparr>amount := reserve bought - n\<rparr>\<rparr> in
         Inr (\<lparr>amount = n, asset_symbol = to\<rparr>,
           if sold = ex_base s then s\<lparr>ex_base := sold', ex_quote := bought'\<rparr>
           else s\<lparr>ex_base := bought', ex_quote := sold'\<rparr>))
       else Inl overflow)"
proof -
  have ok: "asset_in_range (con_balance sold)" "1 \<le> reserve sold"
    "asset_in_range (con_balance bought)" "1 \<le> reserve bought"
    using assms(2,7) by (auto simp: exchange_ok_def)
  have mk: "mk_asset L 0 to = Some \<lparr>amount = 0, asset_symbol = to\<rparr>"
    using asset_library.mk_ok [OF assms(1), of 0 to] assms(5) by (simp add: max_amount_def)
  obtain n where n: "0 \<le> n" "n < reserve bought"
    "n * (reserve sold + amount from) * 2 ^ 50 \<le> reserve bought * amount from * (2 ^ 50 + 1)"
    and tr: "trade L sold bought from \<lparr>amount = 0, asset_symbol = to\<rparr> =
      (if reserve sold + amount from \<le> max_amount then
         Inr (\<lparr>amount = n, asset_symbol = to\<rparr>,
           sold\<lparr>con_balance := (con_balance sold)\<lparr>amount := reserve sold + amount from\<rparr>\<rparr>,
           bought\<lparr>con_balance := (con_balance bought)\<lparr>amount := reserve bought - n\<rparr>\<rparr>)
       else Inl overflow)"
    using trade_effect [OF assms(1) ok assms(3,4,10,8), of "\<lparr>amount = 0, asset_symbol = to\<rparr>"] assms(9)
    by auto
  have "(reserve sold + amount from) * (reserve bought - n) * 2 ^ 50
      \<ge> reserve sold * reserve bought * 2 ^ 50 - reserve bought * amount from"
    using n(3) by (simp add: algebra_simps)
  moreover have "direct_convert L from to s =
      (if reserve sold + amount from \<le> max_amount then
        (let sold' = sold\<lparr>con_balance := (con_balance sold)\<lparr>amount := reserve sold + amount from\<rparr>\<rparr>;
             bought' = bought\<lparr>con_balance := (con_balance bought)\<lparr>amount := reserve bought - n\<rparr>\<rparr> in
         Inr (\<lparr>amount = n, asset_symbol = to\<rparr>,
           if sold = ex_base s then s\<lparr>ex_base := sold', ex_quote := bought'\<rparr>
           else s\<lparr>ex_base := bought', ex_quote := sold'\<rparr>))
       else Inl overflow)"
  proof -
    have ne: "asset_symbol (con_balance (ex_base s)) \<noteq> asset_symbol (con_balance (ex_quote s))"
      "ex_quote s \<noteq> ex_base s"
      using assms(2) by (auto simp: exchange_ok_def)
    from assms(7) show ?thesis
    proof
      assume "(sold, bought) = (ex_base s, ex_quote s)"
      then have eq: "sold = ex_base s" "bought = ex_quote s" by simp_all
      show ?thesis
        using tr ne mk assms(6,8,9) by (simp add: direct_convert_def Let_def eq)
    next
      assume "(sold, bought) = (ex_quote s, ex_base s)"
      then have eq: "sold = ex_quote s" "bought = ex_base s" by simp_all
      show ?thesis
        using tr ne mk assms(6,8,9) by (simp add: direct_convert_def Let_def eq)
    qed
  qed
  ultimately show ?thesis using n(1,2) by blast
qed

definition sample_market :: exchange_state where
  "sample_market = \<lparr>ex_supply = \<lparr>amount = 100000000000000, asset_symbol = Symbol 4 1\<rparr>,
     ex_base = \<lparr>con_balance = \<lparr>amount = 1000000, asset_symbol = Symbol 0 5062994\<rparr>, con_weight = Fin (1 / 2)\<rparr>,
     ex_quote = \<lparr>con_balance = wax_asset 2000, con_weight = Fin (1 / 2)\<rparr>\<rparr>"

lemma sample_market_ok: "exchange_ok sample_market"
  by (simp add: sample_market_def exchange_ok_def reserve_def asset_in_range_def max_amount_def wax_asset_def wax_def)

theorem direct_convert_keeps_reserves_witness:
  "\<exists>n s'. direct_convert std_cdt (wax_asset 500) (Symbol 0 5062994) sample_market =
      Inr (\<lparr>amount = n, asset_symbol = Symbol 0 5062994\<rparr>, s') \<and>
     reserve (ex_quote s') = 2500 \<and> reserve (ex_base s') = 1000000 - n \<and> n < 1000000"
proof -
  let ?to = "Symbol 0 5062994"
  have pre: "asset_in_range (wax_asset 500)" "1 \<le> amount (wax_asset 500)" "symbol_valid std_cdt ?to"
    "asset_symbol (wax_asset 500) \<noteq> ?to"
    "asset_symbol (wax_asset 500) = asset_symbol (con_balance (ex_quote sample_market))"
    "?to = asset_symbol (con_balance (ex_base sample_market))"
    "amount (wax_asset 500) < reserve (ex_quote sample_market) * 2 ^ 50"
    by (simp_all add: sample_market_def sample_simps reserve_def)
  obtain n where n: "n < reserve (ex_base sample_market)"
    and conv: "direct_convert std_cdt (wax_asset 500) ?to sample_market =
      (if reserve (ex_quote sample_market) + amount (wax_asset 500) \<le> max_amount then
        (let sold' = (ex_quote sample_market)\<lparr>con_balance :=
               (con_balance (ex_quote sample_market))\<lparr>amount := reserve (ex_quote sample_market) + amount (wax_asset 500)\<rparr>\<rparr>;
             bought' = (ex_base sample_market)\<lparr>con_balance :=
               (con_balance (ex_base sample_market))\<lparr>amount := reserve (ex_base sample_market) - n\<rparr>\<rparr> in
         Inr (\<lparr>amount = n, asset_symbol = ?to\<rparr>,
           if ex_quote sample_market = ex_base sample_market
           then sample_market\<lparr>ex_base := sold', ex_quote := bought'\<rparr>
           else sample_market\<lparr>ex_base := bought', ex_quote := sold'\<rparr>))
       else Inl overflow)"
    using direct_convert_keeps_reserves [OF std_library.asset_library_axioms sample_market_ok pre(1-4)
        disjI2 [OF refl] pre(5-7)] by (elim exE conjE)
  show ?thesis
    using n unfolding conv
    by (simp add: sample_market_def reserve_def wax_asset_def wax_def max_amount_def)
qed

section \<open>There and back\<close>

text \<open>
  What the second of two opposite conversions of the proceeds returns exceeds what was paid by a
  factor of at most \<open>(1 + 2 ^ -50) ^ 2\<close>.
\<close>

lemma bancor_there_and_back:
  assumes "1 \<le> a" and "1 \<le> b" "b \<le> 2 ^ 62" and "1 \<le> x" "a + x \<le> 2 ^ 62"
    and "x < a * 2 ^ 50" and "get_bancor_output a b x = Inr y" and "1 \<le> y"
    and "get_bancor_output (b - y) (a + x) y = Inr z"
  shows "z * 2 ^ 100 \<le> x * (2 ^ 50 + 1) ^ 2"
proof -
  have le: "a \<le> 2 ^ 62" "x \<le> 2 ^ 62" using assms(1,4,5) by simp_all
  have y: "y < b" by (rule bancor_output_below_reserve [OF assms(1) le(1) assms(2,3,4) le(2) assms(6,7)])
  have 1: "y * (a + x) * 2 ^ 50 \<le> b * x * (2 ^ 50 + 1)"
    using bancor_output_bound [OF assms(1) le(1) assms(2,3,4) le(2)] assms(7) by auto
  have "1 \<le> b - y" "b - y \<le> 2 ^ 62" "1 \<le> a + x" "a + x \<le> 2 ^ 62" "y \<le> 2 ^ 62"
    using y assms by simp_all
  then have 2: "z * b * 2 ^ 50 \<le> (a + x) * y * (2 ^ 50 + 1)"
    using bancor_output_bound [of "b - y" "a + x" y] assms(8,9) by auto
  have "b * (z * 2 ^ 100) = z * b * 2 ^ 50 * 2 ^ 50" by simp
  also have "\<dots> \<le> (a + x) * y * (2 ^ 50 + 1) * 2 ^ 50" using 2 by (intro mult_right_mono) simp_all
  also have "\<dots> = y * (a + x) * 2 ^ 50 * (2 ^ 50 + 1)" by (simp add: mult_ac)
  also have "\<dots> \<le> b * x * (2 ^ 50 + 1) * (2 ^ 50 + 1)" using 1 by (intro mult_right_mono) simp_all
  also have "\<dots> = b * (x * (2 ^ 50 + 1) ^ 2)" by (simp only: power2_eq_square mult_ac)
  finally show ?thesis using assms(2) by (simp add: mult_le_cancel_left)
qed

lemma bancor_of_nothing:
  assumes "1 \<le> a" "a \<le> 2 ^ 62" and "1 \<le> b" "b \<le> 2 ^ 62"
  shows "get_bancor_output a b 0 = Inr 0"
proof -
  note ra = rnd_int_bounds [OF assms(1,2)] and rb = rnd_int_bounds [OF assms(3,4)]
  have zero: "to_double 0 = Fin 0" "of_i64 0 = Fin 0" using to_double_int [of 0] by (simp_all add: of_i64_exact)
  have "fadd (of_i64 a) (Fin 0) = Fin (rnd (rnd (of_int a)))"
    using ra by (simp add: to_double_pos order_trans [OF _ power_increasing [of 62 500 "2 :: rat"]])
  moreover have "0 < rnd (rnd (of_int a :: rat))"
    by (rule rnd_pos) (rule order_trans [OF _ ra(3)], simp)
  ultimately show ?thesis
    by (simp add: get_bancor_output_def zero rb(5) in_i64_def)
qed

lemma trade_there_and_back:
  assumes lib: "asset_library L" and sold: "asset_in_range (con_balance sold)" "1 \<le> reserve sold"
    and bought: "asset_in_range (con_balance bought)" "1 \<le> reserve bought"
    and x: "asset_in_range from" "1 \<le> amount from" "amount from < reserve sold * 2 ^ 50"
    and symb: "asset_symbol from = asset_symbol (con_balance sold)"
      "asset_symbol out0 = asset_symbol (con_balance bought)"
    and there: "trade L sold bought from out0 = Inr (out, sold1, bought1)"
    and again: "trade L bought1 sold1 out back0 = Inr (back, bought2, sold2)"
  shows "amount back * 2 ^ 100 \<le> amount from * (2 ^ 50 + 1) ^ 2"
proof -
  obtain n where n: "get_bancor_output (reserve sold) (reserve bought) (amount from) = Inr n" "0 \<le> n" "n < reserve bought"
    and t: "reserve sold + amount from \<le> max_amount" "out = out0\<lparr>amount := n\<rparr>"
      "sold1 = sold\<lparr>con_balance := (con_balance sold)\<lparr>amount := reserve sold + amount from\<rparr>\<rparr>"
      "bought1 = bought\<lparr>con_balance := (con_balance bought)\<lparr>amount := reserve bought - n\<rparr>\<rparr>"
    using trade_effect [OF lib sold bought x symb] there by (auto split: if_splits)
  have b: "reserve bought \<le> 2 ^ 62" using bought by (simp add: asset_in_range_def max_amount_def reserve_def)
  have r: "reserve sold1 = reserve sold + amount from" "reserve bought1 = reserve bought - n" "amount out = n"
    by (simp_all add: reserve_def t)
  have typed: "in_i64 (reserve sold1)" "in_i64 (reserve bought1)" "in_i64 (amount out)"
    using t(1) b n sold x by (simp_all add: r in_i64_def max_amount_def)
  have z: "get_bancor_output (reserve bought - n) (reserve sold + amount from) n = Inr (amount back)"
    using trade_Inr(4) [OF lib typed(2,1,3) again] by (simp only: r)
  have sum: "reserve sold + amount from \<le> 2 ^ 62" using t(1) by (simp add: max_amount_def)
  show ?thesis
  proof (cases "n = 0")
    case True
    have "get_bancor_output (reserve bought) (reserve sold + amount from) 0 = Inr 0"
      by (rule bancor_of_nothing) (use sold x sum bought b in simp_all)
    then show ?thesis using z x(2) by (simp add: True)
  next
    case False
    then have "1 \<le> n" using n(2) by simp
    then show ?thesis by (rule bancor_there_and_back [OF sold(2) bought(2) b x(2) sum x(3) n(1) _ z])
  qed
qed

text \<open>The reserve that is sold to.\<close>

definition paid_into :: "symbol \<Rightarrow> exchange_state \<Rightarrow> int" where
  "paid_into y m = (if y = asset_symbol (con_balance (ex_base m)) then reserve (ex_base m) else reserve (ex_quote m))"

lemma convert_there_and_back:
  assumes lib: "asset_library L" and ok: "exchange_ok m" and x: "asset_in_range from" "0 < amount from"
    and there: "direct_convert L from to m = Inr (out, m1)"
    and again: "direct_convert L out (asset_symbol from) m1 = Inr (res, m2)"
    and small: "amount from < paid_into (asset_symbol from) m * 2 ^ 50"
  shows "amount res * 2 ^ 100 \<le> amount from * (2 ^ 50 + 1) ^ 2"
proof -
  have typed: "market_typed m" "in_i64 (amount from)"
    using ok x by (auto simp: exchange_ok_def market_typed_def reserve_def asset_in_range_def max_amount_def in_i64_def)
  note e = direct_convert_Inr [OF lib typed there]
  have ne: "asset_symbol (con_balance (ex_base m)) \<noteq> asset_symbol (con_balance (ex_quote m))"
    and range: "asset_in_range (con_balance (ex_base m))" "1 \<le> reserve (ex_base m)"
      "asset_in_range (con_balance (ex_quote m))" "1 \<le> reserve (ex_quote m)"
    using ok by (simp_all add: exchange_ok_def)
  have one: "1 \<le> amount from" using x(2) by simp
  from direct_convert_trades [OF lib there] obtain out0 where out0: "asset_symbol out0 = to"
    and trades: "(\<exists>b q. trade L (ex_base m) (ex_quote m) from out0 = Inr (out, b, q) \<and>
        asset_symbol from = asset_symbol (con_balance (ex_base m)) \<and> to = asset_symbol (con_balance (ex_quote m)) \<and>
        m1 = m\<lparr>ex_base := b, ex_quote := q\<rparr>) \<or>
      (\<exists>b q. trade L (ex_quote m) (ex_base m) from out0 = Inr (out, q, b) \<and>
        asset_symbol from = asset_symbol (con_balance (ex_quote m)) \<and> to = asset_symbol (con_balance (ex_base m)) \<and>
        m1 = m\<lparr>ex_base := b, ex_quote := q\<rparr>)"
    by blast
  obtain back0 where
    trades': "(\<exists>b q. trade L (ex_base m1) (ex_quote m1) out back0 = Inr (res, b, q) \<and>
        to = asset_symbol (con_balance (ex_base m)) \<and> asset_symbol from = asset_symbol (con_balance (ex_quote m))) \<or>
      (\<exists>b q. trade L (ex_quote m1) (ex_base m1) out back0 = Inr (res, q, b) \<and>
        to = asset_symbol (con_balance (ex_quote m)) \<and> asset_symbol from = asset_symbol (con_balance (ex_base m)))"
    using direct_convert_trades [OF lib again] unfolding e(2,6,7) by blast
  from trades show ?thesis
  proof (elim disjE exE conjE)
    fix b q
    assume t: "trade L (ex_base m) (ex_quote m) from out0 = Inr (out, b, q)"
      "asset_symbol from = asset_symbol (con_balance (ex_base m))" "to = asset_symbol (con_balance (ex_quote m))"
      "m1 = m\<lparr>ex_base := b, ex_quote := q\<rparr>"
    obtain b' q' where "trade L q b out back0 = Inr (res, q', b')" using trades' ne t(2-4) by auto
    moreover have "amount from < reserve (ex_base m) * 2 ^ 50" using small by (simp add: paid_into_def t(2))
    ultimately show ?thesis using trade_there_and_back [OF lib range x(1) one _ t(2) _ t(1)] out0 t(3) by simp
  next
    fix b q
    assume t: "trade L (ex_quote m) (ex_base m) from out0 = Inr (out, q, b)"
      "asset_symbol from = asset_symbol (con_balance (ex_quote m))" "to = asset_symbol (con_balance (ex_base m))"
      "m1 = m\<lparr>ex_base := b, ex_quote := q\<rparr>"
    obtain b' q' where "trade L b q out back0 = Inr (res, b', q')" using trades' ne t(2-4) by auto
    moreover have "amount from < reserve (ex_quote m) * 2 ^ 50" using small ne by (simp add: paid_into_def t(2))
    ultimately show ?thesis using trade_there_and_back [OF lib range(3,4,1,2) x(1) one _ t(2) _ t(1)] out0 t(3) by simp
  qed
qed

text \<open>
  Beyond that the doubles can return more than was paid: here four units more, of \<open>7.9 * 10 ^ 16\<close>.
\<close>

lemma rounding_can_gain:
  "get_bancor_output 399223263657779 5580548728072 78806996021881084 = Inr 5552421077285 \<and>
   get_bancor_output (5580548728072 - 5552421077285) (399223263657779 + 78806996021881084) 5552421077285 = Inr 78806996021881088"
proof -
  note eval = power_int_def power_divide abs_if of_i64_def
  have x: "of_i64 78806996021881084 = Fin 78806996021881088" "of_i64 79206219285538863 = Fin 79206219285538864"
    "to_double 79206219285538867 = Fin 79206219285538864"
    using to_double_eval [of 56 78806996021881084 4925437251367568] to_double_eval [of 56 79206219285538863 4950388705346179]
      to_double_eval [of 56 79206219285538867 4950388705346179] by (simp_all add: eval)
  have m: "to_double 439786281413083669519231502336 = Fin 439786281413083641977346457600"
    "to_double 439786281413083642272615104240 = Fin 439786281413083641977346457600"
    using to_double_eval [of 98 439786281413083669519231502336 6249738950900275]
      to_double_eval [of 98 439786281413083642272615104240 6249738950900275] by (simp_all add: eval)
  have q: "to_double (27486642588317727623584153600 / 4950388705346179) = Fin 5552421077285"
    "to_double (54973285176635455247168307200 / 697568591009) = Fin 78806996021881088"
    using to_double_eval [of 42 "27486642588317727623584153600 / 4950388705346179" 5685679183139840]
      to_double_eval [of 56 "54973285176635455247168307200 / 697568591009" 4925437251367568] by (simp_all add: eval)
  show ?thesis by (simp add: get_bancor_output_def x m q in_i64_def)
qed

text \<open>
  C13: converting an amount and converting the proceeds straight back, in either direction, returns no more than
  was paid, as long as less than \<open>2 ^ 48\<close> units were paid; for any amount below \<open>2 ^ 50\<close> times the reserve it is
  paid into, the roundings of the doubles let it return at most \<open>(1 + 2 ^ -50) ^ 2\<close> times what was paid. Nothing is
  assumed of the size of the reserves but that both are valid assets and not empty.
\<close>

theorem conversion_and_back:
  assumes "asset_library L" and "exchange_ok m" and "asset_in_range from" and "0 < amount from"
    and "direct_convert L from to m = Inr (out, m1)"
    and "direct_convert L out (asset_symbol from) m1 = Inr (back, m2)"
  shows "asset_symbol back = asset_symbol from \<and> 0 \<le> amount back \<and>
    (amount from < 2 ^ 48 \<longrightarrow> amount back \<le> amount from) \<and>
    (amount from < paid_into (asset_symbol from) m * 2 ^ 50 \<longrightarrow>
      amount back * 2 ^ 100 \<le> amount from * (2 ^ 50 + 1) ^ 2)"
proof -
  have typed: "market_typed m" "in_i64 (amount from)"
    using assms(2-4) by (auto simp: exchange_ok_def market_typed_def reserve_def asset_in_range_def max_amount_def in_i64_def)
  note there = direct_convert_Inr [OF assms(1) typed assms(5)]
  note again = direct_convert_Inr [OF assms(1) there(5,4) assms(6)]
  note bound = convert_there_and_back [OF assms]
  have "1 \<le> paid_into (asset_symbol from) m" using assms(2) by (simp add: paid_into_def exchange_ok_def)
  moreover have "amount back \<le> amount from" if "amount from < 2 ^ 48"
    "amount back * 2 ^ 100 \<le> amount from * (2 ^ 50 + 1) ^ 2"
  proof (rule ccontr)
    assume "\<not> amount back \<le> amount from"
    then have "(amount from + 1) * 2 ^ 100 \<le> amount from * (2 ^ 50 + 1) ^ 2" using that(2) by simp
    then show False using that(1) by (simp add: algebra_simps)
  qed
  ultimately show ?thesis using again(2,3) bound by auto
qed

theorem conversion_and_back_witness:
  "\<exists>out m1 back m2. direct_convert std_cdt (wax_asset 500) (Symbol 0 5062994) sample_market = Inr (out, m1) \<and>
     direct_convert std_cdt out wax m1 = Inr (back, m2) \<and> amount back \<le> 500"
proof -
  have y: "get_bancor_output 2000 1000000 500 = Inr 200000" and z: "get_bancor_output 800000 2500 200000 = Inr 500"
    by (simp_all add: get_bancor_output_def in_i64_def)
  obtain out m1 got m2 where there: "direct_convert std_cdt (wax_asset 500) (Symbol 0 5062994) sample_market = Inr (out, m1)"
    and again: "direct_convert std_cdt out (asset_symbol (wax_asset 500)) m1 = Inr (got, m2)"
    by (simp add: direct_convert_def trade_def sample_market_def sample_simps Let_def y z)
  have pre: "asset_in_range (wax_asset 500)" "0 < amount (wax_asset 500)" by (simp_all add: sample_simps)
  from conversion_and_back [OF std_library.asset_library_axioms sample_market_ok pre there again] show ?thesis
    using there again by (auto simp: wax_asset_def)
qed

end
