(* ===== verification/LimitAuth.thy ===== *)
theory LimitAuth
  imports Chain
begin

text \<open>
  Limits on changes of an account's permissions (\<open>eosio.system/src/limit_auth_changes.cpp\<close> and the
  four native actions in \<open>native.hpp\<close> that ask for them): an account may restrict which of its
  permissions can authorise \<open>updateauth\<close>, \<open>deleteauth\<close>, \<open>linkauth\<close> and \<open>unlinkauth\<close>. The lemmas
  show when such a change passes, and that no account can lock out its owner permission.
\<close>

record limit_auth_change =
  la_version :: int
  la_account :: name
  allow_perms :: "name list"
  disallow_perms :: "name list"

type_synonym limit_table = "(name, limit_auth_change) table"

definition owner_perm :: name where "owner_perm = name_of ''owner''"

definition limitauthchg ::
  "ctx \<Rightarrow> name \<Rightarrow> name list \<Rightarrow> name list \<Rightarrow> limit_table \<Rightarrow> limit_table result" where
  "limitauthchg c account allow disallow t =
     require_auth c account (
     check (allow = [] \<or> disallow = []) ''either allow_perms or disallow_perms must be empty'' (
     check (allow = [] \<or> List.member allow owner_perm) ''allow_perms does not contain owner'' (
     check (disallow = [] \<or> \<not> List.member disallow owner_perm) ''disallow_perms contains owner'' (
     if allow \<noteq> [] \<or> disallow \<noteq> [] then
       (case find_row t account of
          None \<Rightarrow> Inr (put account account
            \<lparr>la_version = 0, la_account = account, allow_perms = allow, disallow_perms = disallow\<rparr> t)
        | Some row \<Rightarrow> Inr (modify_row (Some account) account
            (row\<lparr>allow_perms := allow, disallow_perms := disallow\<rparr>) t))
     else Inr (if find_row t account \<noteq> None then erase_row account t else t)))))"

definition check_auth_change :: "ctx \<Rightarrow> name \<Rightarrow> name option \<Rightarrow> limit_table \<Rightarrow> unit result" where
  "check_auth_change c account authorized_by t =
     (let by' = (case authorized_by of None \<Rightarrow> 0 | Some n \<Rightarrow> n);
          checked =
            (case find_row t account of
               None \<Rightarrow> Inr ()
             | Some row \<Rightarrow>
                 check (by' \<noteq> 0) ''authorized_by is required for this account'' (
                 if allow_perms row \<noteq> [] then
                   check (List.member (allow_perms row) by') ''authorized_by does not appear in allow_perms'' (Inr ())
                 else
                   check (\<not> List.member (disallow_perms row) by') ''authorized_by appears in disallow_perms''
                     (Inr ()))) in
      if by' \<noteq> 0 then require_auth_level c (account, by') checked else checked)"

text \<open>
  The four native actions; what they change is the chain's, after the contract has let them pass.
\<close>

definition updateauth ::
  "ctx \<Rightarrow> name \<Rightarrow> name \<Rightarrow> name \<Rightarrow> 'authority \<Rightarrow> name option \<Rightarrow> limit_table \<Rightarrow> unit result" where
  "updateauth c account permission parent auth authorized_by t = check_auth_change c account authorized_by t"

definition deleteauth :: "ctx \<Rightarrow> name \<Rightarrow> name \<Rightarrow> name option \<Rightarrow> limit_table \<Rightarrow> unit result" where
  "deleteauth c account permission authorized_by t = check_auth_change c account authorized_by t"

definition linkauth ::
  "ctx \<Rightarrow> name \<Rightarrow> name \<Rightarrow> name \<Rightarrow> name \<Rightarrow> name option \<Rightarrow> limit_table \<Rightarrow> unit result" where
  "linkauth c account code type requirement authorized_by t = check_auth_change c account authorized_by t"

definition unlinkauth ::
  "ctx \<Rightarrow> name \<Rightarrow> name \<Rightarrow> name \<Rightarrow> name option \<Rightarrow> limit_table \<Rightarrow> unit result" where
  "unlinkauth c account code type authorized_by t = check_auth_change c account authorized_by t"

datatype limit_action = Limit name "name list" "name list"

fun limit_step :: "ctx \<times> limit_action \<Rightarrow> limit_table \<Rightarrow> limit_table result" where
  "limit_step (c, Limit account allow disallow) t = limitauthchg c account allow disallow t"

section \<open>What passes\<close>

text \<open>The permissions that a row lets change an account's permissions.\<close>

definition permits :: "limit_auth_change \<Rightarrow> name \<Rightarrow> bool" where
  "permits row p \<longleftrightarrow> (if allow_perms row \<noteq> [] then p \<in> set (allow_perms row) else p \<notin> set (disallow_perms row))"

definition limit_row_ok :: "name \<Rightarrow> limit_auth_change \<Rightarrow> bool" where
  "limit_row_ok k row \<longleftrightarrow> la_account row = k \<and> (allow_perms row = []) \<noteq> (disallow_perms row = [])
     \<and> permits row owner_perm"

definition limit_ok :: "limit_table \<Rightarrow> bool" where
  "limit_ok t \<longleftrightarrow> all_rows limit_row_ok t"

lemma limit_ok_empty: "limit_ok no_rows"
  by (simp add: limit_ok_def)

lemma limitauthchg_ok:
  assumes ok: "limit_ok t" and run: "limitauthchg c account allow disallow t = Inr t'"
  shows "limit_ok t'"
proof -
  have perms: "allow = [] \<or> disallow = []" "allow = [] \<or> owner_perm \<in> set allow" "owner_perm \<notin> set disallow"
    using run by (auto simp: limitauthchg_def)
  show ?thesis
  proof (cases "allow = [] \<and> disallow = []")
    case True
    then show ?thesis
      using run ok by (auto simp: limitauthchg_def limit_ok_def all_rows_erase)
  next
    case False
    have row_ok: "limit_row_ok account \<lparr>la_version = v, la_account = account,
        allow_perms = allow, disallow_perms = disallow\<rparr>" for v
      using perms False by (auto simp: limit_row_ok_def permits_def)
    show ?thesis
    proof (cases "find_row t account")
      case None
      then have "t' = put account account \<lparr>la_version = 0, la_account = account,
          allow_perms = allow, disallow_perms = disallow\<rparr> t"
        using run False by (auto simp: limitauthchg_def)
      then show ?thesis using ok row_ok by (simp add: limit_ok_def all_rows_put)
    next
      case (Some row)
      then have "la_account row = account" using ok by (auto simp: limit_ok_def limit_row_ok_def dest: all_rowsD)
      then have "limit_row_ok account (row\<lparr>allow_perms := allow, disallow_perms := disallow\<rparr>)"
        using row_ok [of "la_version row"] by (cases row) simp
      moreover have "t' = modify_row (Some account) account
          (row\<lparr>allow_perms := allow, disallow_perms := disallow\<rparr>) t"
        using run Some False by (auto simp: limitauthchg_def)
      ultimately show ?thesis using ok by (simp add: limit_ok_def all_rows_modify)
    qed
  qed
qed

interpretation limits: contract_machine limit_step "\<lambda>_. True" limit_ok
proof
  fix a t t'
  assume "limit_ok t" and "limit_step a t = Inr t'"
  then show "limit_ok t'" by (cases a; cases "snd a") (auto intro: limitauthchg_ok)
qed

lemma owner_perm_nonzero: "owner_perm \<noteq> 0"
  by code_simp

lemma check_auth_change_limited:
  "find_row t account = Some row \<Longrightarrow>
   is_ok (check_auth_change c account by' t) \<longleftrightarrow>
   (\<exists>p. by' = Some p \<and> p \<noteq> 0 \<and> (account, p) \<in> set (ctx_auths c) \<and> permits row p)"
  by (cases by') (auto simp: check_auth_change_def permits_def require_auth_level_def Let_def)

section \<open>Properties\<close>

text \<open>
  C14: a change of the permissions of an account that limited them passes exactly when it names a
  permission that the account allows (it is on the allow list, or not on the disallow list), and
  the action was signed with that very permission. All four native actions ask for this.
\<close>

theorem limited_changes:
  assumes "find_row t account = Some row"
  shows "(is_ok (updateauth c account permission parent auth by' t) \<longleftrightarrow>
      (\<exists>p. by' = Some p \<and> p \<noteq> 0 \<and> (account, p) \<in> set (ctx_auths c) \<and> permits row p)) \<and>
    deleteauth c account permission by' t = updateauth c account permission parent auth by' t \<and>
    linkauth c account code type requirement by' t = updateauth c account permission parent auth by' t \<and>
    unlinkauth c account code type by' t = updateauth c account permission parent auth by' t"
  using check_auth_change_limited [OF assms]
  by (simp add: updateauth_def deleteauth_def linkauth_def unlinkauth_def)

lemma check_auth_change_unlimited:
  "find_row t account = None \<Longrightarrow> is_ok (check_auth_change c account by' t) \<longleftrightarrow>
   (\<forall>p. by' = Some p \<and> p \<noteq> 0 \<longrightarrow> (account, p) \<in> set (ctx_auths c))"
  by (cases by') (auto simp: check_auth_change_def require_auth_level_def Let_def)

text \<open>
  C15: nobody can lock out the owner permission: after every history of \<open>limitauthchg\<close> each of \<open>updateauth\<close>,
  \<open>deleteauth\<close>, \<open>linkauth\<close> and \<open>unlinkauth\<close> passes if it names \<open>owner\<close> in \<open>authorized_by\<close> and is signed with it,
  whatever the account's limits; and if the account has no limits, each of them passes, whoever signs, if it names
  nobody, and, if it names a permission, exactly when it is signed with that permission.
\<close>

theorem owner_is_never_locked_out:
  assumes "t = run limit_step as no_rows"
  shows "((account, owner_perm) \<in> set (ctx_auths c) \<longrightarrow>
      is_ok (updateauth c account permission parent auth (Some owner_perm) t) \<and>
      is_ok (deleteauth c account permission (Some owner_perm) t) \<and>
      is_ok (linkauth c account code type requirement (Some owner_perm) t) \<and>
      is_ok (unlinkauth c account code type (Some owner_perm) t)) \<and>
    (find_row t account = None \<longrightarrow>
      (let passes = (\<forall>p. by' = Some p \<and> p \<noteq> 0 \<longrightarrow> (account, p) \<in> set (ctx_auths c)) in
       (is_ok (updateauth c account permission parent auth by' t) \<longleftrightarrow> passes) \<and>
       (is_ok (deleteauth c account permission by' t) \<longleftrightarrow> passes) \<and>
       (is_ok (linkauth c account code type requirement by' t) \<longleftrightarrow> passes) \<and>
       (is_ok (unlinkauth c account code type by' t) \<longleftrightarrow> passes)))"
proof -
  have ok: "limit_ok t"
    unfolding assms(1) by (rule limits.run_inv) (simp_all add: list_all_iff limit_ok_empty)
  have "is_ok (check_auth_change c account (Some owner_perm) t)" if "(account, owner_perm) \<in> set (ctx_auths c)"
  proof (cases "find_row t account")
    case None
    then show ?thesis using that by (simp add: check_auth_change_unlimited)
  next
    case (Some row)
    then have "permits row owner_perm" using ok by (auto simp: limit_ok_def limit_row_ok_def dest: all_rowsD)
    then show ?thesis using check_auth_change_limited [OF Some] that owner_perm_nonzero by simp
  qed
  then show ?thesis
    by (auto simp: updateauth_def deleteauth_def linkauth_def unlinkauth_def check_auth_change_unlimited)
qed

definition sample_limits :: "(ctx \<times> limit_action) list" where
  "sample_limits = [(sample_ctx 7 [3], Limit 3 [] [44]), (sample_ctx 7 [4], Limit 4 [owner_perm, 5] [])]"

theorem limited_changes_witness:
  "\<exists>row. find_row (run limit_step sample_limits no_rows) 4 = Some row \<and>
     \<not> is_ok (updateauth ((sample_ctx 7 [])\<lparr>ctx_auths := [(4, 6)]\<rparr>) 4 1 2 () (Some 6) (run limit_step sample_limits no_rows))"
proof -
  let ?t = "run limit_step sample_limits no_rows"
  have ne: "owner_perm \<noteq> 44" "owner_perm \<noteq> 6" by code_simp+
  obtain row where row: "find_row ?t 4 = Some row" "allow_perms row = [owner_perm, 5]"
    using ne by (simp add: sample_limits_def limitauthchg_def sample_simps require_auth_def)
  show ?thesis
    using limited_changes [OF row(1), of "(sample_ctx 7 [])\<lparr>ctx_auths := [(4, 6)]\<rparr>" 1 2 "()" "Some 6"] row ne
    by (auto simp: permits_def)
qed

theorem owner_is_never_locked_out_witness:
  "(let t = run limit_step sample_limits no_rows; c = (sample_ctx 7 [])\<lparr>ctx_auths := [(4, owner_perm)]\<rparr> in
    is_ok (updateauth c 4 1 2 () (Some owner_perm) t) \<and> is_ok (unlinkauth c 4 8 9 (Some owner_perm) t) \<and>
    is_ok (deleteauth c 6 1 None t) \<and> \<not> is_ok (linkauth c 6 8 9 1 (Some 5) t))"
proof -
  let ?t = "run limit_step sample_limits no_rows" and ?c = "(sample_ctx 7 [])\<lparr>ctx_auths := [(4, owner_perm)]\<rparr>"
  have ne: "owner_perm \<noteq> 44" by code_simp
  have "find_row ?t 6 = None"
    using ne by (simp add: sample_limits_def limitauthchg_def sample_simps require_auth_def)
  then show ?thesis
    using owner_is_never_locked_out [OF refl, of 4 ?c 1 2 "()" sample_limits 8 9 1 None]
      owner_is_never_locked_out [OF refl, of 6 ?c 1 2 "()" sample_limits 8 9 1 None]
      owner_is_never_locked_out [OF refl, of 6 ?c 1 2 "()" sample_limits 8 9 1 "Some 5"]
    by (simp add: Let_def)
qed

end
