(* ===== verification/BlockInfo.thy ===== *)
theory BlockInfo
  imports Chain
begin

text \<open>
  The rolling table of recent blocks (\<open>eosio.system/src/block_info.cpp\<close>, \<open>block_info.hpp\<close>): what
  \<open>onblock\<close> records, and the query for the latest batch of blocks. Heights are 32-bit words, as in
  the code. The lemmas show which blocks the table holds after a run of consecutive blocks, and
  that the query then finds the batch it is asked for.
\<close>

section \<open>Model\<close>

record block_info_record =
  bi_version :: int
  block_height :: "32 word"
  block_timestamp :: int

type_synonym block_info_table = "(32 word, block_info_record) table"

definition rolling_window_size :: "32 word" where "rolling_window_size = 10"

definition block_height_from_id :: "bytes \<Rightarrow> 32 word" where
  "block_height_from_id block_id =
     push_bit 24 (ucast (block_id ! 0)) OR push_bit 16 (ucast (block_id ! 1))
       OR push_bit 8 (ucast (block_id ! 2)) OR ucast (block_id ! 3)"

text \<open>The loop that erases from the front of the table, at most \<open>count\<close> rows.\<close>

fun prune :: "nat \<Rightarrow> 32 word \<Rightarrow> block_info_table \<Rightarrow> block_info_table" where
  "prune 0 limit t = t"
| "prune (Suc count) limit t =
     (case rows t of
        [] \<Rightarrow> t
      | (k, r) # _ \<Rightarrow> if block_height r \<le> limit then prune count limit (erase_row k t) else t)"

definition add_to_blockinfo_table ::
  "ctx \<Rightarrow> bytes \<Rightarrow> int \<Rightarrow> block_info_table \<Rightarrow> block_info_table result" where
  "add_to_blockinfo_table c previous_block_id timestamp t =
     (let new_block_height = block_height_from_id previous_block_id + 1;
          row = \<lparr>bi_version = 0, block_height = new_block_height, block_timestamp = timestamp\<rparr> in
      bind_result (if rolling_window_size > 0
                   then emplace_row (ctx_self c) new_block_height row t else Inr t) (\<lambda>t1.
      let last_prunable_block_height =
            max new_block_height rolling_window_size - rolling_window_size in
      Inr (prune 2 last_prunable_block_height t1)))"

record block_batch_info =
  batch_start_height :: "32 word"
  batch_start_timestamp :: int
  batch_current_end_height :: "32 word"
  batch_current_end_timestamp :: int

datatype batch_error = invalid_input | unsupported_version | insufficient_data

definition get_latest_block_batch_info ::
  "32 word \<Rightarrow> 32 word \<Rightarrow> block_info_table \<Rightarrow> batch_error + block_batch_info" where
  "get_latest_block_batch_info batch_start_height_offset batch_size t =
     (if batch_size = 0 then Inl invalid_input
      else if rows t = [] then Inl insufficient_data
      else
        let latest = snd (last (rows t)) in
        if bi_version latest \<noteq> 0 then Inl unsupported_version
        else
          let end_height = block_height latest in
          if end_height < batch_start_height_offset then Inl insufficient_data
          else
            let start_height = end_height - ((end_height - batch_start_height_offset) mod batch_size) in
            if start_height = end_height then
              Inr \<lparr>batch_start_height = start_height, batch_start_timestamp = block_timestamp latest,
                   batch_current_end_height = end_height,
                   batch_current_end_timestamp = block_timestamp latest\<rparr>
            else
              case find_row t start_height of
                None \<Rightarrow> Inl insufficient_data
              | Some start \<Rightarrow>
                  if block_height start \<noteq> start_height then Inl insufficient_data
                  else if bi_version start \<noteq> 0 then Inl unsupported_version
                  else Inr \<lparr>batch_start_height = start_height,
                         batch_start_timestamp = block_timestamp start,
                         batch_current_end_height = end_height,
                         batch_current_end_timestamp = block_timestamp latest\<rparr>)"

section \<open>Pruning\<close>

definition blockinfo_ok :: "block_info_table \<Rightarrow> bool" where
  "blockinfo_ok t \<longleftrightarrow> all_rows (\<lambda>k r. block_height r = k \<and> bi_version r = 0) t"

lemma prune_find:
  assumes "blockinfo_ok t" and "length (filter (\<lambda>x. fst x \<le> limit) (rows t)) \<le> n"
  shows "find_row (prune n limit t) j = (if j \<le> limit then None else find_row t j)"
  using assms
proof (induction n arbitrary: t)
  case 0
  then have "\<forall>x \<in> set (rows t). \<not> fst x \<le> limit" by (simp add: filter_empty_conv)
  then have "find_row t j = None" if "j \<le> limit" using that by (cases "find_row t j") (auto simp flip: in_rows_iff)
  then show ?case by simp
next
  case (Suc n)
  show ?case
  proof (cases "rows t")
    case Nil
    then have "find_row t j = None" by (metis in_rows_iff list.set(1) not_None_eq empty_iff)
    then show ?thesis using Nil by simp
  next
    case (Cons x rs)
    obtain k r where x: "x = (k, r)" by (cases x)
    have kr: "find_row t k = Some r" using Cons x by (simp flip: in_rows_iff)
    then have r: "block_height r = k" using Suc.prems(1) by (auto simp: blockinfo_ok_def dest: all_rowsD)
    show ?thesis
    proof (cases "k \<le> limit")
      case True
      have "rows (erase_row k t) = rs"
        using rows_erase_head [of t k r rs] Cons x by simp
      then have "length (filter (\<lambda>x. fst x \<le> limit) (rows (erase_row k t))) \<le> n"
        using Suc.prems(2) Cons x True by simp
      moreover have "blockinfo_ok (erase_row k t)" using Suc.prems(1) by (simp add: blockinfo_ok_def all_rows_erase)
      ultimately have "find_row (prune n limit (erase_row k t)) j =
          (if j \<le> limit then None else find_row (erase_row k t) j)"
        using Suc.IH by blast
      then show ?thesis using True Cons x r by auto
    next
      case False
      then have "find_row t j = None" if "j \<le> limit"
        using that rows_head_least [of t k r rs j] Cons x by (cases "find_row t j") auto
      then show ?thesis using False Cons x r by simp
    qed
  qed
qed

section \<open>Consecutive blocks\<close>

text \<open>A run of \<open>onblock\<close>: the id of the previous block, which holds its height, and the time.\<close>

fun block_step :: "ctx \<times> bytes \<times> int \<Rightarrow> block_info_table \<Rightarrow> block_info_table result" where
  "block_step (c, prev, ts) t = add_to_blockinfo_table c prev ts t"

definition height_of :: "ctx \<times> bytes \<times> int \<Rightarrow> 32 word" where
  "height_of b = block_height_from_id (fst (snd b)) + 1"

definition consecutive :: "nat \<Rightarrow> (ctx \<times> bytes \<times> int) list \<Rightarrow> bool" where
  "consecutive h bs \<longleftrightarrow> 1 \<le> h \<and> h + length bs \<le> 2 ^ 32 \<and>
     (\<forall>i < length bs. unat (height_of (bs ! i)) = h + i)"

lemma consecutive_prefix: "consecutive h (bs @ [b]) \<Longrightarrow> consecutive h bs"
  unfolding consecutive_def
proof (elim conjE, intro conjI allI impI)
  fix i
  assume all: "\<forall>i < length (bs @ [b]). unat (height_of ((bs @ [b]) ! i)) = h + i" and i: "i < length bs"
  then have "unat (height_of ((bs @ [b]) ! i)) = h + i" by simp
  then show "unat (height_of (bs ! i)) = h + i" using i by (simp add: nth_append)
qed simp_all

definition in_window :: "nat \<Rightarrow> nat \<Rightarrow> 32 word \<Rightarrow> bool" where
  "in_window h n k \<longleftrightarrow> h \<le> unat k \<and> unat k < h + n \<and> h + n \<le> unat k + 10"

definition recorded :: "nat \<Rightarrow> (ctx \<times> bytes \<times> int) list \<Rightarrow> 32 word \<Rightarrow> block_info_record option" where
  "recorded h bs k =
     (if in_window h (length bs) k
      then Some \<lparr>bi_version = 0, block_height = k, block_timestamp = snd (snd (bs ! (unat k - h)))\<rparr>
      else None)"

lemma few_rows_below:
  assumes "\<And>k. k \<le> limit \<Longrightarrow> find_row t k \<noteq> None \<Longrightarrow> k = a"
  shows "length (filter (\<lambda>x. fst x \<le> limit) (rows t)) \<le> 1"
proof -
  let ?xs = "filter (\<lambda>x. fst x \<le> limit) (rows t)"
  have d: "distinct (map fst ?xs)"
    using keys_ordered_distinct [OF keys_ordered_rows [of t]] by (rule distinct_map_filter)
  have "set (map fst ?xs) \<subseteq> {a}"
    using assms by (auto simp: in_rows_iff)
  then have "card (set (map fst ?xs)) \<le> 1" using card_mono [of "{a}"] by simp
  then show ?thesis using distinct_card [OF d] by simp
qed

lemma window_step:
  assumes t: "\<forall>k. find_row t k = recorded h bs k" and con: "consecutive h (bs @ [b])"
  shows "\<exists>t'. block_step b t = Inr t' \<and> (\<forall>k. find_row t' k = recorded h (bs @ [b]) k)"
proof -
  obtain c prev ts where b: "b = (c, prev, ts)" by (cases b)
  let ?n = "length bs" and ?H = "height_of b"
  have h: "1 \<le> h" "h + ?n < 2 ^ 32" and H: "unat ?H = h + ?n"
    using con unfolding consecutive_def by (auto simp: nth_append dest: spec [of _ ?n])
  define limit where "limit = max ?H rolling_window_size - rolling_window_size"
  have limit: "unat limit = h + ?n - 10"
  proof -
    have "rolling_window_size \<le> max ?H rolling_window_size" by simp
    then have "unat limit = unat (max ?H rolling_window_size) - unat rolling_window_size"
      unfolding limit_def by (rule unat_sub)
    then show ?thesis using H by (auto simp: max_def rolling_window_size_def word_le_nat_alt)
  qed
  define row where "row = \<lparr>bi_version = 0, block_height = ?H, block_timestamp = ts\<rparr>"
  define t1 where "t1 = put ?H (ctx_self c) row t"
  have fresh: "find_row t ?H = None" using t H by (simp add: recorded_def in_window_def)
  have t1: "find_row t1 k = (if k = ?H then Some row else recorded h bs k)" for k
    using t by (simp add: t1_def)
  have old: "unat k = h + ?n - 10" if "k \<le> limit" "find_row t1 k \<noteq> None" for k
    using that limit h H unfolding t1 by (auto simp: recorded_def in_window_def word_le_nat_alt split: if_splits)
  then have "length (filter (\<lambda>x. fst x \<le> limit) (rows t1)) \<le> 1"
    by (intro few_rows_below [of _ _ limit]) (metis limit word_unat_eq_iff)
  moreover have "blockinfo_ok t1"
    using t1 unfolding blockinfo_ok_def all_rows_iff by (auto simp: recorded_def row_def split: if_splits)
  ultimately have pruned: "find_row (prune 2 limit t1) k = (if k \<le> limit then None else find_row t1 k)" for k
    by (intro prune_find) simp_all
  have "find_row (prune 2 limit t1) k = recorded h (bs @ [b]) k" for k
  proof (cases "k = ?H")
    case True
    then show ?thesis
      using h H limit b unfolding pruned t1 recorded_def in_window_def
      by (simp add: word_le_nat_alt nth_append row_def)
  next
    case False
    then have "unat k \<noteq> h + ?n" using H by (metis word_unat_eq_iff)
    then show ?thesis
      using False h limit unfolding pruned t1 recorded_def in_window_def
      by (auto simp: word_le_nat_alt nth_append)
  qed
  moreover have "block_step b t = Inr (prune 2 limit t1)"
    using fresh unfolding b limit_def t1_def row_def
    by (simp add: add_to_blockinfo_table_def Let_def height_of_def rolling_window_size_def)
  ultimately show ?thesis by blast
qed

lemma window_run:
  assumes "consecutive h bs"
  shows "find_row (run block_step bs no_rows) k = recorded h bs k"
  using assms
proof (induction bs arbitrary: k rule: rev_induct)
  case Nil
  then show ?case by (simp add: recorded_def in_window_def)
next
  case (snoc b bs)
  have "consecutive h bs" using snoc.prems by (rule consecutive_prefix)
  then obtain t' where "block_step b (run block_step bs no_rows) = Inr t'"
    "\<forall>k. find_row t' k = recorded h (bs @ [b]) k"
    using window_step [OF _ snoc.prems] snoc.IH by blast
  then show ?case by (simp add: run_append)
qed

text \<open>
  C16: after \<open>onblock\<close> ran for consecutive blocks, from an empty table, the table holds exactly the
  last ten of them (all of them while there are fewer), each with its height and its time.
\<close>

theorem last_ten_blocks:
  assumes "consecutive h bs"
  shows "find_row (run block_step bs no_rows) k =
    (if h \<le> unat k \<and> unat k < h + length bs \<and> h + length bs \<le> unat k + 10
     then Some \<lparr>bi_version = 0, block_height = k, block_timestamp = snd (snd (bs ! (unat k - h)))\<rparr>
     else None)"
  unfolding window_run [OF assms] recorded_def in_window_def ..

text \<open>
  The query for the latest batch answers with the batch it is asked for: it ends at the
  highest recorded block, starts at or after the offset at a multiple of the batch size from it,
  spans less than the batch size, and reports the recorded times of both ends; it fails only
  without a recorded block at or above the offset or without a record of the batch's first block.
\<close>

theorem latest_batch_is_right:
  assumes "blockinfo_ok t" and "rows t \<noteq> []" and "width \<noteq> 0"
    and "find_row t tip = Some last_row" and "\<forall>k. find_row t k \<noteq> None \<longrightarrow> k \<le> tip"
  shows "get_latest_block_batch_info offset width t =
    (let start = tip - (tip - offset) mod width in
     if tip < offset then Inl insufficient_data
     else case find_row t start of
       None \<Rightarrow> Inl insufficient_data
     | Some r \<Rightarrow> Inr \<lparr>batch_start_height = start, batch_start_timestamp = block_timestamp r,
         batch_current_end_height = tip, batch_current_end_timestamp = block_timestamp last_row\<rparr>) \<and>
    (offset \<le> tip \<longrightarrow>
      (let start = tip - (tip - offset) mod width in
       offset \<le> start \<and> start \<le> tip \<and> tip - start < width \<and> (start - offset) mod width = 0))"
proof -
  have tip: "fst (last (rows t)) = tip" "snd (last (rows t)) = last_row"
  proof -
    have "tip \<le> fst (last (rows t))" using rows_last_greatest [OF assms(2,4)] .
    moreover have "fst (last (rows t)) \<le> tip" using assms(5) rows_last [OF assms(2)] by blast
    ultimately show "fst (last (rows t)) = tip" by simp
    then show "snd (last (rows t)) = last_row" using rows_last [OF assms(2)] assms(4) by simp
  qed
  have ok: "block_height r = k \<and> bi_version r = 0" if "find_row t k = Some r" for k r
    using assms(1) that by (auto simp: blockinfo_ok_def dest: all_rowsD)
  let ?start = "tip - (tip - offset) mod width"
  have "get_latest_block_batch_info offset width t =
    (if tip < offset then Inl insufficient_data
     else case find_row t ?start of
       None \<Rightarrow> Inl insufficient_data
     | Some r \<Rightarrow> Inr \<lparr>batch_start_height = ?start, batch_start_timestamp = block_timestamp r,
         batch_current_end_height = tip, batch_current_end_timestamp = block_timestamp last_row\<rparr>)"
  proof -
    obtain m where m: "(tip - offset) mod width = m" by blast
    show ?thesis
      using assms(2,3,4) ok [OF assms(4)] ok tip(2)
      by (cases "find_row t (tip - m)") (auto simp: get_latest_block_batch_info_def Let_def m)
  qed
  moreover have "offset \<le> ?start \<and> ?start \<le> tip \<and> tip - ?start < width \<and> (?start - offset) mod width = 0"
    if "offset \<le> tip"
  proof -
    have m: "(tip - offset) mod width \<le> tip - offset" "(tip - offset) mod width < width"
      using assms(3) by (simp_all add: word_mod_less_divisor word_gt_0 word_le_nat_alt unat_mod)
    have le: "(tip - offset) mod width \<le> tip"
      by (rule order_trans [OF m(1) word_sub_le [OF that]])
    have sub: "tip - ?start = (tip - offset) mod width" by simp
    have "?start - offset = (tip - offset) - (tip - offset) mod width" by simp
    also have "\<dots> mod width = 0"
    proof -
      let ?d = "tip - offset"
      have "unat (?d - ?d mod width) = unat ?d - unat ?d mod unat width"
        using m(1) by (simp add: unat_sub unat_mod_distrib)
      then have "unat ((?d - ?d mod width) mod width) = 0"
        by (simp add: unat_mod_distrib minus_mod_eq_mult_div)
      then show ?thesis by (simp only: unat_eq_0)
    qed
    finally have "(?start - offset) mod width = 0" .
    moreover have "offset \<le> ?start"
      using m(1) that le by (simp add: word_le_nat_alt unat_sub)
    ultimately show ?thesis using word_sub_le [OF le] m(2) sub by simp
  qed
  ultimately show ?thesis by (simp add: Let_def)
qed

definition sample_blocks :: "(ctx \<times> bytes \<times> int) list" where
  "sample_blocks = map (\<lambda>w. (sample_ctx 7 [7], [0, 0, 0, w], uint w)) [4, 5, 6, 7, 8, 9, 10, 11, 12, 13, 14, 15]"

lemma sample_consecutive: "consecutive 5 sample_blocks"
proof -
  have heights: "map (\<lambda>b. unat (height_of b)) sample_blocks = [5..<17]"
    by (simp add: sample_blocks_def height_of_def block_height_from_id_def)
  have len: "length sample_blocks = 12" by (simp add: sample_blocks_def)
  have "unat (height_of (sample_blocks ! i)) = 5 + i" if "i < length sample_blocks" for i
  proof -
    have "unat (height_of (sample_blocks ! i)) = map (\<lambda>b. unat (height_of b)) sample_blocks ! i"
      using that by simp
    also have "\<dots> = 5 + i" unfolding heights using that len by (intro nth_upt) simp
    finally show ?thesis .
  qed
  then show ?thesis using len by (simp add: consecutive_def)
qed

theorem last_ten_blocks_witness:
  "find_row (run block_step sample_blocks no_rows) 6 = None \<and>
   find_row (run block_step sample_blocks no_rows) 7 =
     Some \<lparr>bi_version = 0, block_height = 7, block_timestamp = 6\<rparr>"
  unfolding last_ten_blocks [OF sample_consecutive]
  by (simp add: sample_blocks_def)

theorem latest_batch_is_right_witness:
  "get_latest_block_batch_info 5 4 (run block_step sample_blocks no_rows) =
     Inr \<lparr>batch_start_height = 13, batch_start_timestamp = 12,
       batch_current_end_height = 16, batch_current_end_timestamp = 15\<rparr>"
proof -
  let ?t = "run block_step sample_blocks no_rows"
  have found: "find_row ?t k = recorded 5 sample_blocks k" for k
    by (rule window_run [OF sample_consecutive])
  have "blockinfo_ok ?t" unfolding blockinfo_ok_def all_rows_iff found
    by (auto simp: recorded_def split: if_splits)
  moreover have tip: "find_row ?t 16 = Some \<lparr>bi_version = 0, block_height = 16, block_timestamp = 15\<rparr>"
    unfolding found by (simp add: recorded_def in_window_def sample_blocks_def)
  moreover have "rows ?t \<noteq> []" using tip by (auto simp: rows_Nil_iff)
  moreover have "\<forall>k. find_row ?t k \<noteq> None \<longrightarrow> k \<le> 16"
    unfolding found by (auto simp: recorded_def in_window_def sample_blocks_def word_le_nat_alt)
  moreover have "find_row ?t 13 = Some \<lparr>bi_version = 0, block_height = 13, block_timestamp = 12\<rparr>"
    unfolding found by (simp add: recorded_def in_window_def sample_blocks_def)
  ultimately show ?thesis
    using latest_batch_is_right [where t = ?t and width = 4 and tip = 16 and offset = 5] by (simp add: Let_def)
qed

end
