(* ===== verification/SystemState.thy ===== *)
theory SystemState
  imports Token Exchange LimitAuth BlockInfo
begin

text \<open>
  The state of the system contract (\<open>eosio.system.hpp\<close>): its constants, the rows of its tables, the
  global singletons as the constructor loads them, the resource limits it sets on the chain, and
  what an action sends (inline token actions, privileged calls). Tables that the code scopes by an
  account and keys by the same account (\<open>userres\<close>, \<open>refunds\<close>) are keyed by it once; those scoped by
  one name and keyed by another (\<open>delband\<close>, \<open>bidrefunds\<close>, \<open>genesis\<close>) have pairs as keys. The
  lemmas are about the flags and the accesses that every component makes.
\<close>

section \<open>Constants\<close>

definition powerup_frac :: int where "powerup_frac = 1000000000000000"
definition seconds_per_year :: int where "seconds_per_year = 52 * 7 * 24 * 3600"
definition seconds_per_day :: int where "seconds_per_day = 24 * 3600"
definition useconds_per_year :: int where "useconds_per_year = seconds_per_year * 1000000"
definition useconds_per_day :: int where "useconds_per_day = seconds_per_day * 1000000"
definition blocks_per_day :: int where "blocks_per_day = 2 * seconds_per_day"
definition min_activated_stake :: int where "min_activated_stake = 1500000000000"
definition ram_gift_bytes :: int where "ram_gift_bytes = 1400"
definition continuous_rate :: f64 where "continuous_rate = to_double (4879 / 100000)"
definition refund_delay_sec :: int where "refund_delay_sec = 3 * seconds_per_day"
definition useconds_in_gbm_period :: int where "useconds_in_gbm_period = 1096 * useconds_per_day"
definition gbm_initial_time :: int where "gbm_initial_time = 1561939200 * 1000000"
definition gbm_final_time :: int where "gbm_final_time = gbm_initial_time + useconds_in_gbm_period"

definition active_permission :: name where "active_permission = name_of ''active''"
definition ram_account :: name where "ram_account = name_of ''eosio.ram''"
definition ramfee_account :: name where "ramfee_account = name_of ''eosio.ramfee''"
definition stake_account :: name where "stake_account = name_of ''eosio.stake''"
definition bpay_account :: name where "bpay_account = name_of ''eosio.bpay''"
definition names_account :: name where "names_account = name_of ''eosio.names''"
definition saving_account :: name where "saving_account = name_of ''eosio.saving''"
definition voters_account :: name where "voters_account = name_of ''eosio.voters''"
definition genesis_account :: name where "genesis_account = name_of ''genesis.wax''"
definition reserve_account :: name where "reserve_account = name_of ''eosio.reserv''"
definition fees_account :: name where "fees_account = name_of ''eosio.fees''"

text \<open>\<open>symbol_code("RAMCORE")\<close> and \<open>symbol_code("RAM")\<close>: one byte a letter, the first in the lowest.\<close>

fun symbol_code_of :: "string \<Rightarrow> symbol_code" where
  "symbol_code_of [] = 0"
| "symbol_code_of (c # cs) = word_of_nat (of_char c) OR push_bit 8 (symbol_code_of cs)"

definition ramcore_symbol :: symbol where "ramcore_symbol = Symbol 4 (symbol_code_of ''RAMCORE'')"
definition ram_symbol :: symbol where "ram_symbol = Symbol 0 (symbol_code_of ''RAM'')"

section \<open>Flags\<close>

type_synonym flags = "32 word"

datatype flags1_fields = ram_managed | net_managed | cpu_managed

fun flag_bits :: "flags1_fields \<Rightarrow> flags" where
  "flag_bits ram_managed = 1"
| "flag_bits net_managed = 2"
| "flag_bits cpu_managed = 4"

definition has_field :: "flags \<Rightarrow> flags1_fields \<Rightarrow> bool" where
  "has_field fs field = (fs AND flag_bits field \<noteq> 0)"

definition set_field :: "flags \<Rightarrow> flags1_fields \<Rightarrow> bool \<Rightarrow> flags" where
  "set_field fs field v = (if v then fs OR flag_bits field else fs AND NOT (flag_bits field))"

lemma has_field_bit:
  "has_field fs f = bit fs (case f of ram_managed \<Rightarrow> 0 | net_managed \<Rightarrow> 1 | cpu_managed \<Rightarrow> 2)"
proof -
  have "flag_bits f = push_bit (case f of ram_managed \<Rightarrow> 0 | net_managed \<Rightarrow> 1 | cpu_managed \<Rightarrow> 2) 1"
    by (cases f) simp_all
  then show ?thesis
    by (simp add: has_field_def and_exp_eq_0_iff_not_bit flip: push_bit_eq_mult)
qed

lemma has_set_field: "has_field (set_field fs f v) g = (if f = g then v else has_field fs g)"
proof -
  have "\<not> bit (4 :: flags) 1" by (simp add: bit_iff_odd)
  then show ?thesis
    by (cases f; cases g; cases v)
       (simp_all add: has_field_bit set_field_def bit_simps flip: One_nat_def numeral_2_eq_2)
qed

section \<open>Rows of the tables\<close>

record name_bid =
  nb_newname :: name
  high_bidder :: name
  high_bid :: int
  last_bid_time :: int

record bid_refund =
  br_bidder :: name
  br_amount :: asset

text \<open>\<open>eosio::blockchain_parameters\<close>, the part of the global state that the chain also keeps.\<close>

record blockchain_parameters =
  max_block_net_usage :: int
  target_block_net_usage_pct :: int
  max_transaction_net_usage :: int
  base_per_transaction_net_usage :: int
  net_usage_leeway :: int
  context_free_discount_net_usage_num :: int
  context_free_discount_net_usage_den :: int
  max_block_cpu_usage :: int
  target_block_cpu_usage_pct :: int
  max_transaction_cpu_usage :: int
  min_transaction_cpu_usage :: int
  max_transaction_lifetime :: int
  deferred_trx_expiration_window :: int
  max_transaction_delay :: int
  max_inline_action_size :: int
  max_inline_action_depth :: int
  max_authority_depth :: int

record eosio_global_state =
  gs_parameters :: blockchain_parameters
  max_ram_size :: int
  total_ram_bytes_reserved :: int
  total_ram_stake :: int
  last_producer_schedule_update :: int
  last_pervote_bucket_fill :: int
  pervote_bucket :: int
  perblock_bucket :: int
  voters_bucket :: int
  total_voteshare_change_rate :: f64
  total_unpaid_voteshare :: f64
  total_unpaid_voteshare_last_updated :: int
  total_unpaid_blocks :: int
  total_activated_stake :: int
  thresh_activated_stake_time :: int
  last_producer_schedule_size :: int
  total_producer_vote_weight :: f64
  last_name_close :: int

definition free_ram :: "eosio_global_state \<Rightarrow> int" where
  "free_ram g = u64 (max_ram_size g - total_ram_bytes_reserved g)"

record eosio_global_state2 =
  new_ram_per_block :: int
  last_ram_increase :: int
  last_block_num :: int
  total_producer_votepay_share :: f64
  revision :: int

record eosio_global_state3 =
  last_vpay_state_update :: int
  total_vpay_share_change_rate :: f64

record block_signing_authority =
  au_threshold :: int
  au_keys :: "(bytes \<times> int) list"

definition convert_to_block_signing_authority :: "bytes \<Rightarrow> block_signing_authority" where
  "convert_to_block_signing_authority producer_key = \<lparr>au_threshold = 1, au_keys = [(producer_key, 1)]\<rparr>"

record producer_info =
  pi_owner :: name
  total_votes :: f64
  producer_key :: bytes
  is_active :: bool
  pi_url :: string
  unpaid_blocks :: int
  pi_last_claim_time :: int
  pi_location :: int
  producer_authority :: "block_signing_authority option"

text \<open>\<open>public_key()\<close>, the default value of a key, is the empty byte string here.\<close>

definition by_votes :: "producer_info \<Rightarrow> f64" where
  "by_votes p = (if is_active p then fneg (total_votes p) else total_votes p)"

definition deactivate :: "producer_info \<Rightarrow> producer_info" where
  "deactivate p = p\<lparr>producer_key := [], producer_authority := None, is_active := False\<rparr>"

definition get_producer_authority :: "producer_info \<Rightarrow> block_signing_authority" where
  "get_producer_authority p =
     (case producer_authority p of
        Some a \<Rightarrow> if au_threshold a \<noteq> 0 then a else convert_to_block_signing_authority (producer_key p)
      | None \<Rightarrow> convert_to_block_signing_authority (producer_key p))"

record producer_info2 =
  p2_owner :: name
  votepay_share :: f64
  last_votepay_share_update :: int

record voter_info =
  vi_owner :: name
  vi_proxy :: name
  vi_producers :: "name list"
  staked :: int
  unpaid_voteshare :: f64
  unpaid_voteshare_last_updated :: int
  unpaid_voteshare_change_rate :: f64
  vi_last_claim_time :: int
  last_vote_weight :: f64
  proxied_vote_weight :: f64
  is_proxy :: bool
  flags1 :: flags

text \<open>A row as \<open>emplace\<close> starts it: every member at its default.\<close>

definition default_voter :: "name \<Rightarrow> voter_info" where
  "default_voter owner = \<lparr>vi_owner = owner, vi_proxy = 0, vi_producers = [], staked = 0,
     unpaid_voteshare = Fin 0, unpaid_voteshare_last_updated = 0, unpaid_voteshare_change_rate = Fin 0,
     vi_last_claim_time = 0, last_vote_weight = Fin 0, proxied_vote_weight = Fin 0, is_proxy = False,
     flags1 = 0\<rparr>"

record wps_voter =
  wv_owner :: name
  wv_proposals :: "name list"
  wv_last_vote_weight :: f64

record proposer =
  pr_account :: name
  pr_first_name :: string
  pr_last_name :: string
  pr_img_url :: string
  pr_bio :: string
  pr_country :: string
  pr_telegram :: string
  pr_website :: string
  pr_linkedin :: string
  pr_last_claim_time :: int

record wps_proposal =
  wp_proposer :: name
  wp_id :: int
  wp_committee :: name
  wp_category :: string
  wp_subcategory :: int
  wp_title :: string
  wp_summary :: string
  wp_project_img_url :: string
  wp_description :: string
  wp_roadmap :: string
  wp_duration :: int
  wp_members :: "string list"
  wp_funding_goal :: asset
  wp_total_votes :: f64
  wp_status :: int
  wp_vote_start_time :: int
  wp_fund_start_time :: int
  wp_iteration_of_funding :: int
  wp_total_iterations :: int

definition PENDING :: int where "PENDING = 1"
definition REJECTED :: int where "REJECTED = 2"
definition ON_VOTE :: int where "ON_VOTE = 3"
definition FINISHED_VOTING :: int where "FINISHED_VOTING = 4"
definition APPROVED :: int where "APPROVED = 5"
definition COMPLETED :: int where "COMPLETED = 6"

lemmas status_defs = PENDING_def REJECTED_def ON_VOTE_def FINISHED_VOTING_def APPROVED_def COMPLETED_def

record committee =
  cm_committeeman :: name
  cm_category :: string
  is_oversight :: bool

record reviewer =
  rv_account :: name
  rv_committee :: name
  rv_first_name :: string
  rv_last_name :: string

record wpsenv =
  total_voting_percent :: int
  duration_of_voting :: int
  max_duration_of_funding :: int
  total_iteration_of_funding :: int

record user_resources =
  ur_owner :: name
  ur_net_weight :: asset
  ur_cpu_weight :: asset
  ur_ram_bytes :: int

definition ur_is_empty :: "user_resources \<Rightarrow> bool" where
  "ur_is_empty r \<longleftrightarrow> amount (ur_net_weight r) = 0 \<and> amount (ur_cpu_weight r) = 0 \<and> ur_ram_bytes r = 0"

record delegated_bandwidth =
  db_from :: name
  db_to :: name
  db_net_weight :: asset
  db_cpu_weight :: asset

definition db_is_empty :: "delegated_bandwidth \<Rightarrow> bool" where
  "db_is_empty r \<longleftrightarrow> amount (db_net_weight r) = 0 \<and> amount (db_cpu_weight r) = 0"

record refund_request =
  rr_owner :: name
  request_time :: int
  net_amount :: asset
  cpu_amount :: asset

definition rr_is_empty :: "refund_request \<Rightarrow> bool" where
  "rr_is_empty r \<longleftrightarrow> amount (net_amount r) = 0 \<and> amount (cpu_amount r) = 0"

record genesis_tokens =
  gt_balance :: asset
  unclaimed_balance :: asset
  gt_last_claim_time :: int
  last_updated :: int

record abi_hash =
  ah_owner :: name
  ah_hash :: bytes

record powerup_state_resource =
  weight :: int
  weight_ratio :: int
  assumed_stake_weight :: int
  initial_weight_ratio :: int
  target_weight_ratio :: int
  initial_timestamp :: int
  target_timestamp :: int
  pw_exponent :: f64
  decay_secs :: int
  min_price :: asset
  max_price :: asset
  utilization :: int
  adjusted_utilization :: int
  utilization_timestamp :: int

record powerup_state =
  ps_net :: powerup_state_resource
  ps_cpu :: powerup_state_resource
  powerup_days :: int
  min_powerup_fee :: asset

record powerup_order =
  po_id :: int
  po_owner :: name
  po_net_weight :: int
  po_cpu_weight :: int
  po_expires :: int

section \<open>What an action sends\<close>

datatype inline_call = Token_call token_action | Powup_result asset int int

record inline_action =
  in_auths :: "permission_level list"
  in_call :: inline_call

datatype host_call =
    Set_parameters int "(int \<times> int) list"
  | Set_wasm_parameters "int list"
  | Set_privileged name int
  | Preactivate_feature bytes
  | Set_proposed_producers "(name \<times> block_signing_authority) list"

section \<open>The state\<close>

record sys =
  gs :: eosio_global_state
  gs2 :: eosio_global_state2
  gs3 :: eosio_global_state3
  wps_total_stake :: f64
  rammarket :: "exchange_state option"
  voters :: "(name, voter_info) table"
  wpsvoters :: "(name, wps_voter) table"
  producers :: "(name, producer_info) table"
  producers2 :: "(name, producer_info2) table"
  proposers :: "(name, proposer) table"
  proposals :: "(name, wps_proposal) table"
  committees :: "(name, committee) table"
  reviewers :: "(name, reviewer) table"
  wps_env :: "wpsenv option"
  userres :: "(name, user_resources) table"
  delband :: "(name \<times> name, delegated_bandwidth) table"
  refunds :: "(name, refund_request) table"
  genesis :: "(name \<times> symbol_code, genesis_tokens) table"
  namebids :: "(name, name_bid) table"
  bidrefunds :: "(name \<times> name, bid_refund) table"
  abihash :: "(name, abi_hash) table"
  limitauth :: limit_table
  blockinfo :: block_info_table
  powerup_st :: "powerup_state option"
  powerup_orders :: "(int, powerup_order) table"
  resource_limits :: "name \<Rightarrow> int \<times> int \<times> int"
  outbox :: "inline_action list"
  host_calls :: "host_call list"

section \<open>Accesses\<close>

definition core_symbol :: "sys \<Rightarrow> symbol result" where
  "core_symbol s =
     some_or (rammarket s) (Check ''system contract must first be initialized'')
       (\<lambda>m. Inr (asset_symbol (con_balance (ex_quote m))))"

definition send_token :: "permission_level list \<Rightarrow> token_action \<Rightarrow> sys \<Rightarrow> sys" where
  "send_token auths a s = s\<lparr>outbox := outbox s @ [\<lparr>in_auths = auths, in_call = Token_call a\<rparr>]\<rparr>"

definition get_resource_limits :: "sys \<Rightarrow> name \<Rightarrow> int \<times> int \<times> int" where
  "get_resource_limits s account = resource_limits s account"

definition set_resource_limits :: "name \<Rightarrow> int \<Rightarrow> int \<Rightarrow> int \<Rightarrow> sys \<Rightarrow> sys" where
  "set_resource_limits account ram net cpu s =
     s\<lparr>resource_limits := (resource_limits s)(account := (ram, net, cpu))\<rparr>"

definition call_host :: "host_call \<Rightarrow> sys \<Rightarrow> sys" where
  "call_host h s = s\<lparr>host_calls := host_calls s @ [h]\<rparr>"

definition managed :: "sys \<Rightarrow> name \<Rightarrow> flags1_fields \<Rightarrow> bool" where
  "managed s account field =
     (case find_row (voters s) account of None \<Rightarrow> False | Some v \<Rightarrow> has_field (flags1 v) field)"

text \<open>What an account receives, net, from the token actions that were sent.\<close>

fun flow_of_call :: "name \<Rightarrow> inline_call \<Rightarrow> int" where
  "flow_of_call w (Token_call (Transfer f t q memo)) =
     (if t = w then amount q else 0) - (if f = w then amount q else 0)"
| "flow_of_call w (Token_call (Issue to q memo)) = (if to = w then amount q else 0)"
| "flow_of_call w x = 0"

definition net_flow :: "name \<Rightarrow> inline_action list \<Rightarrow> int" where
  "net_flow w xs = (\<Sum>x \<leftarrow> xs. flow_of_call w (in_call x))"

lemma net_flow_simps [simp]:
  "net_flow w [] = 0"
  "net_flow w (x # xs) = flow_of_call w (in_call x) + net_flow w xs"
  "net_flow w (xs @ ys) = net_flow w xs + net_flow w ys"
  by (simp_all add: net_flow_def)

text \<open>The accounts of the system as numbers, so that the simplifier tells them apart.\<close>

lemma account_values:
  "ram_account = 6138663590285017088"
  "ramfee_account = 6138663590285202592"
  "stake_account = 6138663591134630912"
  "bpay_account = 6138663581940940800"
  "names_account = 6138663588137709568"
  "saving_account = 6138663590826845888"
  "voters_account = 6138663592671227776"
  "genesis_account = 7108558431268747776"
  "reserve_account = 6138663590355447728"
  "fees_account = 6138663583905873920"
  by (simp_all add: ram_account_def ramfee_account_def stake_account_def bpay_account_def names_account_def saving_account_def voters_account_def genesis_account_def reserve_account_def fees_account_def
      name_of_def char_value_def Let_def)

lemma account_names_ne [simp]:
  "ram_account \<noteq> ramfee_account" "ram_account \<noteq> stake_account"
  "ram_account \<noteq> bpay_account" "ram_account \<noteq> names_account"
  "ram_account \<noteq> saving_account" "ram_account \<noteq> voters_account"
  "ram_account \<noteq> genesis_account" "ram_account \<noteq> reserve_account"
  "ram_account \<noteq> fees_account" "ramfee_account \<noteq> ram_account"
  "ramfee_account \<noteq> stake_account" "ramfee_account \<noteq> bpay_account"
  "ramfee_account \<noteq> names_account" "ramfee_account \<noteq> saving_account"
  "ramfee_account \<noteq> voters_account" "ramfee_account \<noteq> genesis_account"
  "ramfee_account \<noteq> reserve_account" "ramfee_account \<noteq> fees_account"
  "stake_account \<noteq> ram_account" "stake_account \<noteq> ramfee_account"
  "stake_account \<noteq> bpay_account" "stake_account \<noteq> names_account"
  "stake_account \<noteq> saving_account" "stake_account \<noteq> voters_account"
  "stake_account \<noteq> genesis_account" "stake_account \<noteq> reserve_account"
  "stake_account \<noteq> fees_account" "bpay_account \<noteq> ram_account"
  "bpay_account \<noteq> ramfee_account" "bpay_account \<noteq> stake_account"
  "bpay_account \<noteq> names_account" "bpay_account \<noteq> saving_account"
  "bpay_account \<noteq> voters_account" "bpay_account \<noteq> genesis_account"
  "bpay_account \<noteq> reserve_account" "bpay_account \<noteq> fees_account"
  "names_account \<noteq> ram_account" "names_account \<noteq> ramfee_account"
  "names_account \<noteq> stake_account" "names_account \<noteq> bpay_account"
  "names_account \<noteq> saving_account" "names_account \<noteq> voters_account"
  "names_account \<noteq> genesis_account" "names_account \<noteq> reserve_account"
  "names_account \<noteq> fees_account" "saving_account \<noteq> ram_account"
  "saving_account \<noteq> ramfee_account" "saving_account \<noteq> stake_account"
  "saving_account \<noteq> bpay_account" "saving_account \<noteq> names_account"
  "saving_account \<noteq> voters_account" "saving_account \<noteq> genesis_account"
  "saving_account \<noteq> reserve_account" "saving_account \<noteq> fees_account"
  "voters_account \<noteq> ram_account" "voters_account \<noteq> ramfee_account"
  "voters_account \<noteq> stake_account" "voters_account \<noteq> bpay_account"
  "voters_account \<noteq> names_account" "voters_account \<noteq> saving_account"
  "voters_account \<noteq> genesis_account" "voters_account \<noteq> reserve_account"
  "voters_account \<noteq> fees_account" "genesis_account \<noteq> ram_account"
  "genesis_account \<noteq> ramfee_account" "genesis_account \<noteq> stake_account"
  "genesis_account \<noteq> bpay_account" "genesis_account \<noteq> names_account"
  "genesis_account \<noteq> saving_account" "genesis_account \<noteq> voters_account"
  "genesis_account \<noteq> reserve_account" "genesis_account \<noteq> fees_account"
  "reserve_account \<noteq> ram_account" "reserve_account \<noteq> ramfee_account"
  "reserve_account \<noteq> stake_account" "reserve_account \<noteq> bpay_account"
  "reserve_account \<noteq> names_account" "reserve_account \<noteq> saving_account"
  "reserve_account \<noteq> voters_account" "reserve_account \<noteq> genesis_account"
  "reserve_account \<noteq> fees_account" "fees_account \<noteq> ram_account"
  "fees_account \<noteq> ramfee_account" "fees_account \<noteq> stake_account"
  "fees_account \<noteq> bpay_account" "fees_account \<noteq> names_account"
  "fees_account \<noteq> saving_account" "fees_account \<noteq> voters_account"
  "fees_account \<noteq> genesis_account" "fees_account \<noteq> reserve_account"
  by (simp_all add: account_values)

section \<open>The initial state\<close>

text \<open>The state before the first action: every table empty, every member at its default.\<close>

definition default_gstate :: eosio_global_state where
  "default_gstate = \<lparr>gs_parameters = \<lparr>max_block_net_usage = 0, target_block_net_usage_pct = 0,
       max_transaction_net_usage = 0, base_per_transaction_net_usage = 0, net_usage_leeway = 0,
       context_free_discount_net_usage_num = 0, context_free_discount_net_usage_den = 0,
       max_block_cpu_usage = 0, target_block_cpu_usage_pct = 0, max_transaction_cpu_usage = 0,
       min_transaction_cpu_usage = 0, max_transaction_lifetime = 0, deferred_trx_expiration_window = 0,
       max_transaction_delay = 0, max_inline_action_size = 0, max_inline_action_depth = 0,
       max_authority_depth = 0\<rparr>,
     max_ram_size = 64 * 1024 * 1024 * 1024, total_ram_bytes_reserved = 0, total_ram_stake = 0,
     last_producer_schedule_update = 0, last_pervote_bucket_fill = 0, pervote_bucket = 0,
     perblock_bucket = 0, voters_bucket = 0, total_voteshare_change_rate = Fin 0,
     total_unpaid_voteshare = Fin 0, total_unpaid_voteshare_last_updated = 0, total_unpaid_blocks = 0,
     total_activated_stake = 0, thresh_activated_stake_time = 0, last_producer_schedule_size = 0,
     total_producer_vote_weight = Fin 0, last_name_close = 0\<rparr>"

definition empty_sys :: sys where
  "empty_sys = \<lparr>gs = default_gstate,
     gs2 = \<lparr>new_ram_per_block = 0, last_ram_increase = 0, last_block_num = 0,
       total_producer_votepay_share = Fin 0, revision = 0\<rparr>,
     gs3 = \<lparr>last_vpay_state_update = 0, total_vpay_share_change_rate = Fin 0\<rparr>,
     wps_total_stake = Fin 0, rammarket = None, voters = no_rows, wpsvoters = no_rows,
     producers = no_rows, producers2 = no_rows, proposers = no_rows, proposals = no_rows,
     committees = no_rows, reviewers = no_rows, wps_env = None, userres = no_rows, delband = no_rows,
     refunds = no_rows, genesis = no_rows, namebids = no_rows, bidrefunds = no_rows, abihash = no_rows,
     limitauth = no_rows, blockinfo = no_rows, powerup_st = None, powerup_orders = no_rows,
     resource_limits = (\<lambda>_. (0, 0, 0)), outbox = [], host_calls = []\<rparr>"

text \<open>The rows of \<open>userres\<close> and \<open>voters\<close> name the account they are keyed by.\<close>

definition owners_ok :: "sys \<Rightarrow> bool" where
  "owners_ok s \<longleftrightarrow> all_rows (\<lambda>k r. ur_owner r = k) (userres s) \<and> all_rows (\<lambda>k v. vi_owner v = k) (voters s)"

lemma owners_okD:
  "owners_ok s \<Longrightarrow> find_row (userres s) k = Some r \<Longrightarrow> ur_owner r = k"
  "owners_ok s \<Longrightarrow> find_row (voters s) k = Some v \<Longrightarrow> vi_owner v = k"
  by (auto simp: owners_ok_def dest: all_rowsD)

lemma managed_userres [simp]: "managed (s\<lparr>userres := t\<rparr>) = managed s" "managed (s\<lparr>rammarket := r\<rparr>) = managed s"
  by (simp_all add: managed_def fun_eq_iff)

lemma send_token_frames [simp]:
  "gs (send_token a x s) = gs s" "gs2 (send_token a x s) = gs2 s" "rammarket (send_token a x s) = rammarket s"
  "userres (send_token a x s) = userres s" "voters (send_token a x s) = voters s"
  "resource_limits (send_token a x s) = resource_limits s"
  "managed (send_token a x s) = managed s" "core_symbol (send_token a x s) = core_symbol s"
  "outbox (send_token a x s) = outbox s @ [\<lparr>in_auths = a, in_call = Token_call x\<rparr>]"
  by (simp_all add: send_token_def managed_def core_symbol_def fun_eq_iff)

text \<open>The state the witnesses start from: nothing but a market, so that there is a core symbol.\<close>

definition sample_sys :: sys where
  "sample_sys = empty_sys\<lparr>rammarket := Some sample_market\<rparr>"

lemma sample_core [simp]: "core_symbol sample_sys = Inr wax"
  by (simp add: core_symbol_def sample_sys_def sample_market_def wax_asset_def)

lemma core_symbol_frames [simp]:
  "core_symbol (s\<lparr>namebids := a\<rparr>) = core_symbol s" "core_symbol (s\<lparr>bidrefunds := b\<rparr>) = core_symbol s"
  "core_symbol (s\<lparr>outbox := d\<rparr>) = core_symbol s" "core_symbol (s\<lparr>userres := e\<rparr>) = core_symbol s"
  "core_symbol (s\<lparr>gs := g\<rparr>) = core_symbol s"
  by (simp_all add: core_symbol_def)

end
