(* ===== verification/Ram.thy ===== *)
theory Ram
  imports SystemState
begin

text \<open>
  The RAM market of the system contract: \<open>buyram\<close>, \<open>buyrambytes\<close>, \<open>sellram\<close> (\<open>delegate_bandwidth.cpp\<close>)
  and what sets up and grows the market, \<open>init\<close>, \<open>setram\<close>, \<open>setramrate\<close>, \<open>update_ram_supply\<close>
  (\<open>eosio.system.cpp\<close>). The lemmas show that bytes and tokens are conserved by every history, what
  each action moves, and that the market's reserves stay positive.
\<close>

section \<open>Actions\<close>

abbreviation no_market :: error where "no_market \<equiv> Library ''cannot pass end iterator to modify''"

definition add_base :: "int \<Rightarrow> exchange_state \<Rightarrow> exchange_state" where
  "add_base d m = m\<lparr>ex_base := (ex_base m)\<lparr>con_balance := (con_balance (ex_base m))
     \<lparr>amount := i64 (amount (con_balance (ex_base m)) + d)\<rparr>\<rparr>\<rparr>"

definition setram :: "ctx \<Rightarrow> int \<Rightarrow> sys \<Rightarrow> sys result" where
  "setram c new_max s =
     require_auth c (ctx_self c) (
     check (max_ram_size (gs s) < new_max) ''ram may only be increased'' (
     check (new_max < 1024 * 1024 * 1024 * 1024 * 1024) ''ram size is unrealistic'' (
     check (new_max > total_ram_bytes_reserved (gs s)) ''attempt to set max below reserved'' (
     let delta = i64 (i64 new_max - i64 (max_ram_size (gs s))) in
     some_or (rammarket s) no_market (\<lambda>m.
     Inr (s\<lparr>rammarket := Some (add_base delta m), gs := (gs s)\<lparr>max_ram_size := new_max\<rparr>\<rparr>))))))"

definition update_ram_supply :: "ctx \<Rightarrow> sys \<Rightarrow> sys result" where
  "update_ram_supply c s =
     (if ctx_slot c \<le> last_ram_increase (gs2 s) then Inr s
      else
        let new_ram = u32 (u32 (ctx_slot c - last_ram_increase (gs2 s)) * new_ram_per_block (gs2 s)) in
        some_or (rammarket s) no_market (\<lambda>m.
        Inr (s\<lparr>gs := (gs s)\<lparr>max_ram_size := u64 (max_ram_size (gs s) + new_ram)\<rparr>,
               rammarket := Some (add_base new_ram m),
               gs2 := (gs2 s)\<lparr>last_ram_increase := ctx_slot c\<rparr>\<rparr>)))"

definition setramrate :: "ctx \<Rightarrow> int \<Rightarrow> sys \<Rightarrow> sys result" where
  "setramrate c bytes_per_block s =
     require_auth c (ctx_self c) (
     bind_result (update_ram_supply c s) (\<lambda>s1.
     Inr (s1\<lparr>gs2 := (gs2 s1)\<lparr>new_ram_per_block := bytes_per_block\<rparr>\<rparr>)))"

definition init :: "ctx \<Rightarrow> token_state \<Rightarrow> int \<Rightarrow> symbol \<Rightarrow> sys \<Rightarrow> sys result" where
  "init c tok version core s =
     require_auth c (ctx_self c) (
     check (version = 0) ''unsupported version for init action'' (
     check (rammarket s = None) ''system contract has already been initialized'' (
     bind_result (get_supply tok (sym_code core)) (\<lambda>supply.
     check (asset_symbol supply = core) ''specified core symbol does not exist (precision mismatch)'' (
     check (amount supply > 0) ''system token supply must be greater than 0'' (
     Inr (s\<lparr>rammarket := Some
       \<lparr>ex_supply = \<lparr>amount = 100000000000000, asset_symbol = ramcore_symbol\<rparr>,
        ex_base = \<lparr>con_balance = \<lparr>amount = i64 (free_ram (gs s)), asset_symbol = ram_symbol\<rparr>,
                   con_weight = Fin (1 / 2)\<rparr>,
        ex_quote = \<lparr>con_balance = \<lparr>amount = amount supply sdiv 1000, asset_symbol = core\<rparr>,
                    con_weight = Fin (1 / 2)\<rparr>\<rparr>\<rparr>)))))))"

text \<open>The limits that follow the RAM an account owns, unless the system manages them.\<close>

definition apply_ram_limit :: "name \<Rightarrow> int \<Rightarrow> sys \<Rightarrow> sys" where
  "apply_ram_limit owner ram_bytes s =
     (if \<not> managed s owner ram_managed then
        (case get_resource_limits s owner of (_, net, cpu) \<Rightarrow>
           set_resource_limits owner (i64 (ram_bytes + ram_gift_bytes)) net cpu s)
      else s)"

definition round_up_fee :: "int \<Rightarrow> int" where
  "round_up_fee n = i64 (n + 199) sdiv 200"

definition credit_ram :: "ctx \<Rightarrow> name \<Rightarrow> int \<Rightarrow> sys \<Rightarrow> (user_resources \<times> sys) result" where
  "credit_ram c receiver bytes_out s =
     (case find_row (userres s) receiver of
        None \<Rightarrow>
          bind_result (core_symbol s) (\<lambda>core.
          some_or (mk_asset (ctx_lib c) 0 core) overflow (\<lambda>zero.
          let row = \<lparr>ur_owner = receiver, ur_net_weight = zero, ur_cpu_weight = zero,
                     ur_ram_bytes = bytes_out\<rparr> in
          Inr (row, s\<lparr>userres := put receiver receiver row (userres s)\<rparr>)))
      | Some res \<Rightarrow>
          let row = res\<lparr>ur_ram_bytes := i64 (ur_ram_bytes res + bytes_out)\<rparr> in
          Inr (row, s\<lparr>userres := modify_row (Some receiver) receiver row (userres s)\<rparr>))"

text \<open>The two inline transfers of a purchase, and the entries in the global state.\<close>

definition pay_for_ram :: "name \<Rightarrow> asset \<Rightarrow> asset \<Rightarrow> sys \<Rightarrow> sys" where
  "pay_for_ram payer quant_after_fee fee s =
     (let s1 = send_token [(payer, active_permission), (ram_account, active_permission)]
                 (Transfer payer ram_account quant_after_fee ''buy ram'') s in
      if amount fee > 0 then
        send_token [(payer, active_permission)] (Transfer payer ramfee_account fee ''ram fee'') s1
      else s1)"

definition book_ram :: "int \<Rightarrow> int \<Rightarrow> sys \<Rightarrow> sys" where
  "book_ram bytes tokens s =
     s\<lparr>gs := (gs s)\<lparr>total_ram_bytes_reserved := u64 (total_ram_bytes_reserved (gs s) + bytes),
                    total_ram_stake := i64 (total_ram_stake (gs s) + tokens)\<rparr>\<rparr>"

definition buyram :: "ctx \<Rightarrow> name \<Rightarrow> name \<Rightarrow> asset \<Rightarrow> sys \<Rightarrow> sys result" where
  "buyram c payer receiver quant s =
     require_auth c payer (
     bind_result (update_ram_supply c s) (\<lambda>s1.
     bind_result (core_symbol s1) (\<lambda>core.
     check (asset_symbol quant = core) ''must buy ram with core token'' (
     check (amount quant > 0) ''must purchase a positive amount'' (
     let fee = quant\<lparr>amount := round_up_fee (amount quant)\<rparr>;
         quant_after_fee = quant\<lparr>amount := i64 (amount quant - amount fee)\<rparr>;
         s2 = pay_for_ram payer quant_after_fee fee s1 in
     some_or (rammarket s2) (Check ''ram market does not exist'') (\<lambda>market.
     bind_result (direct_convert (ctx_lib c) quant_after_fee ram_symbol market) (\<lambda>(out, market').
     let bytes_out = amount out; s3 = s2\<lparr>rammarket := Some market'\<rparr> in
     check (bytes_out > 0) ''must reserve a positive amount'' (
     bind_result (credit_ram c receiver bytes_out (book_ram bytes_out (amount quant_after_fee) s3)) (\<lambda>(res, s4).
     Inr (apply_ram_limit (ur_owner res) (ur_ram_bytes res) s4))))))))))"

definition buyrambytes :: "ctx \<Rightarrow> name \<Rightarrow> name \<Rightarrow> int \<Rightarrow> sys \<Rightarrow> sys result" where
  "buyrambytes c payer receiver bytes s =
     some_or (rammarket s) (Undefined ''end iterator'') (\<lambda>market.
     let ram_reserve = amount (con_balance (ex_base market));
         eos_reserve = amount (con_balance (ex_quote market)) in
     bind_result (get_bancor_input ram_reserve eos_reserve bytes) (\<lambda>cost.
     bind_result (to_i64 (fdiv (of_i64 cost) (to_double (995 / 1000)))) (\<lambda>cost_plus_fee.
     bind_result (core_symbol s) (\<lambda>core.
     some_or (mk_asset (ctx_lib c) cost_plus_fee core) overflow (\<lambda>quant.
     buyram c payer receiver quant s)))))"

text \<open>The inline transfers of a sale.\<close>

definition pay_for_sale :: "cdt \<Rightarrow> name \<Rightarrow> asset \<Rightarrow> symbol \<Rightarrow> sys \<Rightarrow> sys result" where
  "pay_for_sale L account tokens_out core s =
     (let s1 = send_token [(ram_account, active_permission), (account, active_permission)]
                 (Transfer ram_account account tokens_out ''sell ram'') s;
          fee = round_up_fee (amount tokens_out) in
      if fee > 0 then
        some_or (mk_asset L fee core) overflow (\<lambda>f.
        Inr (send_token [(account, active_permission)] (Transfer account ramfee_account f ''sell ram fee'') s1))
      else Inr s1)"

definition sellram :: "ctx \<Rightarrow> name \<Rightarrow> int \<Rightarrow> sys \<Rightarrow> sys result" where
  "sellram c account bytes s =
     require_auth c account (
     bind_result (update_ram_supply c s) (\<lambda>s1.
     check (bytes > 0) ''cannot sell negative byte'' (
     some_or (find_row (userres s1) account) (Check ''no resource row'') (\<lambda>res.
     check (ur_ram_bytes res \<ge> bytes) ''insufficient quota'' (
     some_or (rammarket s1) no_market (\<lambda>market.
     some_or (mk_asset (ctx_lib c) bytes ram_symbol) overflow (\<lambda>sold.
     bind_result (core_symbol s1) (\<lambda>core.
     bind_result (direct_convert (ctx_lib c) sold core market) (\<lambda>(tokens_out, market').
     let s2 = s1\<lparr>rammarket := Some market'\<rparr> in
     check (amount tokens_out > 1) ''token amount received from selling ram is too low'' (
     let s3 = book_ram (- bytes) (- amount tokens_out) s2 in
     check (total_ram_stake (gs s3) \<ge> 0) ''error, attempt to unstake more tokens than previously staked'' (
     let row = res\<lparr>ur_ram_bytes := i64 (ur_ram_bytes res - bytes)\<rparr>;
         s4 = s3\<lparr>userres := modify_row (Some account) account row (userres s3)\<rparr>;
         s5 = apply_ram_limit (ur_owner row) (ur_ram_bytes row) s4 in
     pay_for_sale (ctx_lib c) account tokens_out core s5)))))))))))"

datatype ram_action =
    Setram int
  | Setramrate int
  | Init token_state int symbol
  | Buyram name name asset
  | Buyrambytes name name int
  | Sellram name int

fun ram_step :: "ctx \<times> ram_action \<Rightarrow> sys \<Rightarrow> sys result" where
  "ram_step (c, Setram n) s = setram c n s"
| "ram_step (c, Setramrate r) s = setramrate c r s"
| "ram_step (c, Init tok v core) s = init c tok v core s"
| "ram_step (c, Buyram p r q) s = buyram c p r q s"
| "ram_step (c, Buyrambytes p r b) s = buyrambytes c p r b s"
| "ram_step (c, Sellram a b) s = sellram c a b s"

section \<open>The invariant\<close>

text \<open>
  Counted modulo \<open>2 ^ 64\<close>, as the code counts: the bytes that accounts own add up to the bytes that
  are reserved; these and the market's base reserve make up \<open>max_ram_size\<close>; and the stake on
  record is what the RAM account was sent, net.
\<close>

definition owned_ram :: "sys \<Rightarrow> int" where
  "owned_ram s = sum_rows (\<lambda>_ r. ur_ram_bytes r) (userres s)"

definition market_inv :: "sys \<Rightarrow> bool" where
  "market_inv s \<longleftrightarrow> (\<forall>m. rammarket s = Some m \<longrightarrow>
     market_typed m \<and> asset_symbol (con_balance (ex_base m)) = ram_symbol
     \<and> u64 (reserve (ex_base m) + total_ram_bytes_reserved (gs s)) = u64 (max_ram_size (gs s)))"

text \<open>The books of the bytes, and, when \<open>b\<close> is set, those of the tokens.\<close>

definition ram_books :: "bool \<Rightarrow> sys \<Rightarrow> bool" where
  "ram_books b s \<longleftrightarrow> market_inv s
     \<and> u64 (owned_ram s) = u64 (total_ram_bytes_reserved (gs s))
     \<and> (b \<longrightarrow> u64 (net_flow ram_account (outbox s)) = u64 (total_ram_stake (gs s)))"

abbreviation ram_inv :: "sys \<Rightarrow> bool" where "ram_inv \<equiv> ram_books True"

lemma add_base_simps [simp]:
  "reserve (ex_base (add_base d m)) = i64 (reserve (ex_base m) + d)"
  "ex_quote (add_base d m) = ex_quote m"
  "asset_symbol (con_balance (ex_base (add_base d m))) = asset_symbol (con_balance (ex_base m))"
  "market_typed (add_base d m) \<longleftrightarrow> in_i64 (reserve (ex_quote m))"
  by (simp_all add: add_base_def reserve_def market_typed_def)

lemma apply_ram_limit_frames [simp]:
  "gs (apply_ram_limit w n s) = gs s" "gs2 (apply_ram_limit w n s) = gs2 s"
  "rammarket (apply_ram_limit w n s) = rammarket s"
  "userres (apply_ram_limit w n s) = userres s" "outbox (apply_ram_limit w n s) = outbox s"
  "voters (apply_ram_limit w n s) = voters s" "managed (apply_ram_limit w n s) = managed s"
  by (auto simp: apply_ram_limit_def set_resource_limits_def managed_def fun_eq_iff split: prod.split)

lemma apply_ram_limit_limits:
  "resource_limits (apply_ram_limit w n s) = (if managed s w ram_managed then resource_limits s
     else (resource_limits s)(w := (i64 (n + 1400), snd (resource_limits s w))))"
  by (cases "resource_limits s w")
     (simp add: apply_ram_limit_def get_resource_limits_def set_resource_limits_def ram_gift_bytes_def)

lemma update_ram_supply_Inr:
  assumes "update_ram_supply c s = Inr s1"
  shows "s1 = s \<or> (\<exists>m d. rammarket s = Some m \<and> 0 \<le> d \<and> d < 2 ^ 32 \<and>
    s1 = s\<lparr>gs := (gs s)\<lparr>max_ram_size := u64 (max_ram_size (gs s) + d)\<rparr>,
           rammarket := Some (add_base d m), gs2 := (gs2 s)\<lparr>last_ram_increase := ctx_slot c\<rparr>\<rparr>)"
proof (cases "ctx_slot c \<le> last_ram_increase (gs2 s)")
  case True
  then show ?thesis using assms by (simp add: update_ram_supply_def)
next
  case False
  obtain d where d: "u32 (u32 (ctx_slot c - last_ram_increase (gs2 s)) * new_ram_per_block (gs2 s)) = d"
    by blast
  then have "0 \<le> d" "d < 2 ^ 32" using u_ranges(3,4) by blast+
  then show ?thesis using assms False by (auto simp: update_ram_supply_def d)
qed

lemma update_ram_supply_frames:
  assumes "update_ram_supply c s = Inr s1"
  shows "userres s1 = userres s" "outbox s1 = outbox s" "voters s1 = voters s"
    "resource_limits s1 = resource_limits s" "managed s1 = managed s" "core_symbol s1 = core_symbol s"
    "total_ram_bytes_reserved (gs s1) = total_ram_bytes_reserved (gs s)"
    "total_ram_stake (gs s1) = total_ram_stake (gs s)"
  using update_ram_supply_Inr [OF assms] by (auto simp: managed_def fun_eq_iff core_symbol_def)

lemma update_ram_supply_inv:
  assumes inv: "ram_books b s" and run: "update_ram_supply c s = Inr s1"
  shows "ram_books b s1"
proof -
  from update_ram_supply_Inr [OF run] show ?thesis
  proof (elim disjE exE conjE)
    fix m d
    assume m: "rammarket s = Some m" and
      s1: "s1 = s\<lparr>gs := (gs s)\<lparr>max_ram_size := u64 (max_ram_size (gs s) + d)\<rparr>,
           rammarket := Some (add_base d m), gs2 := (gs2 s)\<lparr>last_ram_increase := ctx_slot c\<rparr>\<rparr>"
    have mi: "market_typed m" "asset_symbol (con_balance (ex_base m)) = ram_symbol"
      "u64 (reserve (ex_base m) + total_ram_bytes_reserved (gs s)) = u64 (max_ram_size (gs s))"
      using inv m by (simp_all add: ram_books_def market_inv_def)
    have "u64 (reserve (ex_base m) + d + total_ram_bytes_reserved (gs s)) = u64 (max_ram_size (gs s) + d)"
      using u64_add_cong [OF mi(3) refl, of d] by (simp add: algebra_simps)
    then show ?thesis
      using inv mi by (auto simp: s1 ram_books_def market_inv_def owned_ram_def market_typed_def)
  qed (use inv in simp)
qed

lemma credit_ram_Inr:
  assumes "credit_ram c receiver n s = Inr (row, s')"
  shows "userres s' = (case find_row (userres s) receiver of
      None \<Rightarrow> put receiver receiver row (userres s)
    | Some r \<Rightarrow> modify_row (Some receiver) receiver row (userres s))" "s' = s\<lparr>userres := userres s'\<rparr>"
    "(case find_row (userres s) receiver of
      None \<Rightarrow> ur_owner row = receiver \<and> ur_ram_bytes row = n
    | Some r \<Rightarrow> row = r\<lparr>ur_ram_bytes := i64 (ur_ram_bytes r + n)\<rparr>)"
  using assms by (auto simp: credit_ram_def Let_def split: option.splits)

lemma credit_ram_owned:
  assumes "credit_ram c receiver n s = Inr (row, s')"
  shows "u64 (owned_ram s') = u64 (owned_ram s + n)"
proof (cases "find_row (userres s) receiver")
  case None
  then show ?thesis
    using credit_ram_Inr [OF assms] by (simp add: owned_ram_def sum_rows_put)
next
  case (Some r)
  then have "owned_ram s' = owned_ram s + i64 (ur_ram_bytes r + n) - ur_ram_bytes r"
    using credit_ram_Inr [OF assms] by (simp add: owned_ram_def sum_rows_modify)
  also have "\<dots> = (owned_ram s - ur_ram_bytes r) + i64 (ur_ram_bytes r + n)" by simp
  finally show ?thesis by (simp only: u64_wrap) simp
qed

section \<open>What the actions do\<close>

lemma book_ram_frames [simp]:
  "rammarket (book_ram b t s) = rammarket s" "userres (book_ram b t s) = userres s"
  "outbox (book_ram b t s) = outbox s" "voters (book_ram b t s) = voters s"
  "max_ram_size (gs (book_ram b t s)) = max_ram_size (gs s)"
  "total_ram_bytes_reserved (gs (book_ram b t s)) = u64 (total_ram_bytes_reserved (gs s) + b)"
  "total_ram_stake (gs (book_ram b t s)) = i64 (total_ram_stake (gs s) + t)"
  "resource_limits (book_ram b t s) = resource_limits s" "managed (book_ram b t s) = managed s"
  by (simp_all add: book_ram_def managed_def fun_eq_iff)

definition purchase :: "name \<Rightarrow> asset \<Rightarrow> asset \<Rightarrow> inline_action list" where
  "purchase payer quant_after_fee fee =
     \<lparr>in_auths = [(payer, active_permission), (ram_account, active_permission)],
      in_call = Token_call (Transfer payer ram_account quant_after_fee ''buy ram'')\<rparr> #
     (if 0 < amount fee then
       [\<lparr>in_auths = [(payer, active_permission)],
         in_call = Token_call (Transfer payer ramfee_account fee ''ram fee'')\<rparr>] else [])"

lemma pay_for_ram_eq: "pay_for_ram payer q fee s = s\<lparr>outbox := outbox s @ purchase payer q fee\<rparr>"
  by (simp add: pay_for_ram_def purchase_def send_token_def)

lemma buyram_Inr:
  assumes "buyram c payer receiver quant s = Inr s'"
  obtains s1 m out m' row s6 q fee where
    "has_auth c payer" "update_ram_supply c s = Inr s1" "rammarket s1 = Some m"
    "asset_symbol quant = asset_symbol (con_balance (ex_quote m))" "0 < amount quant"
    "fee = quant\<lparr>amount := round_up_fee (amount quant)\<rparr>"
    "q = quant\<lparr>amount := i64 (amount quant - amount fee)\<rparr>"
    "direct_convert (ctx_lib c) q ram_symbol m = Inr (out, m')" "0 < amount out"
    "credit_ram c receiver (amount out) (book_ram (amount out) (amount q)
       (s1\<lparr>outbox := outbox s1 @ purchase payer q fee, rammarket := Some m'\<rparr>)) = Inr (row, s6)"
    "s' = apply_ram_limit (ur_owner row) (ur_ram_bytes row) s6"
  using assms by (auto simp: buyram_def Let_def core_symbol_def pay_for_ram_eq intro: that)

lemma sellram_Inr:
  assumes "sellram c account bytes s = Inr s'"
  obtains s1 m res sold out m' row s5 where
    "has_auth c account" "update_ram_supply c s = Inr s1" "rammarket s1 = Some m" "0 < bytes"
    "find_row (userres s1) account = Some res" "bytes \<le> ur_ram_bytes res"
    "mk_asset (ctx_lib c) bytes ram_symbol = Some sold"
    "direct_convert (ctx_lib c) sold (asset_symbol (con_balance (ex_quote m))) m = Inr (out, m')"
    "1 < amount out" "0 \<le> i64 (total_ram_stake (gs s1) - amount out)"
    "row = res\<lparr>ur_ram_bytes := i64 (ur_ram_bytes res - bytes)\<rparr>"
    "s5 = book_ram (- bytes) (- amount out) (s1\<lparr>rammarket := Some m'\<rparr>)"
    "pay_for_sale (ctx_lib c) account out (asset_symbol (con_balance (ex_quote m)))
       (apply_ram_limit (ur_owner row) (ur_ram_bytes row)
         (s5\<lparr>userres := modify_row (Some account) account row (userres s1)\<rparr>)) = Inr s'"
  using assms by (auto simp: sellram_def Let_def core_symbol_def intro: that)

definition sale :: "name \<Rightarrow> asset \<Rightarrow> inline_action list" where
  "sale account out =
     \<lparr>in_auths = [(ram_account, active_permission), (account, active_permission)],
      in_call = Token_call (Transfer ram_account account out ''sell ram'')\<rparr> #
     (if 0 < round_up_fee (amount out) then
       [\<lparr>in_auths = [(account, active_permission)],
         in_call = Token_call (Transfer account ramfee_account
           (out\<lparr>amount := round_up_fee (amount out)\<rparr>) ''sell ram fee'')\<rparr>] else [])"

lemma pay_for_sale_Inr:
  assumes "asset_library L" and "pay_for_sale L account out core s = Inr s'" and "asset_symbol out = core"
  shows "s' = s\<lparr>outbox := outbox s @ sale account out\<rparr>"
  using assms(2,3) asset_library.mk_Some [OF assms(1)]
  by (auto simp: pay_for_sale_def Let_def sale_def send_token_def intro!: asset.equality split: if_splits)

section \<open>Every action keeps the invariant\<close>

lemma ram_books_parts:
  assumes "ram_books b s" and "rammarket s = Some m"
  shows "market_typed m" "asset_symbol (con_balance (ex_base m)) = ram_symbol"
    "u64 (reserve (ex_base m) + total_ram_bytes_reserved (gs s)) = u64 (max_ram_size (gs s))"
    "u64 (owned_ram s) = u64 (total_ram_bytes_reserved (gs s))"
    "b \<Longrightarrow> u64 (net_flow ram_account (outbox s)) = u64 (total_ram_stake (gs s))"
  using assms by (simp_all add: ram_books_def market_inv_def)

lemma ram_booksI:
  assumes "rammarket s = Some m" and "market_typed m" and "asset_symbol (con_balance (ex_base m)) = ram_symbol"
    and "u64 (reserve (ex_base m) + total_ram_bytes_reserved (gs s)) = u64 (max_ram_size (gs s))"
    and "u64 (owned_ram s) = u64 (total_ram_bytes_reserved (gs s))"
    and "b \<Longrightarrow> u64 (net_flow ram_account (outbox s)) = u64 (total_ram_stake (gs s))"
  shows "ram_books b s"
  using assms by (simp add: ram_books_def market_inv_def)

lemma buyram_inv:
  assumes lib: "asset_library (ctx_lib c)" and inv: "ram_books b s" and payer: "b \<Longrightarrow> payer \<noteq> ram_account"
    and run: "buyram c payer receiver quant s = Inr s'"
  shows "ram_books b s'"
  using run
proof (rule buyram_Inr)
  fix s1 m out m' row s6 q fee
  assume s1: "update_ram_supply c s = Inr s1" and m: "rammarket s1 = Some m"
    and q: "q = quant\<lparr>amount := i64 (amount quant - amount fee)\<rparr>"
    and conv: "direct_convert (ctx_lib c) q ram_symbol m = Inr (out, m')"
    and credit: "credit_ram c receiver (amount out) (book_ram (amount out) (amount q)
       (s1\<lparr>outbox := outbox s1 @ purchase payer q fee, rammarket := Some m'\<rparr>)) = Inr (row, s6)"
    and s': "s' = apply_ram_limit (ur_owner row) (ur_ram_bytes row) s6"
  note p = ram_books_parts [OF update_ram_supply_inv [OF inv s1] m]
  have "in_i64 (amount q)" by (simp add: q)
  note conv = direct_convert_Inr [OF lib p(1) this conv]
  have base: "reserve (ex_base m') = i64 (reserve (ex_base m) - amount out)"
    using conv(1,8) p(2) by (auto split: if_splits)
  have s6: "rammarket s6 = Some m'" "outbox s6 = outbox s1 @ purchase payer q fee"
    "max_ram_size (gs s6) = max_ram_size (gs s1)"
    "total_ram_bytes_reserved (gs s6) = u64 (total_ram_bytes_reserved (gs s1) + amount out)"
    "total_ram_stake (gs s6) = i64 (total_ram_stake (gs s1) + amount q)"
    using arg_cong [OF credit_ram_Inr(2) [OF credit], of rammarket]
      arg_cong [OF credit_ram_Inr(2) [OF credit], of outbox]
      arg_cong [OF credit_ram_Inr(2) [OF credit], of gs] by (simp_all add: book_ram_def)
  have owned: "u64 (owned_ram s6) = u64 (owned_ram s1 + amount out)"
    using credit_ram_owned [OF credit] by (simp add: owned_ram_def)
  show "ram_books b s'"
  proof (rule ram_booksI [of _ m'])
    show "asset_symbol (con_balance (ex_base m')) = ram_symbol" using conv(6) p(2) by simp
    show "u64 (reserve (ex_base m') + total_ram_bytes_reserved (gs s')) = u64 (max_ram_size (gs s'))"
      using p(3) by (simp add: s' s6 base)
    show "u64 (owned_ram s') = u64 (total_ram_bytes_reserved (gs s'))"
      using u64_add_cong [OF p(4) refl, of "amount out"] owned by (simp add: s' s6 owned_ram_def)
    assume b
    then have "net_flow ram_account (purchase payer q fee) = amount q"
      using payer by (simp add: purchase_def)
    then show "u64 (net_flow ram_account (outbox s')) = u64 (total_ram_stake (gs s'))"
      using u64_add_cong [OF p(5) [OF \<open>b\<close>] refl, of "amount q"] by (simp add: s' s6)
  qed (simp_all add: s' s6 conv)
qed

lemma sellram_inv:
  assumes lib: "asset_library (ctx_lib c)" and inv: "ram_books b s" and account: "b \<Longrightarrow> account \<noteq> ram_account"
    and run: "sellram c account bytes s = Inr s'"
  shows "ram_books b s'"
  using run
proof (rule sellram_Inr)
  fix s1 m res sold out m' row s5
  assume s1: "update_ram_supply c s = Inr s1" and m: "rammarket s1 = Some m"
    and res: "find_row (userres s1) account = Some res"
    and mk: "mk_asset (ctx_lib c) bytes ram_symbol = Some sold"
    and conv: "direct_convert (ctx_lib c) sold (asset_symbol (con_balance (ex_quote m))) m = Inr (out, m')"
    and row: "row = res\<lparr>ur_ram_bytes := i64 (ur_ram_bytes res - bytes)\<rparr>"
    and s5: "s5 = book_ram (- bytes) (- amount out) (s1\<lparr>rammarket := Some m'\<rparr>)"
    and pay: "pay_for_sale (ctx_lib c) account out (asset_symbol (con_balance (ex_quote m)))
       (apply_ram_limit (ur_owner row) (ur_ram_bytes row)
         (s5\<lparr>userres := modify_row (Some account) account row (userres s1)\<rparr>)) = Inr s'"
  note p = ram_books_parts [OF update_ram_supply_inv [OF inv s1] m]
  have sold: "amount sold = bytes" "asset_symbol sold = ram_symbol" "asset_in_range sold"
    using asset_library.mk_Some [OF lib mk] by simp_all
  note conv = direct_convert_Inr [OF lib p(1) in_range_i64 [OF sold(3)] conv]
  have base: "reserve (ex_base m') = i64 (reserve (ex_base m) + bytes)"
    using conv(8) p(2) sold by simp
  note s' = pay_for_sale_Inr [OF lib pay conv(2)]
  have owned: "owned_ram s' = owned_ram s1 + i64 (ur_ram_bytes res - bytes) - ur_ram_bytes res"
    using res by (simp add: s' owned_ram_def sum_rows_modify row)
  show "ram_books b s'"
  proof (rule ram_booksI [of _ m'])
    show "u64 (reserve (ex_base m') + total_ram_bytes_reserved (gs s')) = u64 (max_ram_size (gs s'))"
      using p(3) by (simp add: s' s5 base)
    have "u64 (owned_ram s') = u64 (owned_ram s1 - ur_ram_bytes res + i64 (ur_ram_bytes res - bytes))"
      by (simp add: owned algebra_simps)
    also have "\<dots> = u64 (owned_ram s1 - bytes)" by (simp only: u64_wrap) simp
    also have "\<dots> = u64 (total_ram_bytes_reserved (gs s1) - bytes)" by (rule u64_diff_cong [OF p(4) refl])
    finally show "u64 (owned_ram s') = u64 (total_ram_bytes_reserved (gs s'))" by (simp add: s' s5)
    assume b
    then have "net_flow ram_account (sale account out) = - amount out"
      using account by (simp add: sale_def)
    then show "u64 (net_flow ram_account (outbox s')) = u64 (total_ram_stake (gs s'))"
      using u64_diff_cong [OF p(5) [OF \<open>b\<close>] refl, of "amount out"] by (simp add: s' s5)
  qed (simp_all add: s' s5 conv p(2))
qed

lemma setram_inv:
  assumes inv: "ram_books b s" and run: "setram c n s = Inr s'"
  shows "ram_books b s'"
proof -
  obtain m where m: "rammarket s = Some m" and s': "s' = s\<lparr>
      rammarket := Some (add_base (i64 (i64 n - i64 (max_ram_size (gs s)))) m), gs := (gs s)\<lparr>max_ram_size := n\<rparr>\<rparr>"
    using run by (auto simp: setram_def Let_def)
  note p = ram_books_parts [OF inv m]
  have d: "u64 (i64 (i64 n - i64 (max_ram_size (gs s)))) = u64 (n - max_ram_size (gs s))" by simp
  have "u64 (reserve (ex_base m) + i64 (i64 n - i64 (max_ram_size (gs s))) +
      total_ram_bytes_reserved (gs s)) =
      u64 ((reserve (ex_base m) + total_ram_bytes_reserved (gs s)) + i64 (i64 n - i64 (max_ram_size (gs s))))"
    by (simp only: add_ac)
  also have "\<dots> = u64 (max_ram_size (gs s) + (n - max_ram_size (gs s)))" by (rule u64_add_cong [OF p(3) d])
  finally have "u64 (reserve (ex_base m) + i64 (i64 n - i64 (max_ram_size (gs s))) +
      total_ram_bytes_reserved (gs s)) = u64 n"
    by simp
  then show ?thesis
    using p by (intro ram_booksI [of _ "add_base (i64 (i64 n - i64 (max_ram_size (gs s)))) m"])
      (simp_all add: s' owned_ram_def market_typed_def)
qed

lemma init_inv:
  assumes inv: "ram_books b s" and run: "init c tok v core s = Inr s'" and typed: "in_i64 (amount supply sdiv 1000)"
    and sup: "get_supply tok (sym_code core) = Inr supply"
  shows "ram_books b s'"
  using assms
  by (auto simp: init_def ram_books_def market_inv_def market_typed_def owned_ram_def reserve_def free_ram_def)

section \<open>Properties\<close>

fun ram_admissible :: "ctx \<times> ram_action \<Rightarrow> bool" where
  "ram_admissible (c, Init tok v core) =
     (case get_supply tok (sym_code core) of Inl _ \<Rightarrow> True | Inr x \<Rightarrow> in_i64 (amount x))"
| "ram_admissible (c, Buyram payer r q) \<longleftrightarrow> asset_library (ctx_lib c) \<and> payer \<noteq> ram_account"
| "ram_admissible (c, Buyrambytes payer r n) \<longleftrightarrow> asset_library (ctx_lib c) \<and> payer \<noteq> ram_account"
| "ram_admissible (c, Sellram account n) \<longleftrightarrow> asset_library (ctx_lib c) \<and> account \<noteq> ram_account"
| "ram_admissible (c, Setram n) = True"
| "ram_admissible (c, Setramrate r) = True"

text \<open>What the books of the bytes alone need, and who pays or is paid.\<close>

fun ram_supported :: "ctx \<times> ram_action \<Rightarrow> bool" where
  "ram_supported (c, Init tok v core) =
     (case get_supply tok (sym_code core) of Inl _ \<Rightarrow> True | Inr x \<Rightarrow> in_i64 (amount x))"
| "ram_supported (c, Setram n) = True"
| "ram_supported (c, Setramrate r) = True"
| "ram_supported (c, _) = asset_library (ctx_lib c)"

fun ram_party :: "ram_action \<Rightarrow> name option" where
  "ram_party (Buyram payer r q) = Some payer"
| "ram_party (Buyrambytes payer r n) = Some payer"
| "ram_party (Sellram account n) = Some account"
| "ram_party _ = None"

lemma ram_step_books:
  "ram_supported a \<Longrightarrow> (b \<Longrightarrow> ram_party (snd a) \<noteq> Some ram_account) \<Longrightarrow> ram_books b s \<Longrightarrow> ram_step a s = Inr s' \<Longrightarrow>
   ram_books b s'"
proof (induction a s rule: ram_step.induct)
  case (2 c r s)
  then obtain s1 where "update_ram_supply c s = Inr s1" "s' = s1\<lparr>gs2 := (gs2 s1)\<lparr>new_ram_per_block := r\<rparr>\<rparr>"
    by (auto simp: setramrate_def)
  then show ?case
    using update_ram_supply_inv [OF 2(3)] by (simp add: ram_books_def market_inv_def owned_ram_def)
next
  case (3 c tok v core s)
  then obtain x where x: "get_supply tok (sym_code core) = Inr x" "0 < amount x" by (auto simp: init_def)
  have "in_i64 (amount x)" using 3(1) x(1) by simp
  then have "amount x < 2 ^ 63" by (simp add: in_i64_def)
  moreover have "amount x div 1000 \<le> amount x" "0 \<le> amount x div 1000" using x(2) by linarith+
  ultimately have "in_i64 (amount x sdiv 1000)" using x(2) unfolding in_i64_def by (simp add: sdiv_nonneg)
  then show ?case using init_inv [OF 3(3)] x(1) 3(4) by simp
next
  case (5 c payer r n s)
  then obtain q where "buyram c payer r q s = Inr s'" by (auto simp: buyrambytes_def Let_def)
  from buyram_inv [OF _ 5(3) _ this] show ?case using 5(1,2) by simp
qed (auto intro: setram_inv buyram_inv [where b = b] sellram_inv [where b = b])

lemma ram_admissible_iff: "ram_admissible a \<longleftrightarrow> ram_supported a \<and> ram_party (snd a) \<noteq> Some ram_account"
  by (induction a rule: ram_admissible.induct) auto

lemma ram_step_inv: "ram_admissible a \<Longrightarrow> ram_inv s \<Longrightarrow> ram_step a s = Inr s' \<Longrightarrow> ram_inv s'"
  by (rule ram_step_books [where b = True]) (simp_all add: ram_admissible_iff)

interpretation ram_machine: contract_machine ram_step ram_admissible ram_inv
  by unfold_locales (rule ram_step_inv)

lemma ram_inv_empty: "ram_inv empty_sys"
  by (simp add: ram_books_def market_inv_def owned_ram_def empty_sys_def default_gstate_def)

text \<open>
  C17: no byte of RAM is made or lost: after every history of the RAM actions the bytes that
  accounts own add up to \<open>total_ram_bytes_reserved\<close>, these and the bytes for sale make up
  \<open>max_ram_size\<close>, and \<open>total_ram_stake\<close> is what \<open>eosio.ram\<close> was sent, net (all modulo \<open>2 ^ 64\<close>,
  as the code counts; so exactly, while the sums stay below).
\<close>

theorem ram_is_conserved:
  assumes "list_all ram_admissible as" and "s = run ram_step as empty_sys"
  shows "u64 (owned_ram s) = u64 (total_ram_bytes_reserved (gs s)) \<and>
    (\<forall>m. rammarket s = Some m \<longrightarrow>
       u64 (reserve (ex_base m) + owned_ram s) = u64 (max_ram_size (gs s))) \<and>
    u64 (net_flow ram_account (outbox s)) = u64 (total_ram_stake (gs s))"
proof -
  have inv: "ram_inv s" unfolding assms(2) by (rule ram_machine.run_inv [OF assms(1) ram_inv_empty])
  have "u64 (reserve (ex_base m) + owned_ram s) = u64 (max_ram_size (gs s))" if "rammarket s = Some m" for m
    using u64_add_cong [OF refl ram_books_parts(4) [OF inv that], of "reserve (ex_base m)"]
      ram_books_parts(3) [OF inv that] by simp
  then show ?thesis using inv by (auto simp: ram_books_def)
qed

text \<open>The token contract's row that \<open>init\<close> reads, and a history of the market.\<close>

definition sample_tokens :: token_state where
  "sample_tokens = \<lparr>stats = put (5783895, 5783895) 7
     \<lparr>st_supply = wax_asset 2000000, st_max_supply = wax_asset 2000000, st_issuer = 7\<rparr> no_rows,
     accounts = no_rows, notified = []\<rparr>"

definition sample_ram :: "(ctx \<times> ram_action) list" where
  "sample_ram = [(sample_ctx 7 [7], Init sample_tokens 0 wax), (sample_ctx 7 [1], Buyram 1 2 (wax_asset 49)),
     (sample_ctx 7 [2], Sellram 2 1610612736)]"

lemma sample_ram_admissible: "list_all ram_admissible sample_ram"
proof -
  have "1 \<noteq> ram_account" "2 \<noteq> ram_account" by (simp_all add: account_values)
  then show ?thesis
    by (simp add: sample_ram_def get_supply_def sample_tokens_def wax_def wax_asset_def in_i64_def)
qed

lemma sample_ram_symbol: "ram_symbol = Symbol 0 5062994" "ram_symbol \<noteq> wax" "wax \<noteq> ram_symbol"
  by (simp_all add: ram_symbol_def wax_def)

lemma sample_initialized:
  "run ram_step (take 1 sample_ram) empty_sys = empty_sys\<lparr>rammarket := Some
     \<lparr>ex_supply = \<lparr>amount = 100000000000000, asset_symbol = ramcore_symbol\<rparr>,
      ex_base = \<lparr>con_balance = \<lparr>amount = 68719476736, asset_symbol = ram_symbol\<rparr>, con_weight = Fin (1 / 2)\<rparr>,
      ex_quote = \<lparr>con_balance = wax_asset 2000, con_weight = Fin (1 / 2)\<rparr>\<rparr>\<rparr>"
  by (simp add: sample_ram_def init_def get_supply_def sample_tokens_def require_auth_def sample_simps
      empty_sys_def default_gstate_def free_ram_def sdiv_nonneg)

lemma sample_initialized_ok:
  "owners_ok (run ram_step (take 1 sample_ram) empty_sys)" "market_inv (run ram_step (take 1 sample_ram) empty_sys)"
  unfolding sample_initialized
  by (simp_all add: owners_ok_def market_inv_def market_typed_def in_i64_def reserve_def wax_asset_def
      empty_sys_def default_gstate_def)

lemma sample_bought:
  "\<exists>s. buyram (sample_ctx 7 [1]) 1 2 (wax_asset 49) (run ram_step (take 1 sample_ram) empty_sys) = Inr s \<and>
     owned_ram s = 1610612736 \<and> (\<exists>m. rammarket s = Some m) \<and>
     resource_limits s 2 = (1610614136, 0, 0)"
  unfolding sample_initialized
  by (simp add: buyram_def update_ram_supply_def empty_sys_def sample_simps require_auth_def core_symbol_def
      pay_for_ram_eq round_up_fee_def direct_convert_def trade_def get_bancor_output_def in_i64_def
      ram_symbol_def credit_ram_def book_ram_def default_gstate_def apply_ram_limit_def managed_def
      get_resource_limits_def set_resource_limits_def owned_ram_def ram_gift_bytes_def sdiv_nonneg sum_rows_put)

lemma sample_sold:
  "\<exists>s s' m. buyram (sample_ctx 7 [1]) 1 2 (wax_asset 49) (run ram_step (take 1 sample_ram) empty_sys) = Inr s \<and>
     rammarket s = Some m \<and> sellram (sample_ctx 7 [2]) 2 1610612736 s = Inr s' \<and>
     asset_symbol (con_balance (ex_quote m)) = wax \<and> owners_ok s \<and> market_inv s"
  unfolding sample_initialized
  by (simp add: buyram_def update_ram_supply_def empty_sys_def sample_simps require_auth_def core_symbol_def
      pay_for_ram_eq round_up_fee_def direct_convert_def trade_def get_bancor_output_def in_i64_def
      ram_symbol_def credit_ram_def book_ram_def default_gstate_def apply_ram_limit_def managed_def
      get_resource_limits_def set_resource_limits_def ram_gift_bytes_def sdiv_nonneg
      sellram_def pay_for_sale_def owners_ok_def market_inv_def market_typed_def reserve_def all_rows_put)

theorem ram_is_conserved_witness:
  "\<exists>m. rammarket (run ram_step (take 2 sample_ram) empty_sys) = Some m \<and>
     u64 (reserve (ex_base m) + 1610612736) = 68719476736"
proof -
  obtain s m where s: "buyram (sample_ctx 7 [1]) 1 2 (wax_asset 49) (run ram_step (take 1 sample_ram) empty_sys) = Inr s"
    "owned_ram s = 1610612736" "rammarket s = Some m"
    using sample_bought by blast
  have eq: "take 2 sample_ram = take 1 sample_ram @ [(sample_ctx 7 [1], Buyram 1 2 (wax_asset 49))]"
    by (simp add: sample_ram_def)
  then have run: "s = run ram_step (take 2 sample_ram) empty_sys" using s(1) by (simp add: run_append)
  have "list_all ram_admissible (take 2 sample_ram)"
    using sample_ram_admissible by (auto simp: list_all_iff dest: in_set_takeD)
  note conserved = ram_is_conserved [OF this run]
  have "max_ram_size (gs s) = 68719476736"
    using s(1) unfolding sample_initialized
    by (rule buyram_Inr)
       (auto simp: update_ram_supply_def sample_ctx_def empty_sys_def default_gstate_def
         dest!: credit_ram_Inr(2) [THEN arg_cong [of _ _ "\<lambda>s. max_ram_size (gs s)"]])
  then show ?thesis using conserved s by (auto simp flip: run)
qed

lemma bought_amount:
  assumes "asset_library L" and "market_typed m" and "in_i64 (amount from)"
    and "direct_convert L from to m = Inr (out, m')"
    and "asset_symbol from = asset_symbol (con_balance (ex_quote m))"
    and "to = asset_symbol (con_balance (ex_base m))"
  shows "get_bancor_output (reserve (ex_quote m)) (reserve (ex_base m)) (amount from) = Inr (amount out)"
  using assms(4-6) trade_Inr(4) [OF assms(1)] assms(2,3)
  by (auto simp: direct_convert_def Let_def market_typed_def split: if_splits)

lemma sold_amount:
  assumes "asset_library L" and "market_typed m" and "in_i64 (amount from)"
    and "direct_convert L from to m = Inr (out, m')"
    and "asset_symbol from = asset_symbol (con_balance (ex_base m))"
    and "to = asset_symbol (con_balance (ex_quote m))"
  shows "get_bancor_output (reserve (ex_base m)) (reserve (ex_quote m)) (amount from) = Inr (amount out)"
  using assms(4-6) trade_Inr(4) [OF assms(1)] assms(2,3)
  by (auto simp: direct_convert_def Let_def market_typed_def split: if_splits)

text \<open>
  C18: a successful \<open>buyram\<close> was signed by the payer, who is charged exactly the quantity: the fee
  (half a percent, rounded up) to \<open>eosio.ramfee\<close> and the rest to \<open>eosio.ram\<close>; the receiver alone
  is credited, with the bytes the market gives for the rest, which is at least one, and the
  receiver's limit follows unless the system manages it; no other account's row or limit changes.
\<close>

theorem buyram_effect:
  assumes "asset_library (ctx_lib c)" and "owners_ok s" and "market_inv s"
    and "asset_in_range quant" and "buyram c payer receiver quant s = Inr s'"
  shows "\<exists>m s1 n. has_auth c payer \<and> update_ram_supply c s = Inr s1 \<and> rammarket s1 = Some m \<and>
    get_bancor_output (reserve (ex_quote m)) (reserve (ex_base m))
      (amount quant - (amount quant + 199) div 200) = Inr n \<and> 0 < n \<and>
    outbox s' = outbox s @ purchase payer (quant\<lparr>amount := amount quant - (amount quant + 199) div 200\<rparr>)
      (quant\<lparr>amount := (amount quant + 199) div 200\<rparr>) \<and>
    (\<forall>w. w \<noteq> receiver \<longrightarrow> find_row (userres s') w = find_row (userres s) w
       \<and> resource_limits s' w = resource_limits s w) \<and>
    (\<exists>r. find_row (userres s') receiver = Some r \<and>
      ur_ram_bytes r = (case find_row (userres s) receiver of None \<Rightarrow> n | Some r0 \<Rightarrow> i64 (ur_ram_bytes r0 + n)) \<and>
      (managed s receiver ram_managed \<longrightarrow> resource_limits s' receiver = resource_limits s receiver) \<and>
      (\<not> managed s receiver ram_managed \<longrightarrow>
        resource_limits s' receiver = (i64 (ur_ram_bytes r + 1400), snd (resource_limits s receiver))))"
  using assms(5)
proof (rule buyram_Inr)
  fix s1 m out m' row s6 q fee
  assume auth: "has_auth c payer" and s1: "update_ram_supply c s = Inr s1" and m: "rammarket s1 = Some m"
    and symb: "asset_symbol quant = asset_symbol (con_balance (ex_quote m))" and pos: "0 < amount quant"
    and fee: "fee = quant\<lparr>amount := round_up_fee (amount quant)\<rparr>"
    and q: "q = quant\<lparr>amount := i64 (amount quant - amount fee)\<rparr>"
    and conv: "direct_convert (ctx_lib c) q ram_symbol m = Inr (out, m')" and out: "0 < amount out"
    and credit: "credit_ram c receiver (amount out) (book_ram (amount out) (amount q)
       (s1\<lparr>outbox := outbox s1 @ purchase payer q fee, rammarket := Some m'\<rparr>)) = Inr (row, s6)"
    and s': "s' = apply_ram_limit (ur_owner row) (ur_ram_bytes row) s6"
  have small: "amount quant < 2 ^ 62" using assms(4) pos by (simp add: asset_in_range_def max_amount_def)
  have f: "round_up_fee (amount quant) = (amount quant + 199) div 200"
    using small pos by (simp add: round_up_fee_def sdiv_nonneg)
  have "0 \<le> amount quant - (amount quant + 199) div 200" using pos by linarith
  then have qf: "q = quant\<lparr>amount := amount quant - (amount quant + 199) div 200\<rparr>"
    "fee = quant\<lparr>amount := (amount quant + 199) div 200\<rparr>"
    using small pos by (simp_all add: q fee f)
  note fr = update_ram_supply_frames [OF s1]
  have "market_typed m \<and> asset_symbol (con_balance (ex_base m)) = ram_symbol"
    using update_ram_supply_Inr [OF s1] assms(3) m by (auto simp: market_inv_def market_typed_def)
  then have mt: "market_typed m" "asset_symbol (con_balance (ex_base m)) = ram_symbol" by simp_all
  have n: "get_bancor_output (reserve (ex_quote m)) (reserve (ex_base m)) (amount q) = Inr (amount out)"
    using bought_amount [OF assms(1) mt(1) _ conv] mt(2) symb q by simp
  note cr = credit_ram_Inr [OF credit]
  have s6: "outbox s6 = outbox s @ purchase payer q fee" "resource_limits s6 = resource_limits s"
    "managed s6 = managed s"
    using arg_cong [OF cr(2), of outbox] arg_cong [OF cr(2), of resource_limits]
      arg_cong [OF cr(2), of managed] by (simp_all add: fr book_ram_def managed_def fun_eq_iff)
  have row: "find_row (userres s6) receiver = Some row" "ur_owner row = receiver"
    "ur_ram_bytes row = (case find_row (userres s) receiver of None \<Rightarrow> amount out
       | Some r0 \<Rightarrow> i64 (ur_ram_bytes r0 + amount out))"
    using cr(1,3) owners_okD(1) [OF assms(2)] by (auto simp: fr split: option.splits)
  have others: "find_row (userres s6) w = find_row (userres s) w" if "w \<noteq> receiver" for w
    using that cr(1) by (auto simp: fr split: option.splits)
  have limits: "resource_limits s' = (if managed s receiver ram_managed then resource_limits s
      else (resource_limits s)(receiver := (i64 (ur_ram_bytes row + 1400), snd (resource_limits s receiver))))"
    by (simp add: s' s6 row(2) apply_ram_limit_limits)
  show ?thesis
  proof (intro exI [of _ m] exI [of _ s1] exI [of _ "amount out"] conjI exI [of _ row] allI impI)
    show "get_bancor_output (reserve (ex_quote m)) (reserve (ex_base m))
      (amount quant - (amount quant + 199) div 200) = Inr (amount out)" using n by (simp add: qf(1))
    show "outbox s' = outbox s @ purchase payer (quant\<lparr>amount := amount quant - (amount quant + 199) div 200\<rparr>)
      (quant\<lparr>amount := (amount quant + 199) div 200\<rparr>)" by (simp only: s' apply_ram_limit_frames s6 qf)
    show "find_row (userres s') w = find_row (userres s) w" if "w \<noteq> receiver" for w
      by (simp only: s' apply_ram_limit_frames others [OF that])
    show "find_row (userres s') receiver = Some row" by (simp only: s' apply_ram_limit_frames row)
  qed (simp_all only: auth s1 m out row limits if_True if_False fun_upd_same fun_upd_other split: if_split, simp_all)
qed

theorem buyram_effect_witness:
  "\<exists>s s' n. buyram (sample_ctx 7 [1]) 1 2 (wax_asset 49) s = Inr s' \<and> 0 < (n :: int) \<and>
     outbox s' = outbox s @ purchase 1 (wax_asset 48) (wax_asset 1)"
proof -
  obtain s s' where s: "s = run ram_step (take 1 sample_ram) empty_sys"
    "buyram (sample_ctx 7 [1]) 1 2 (wax_asset 49) s = Inr s'"
    using sample_bought by blast
  have "owners_ok s" "market_inv s" "asset_in_range (wax_asset 49)"
    using sample_initialized_ok by (simp_all add: s wax_asset_def asset_in_range_def max_amount_def)
  from buyram_effect [OF sample_lib_ok this s(2)] show ?thesis
    using s(2) by (auto simp: wax_asset_def)
qed

text \<open>
  C19: a successful \<open>sellram\<close> was signed by the owner of the bytes, who owned that many; the row
  loses exactly them, no other account's row or limit changes, and the owner is sent from \<open>eosio.ram\<close>
  what the market gives for them, of which the fee goes on to \<open>eosio.ramfee\<close>.
\<close>

theorem sellram_effect:
  assumes "asset_library (ctx_lib c)" and "owners_ok s" and "market_inv s"
    and "sellram c account bytes s = Inr s'"
  shows "\<exists>m s1 res n. has_auth c account \<and> update_ram_supply c s = Inr s1 \<and> rammarket s1 = Some m \<and>
    find_row (userres s) account = Some res \<and> 0 < bytes \<and> bytes \<le> ur_ram_bytes res \<and>
    get_bancor_output (reserve (ex_base m)) (reserve (ex_quote m)) bytes = Inr n \<and> 1 < n \<and>
    userres s' = modify_row (Some account) account (res\<lparr>ur_ram_bytes := i64 (ur_ram_bytes res - bytes)\<rparr>) (userres s) \<and>
    outbox s' = outbox s @ sale account \<lparr>amount = n, asset_symbol = asset_symbol (con_balance (ex_quote m))\<rparr> \<and>
    (\<forall>w. w \<noteq> account \<longrightarrow> resource_limits s' w = resource_limits s w) \<and>
    (\<not> managed s account ram_managed \<longrightarrow>
      resource_limits s' account = (i64 (i64 (ur_ram_bytes res - bytes) + 1400), snd (resource_limits s account)))"
  using assms(4)
proof (rule sellram_Inr)
  fix s1 m res sold out m' row s5
  assume auth: "has_auth c account" and s1: "update_ram_supply c s = Inr s1" and m: "rammarket s1 = Some m"
    and bytes: "0 < bytes" "bytes \<le> ur_ram_bytes res"
    and res: "find_row (userres s1) account = Some res"
    and mk: "mk_asset (ctx_lib c) bytes ram_symbol = Some sold"
    and conv: "direct_convert (ctx_lib c) sold (asset_symbol (con_balance (ex_quote m))) m = Inr (out, m')"
    and out: "1 < amount out"
    and row: "row = res\<lparr>ur_ram_bytes := i64 (ur_ram_bytes res - bytes)\<rparr>"
    and s5: "s5 = book_ram (- bytes) (- amount out) (s1\<lparr>rammarket := Some m'\<rparr>)"
    and pay: "pay_for_sale (ctx_lib c) account out (asset_symbol (con_balance (ex_quote m)))
       (apply_ram_limit (ur_owner row) (ur_ram_bytes row)
         (s5\<lparr>userres := modify_row (Some account) account row (userres s1)\<rparr>)) = Inr s'"
  note fr = update_ram_supply_frames [OF s1]
  have "market_typed m \<and> asset_symbol (con_balance (ex_base m)) = ram_symbol"
    using update_ram_supply_Inr [OF s1] assms(3) m by (auto simp: market_inv_def market_typed_def)
  then have mt: "market_typed m" "asset_symbol (con_balance (ex_base m)) = ram_symbol" by simp_all
  have sold: "amount sold = bytes" "asset_symbol sold = ram_symbol" "in_i64 (amount sold)"
    using asset_library.mk_Some [OF assms(1) mk] in_range_i64 by auto
  have n: "get_bancor_output (reserve (ex_base m)) (reserve (ex_quote m)) bytes = Inr (amount out)"
    using sold_amount [OF assms(1) mt(1) sold(3) conv] mt(2) sold by simp
  have osym: "asset_symbol out = asset_symbol (con_balance (ex_quote m))"
    using direct_convert_Inr(2) [OF assms(1) mt(1) sold(3) conv] .
  note s' = pay_for_sale_Inr [OF assms(1) pay osym]
  have owner: "ur_owner res = account" using owners_okD(1) [OF assms(2)] res by (simp add: fr)
  have "out = \<lparr>amount = amount out, asset_symbol = asset_symbol (con_balance (ex_quote m))\<rparr>"
    using osym by (cases out) simp
  then have sale: "sale account out =
      sale account \<lparr>amount = amount out, asset_symbol = asset_symbol (con_balance (ex_quote m))\<rparr>"
    by simp
  show ?thesis
  proof (intro exI [of _ m] exI [of _ s1] exI [of _ res] exI [of _ "amount out"] conjI allI impI)
    show "userres s' = modify_row (Some account) account (res\<lparr>ur_ram_bytes := i64 (ur_ram_bytes res - bytes)\<rparr>) (userres s)"
      by (simp add: s' row fr)
    show "outbox s' = outbox s @
      sale account \<lparr>amount = amount out, asset_symbol = asset_symbol (con_balance (ex_quote m))\<rparr>"
      by (simp add: s' s5 fr flip: sale)
    show "find_row (userres s) account = Some res" using res by (simp add: fr)
    show "resource_limits s' w = resource_limits s w" if "w \<noteq> account" for w
      using that by (simp add: s' apply_ram_limit_limits row owner s5 fr)
    show "resource_limits s' account = (i64 (i64 (ur_ram_bytes res - bytes) + 1400), snd (resource_limits s account))"
      if "\<not> managed s account ram_managed"
      using that by (simp add: s' apply_ram_limit_limits row owner s5 fr managed_userres)
  qed (use auth s1 m bytes n out in simp_all)
qed

theorem sellram_effect_witness:
  "\<exists>s s' n. sellram (sample_ctx 7 [2]) 2 1610612736 s = Inr s' \<and> 1 < n \<and>
     outbox s' = outbox s @ sale 2 (wax_asset n)"
proof -
  let ?s1 = "run ram_step (take 1 sample_ram) empty_sys"
  obtain s s' m where s: "buyram (sample_ctx 7 [1]) 1 2 (wax_asset 49) ?s1 = Inr s" "rammarket s = Some m"
    "sellram (sample_ctx 7 [2]) 2 1610612736 s = Inr s'" "asset_symbol (con_balance (ex_quote m)) = wax"
    "owners_ok s" "market_inv s"
    using sample_sold by blast
  from sellram_effect [OF sample_lib_ok s(5,6,3)] obtain m' s1 n where
    e: "update_ram_supply (sample_ctx 7 [2]) s = Inr s1" "rammarket s1 = Some m'" "1 < n"
    "outbox s' = outbox s @ sale 2 \<lparr>amount = n, asset_symbol = asset_symbol (con_balance (ex_quote m'))\<rparr>"
    by blast
  have "asset_symbol (con_balance (ex_quote m')) = wax"
    using update_ram_supply_frames(6) [OF e(1)] e(2) s(2,4) by (simp add: core_symbol_def)
  then show ?thesis using s(3) e(3,4) by (auto simp: wax_asset_def)
qed

end
