(* ===== verification/NameBid.thy ===== *)
theory NameBid
  imports SystemState
begin

text \<open>
  The auctions of account names: \<open>bidname\<close> and \<open>bidrefund\<close> (\<open>name_bidding.cpp\<close>), the daily close of the
  highest auction inside \<open>onblock\<close> (\<open>producer_pay.cpp\<close>) and \<open>newaccount\<close> (\<open>eosio.system.cpp\<close>), which
  hands a name to the winner. The lemmas show that the account \<open>eosio.names\<close> can pay every refund, that
  whoever is outbid gets the bid back in full, and that a premium name goes to the winner only.
\<close>

section \<open>Actions\<close>

definition bidname :: "ctx \<Rightarrow> name \<Rightarrow> name \<Rightarrow> asset \<Rightarrow> sys \<Rightarrow> sys result" where
  "bidname c bidder newname bid s =
     require_auth c bidder (
     check (name_suffix (ctx_lib c) newname = newname) ''you can only bid on top-level suffix'' (
     check (newname \<noteq> 0) ''the empty name is not a valid account name to bid on'' (
     check (newname AND 0xF = 0) ''13 character names are not valid account names to bid on'' (
     check (newname AND 0x1F0 = 0)
       ''accounts with 12 character names and no dots can be created without bidding required'' (
     check (\<not> ctx_is_account c newname) ''account already exists'' (
     bind_result (core_symbol s) (\<lambda>core.
     check (asset_symbol bid = core) ''asset must be system token'' (
     check (amount bid > 0) ''insufficient bid'' (
     let s1 = send_token [(bidder, active_permission)]
                (Transfer bidder names_account bid (''bid name '' @ name_to_string (ctx_lib c) newname)) s in
     case find_row (namebids s1) newname of
       None \<Rightarrow>
         Inr (s1\<lparr>namebids := put newname bidder
           \<lparr>nb_newname = newname, high_bidder = bidder, high_bid = amount bid, last_bid_time = ctx_now c\<rparr>
           (namebids s1)\<rparr>)
     | Some current \<Rightarrow>
         check (high_bid current > 0) ''this auction has already closed'' (
         check (i64 (amount bid - high_bid current) > high_bid current sdiv 10) ''must increase bid by 10%'' (
         check (high_bidder current \<noteq> bidder) ''account is already highest bidder'' (
         some_or (mk_asset (ctx_lib c) (high_bid current) core) overflow (\<lambda>back.
         bind_result
           (case find_row (bidrefunds s1) (newname, high_bidder current) of
              Some r \<Rightarrow>
                some_or (asset_plus (ctx_lib c) (br_amount r) back) overflow (\<lambda>total.
                Inr (modify_row same_payer (newname, high_bidder current) (r\<lparr>br_amount := total\<rparr>) (bidrefunds s1)))
            | None \<Rightarrow>
                Inr (put (newname, high_bidder current) bidder
                  \<lparr>br_bidder = high_bidder current, br_amount = back\<rparr> (bidrefunds s1)))
           (\<lambda>refunded.
         Inr (s1\<lparr>bidrefunds := refunded,
           namebids := modify_row (Some bidder) newname
             (current\<lparr>high_bidder := bidder, high_bid := amount bid, last_bid_time := ctx_now c\<rparr>)
             (namebids s1)\<rparr>)))))))))))))))"

definition bidrefund :: "ctx \<Rightarrow> name \<Rightarrow> name \<Rightarrow> sys \<Rightarrow> sys result" where
  "bidrefund c bidder newname s =
     some_or (find_row (bidrefunds s) (newname, bidder)) (Check ''refund not found'') (\<lambda>r.
     let s1 = send_token [(names_account, active_permission), (bidder, active_permission)]
                (Transfer names_account bidder (br_amount r)
                  (''refund bid on name '' @ name_to_string (ctx_lib c) newname)) s in
     Inr (s1\<lparr>bidrefunds := erase_row (newname, bidder) (bidrefunds s1)\<rparr>))"

text \<open>
  The index \<open>highbid\<close>: rows in the order of \<open>static_cast<uint64_t>(-high_bid)\<close>, so from
  \<open>lower_bound(max / 2)\<close> on come the open auctions, the highest bid first (and the least name among
  equals).
\<close>

definition by_high_bid :: "name_bid \<Rightarrow> int" where
  "by_high_bid b = u64 (- high_bid b)"

fun first_least :: "('a \<Rightarrow> int) \<Rightarrow> 'a list \<Rightarrow> 'a option" where
  "first_least f [] = None"
| "first_least f (x # xs) =
     (case first_least f xs of None \<Rightarrow> Some x | Some y \<Rightarrow> if f y < f x then Some y else Some x)"

definition highest_auction :: "sys \<Rightarrow> (name \<times> name_bid) option" where
  "highest_auction s =
     first_least (\<lambda>(k, b). by_high_bid b)
       (filter (\<lambda>(k, b). 2 ^ 63 - 1 \<le> by_high_bid b) (rows (namebids s)))"

definition close_auction :: "ctx \<Rightarrow> int \<Rightarrow> sys \<Rightarrow> sys" where
  "close_auction c timestamp s =
     (if u32 (timestamp - last_name_close (gs s)) > blocks_per_day then
        case highest_auction s of
          None \<Rightarrow> s
        | Some (k, highest) \<Rightarrow>
            if high_bid highest > 0 \<and>
               i64 (ctx_now c - last_bid_time highest) > useconds_per_day \<and>
               thresh_activated_stake_time (gs s) > 0 \<and>
               i64 (ctx_now c - thresh_activated_stake_time (gs s)) > 14 * useconds_per_day
            then s\<lparr>gs := (gs s)\<lparr>last_name_close := timestamp\<rparr>,
                   namebids := modify_row same_payer k (highest\<lparr>high_bid := i64 (- high_bid highest)\<rparr>) (namebids s)\<rparr>
            else s
      else s)"

text \<open>\<open>newaccount\<close>: the loop over the twelve characters looks for an empty one (a dot).\<close>

fun dot_within :: "nat \<Rightarrow> name \<Rightarrow> bool" where
  "dot_within 0 tmp = False"
| "dot_within (Suc n) tmp = (tmp AND 0x1F = 0 \<or> dot_within n (drop_bit 5 tmp))"

definition has_dot :: "name \<Rightarrow> bool" where
  "has_dot n = dot_within 12 (drop_bit 4 n)"

definition claim_name :: "ctx \<Rightarrow> name \<Rightarrow> name \<Rightarrow> sys \<Rightarrow> sys result" where
  "claim_name c creator new_account_name s =
     (if creator \<noteq> ctx_self c \<and> has_dot new_account_name then
        let suffix = name_suffix (ctx_lib c) new_account_name in
        if suffix = new_account_name then
          some_or (find_row (namebids s) new_account_name) (Check ''no active bid for name'') (\<lambda>current.
          check (high_bidder current = creator) ''only highest bidder can claim'' (
          check (high_bid current < 0) ''auction for name is not closed yet'' (
          Inr (s\<lparr>namebids := erase_row new_account_name (namebids s)\<rparr>))))
        else check (creator = suffix) ''only suffix may create this account'' (Inr s)
      else Inr s)"

definition newaccount :: "ctx \<Rightarrow> name \<Rightarrow> name \<Rightarrow> sys \<Rightarrow> sys result" where
  "newaccount c creator new_account_name s =
     bind_result (claim_name c creator new_account_name s) (\<lambda>s1.
     bind_result (core_symbol s1) (\<lambda>core.
     some_or (mk_asset (ctx_lib c) 0 core) overflow (\<lambda>zero.
     bind_result (emplace_row new_account_name new_account_name
       \<lparr>ur_owner = new_account_name, ur_net_weight = zero, ur_cpu_weight = zero, ur_ram_bytes = 0\<rparr>
       (userres s1)) (\<lambda>t.
     Inr (set_resource_limits new_account_name 0 0 0 (s1\<lparr>userres := t\<rparr>))))))"

datatype name_action =
    Bidname name name asset
  | Bidrefund name name
  | Close_auction int
  | Newaccount name name

fun name_step :: "ctx \<times> name_action \<Rightarrow> sys \<Rightarrow> sys result" where
  "name_step (c, Bidname b n q) s = bidname c b n q s"
| "name_step (c, Bidrefund b n) s = bidrefund c b n s"
| "name_step (c, Close_auction t) s = Inr (close_auction c t s)"
| "name_step (c, Newaccount w n) s = newaccount c w n s"

section \<open>The highest auction\<close>

lemma first_least_None_iff [simp]: "first_least f xs = None \<longleftrightarrow> xs = []"
  by (cases xs) (auto split: option.split)

lemma first_least_Some:
  "first_least f xs = Some y \<Longrightarrow> y \<in> set xs \<and> (\<forall>x \<in> set xs. f y \<le> f x)"
proof (induction xs arbitrary: y)
  case (Cons x xs)
  show ?case
  proof (cases "first_least f xs")
    case (Some z)
    then show ?thesis using Cons.prems Cons.IH [OF Some] by (fastforce split: if_splits)
  qed (use Cons.prems in simp)
qed simp

definition auction_ok :: "name \<Rightarrow> name_bid \<Rightarrow> bool" where
  "auction_ok k b \<longleftrightarrow> high_bid b \<noteq> 0 \<and> \<bar>high_bid b\<bar> \<le> max_amount \<and> nb_newname b = k"

lemma by_high_bid_open: "0 < n \<Longrightarrow> n \<le> max_amount \<Longrightarrow> u64 (- n) = 2 ^ 64 - n"
  using minus_mod_self1 [of "2 ^ 64" "- n"] by (simp add: u64_def max_amount_def zmod_zminus1_eq_if)

lemma highest_is_open:
  assumes "auction_ok k b"
  shows "2 ^ 63 - 1 \<le> by_high_bid b \<longleftrightarrow> 0 < high_bid b"
proof (cases "0 < high_bid b")
  case True
  then show ?thesis using assms by_high_bid_open [of "high_bid b"]
    by (simp add: by_high_bid_def auction_ok_def max_amount_def)
next
  case False
  then have "by_high_bid b = - high_bid b" using assms by (simp add: by_high_bid_def auction_ok_def max_amount_def)
  then show ?thesis using False assms by (auto simp: auction_ok_def max_amount_def)
qed

definition auctions_ok :: "sys \<Rightarrow> bool" where
  "auctions_ok s \<longleftrightarrow> all_rows auction_ok (namebids s)"

lemma highest_auction_Some:
  assumes ok: "auctions_ok s" and highest: "highest_auction s = Some (k, b)"
  shows "find_row (namebids s) k = Some b" "0 < high_bid b"
    "find_row (namebids s) j = Some b' \<Longrightarrow> high_bid b' \<le> high_bid b"
proof -
  let ?open = "filter (\<lambda>(k, b). 2 ^ 63 - 1 \<le> by_high_bid b) (rows (namebids s))"
  have fl: "(k, b) \<in> set ?open" "\<forall>x \<in> set ?open. by_high_bid b \<le> by_high_bid (snd x)"
    using first_least_Some [of "\<lambda>(k, b). by_high_bid b" ?open "(k, b)"] highest
    by (auto simp: highest_auction_def)
  show row: "find_row (namebids s) k = Some b" using fl(1) by (simp add: in_rows_iff)
  have b: "auction_ok k b" using ok row by (auto simp: auctions_ok_def dest: all_rowsD)
  show pos: "0 < high_bid b" using fl(1) highest_is_open [OF b] by simp
  assume row': "find_row (namebids s) j = Some b'"
  then have b': "auction_ok j b'" using ok by (auto simp: auctions_ok_def dest: all_rowsD)
  show "high_bid b' \<le> high_bid b"
  proof (cases "0 < high_bid b'")
    case True
    then have "(j, b') \<in> set ?open" using row' highest_is_open [OF b'] by (simp add: in_rows_iff)
    then have "by_high_bid b \<le> by_high_bid b'" using fl(2) by fastforce
    then show ?thesis
      using True pos b b' by (simp add: by_high_bid_def by_high_bid_open auction_ok_def)
  qed (use pos in simp)
qed

section \<open>What the actions do\<close>

definition bid_payment :: "ctx \<Rightarrow> name \<Rightarrow> name \<Rightarrow> asset \<Rightarrow> inline_action" where
  "bid_payment c bidder newname bid = \<lparr>in_auths = [(bidder, active_permission)], in_call = Token_call
     (Transfer bidder names_account bid (''bid name '' @ name_to_string (ctx_lib c) newname))\<rparr>"

definition refund_payment :: "ctx \<Rightarrow> name \<Rightarrow> name \<Rightarrow> asset \<Rightarrow> inline_action" where
  "refund_payment c bidder newname q =
     \<lparr>in_auths = [(names_account, active_permission), (bidder, active_permission)], in_call = Token_call
       (Transfer names_account bidder q (''refund bid on name '' @ name_to_string (ctx_lib c) newname))\<rparr>"

text \<open>What \<open>bidname\<close> does to the refunds when it outbids the row \<open>current\<close>.\<close>

definition refunds_after :: "cdt \<Rightarrow> name \<Rightarrow> name \<Rightarrow> name_bid \<Rightarrow> symbol \<Rightarrow> (name \<times> name, bid_refund) table \<Rightarrow>
    (name \<times> name, bid_refund) table \<Rightarrow> bool" where
  "refunds_after L bidder newname current core t t' \<longleftrightarrow>
     (\<exists>back. mk_asset L (high_bid current) core = Some back \<and>
       (case find_row t (newname, high_bidder current) of
          Some r \<Rightarrow> \<exists>total. asset_plus L (br_amount r) back = Some total \<and>
            t' = modify_row same_payer (newname, high_bidder current) (r\<lparr>br_amount := total\<rparr>) t
        | None \<Rightarrow> t' = put (newname, high_bidder current) bidder
            \<lparr>br_bidder = high_bidder current, br_amount = back\<rparr> t))"

lemma bidname_Inr:
  assumes "bidname c bidder newname bid s = Inr s'"
  obtains (first) core where "has_auth c bidder" "core_symbol s = Inr core" "asset_symbol bid = core"
      "0 < amount bid" "find_row (namebids s) newname = None"
      "s' = s\<lparr>outbox := outbox s @ [bid_payment c bidder newname bid],
         namebids := put newname bidder \<lparr>nb_newname = newname, high_bidder = bidder, high_bid = amount bid,
           last_bid_time = ctx_now c\<rparr> (namebids s)\<rparr>"
  | (raised) core current refunded where "has_auth c bidder" "core_symbol s = Inr core" "asset_symbol bid = core"
      "0 < amount bid" "find_row (namebids s) newname = Some current" "0 < high_bid current"
      "high_bid current sdiv 10 < i64 (amount bid - high_bid current)" "high_bidder current \<noteq> bidder"
      "refunds_after (ctx_lib c) bidder newname current core (bidrefunds s) refunded"
      "s' = s\<lparr>outbox := outbox s @ [bid_payment c bidder newname bid], bidrefunds := refunded,
         namebids := modify_row (Some bidder) newname
             (current\<lparr>high_bidder := bidder, high_bid := amount bid, last_bid_time := ctx_now c\<rparr>) (namebids s)\<rparr>"
proof (cases "find_row (namebids s) newname")
  case None
  then show thesis
    using assms by (auto simp: bidname_def Let_def send_token_def bid_payment_def intro!: first)
next
  case (Some current)
  show thesis
  proof (cases "find_row (bidrefunds s) (newname, high_bidder current)")
    case None
    then show thesis
      using assms Some by (auto simp: bidname_def Let_def send_token_def bid_payment_def refunds_after_def intro!: raised)
  next
    case (Some r)
    then show thesis
      using assms \<open>find_row (namebids s) newname = Some current\<close>
      by (auto simp: bidname_def Let_def send_token_def bid_payment_def refunds_after_def intro!: raised)
  qed
qed

lemma bidrefund_Inr:
  "bidrefund c bidder newname s = Inr s' \<longleftrightarrow> (\<exists>r. find_row (bidrefunds s) (newname, bidder) = Some r \<and>
     s' = s\<lparr>outbox := outbox s @ [refund_payment c bidder newname (br_amount r)],
            bidrefunds := erase_row (newname, bidder) (bidrefunds s)\<rparr>)"
  by (auto simp: bidrefund_def Let_def send_token_def refund_payment_def)

lemma close_auction_cases:
  assumes "auctions_ok s"
  obtains "close_auction c t s = s"
  | k b where "find_row (namebids s) k = Some b" "0 < high_bid b"
      "\<And>j b'. find_row (namebids s) j = Some b' \<Longrightarrow> high_bid b' \<le> high_bid b"
      "useconds_per_day < i64 (ctx_now c - last_bid_time b)"
      "14 * useconds_per_day < i64 (ctx_now c - thresh_activated_stake_time (gs s))"
      "blocks_per_day < u32 (t - last_name_close (gs s))"
      "close_auction c t s = s\<lparr>gs := (gs s)\<lparr>last_name_close := t\<rparr>,
         namebids := modify_row same_payer k (b\<lparr>high_bid := - high_bid b\<rparr>) (namebids s)\<rparr>"
proof (cases "highest_auction s")
  case None
  then show thesis using that(1) by (simp add: close_auction_def)
next
  case (Some kb)
  obtain k b where kb: "kb = (k, b)" by (cases kb)
  note h = highest_auction_Some [OF assms Some [unfolded kb]]
  have le: "high_bid b' \<le> high_bid b" if "find_row (namebids s) j = Some b'" for j b' by (rule h(3) [OF that])
  have "auction_ok k b" using assms h(1) by (auto simp: auctions_ok_def dest: all_rowsD)
  then have "i64 (- high_bid b) = - high_bid b" using h(2) by (simp add: auction_ok_def max_amount_def)
  then have eq: "close_auction c t s = (if blocks_per_day < u32 (t - last_name_close (gs s)) \<and>
      useconds_per_day < i64 (ctx_now c - last_bid_time b) \<and> thresh_activated_stake_time (gs s) > 0 \<and>
      14 * useconds_per_day < i64 (ctx_now c - thresh_activated_stake_time (gs s))
    then s\<lparr>gs := (gs s)\<lparr>last_name_close := t\<rparr>,
           namebids := modify_row same_payer k (b\<lparr>high_bid := - high_bid b\<rparr>) (namebids s)\<rparr> else s)"
    using h(2) by (simp add: close_auction_def Some kb)
  show thesis
  proof (cases "close_auction c t s = s")
    case False
    then have conds: "blocks_per_day < u32 (t - last_name_close (gs s)) \<and>
      useconds_per_day < i64 (ctx_now c - last_bid_time b) \<and> thresh_activated_stake_time (gs s) > 0 \<and>
      14 * useconds_per_day < i64 (ctx_now c - thresh_activated_stake_time (gs s))"
      using eq by metis
    show thesis
      by (rule that(2) [OF h(1,2)]) (use le conds eq in \<open>simp_all only: if_True simp_thms\<close>)
  qed (rule that(1))
qed

lemma newaccount_Inr:
  assumes "newaccount c creator n s = Inr s'"
  obtains s1 zero where "claim_name c creator n s = Inr s1" "find_row (userres s1) n = None"
    "s' = set_resource_limits n 0 0 0 (s1\<lparr>userres := put n n \<lparr>ur_owner = n, ur_net_weight = zero,
       ur_cpu_weight = zero, ur_ram_bytes = 0\<rparr> (userres s1)\<rparr>)"
  using assms by (auto simp: newaccount_def)

lemma claim_name_Inr:
  assumes "claim_name c creator n s = Inr s1"
  shows "s1 = s \<or> (\<exists>b. find_row (namebids s) n = Some b \<and> high_bidder b = creator \<and> high_bid b < 0 \<and>
     s1 = s\<lparr>namebids := erase_row n (namebids s)\<rparr>)"
  using assms by (auto simp: claim_name_def Let_def split: if_splits)

section \<open>Every refund can be paid\<close>

definition bids_total :: "sys \<Rightarrow> int" where
  "bids_total s = sum_rows (\<lambda>_ b. \<bar>high_bid b\<bar>) (namebids s)"

definition refunds_total :: "sys \<Rightarrow> int" where
  "refunds_total s = sum_rows (\<lambda>_ r. amount (br_amount r)) (bidrefunds s)"

definition names_inv :: "sys \<Rightarrow> bool" where
  "names_inv s \<longleftrightarrow> auctions_ok s
     \<and> all_rows (\<lambda>k r. asset_in_range (br_amount r) \<and> 0 < amount (br_amount r) \<and> br_bidder r = snd k) (bidrefunds s)
     \<and> bids_total s + refunds_total s \<le> net_flow names_account (outbox s)"

lemma names_invD:
  assumes "names_inv s"
  shows "auctions_ok s" "bids_total s + refunds_total s \<le> net_flow names_account (outbox s)"
    "find_row (namebids s) n = Some b \<Longrightarrow> auction_ok n b"
    "find_row (bidrefunds s) k = Some r \<Longrightarrow> asset_in_range (br_amount r) \<and> 0 < amount (br_amount r) \<and> br_bidder r = snd k"
  using assms by (auto simp: names_inv_def auctions_ok_def dest: all_rowsD)

lemma refunds_after_effect:
  assumes lib: "asset_library L" and after: "refunds_after L bidder newname current core t t'"
    and pos: "0 < high_bid current"
    and ok: "all_rows (\<lambda>k r. asset_in_range (br_amount r) \<and> 0 < amount (br_amount r) \<and> br_bidder r = snd k) t"
  shows "all_rows (\<lambda>k r. asset_in_range (br_amount r) \<and> 0 < amount (br_amount r) \<and> br_bidder r = snd k) t'"
    "sum_rows (\<lambda>_ r. amount (br_amount r)) t' = sum_rows (\<lambda>_ r. amount (br_amount r)) t + high_bid current"
    "\<exists>r. find_row t' (newname, high_bidder current) = Some r \<and>
       amount (br_amount r) = high_bid current +
         (case find_row t (newname, high_bidder current) of None \<Rightarrow> 0 | Some r0 \<Rightarrow> amount (br_amount r0))"
    "k \<noteq> (newname, high_bidder current) \<Longrightarrow> find_row t' k = find_row t k"
proof -
  obtain bk where bk: "mk_asset L (high_bid current) core = Some bk"
    using after by (auto simp: refunds_after_def)
  note mk = asset_library.mk_Some [OF lib bk]
  have "all_rows (\<lambda>k r. asset_in_range (br_amount r) \<and> 0 < amount (br_amount r) \<and> br_bidder r = snd k) t' \<and>
    sum_rows (\<lambda>_ r. amount (br_amount r)) t' = sum_rows (\<lambda>_ r. amount (br_amount r)) t + high_bid current \<and>
    (\<exists>r. find_row t' (newname, high_bidder current) = Some r \<and>
       amount (br_amount r) = high_bid current +
         (case find_row t (newname, high_bidder current) of None \<Rightarrow> 0 | Some r0 \<Rightarrow> amount (br_amount r0))) \<and>
    (k \<noteq> (newname, high_bidder current) \<longrightarrow> find_row t' k = find_row t k)"
  proof (cases "find_row t (newname, high_bidder current)")
    case None
    then show ?thesis
      using after bk mk pos ok by (auto simp: refunds_after_def sum_rows_put intro!: all_rows_put)
  next
    case (Some r)
    then obtain total where total: "asset_plus L (br_amount r) bk = Some total"
      "t' = modify_row same_payer (newname, high_bidder current) (r\<lparr>br_amount := total\<rparr>) t"
      using after bk by (auto simp: refunds_after_def)
    have r: "asset_in_range (br_amount r)" "0 < amount (br_amount r)" "br_bidder r = high_bidder current"
      using all_rowsD [OF ok Some] by simp_all
    have "amount total = amount (br_amount r) + high_bid current" "asset_in_range total"
      using asset_library.plus_Some [OF lib r(1) _ total(1)] mk by simp_all
    then show ?thesis
      using Some r pos ok by (auto simp: total(2) sum_rows_modify intro!: all_rows_modify)
  qed
  then show "all_rows (\<lambda>k r. asset_in_range (br_amount r) \<and> 0 < amount (br_amount r) \<and> br_bidder r = snd k) t'"
    "sum_rows (\<lambda>_ r. amount (br_amount r)) t' = sum_rows (\<lambda>_ r. amount (br_amount r)) t + high_bid current"
    "\<exists>r. find_row t' (newname, high_bidder current) = Some r \<and>
       amount (br_amount r) = high_bid current +
         (case find_row t (newname, high_bidder current) of None \<Rightarrow> 0 | Some r0 \<Rightarrow> amount (br_amount r0))"
    "k \<noteq> (newname, high_bidder current) \<Longrightarrow> find_row t' k = find_row t k"
    by blast+
qed

lemma bid_rows_ok: "names_inv s \<Longrightarrow> 0 < amount bid \<Longrightarrow> asset_in_range bid \<Longrightarrow> auctions_ok (s\<lparr>namebids :=
    put newname p \<lparr>nb_newname = newname, high_bidder = b, high_bid = amount bid, last_bid_time = t\<rparr> (namebids s)\<rparr>)"
  by (auto simp: names_inv_def auctions_ok_def auction_ok_def asset_in_range_def intro!: all_rows_put)

lemma bidname_inv:
  assumes lib: "asset_library (ctx_lib c)" and inv: "names_inv s" and bidder: "bidder \<noteq> names_account"
    and range: "asset_in_range bid" and run: "bidname c bidder newname bid s = Inr s'"
  shows "names_inv s'"
  using run
proof (cases rule: bidname_Inr)
  case first
  then show ?thesis
    using bidder inv bid_rows_ok [OF inv first(4) range]
    by (simp add: names_inv_def auctions_ok_def bids_total_def refunds_total_def sum_rows_put bid_payment_def)
next
  case (raised core current refunded)
  note i = names_invD [OF inv]
  have cur: "auction_ok newname current" by (rule i(3) [OF raised(5)])
  note r = refunds_after_effect [OF lib raised(9,6)]
  have ok: "all_rows (\<lambda>k r. asset_in_range (br_amount r) \<and> 0 < amount (br_amount r) \<and> br_bidder r = snd k) (bidrefunds s)"
    using inv by (simp add: names_inv_def)
  have "bids_total s' = bids_total s + amount bid - high_bid current"
    using raised(4,5,6) by (simp add: raised(10) bids_total_def sum_rows_modify)
  moreover have "refunds_total s' = refunds_total s + high_bid current"
    using r(2) [OF ok] by (simp add: raised(10) refunds_total_def)
  moreover have "net_flow names_account (outbox s') = net_flow names_account (outbox s) + amount bid"
    using bidder by (simp add: raised(10) bid_payment_def)
  moreover have "auctions_ok s'"
    using i(1) cur raised(4) range
    by (auto simp: raised(10) auctions_ok_def auction_ok_def asset_in_range_def intro!: all_rows_modify)
  ultimately show ?thesis using i(2) r(1) [OF ok] by (simp add: names_inv_def raised(10))
qed

lemma bidrefund_inv:
  assumes inv: "names_inv s" and bidder: "bidder \<noteq> names_account" and run: "bidrefund c bidder newname s = Inr s'"
  shows "names_inv s'"
proof -
  obtain r where r: "find_row (bidrefunds s) (newname, bidder) = Some r" and
    s': "s' = s\<lparr>outbox := outbox s @ [refund_payment c bidder newname (br_amount r)],
      bidrefunds := erase_row (newname, bidder) (bidrefunds s)\<rparr>"
    using run by (auto simp: bidrefund_Inr)
  then show ?thesis
    using inv bidder r by (auto simp: names_inv_def auctions_ok_def bids_total_def refunds_total_def sum_rows_erase
        refund_payment_def intro!: all_rows_erase)
qed

lemma close_auction_inv: "names_inv s \<Longrightarrow> names_inv (close_auction c t s)"
proof -
  assume inv: "names_inv s"
  from names_invD(1) [OF inv] show ?thesis
  proof (rule close_auction_cases)
    fix k b
    assume row: "find_row (namebids s) k = Some b" and pos: "0 < high_bid b"
      and eq: "close_auction c t s = s\<lparr>gs := (gs s)\<lparr>last_name_close := t\<rparr>,
         namebids := modify_row same_payer k (b\<lparr>high_bid := - high_bid b\<rparr>) (namebids s)\<rparr>"
    have "auction_ok k b" by (rule names_invD(3) [OF inv row])
    then have "auctions_ok (close_auction c t s)"
      using names_invD(1) [OF inv] by (auto simp: eq auctions_ok_def auction_ok_def intro!: all_rows_modify)
    moreover have "bids_total (close_auction c t s) = bids_total s"
      using pos by (simp add: eq bids_total_def sum_rows_modify [OF row])
    ultimately show ?thesis using inv by (simp add: eq names_inv_def refunds_total_def)
  qed (use inv in simp)
qed

lemma newaccount_inv:
  assumes inv: "names_inv s" and run: "newaccount c creator n s = Inr s'"
  shows "names_inv s'"
  using run
proof (rule newaccount_Inr)
  fix s1 zero
  assume claim: "claim_name c creator n s = Inr s1"
    and s': "s' = set_resource_limits n 0 0 0 (s1\<lparr>userres := put n n \<lparr>ur_owner = n, ur_net_weight = zero,
       ur_cpu_weight = zero, ur_ram_bytes = 0\<rparr> (userres s1)\<rparr>)"
  have "names_inv s1"
    using claim_name_Inr [OF claim] inv
    by (auto simp: names_inv_def auctions_ok_def bids_total_def refunds_total_def sum_rows_erase intro!: all_rows_erase)
  then show ?thesis
    by (simp add: s' set_resource_limits_def names_inv_def auctions_ok_def bids_total_def refunds_total_def)
qed

text \<open>
  The histories: nobody signs as \<open>eosio.names\<close> itself, and bids are assets in range (the transfer that
  a bid sends aborts otherwise).
\<close>

fun name_admissible :: "ctx \<times> name_action \<Rightarrow> bool" where
  "name_admissible (c, Bidname b n q) \<longleftrightarrow> asset_library (ctx_lib c) \<and> b \<noteq> names_account \<and> asset_in_range q"
| "name_admissible (c, Bidrefund b n) \<longleftrightarrow> b \<noteq> names_account"
| "name_admissible (c, Close_auction t) = True"
| "name_admissible (c, Newaccount w n) = True"

lemma name_step_inv: "name_admissible a \<Longrightarrow> names_inv s \<Longrightarrow> name_step a s = Inr s' \<Longrightarrow> names_inv s'"
  by (induction a s rule: name_step.induct)
     (auto intro: bidname_inv bidrefund_inv close_auction_inv newaccount_inv)

interpretation auctions: contract_machine name_step name_admissible names_inv
  by unfold_locales (rule name_step_inv)

lemma names_inv_initial: "namebids s = no_rows \<Longrightarrow> bidrefunds s = no_rows \<Longrightarrow> outbox s = [] \<Longrightarrow> names_inv s"
  by (simp add: names_inv_def auctions_ok_def bids_total_def refunds_total_def)

section \<open>The winner gets the name\<close>

text \<open>
  What the successful actions so far say of the row of an auction: its highest bidder signed the last
  bid on the name, of that amount, and if the auction is closed it was closed more than a day later.
\<close>

definition own_bid :: "(ctx \<times> name_action) list \<Rightarrow> name \<Rightarrow> name_bid \<Rightarrow> bool" where
  "own_bid es n b \<longleftrightarrow> (\<exists>pre c1 bid rest.
     es = pre @ (c1, Bidname (high_bidder b) n bid) # rest \<and> has_auth c1 (high_bidder b) \<and>
     amount bid = \<bar>high_bid b\<bar> \<and> last_bid_time b = ctx_now c1 \<and>
     (\<forall>a \<in> set rest. \<forall>w q. snd a \<noteq> Bidname w n q) \<and>
     (high_bid b < 0 \<longrightarrow> (\<exists>c2 t. (c2, Close_auction t) \<in> set rest \<and>
        useconds_per_day < i64 (ctx_now c2 - ctx_now c1))))"

lemma own_bid_snoc:
  assumes "own_bid es n b" and "\<And>w q. snd a \<noteq> Bidname w n q"
  shows "own_bid (es @ [a]) n b"
  using assms unfolding own_bid_def
  by (elim exE conjE) (rule exI, rule exI, rule exI, rule exI [of _ "_ @ [a]"], auto)

definition auctions_traced :: "(ctx \<times> name_action) list \<Rightarrow> sys \<Rightarrow> bool" where
  "auctions_traced es s \<longleftrightarrow> auctions_ok s \<and> (\<forall>n b. find_row (namebids s) n = Some b \<longrightarrow> own_bid es n b)"

lemma auctions_traced_mono:
  assumes "auctions_traced es s" and "\<And>n b. find_row (namebids s') n = Some b \<Longrightarrow> find_row (namebids s) n = Some b"
    and "\<And>w n q. snd a \<noteq> Bidname w n q"
  shows "auctions_traced (es @ [a]) s'"
proof -
  have "own_bid (es @ [a]) n b" if "find_row (namebids s') n = Some b" for n b
    by (rule own_bid_snoc) (use assms(1) assms(2) [OF that] assms(3) in \<open>auto simp: auctions_traced_def\<close>)
  then show ?thesis using assms(1,2) by (auto simp: auctions_traced_def auctions_ok_def all_rows_iff)
qed

lemma bidname_traced:
  assumes tr: "auctions_traced es s" and range: "asset_in_range bid" and run: "bidname c bidder newname bid s = Inr s'"
  shows "auctions_traced (es @ [(c, Bidname bidder newname bid)]) s'"
proof -
  have pos: "has_auth c bidder" "0 < amount bid" using run by (auto elim: bidname_Inr)
  obtain b where row: "find_row (namebids s') newname = Some b" "high_bidder b = bidder" "high_bid b = amount bid"
      "last_bid_time b = ctx_now c" "nb_newname b = newname"
      "\<And>j. j \<noteq> newname \<Longrightarrow> find_row (namebids s') j = find_row (namebids s) j"
    using run
  proof (cases rule: bidname_Inr)
    case (raised core current refunded)
    then have "auction_ok newname current" using tr by (auto simp: auctions_traced_def auctions_ok_def dest: all_rowsD)
    then show thesis by (rule_tac that) (auto simp: raised auction_ok_def)
  qed (rule_tac that, auto)
  have "own_bid (es @ [(c, Bidname bidder newname bid)]) newname b"
    using row pos unfolding own_bid_def
    by (intro exI [of _ es] exI [of _ c] exI [of _ bid] exI [of _ "[]"]) simp
  moreover have "auction_ok newname b"
    using row pos range by (simp add: auction_ok_def asset_in_range_def)
  moreover have "own_bid (es @ [(c, Bidname bidder newname bid)]) j b' \<and> auction_ok j b'"
    if "j \<noteq> newname" "find_row (namebids s') j = Some b'" for j b'
    using tr that row(6) [OF that(1)]
    by (auto simp: auctions_traced_def auctions_ok_def intro!: own_bid_snoc dest: all_rowsD)
  ultimately have "own_bid (es @ [(c, Bidname bidder newname bid)]) j b' \<and> auction_ok j b'"
    if "find_row (namebids s') j = Some b'" for j b'
    using that row(1) by (cases "j = newname") auto
  then show ?thesis by (auto simp: auctions_traced_def auctions_ok_def all_rows_iff)
qed

lemma close_traced:
  assumes tr: "auctions_traced es s"
  shows "auctions_traced (es @ [(c, Close_auction t)]) (close_auction c t s)"
proof -
  have "auctions_ok s" using tr by (simp add: auctions_traced_def)
  then show ?thesis
  proof (rule close_auction_cases)
    fix k b
    assume row: "find_row (namebids s) k = Some b" and pos: "0 < high_bid b"
      and day: "useconds_per_day < i64 (ctx_now c - last_bid_time b)"
      and eq: "close_auction c t s = s\<lparr>gs := (gs s)\<lparr>last_name_close := t\<rparr>,
         namebids := modify_row same_payer k (b\<lparr>high_bid := - high_bid b\<rparr>) (namebids s)\<rparr>"
    have "own_bid es k b" using tr row by (simp add: auctions_traced_def)
    then obtain pre c1 bid rest where o: "es = pre @ (c1, Bidname (high_bidder b) k bid) # rest"
      "has_auth c1 (high_bidder b)" "amount bid = high_bid b" "last_bid_time b = ctx_now c1"
      "\<forall>a \<in> set rest. \<forall>w q. snd a \<noteq> Bidname w k q"
      using pos by (auto simp: own_bid_def)
    have "own_bid (es @ [(c, Close_auction t)]) k (b\<lparr>high_bid := - high_bid b\<rparr>)"
      using o day pos unfolding own_bid_def
      by (intro exI [of _ pre] exI [of _ c1] exI [of _ bid] exI [of _ "rest @ [(c, Close_auction t)]"]) auto
    moreover have "auctions_ok (close_auction c t s)"
      using tr row by (auto simp: eq auctions_traced_def auctions_ok_def auction_ok_def dest: all_rowsD intro!: all_rows_modify)
    ultimately show ?thesis
      using tr row by (auto simp: eq auctions_traced_def intro!: own_bid_snoc)
  qed (use auctions_traced_mono [OF tr, of s "(c, Close_auction t)"] in simp)
qed

lemma newaccount_rows:
  assumes "newaccount c creator n s = Inr s'" and "find_row (namebids s') j = Some b"
  shows "find_row (namebids s) j = Some b"
  using assms(1)
proof (rule newaccount_Inr)
  fix s1 zero
  assume "claim_name c creator n s = Inr s1"
    and "s' = set_resource_limits n 0 0 0 (s1\<lparr>userres := put n n \<lparr>ur_owner = n, ur_net_weight = zero,
       ur_cpu_weight = zero, ur_ram_bytes = 0\<rparr> (userres s1)\<rparr>)"
  then show ?thesis
    using assms(2) claim_name_Inr by (fastforce simp: set_resource_limits_def split: if_splits)
qed

lemma name_step_traced:
  "name_admissible a \<Longrightarrow> name_step a s = Inr s' \<Longrightarrow> auctions_traced es s \<Longrightarrow> auctions_traced (es @ [a]) s'"
proof (induction a s rule: name_step.induct)
  case (1 c b n q s)
  then show ?case using bidname_traced [OF 1(3)] by simp
next
  case (2 c b n s)
  show ?case by (rule auctions_traced_mono [OF 2(3)]) (use 2(2) in \<open>auto simp: bidrefund_Inr\<close>)
next
  case (3 c t s)
  then show ?case using close_traced [OF 3(3)] by auto
next
  case (4 c w n s)
  show ?case by (rule auctions_traced_mono [OF 4(3)]) (use 4(2) newaccount_rows in auto)
qed

section \<open>Properties\<close>

text \<open>
  C20: after every history of bids, refunds, closed auctions and new accounts, \<open>eosio.names\<close> has been
  sent at least the open bids, the prices of the closed auctions and all recorded refunds together;
  so every refund on record can be paid, and asking for it does pay it, in full, once.
\<close>

theorem refunds_are_funded:
  assumes "list_all name_admissible as" and "namebids s0 = no_rows" and "bidrefunds s0 = no_rows"
    and "outbox s0 = []" and "s = run name_step as s0"
  shows "sum_rows (\<lambda>_ b. \<bar>high_bid b\<bar>) (namebids s) + sum_rows (\<lambda>_ r. amount (br_amount r)) (bidrefunds s)
      \<le> net_flow names_account (outbox s)
    \<and> (\<forall>n w r. find_row (bidrefunds s) (n, w) = Some r \<longrightarrow>
        0 < amount (br_amount r) \<and> amount (br_amount r) \<le> net_flow names_account (outbox s) \<and>
        (\<forall>c. \<exists>s'. bidrefund c w n s = Inr s' \<and> outbox s' = outbox s @ [refund_payment c w n (br_amount r)] \<and>
          find_row (bidrefunds s') (n, w) = None))"
proof -
  have inv: "names_inv s"
    unfolding assms(5) by (rule auctions.run_inv [OF assms(1) names_inv_initial [OF assms(2,3,4)]])
  have pos: "all_rows (\<lambda>k r. 0 \<le> amount (br_amount r)) (bidrefunds s)" "all_rows (\<lambda>k b. 0 \<le> \<bar>high_bid b\<bar>) (namebids s)"
    using names_invD(4) [OF inv] by (force simp: all_rows_iff)+
  have "amount (br_amount r) \<le> net_flow names_account (outbox s)" if "find_row (bidrefunds s) k = Some r" for k r
    using row_le_sum_rows [OF pos(1) that] sum_rows_nonneg [OF pos(2)] names_invD(2) [OF inv]
    by (simp add: bids_total_def refunds_total_def)
  then show ?thesis
    using names_invD [OF inv] by (auto simp: bidrefund_Inr bids_total_def refunds_total_def)
qed

text \<open>
  C21: a bid that outbids another was signed by the bidder, who is charged exactly the bid, and raises
  the price by more than a tenth; the auction is the bidder's then, and whoever was outbid gets the
  whole previous bid back, on top of any refund that was due already, by asking for it.
\<close>

theorem outbid_is_refunded:
  assumes "asset_library (ctx_lib c)" and "names_inv s" and "find_row (namebids s) n = Some b"
    and "0 < amount bid" and "asset_in_range bid" and "bidname c bidder n bid s = Inr s'"
  shows "has_auth c bidder \<and> bidder \<noteq> high_bidder b \<and> 0 < high_bid b \<and>
    high_bid b div 10 < amount bid - high_bid b \<and>
    outbox s' = outbox s @ [bid_payment c bidder n bid] \<and>
    find_row (namebids s') n = Some (b\<lparr>high_bidder := bidder, high_bid := amount bid, last_bid_time := ctx_now c\<rparr>) \<and>
    (\<forall>j. j \<noteq> n \<longrightarrow> find_row (namebids s') j = find_row (namebids s) j) \<and>
    (\<forall>k. k \<noteq> (n, high_bidder b) \<longrightarrow> find_row (bidrefunds s') k = find_row (bidrefunds s) k) \<and>
    (\<exists>q s''. amount q = high_bid b +
        (case find_row (bidrefunds s) (n, high_bidder b) of None \<Rightarrow> 0 | Some r \<Rightarrow> amount (br_amount r)) \<and>
      bidrefund c' (high_bidder b) n s' = Inr s'' \<and>
      outbox s'' = outbox s' @ [refund_payment c' (high_bidder b) n q])"
  using assms(6)
proof (cases rule: bidname_Inr)
  case first
  then show ?thesis using assms(3) by simp
next
  case (raised core current refunded)
  have cur: "current = b" using raised(5) assms(3) by simp
  have ok: "auction_ok n b" by (rule names_invD(3) [OF assms(2,3)])
  have rows: "all_rows (\<lambda>k r. asset_in_range (br_amount r) \<and> 0 < amount (br_amount r) \<and> br_bidder r = snd k) (bidrefunds s)"
    using assms(2) by (simp add: names_inv_def)
  have bounds: "0 < high_bid b" "high_bid b \<le> max_amount" "amount bid \<le> max_amount"
    using raised(6) ok assms(5) by (simp_all add: cur auction_ok_def asset_in_range_def)
  have "high_bid b div 10 < amount bid - high_bid b"
    using raised(4,7) bounds by (simp add: cur sdiv_nonneg max_amount_def)
  moreover obtain r where "find_row refunded (n, high_bidder b) = Some r"
    "amount (br_amount r) = high_bid b +
        (case find_row (bidrefunds s) (n, high_bidder b) of None \<Rightarrow> 0 | Some r0 \<Rightarrow> amount (br_amount r0))"
    using refunds_after_effect(3) [OF assms(1) raised(9,6) rows] by (auto simp: cur)
  moreover have "\<forall>k. k \<noteq> (n, high_bidder b) \<longrightarrow> find_row refunded k = find_row (bidrefunds s) k"
    using refunds_after_effect(4) [OF assms(1) raised(9,6) rows] by (simp add: cur)
  ultimately show ?thesis
    using raised bounds(1) by (auto simp: cur bidrefund_Inr intro!: exI [of _ "br_amount r"])
qed

text \<open>
  C22: nobody but the contract's account, or the owner of the suffix, creates an account with a premium
  name except the winner of its auction: among the actions that succeeded is the creator's own signed
  bid on the name, no bid on the name came after it, and the auction was closed more than a day later.
\<close>

theorem name_goes_to_the_winner:
  assumes "list_all name_admissible as" and "namebids s0 = no_rows"
    and "newaccount c creator n (run name_step as s0) = Inr s'"
    and "creator \<noteq> ctx_self c" and "has_dot n" and "name_suffix (ctx_lib c) n = n"
  shows "\<exists>pre c1 bid rest c2 t. effective name_step as s0 = pre @ (c1, Bidname creator n bid) # rest \<and>
      has_auth c1 creator \<and> 0 < amount bid \<and>
      (\<forall>a \<in> set rest. \<forall>w q. snd a \<noteq> Bidname w n q) \<and>
      (c2, Close_auction t) \<in> set rest \<and> useconds_per_day < i64 (ctx_now c2 - ctx_now c1) \<and>
      find_row (namebids s') n = None"
proof -
  have "auctions_traced (effective name_step as s0) (run name_step as s0)"
  proof (rule effective_induct [OF assms(1)])
    show "auctions_traced [] s0" by (simp add: auctions_traced_def auctions_ok_def assms(2))
  qed (rule name_step_traced)
  moreover obtain b where "find_row (namebids (run name_step as s0)) n = Some b" "high_bidder b = creator"
    "high_bid b < 0" "find_row (namebids s') n = None"
    using assms(3)
    by (rule newaccount_Inr) (use assms(4,5,6) in \<open>auto simp: claim_name_def set_resource_limits_def\<close>)
  ultimately have "own_bid (effective name_step as s0) n b" by (auto simp: auctions_traced_def)
  then obtain pre c1 bid rest c2 t where "effective name_step as s0 = pre @ (c1, Bidname creator n bid) # rest"
    "has_auth c1 creator" "amount bid = \<bar>high_bid b\<bar>" "\<forall>a \<in> set rest. \<forall>w q. snd a \<noteq> Bidname w n q"
    "(c2, Close_auction t) \<in> set rest" "useconds_per_day < i64 (ctx_now c2 - ctx_now c1)"
    using \<open>high_bidder b = creator\<close> \<open>high_bid b < 0\<close> by (auto simp: own_bid_def)
  then show ?thesis
    using \<open>high_bid b < 0\<close> \<open>find_row (namebids s') n = None\<close>
    by (intro exI [of _ pre] exI [of _ c1] exI [of _ bid] exI [of _ rest] exI [of _ c2] exI [of _ t]) auto
qed

text \<open>
  An auction of the name 512: account 1 bids 100, account 2 bids 200, the auction is closed two days
  later and account 2 creates the account.
\<close>

definition name_ctx :: "name \<Rightarrow> int \<Rightarrow> ctx" where
  "name_ctx w t = (sample_ctx 7 [w])\<lparr>ctx_is_account := (\<lambda>_. False), ctx_now := t\<rparr>"

definition sample_auction :: "(ctx \<times> name_action) list" where
  "sample_auction = [(name_ctx 1 0, Bidname 1 512 (wax_asset 100)), (name_ctx 2 0, Bidname 2 512 (wax_asset 200)),
     (name_ctx 7 (20 * useconds_per_day), Close_auction 200000)]"

definition auction_start :: sys where
  "auction_start = sample_sys\<lparr>gs := default_gstate\<lparr>thresh_activated_stake_time := 1\<rparr>\<rparr>"

lemma auction_start_simps [simp]:
  "namebids auction_start = no_rows" "bidrefunds auction_start = no_rows" "outbox auction_start = []"
  "userres auction_start = no_rows" "core_symbol auction_start = Inr wax"
  "gs auction_start = default_gstate\<lparr>thresh_activated_stake_time := 1\<rparr>"
  by (simp_all add: auction_start_def sample_sys_def empty_sys_def core_symbol_def sample_market_def wax_asset_def)

lemma name_ctx_simps [simp]:
  "ctx_lib (name_ctx w t) = std_cdt" "ctx_now (name_ctx w t) = t" "ctx_self (name_ctx w t) = 7"
  "has_auth (name_ctx w t) v \<longleftrightarrow> v = w" "ctx_is_account (name_ctx w t) n = False"
  "asset_library std_cdt"
  by (auto simp: name_ctx_def sample_ctx_def has_auth_def std_library.asset_library_axioms)

lemma sample_auction_admissible: "list_all name_admissible sample_auction"
  by (simp add: sample_auction_def account_values asset_in_range_def max_amount_def wax_asset_def)

lemma sample_has_dot: "has_dot 512"
  by code_simp

lemma sample_auction_run:
  "\<exists>s1 s2. bidname (name_ctx 1 0) 1 512 (wax_asset 100) auction_start = Inr s1 \<and>
     find_row (namebids s1) 512 = Some \<lparr>nb_newname = 512, high_bidder = 1, high_bid = 100, last_bid_time = 0\<rparr> \<and>
     bidrefunds s1 = no_rows \<and>
     bidname (name_ctx 2 0) 2 512 (wax_asset 200) s1 = Inr s2 \<and>
     find_row (bidrefunds s2) (512, 1) = Some \<lparr>br_bidder = 1, br_amount = wax_asset 100\<rparr> \<and>
     is_ok (newaccount (name_ctx 2 0) 2 512 (close_auction (name_ctx 7 (20 * useconds_per_day)) 200000 s2))"
  by (simp add: bidname_def require_auth_def std_cdt_simps wax_asset_def max_amount_def send_token_def sdiv_nonneg
      close_auction_def highest_auction_def by_high_bid_def newaccount_def claim_name_def sample_has_dot
      useconds_per_day_def seconds_per_day_def blocks_per_day_def default_gstate_def u64_def u32_def)

lemma sample_auction_steps:
  obtains s1 s2 where "bidname (name_ctx 1 0) 1 512 (wax_asset 100) auction_start = Inr s1"
    "bidname (name_ctx 2 0) 2 512 (wax_asset 200) s1 = Inr s2"
    "run name_step (take 1 sample_auction) auction_start = s1" "run name_step (take 2 sample_auction) auction_start = s2"
    "run name_step sample_auction auction_start = close_auction (name_ctx 7 (20 * useconds_per_day)) 200000 s2"
    "find_row (namebids s1) 512 = Some \<lparr>nb_newname = 512, high_bidder = 1, high_bid = 100, last_bid_time = 0\<rparr>"
    "bidrefunds s1 = no_rows" "find_row (bidrefunds s2) (512, 1) = Some \<lparr>br_bidder = 1, br_amount = wax_asset 100\<rparr>"
    "is_ok (newaccount (name_ctx 2 0) 2 512 (run name_step sample_auction auction_start))"
  using sample_auction_run by (auto simp: sample_auction_def numeral_2_eq_2 intro: that)

theorem refunds_are_funded_witness:
  "\<exists>s s'. s = run name_step (take 2 sample_auction) auction_start \<and>
     100 \<le> net_flow names_account (outbox s) \<and> bidrefund (name_ctx 1 0) 1 512 s = Inr s'"
proof -
  obtain s2 where s2: "run name_step (take 2 sample_auction) auction_start = s2"
    "find_row (bidrefunds s2) (512, 1) = Some \<lparr>br_bidder = 1, br_amount = wax_asset 100\<rparr>"
    by (rule sample_auction_steps) auto
  have "list_all name_admissible (take 2 sample_auction)"
    using sample_auction_admissible by (auto simp: list_all_iff dest: in_set_takeD)
  from refunds_are_funded [OF this, of auction_start s2]
  have "amount (wax_asset 100) \<le> net_flow names_account (outbox s2)" "\<exists>s'. bidrefund (name_ctx 1 0) 1 512 s2 = Inr s'"
    using s2 by force+
  then show ?thesis using s2(1) by (auto simp: wax_asset_def)
qed

theorem outbid_is_refunded_witness:
  "\<exists>s s' q s''. bidname (name_ctx 2 0) 2 512 (wax_asset 200) s = Inr s' \<and> amount q = 100 \<and>
     bidrefund (name_ctx 9 0) 1 512 s' = Inr s'' \<and> outbox s'' = outbox s' @ [refund_payment (name_ctx 9 0) 1 512 q]"
proof -
  obtain s1 s2 where s: "bidname (name_ctx 2 0) 2 512 (wax_asset 200) s1 = Inr s2"
    "run name_step (take 1 sample_auction) auction_start = s1"
    "find_row (namebids s1) 512 = Some \<lparr>nb_newname = 512, high_bidder = 1, high_bid = 100, last_bid_time = 0\<rparr>"
    "find_row (bidrefunds s1) (512, 1) = None"
    by (rule sample_auction_steps) simp
  have "list_all name_admissible (take 1 sample_auction)"
    using sample_auction_admissible by (auto simp: list_all_iff dest: in_set_takeD)
  then have inv: "names_inv s1"
    using auctions.run_inv [of "take 1 sample_auction" auction_start] s(2) by (simp add: names_inv_initial)
  have lib: "asset_library (ctx_lib (name_ctx 2 0))" by simp
  have bid: "0 < amount (wax_asset 200)" "asset_in_range (wax_asset 200)"
    by (simp_all add: wax_asset_def asset_in_range_def max_amount_def)
  note effect = outbid_is_refunded [OF lib inv s(3) bid s(1), of "name_ctx 9 0", unfolded name_bid.select_convs s(4) option.case]
  then obtain q s'' where "amount q = 100 + 0" "bidrefund (name_ctx 9 0) 1 512 s2 = Inr s''"
      "outbox s'' = outbox s2 @ [refund_payment (name_ctx 9 0) 1 512 q]"
    by (elim conjE exE) (rule that)
  then show ?thesis using s(1) by auto
qed

theorem name_goes_to_the_winner_witness:
  "\<exists>pre c1 bid rest. effective name_step sample_auction auction_start = pre @ (c1, Bidname 2 512 bid) # rest \<and>
     0 < amount bid"
proof -
  obtain s' where new: "newaccount (name_ctx 2 0) 2 512 (run name_step sample_auction auction_start) = Inr s'"
    using that by (rule_tac sample_auction_steps) (auto simp only: is_ok_iff)
  have "name_suffix (ctx_lib (name_ctx 2 0)) 512 = 512" "2 \<noteq> ctx_self (name_ctx 2 0)" by (simp_all add: std_cdt_simps)
  from name_goes_to_the_winner [OF sample_auction_admissible auction_start_simps(1) new this(2) sample_has_dot this(1)]
  show ?thesis by blast
qed

end
