(* ===== verification/Admin.thy ===== *)
theory Admin
  imports SystemState
begin

text \<open>
  The administration of the chain in \<open>eosio.system.cpp\<close>: the chain's parameters (\<open>setparams\<close>,
  \<open>wasmcfg\<close>; the repository builds with \<open>SYSTEM_BLOCKCHAIN_PARAMETERS\<close> and
  \<open>SYSTEM_CONFIGURABLE_WASM_LIMITS\<close> on), privileges and features, the resource limits of accounts
  that the system manages itself (\<open>setalimits\<close>, \<open>setacctram\<close>, \<open>setacctnet\<close>, \<open>setacctcpu\<close>),
  \<open>rmvproducer\<close>, \<open>updtrevision\<close> and the native \<open>setabi\<close>.
\<close>

section \<open>Parameters of the chain\<close>

text \<open>
  The buffer that \<open>setparams\<close> packs: the count, 17 and one more for the optional parameter, and the pairs of a
  parameter's id and its value.
\<close>

definition packed_count :: "int option \<Rightarrow> int" where
  "packed_count max_action_return_value_size =
     (let count = 17 in case max_action_return_value_size of None \<Rightarrow> count | Some _ \<Rightarrow> count + 1)"

definition packed_parameters :: "blockchain_parameters \<Rightarrow> int option \<Rightarrow> (int \<times> int) list" where
  "packed_parameters p max_action_return_value_size =
     [(0, max_block_net_usage p), (1, target_block_net_usage_pct p), (2, max_transaction_net_usage p),
      (3, base_per_transaction_net_usage p), (4, net_usage_leeway p),
      (5, context_free_discount_net_usage_num p), (6, context_free_discount_net_usage_den p),
      (7, max_block_cpu_usage p), (8, target_block_cpu_usage_pct p), (9, max_transaction_cpu_usage p),
      (10, min_transaction_cpu_usage p), (11, max_transaction_lifetime p),
      (12, deferred_trx_expiration_window p), (13, max_transaction_delay p),
      (14, max_inline_action_size p), (15, max_inline_action_depth p), (16, max_authority_depth p)]
     @ (case max_action_return_value_size of None \<Rightarrow> [] | Some v \<Rightarrow> [(17, v)])"

definition setparams :: "ctx \<Rightarrow> blockchain_parameters \<Rightarrow> int option \<Rightarrow> sys \<Rightarrow> sys result" where
  "setparams c params max_action_return_value_size s =
     require_auth c (ctx_self c) (
     let s1 = s\<lparr>gs := (gs s)\<lparr>gs_parameters := params\<rparr>\<rparr> in
     check (3 \<le> max_authority_depth (gs_parameters (gs s1))) ''max_authority_depth should be at least 3'' (
     Inr (call_host (Set_parameters (packed_count max_action_return_value_size)
       (packed_parameters params max_action_return_value_size)) s1)))"

record wasm_parameters =
  max_mutable_global_bytes :: int
  max_table_elements :: int
  max_section_elements :: int
  max_linear_memory_init :: int
  max_func_local_bytes :: int
  max_nested_structures :: int
  max_symbol_bytes :: int
  max_module_bytes :: int
  max_code_bytes :: int
  max_pages :: int
  max_call_depth :: int

definition default_limits :: wasm_parameters where
  "default_limits = \<lparr>max_mutable_global_bytes = 1024, max_table_elements = 1024,
     max_section_elements = 8192, max_linear_memory_init = 64 * 1024, max_func_local_bytes = 8192,
     max_nested_structures = 1024, max_symbol_bytes = 8192, max_module_bytes = 20 * 1024 * 1024,
     max_code_bytes = 20 * 1024 * 1024, max_pages = 528, max_call_depth = 251\<rparr>"

definition high_limits :: wasm_parameters where
  "high_limits = \<lparr>max_mutable_global_bytes = 8192, max_table_elements = 8192,
     max_section_elements = 8192, max_linear_memory_init = 16 * 64 * 1024, max_func_local_bytes = 8192,
     max_nested_structures = 1024, max_symbol_bytes = 8192, max_module_bytes = 20 * 1024 * 1024,
     max_code_bytes = 20 * 1024 * 1024, max_pages = 528, max_call_depth = 1024\<rparr>"

text \<open>The buffer: a zero (the version), then the members in order.\<close>

definition set_wasm_parameters :: "wasm_parameters \<Rightarrow> sys \<Rightarrow> sys" where
  "set_wasm_parameters p s = call_host (Set_wasm_parameters
     [0, max_mutable_global_bytes p, max_table_elements p, max_section_elements p,
      max_linear_memory_init p, max_func_local_bytes p, max_nested_structures p, max_symbol_bytes p,
      max_module_bytes p, max_code_bytes p, max_pages p, max_call_depth p]) s"

definition wasmcfg :: "ctx \<Rightarrow> name \<Rightarrow> sys \<Rightarrow> sys result" where
  "wasmcfg c settings s =
     require_auth c (ctx_self c) (
     if settings = name_of ''default'' \<or> settings = name_of ''low'' then
       Inr (set_wasm_parameters default_limits s)
     else if settings = name_of ''high'' then Inr (set_wasm_parameters high_limits s)
     else Inl (Check ''Unkown configuration''))"

section \<open>Privileges, features, revision, producers, ABIs\<close>

definition setpriv :: "ctx \<Rightarrow> name \<Rightarrow> int \<Rightarrow> sys \<Rightarrow> sys result" where
  "setpriv c account ispriv s =
     require_auth c (ctx_self c) (Inr (call_host (Set_privileged account ispriv) s))"

definition activate :: "ctx \<Rightarrow> bytes \<Rightarrow> sys \<Rightarrow> sys result" where
  "activate c feature_digest s =
     require_auth c (ctx_self c) (Inr (call_host (Preactivate_feature feature_digest) s))"

definition rmvproducer :: "ctx \<Rightarrow> name \<Rightarrow> sys \<Rightarrow> sys result" where
  "rmvproducer c producer s =
     require_auth c (ctx_self c) (
     some_or (find_row (producers s) producer) (Check ''producer not found'') (\<lambda>p.
     Inr (s\<lparr>producers := modify_row same_payer producer (deactivate p) (producers s)\<rparr>)))"

definition updtrevision :: "ctx \<Rightarrow> int \<Rightarrow> sys \<Rightarrow> sys result" where
  "updtrevision c new_revision s =
     require_auth c (ctx_self c) (
     check (revision (gs2 s) < 255) ''can not increment revision'' (
     check (new_revision = revision (gs2 s) + 1) ''can only increment revision by one'' (
     check (new_revision \<le> 1) ''specified revision is not yet supported by the code'' (
     Inr (s\<lparr>gs2 := (gs2 s)\<lparr>revision := new_revision\<rparr>\<rparr>)))))"

definition setabi :: "(bytes \<Rightarrow> bytes) \<Rightarrow> name \<Rightarrow> bytes \<Rightarrow> sys \<Rightarrow> sys" where
  "setabi sha256 acnt abi s =
     (case find_row (abihash s) acnt of
        None \<Rightarrow> s\<lparr>abihash := put acnt acnt \<lparr>ah_owner = acnt, ah_hash = sha256 abi\<rparr> (abihash s)\<rparr>
      | Some row \<Rightarrow> s\<lparr>abihash := modify_row same_payer acnt (row\<lparr>ah_hash := sha256 abi\<rparr>) (abihash s)\<rparr>)"

section \<open>Resource limits\<close>

definition setalimits :: "ctx \<Rightarrow> name \<Rightarrow> int \<Rightarrow> int \<Rightarrow> int \<Rightarrow> sys \<Rightarrow> sys result" where
  "setalimits c account ram net cpu s =
     require_auth c (ctx_self c) (
     check (find_row (userres s) account = None) ''only supports unlimited accounts'' (
     check (case find_row (voters s) account of None \<Rightarrow> True
        | Some v \<Rightarrow> \<not> (has_field (flags1 v) ram_managed \<or> has_field (flags1 v) net_managed
                        \<or> has_field (flags1 v) cpu_managed))
       ''cannot use setalimits on an account with managed resources'' (
     Inr (set_resource_limits account ram net cpu s))))"

text \<open>The two updates of a voter's flag that the three actions below share.\<close>

definition unset_managed :: "name \<Rightarrow> flags1_fields \<Rightarrow> sys \<Rightarrow> sys" where
  "unset_managed account field s =
     (case find_row (voters s) account of None \<Rightarrow> s
      | Some v \<Rightarrow> s\<lparr>voters := modify_row same_payer account
          (v\<lparr>flags1 := set_field (flags1 v) field False\<rparr>) (voters s)\<rparr>)"

definition set_managed :: "name \<Rightarrow> flags1_fields \<Rightarrow> sys \<Rightarrow> sys" where
  "set_managed account field s =
     (case find_row (voters s) account of
        Some v \<Rightarrow> s\<lparr>voters := modify_row same_payer account
          (v\<lparr>flags1 := set_field (flags1 v) field True\<rparr>) (voters s)\<rparr>
      | None \<Rightarrow> s\<lparr>voters := put account account
          ((default_voter account)\<lparr>flags1 := set_field 0 field True\<rparr>) (voters s)\<rparr>)"

definition setacctram :: "ctx \<Rightarrow> name \<Rightarrow> int option \<Rightarrow> sys \<Rightarrow> sys result" where
  "setacctram c account ram_bytes s =
     require_auth c (ctx_self c) (
     case get_resource_limits s account of (current_ram, current_net, current_cpu) \<Rightarrow>
     case ram_bytes of
       None \<Rightarrow>
         check (managed s account ram_managed) ''RAM of account is already unmanaged'' (
         let ram = (case find_row (userres s) account of None \<Rightarrow> ram_gift_bytes
                    | Some r \<Rightarrow> i64 (ram_gift_bytes + ur_ram_bytes r)) in
         Inr (set_resource_limits account ram current_net current_cpu (unset_managed account ram_managed s)))
     | Some n \<Rightarrow>
         check (n \<ge> 0) ''not allowed to set RAM limit to unlimited'' (
         Inr (set_resource_limits account n current_net current_cpu (set_managed account ram_managed s))))"

definition setacctnet :: "ctx \<Rightarrow> name \<Rightarrow> int option \<Rightarrow> sys \<Rightarrow> sys result" where
  "setacctnet c account net_weight s =
     require_auth c (ctx_self c) (
     case get_resource_limits s account of (current_ram, current_net, current_cpu) \<Rightarrow>
     case net_weight of
       None \<Rightarrow>
         check (managed s account net_managed) ''Network bandwidth of account is already unmanaged'' (
         let net = (case find_row (userres s) account of None \<Rightarrow> 0 | Some r \<Rightarrow> amount (ur_net_weight r)) in
         Inr (set_resource_limits account current_ram net current_cpu (unset_managed account net_managed s)))
     | Some n \<Rightarrow>
         check (n \<ge> -1) ''invalid value for net_weight'' (
         Inr (set_resource_limits account current_ram n current_cpu (set_managed account net_managed s))))"

definition setacctcpu :: "ctx \<Rightarrow> name \<Rightarrow> int option \<Rightarrow> sys \<Rightarrow> sys result" where
  "setacctcpu c account cpu_weight s =
     require_auth c (ctx_self c) (
     case get_resource_limits s account of (current_ram, current_net, current_cpu) \<Rightarrow>
     case cpu_weight of
       None \<Rightarrow>
         check (managed s account cpu_managed) ''CPU bandwidth of account is already unmanaged'' (
         let cpu = (case find_row (userres s) account of None \<Rightarrow> 0 | Some r \<Rightarrow> amount (ur_cpu_weight r)) in
         Inr (set_resource_limits account current_ram current_net cpu (unset_managed account cpu_managed s)))
     | Some n \<Rightarrow>
         check (n \<ge> -1) ''invalid value for cpu_weight'' (
         Inr (set_resource_limits account current_ram current_net n (set_managed account cpu_managed s))))"

datatype limits_action =
    Setacctram name "int option"
  | Setacctnet name "int option"
  | Setacctcpu name "int option"
  | Setalimits name int int int

fun limits_step :: "ctx \<times> limits_action \<Rightarrow> sys \<Rightarrow> sys result" where
  "limits_step (c, Setacctram w x) s = setacctram c w x s"
| "limits_step (c, Setacctnet w x) s = setacctnet c w x s"
| "limits_step (c, Setacctcpu w x) s = setacctcpu c w x s"
| "limits_step (c, Setalimits w r n p) s = setalimits c w r n p s"

section \<open>Managed limits\<close>

lemma managed_set_managed [simp]:
  "managed (set_managed w f s) v g = (if v = w \<and> g = f then True else managed s v g)"
proof -
  have "\<not> has_field 0 h" for h by (simp add: has_field_def)
  then show ?thesis
    by (auto simp: managed_def set_managed_def has_set_field default_voter_def split: option.splits)
qed

lemma managed_unset_managed [simp]:
  "managed (unset_managed w f s) v g = (if v = w \<and> g = f then False else managed s v g)"
  by (auto simp: managed_def unset_managed_def has_set_field split: option.splits)

lemma set_managed_frames [simp]:
  "resource_limits (set_managed w f s) = resource_limits s" "userres (set_managed w f s) = userres s"
  "resource_limits (unset_managed w f s) = resource_limits s" "userres (unset_managed w f s) = userres s"
  by (auto simp: set_managed_def unset_managed_def split: option.split)

lemma managed_set_resource_limits [simp]: "managed (set_resource_limits w r n c s) = managed s"
  by (simp add: managed_def set_resource_limits_def fun_eq_iff)

fun set_acct :: "flags1_fields \<Rightarrow> ctx \<Rightarrow> name \<Rightarrow> int option \<Rightarrow> sys \<Rightarrow> sys result" where
  "set_acct ram_managed = setacctram"
| "set_acct net_managed = setacctnet"
| "set_acct cpu_managed = setacctcpu"

fun part :: "flags1_fields \<Rightarrow> int \<times> int \<times> int \<Rightarrow> int" where
  "part ram_managed (r, n, c) = r"
| "part net_managed (r, n, c) = n"
| "part cpu_managed (r, n, c) = c"

text \<open>The limit that the resources of an account's own row give it.\<close>

fun own_share :: "flags1_fields \<Rightarrow> sys \<Rightarrow> name \<Rightarrow> int" where
  "own_share ram_managed s w =
     (case find_row (userres s) w of None \<Rightarrow> ram_gift_bytes | Some r \<Rightarrow> i64 (ram_gift_bytes + ur_ram_bytes r))"
| "own_share net_managed s w = (case find_row (userres s) w of None \<Rightarrow> 0 | Some r \<Rightarrow> amount (ur_net_weight r))"
| "own_share cpu_managed s w = (case find_row (userres s) w of None \<Rightarrow> 0 | Some r \<Rightarrow> amount (ur_cpu_weight r))"

fun put_part :: "flags1_fields \<Rightarrow> int \<Rightarrow> int \<times> int \<times> int \<Rightarrow> int \<times> int \<times> int" where
  "put_part ram_managed x (r, n, c) = (x, n, c)"
| "put_part net_managed x (r, n, c) = (r, x, c)"
| "put_part cpu_managed x (r, n, c) = (r, n, x)"

lemma part_put_part [simp]: "part f (put_part g x l) = (if f = g then x else part f l)"
  by (cases l; cases f; cases g) simp_all

lemma put_part_part [simp]: "put_part f (part f l) l = l" "put_part f x (put_part f y l) = put_part f x l"
  by (cases l; cases f; simp)+

definition limits_as :: "flags1_fields \<Rightarrow> name \<Rightarrow> int \<Rightarrow> sys \<Rightarrow> sys" where
  "limits_as f w x s = s\<lparr>resource_limits := (resource_limits s)(w := put_part f x (resource_limits s w))\<rparr>"

lemma limits_as_frames [simp]:
  "resource_limits (limits_as f w x s) = (resource_limits s)(w := put_part f x (resource_limits s w))"
  "userres (limits_as f w x s) = userres s" "managed (limits_as f w x s) = managed s"
  "own_share f (limits_as g w x s) v = own_share f s v"
  by (simp_all add: limits_as_def managed_def fun_eq_iff) (cases f; simp)

text \<open>The three actions are one, up to the resource.\<close>

lemma set_acct_Some:
  "set_acct f c w (Some n) s = Inr s' \<longleftrightarrow>
     has_auth c (ctx_self c) \<and> (if f = ram_managed then 0 else -1) \<le> n \<and>
     s' = limits_as f w n (set_managed w f s)"
  by (cases f; cases "resource_limits s w")
     (auto simp: setacctram_def setacctnet_def setacctcpu_def get_resource_limits_def
       set_resource_limits_def limits_as_def)

lemma set_acct_None:
  "set_acct f c w None s = Inr s' \<longleftrightarrow>
     has_auth c (ctx_self c) \<and> managed s w f \<and> s' = limits_as f w (own_share f s w) (unset_managed w f s)"
  by (cases f; cases "resource_limits s w")
     (auto simp: setacctram_def setacctnet_def setacctcpu_def get_resource_limits_def Let_def
       set_resource_limits_def limits_as_def)

lemma own_share_set_managed [simp]:
  "own_share f (set_managed w g s) v = own_share f s v" "own_share f (unset_managed w g s) v = own_share f s v"
  by (cases f; simp)+

section \<open>Properties\<close>

text \<open>
  Taking an account's limit for one resource under management, and giving it back, is a round
  trip: managed, the limit is the number set, the other two limits, the other flags and all other
  accounts stay; given back, every flag is as before and the limit is what the account's own
  resources give it.
\<close>

theorem managing_is_undone:
  assumes "set_acct f c w (Some n) s = Inr s1" and "\<not> managed s w f" and "has_auth c' (ctx_self c')"
  shows "managed s1 = (managed s)(w := (managed s w)(f := True)) \<and>
    resource_limits s1 = (resource_limits s)(w := put_part f n (resource_limits s w)) \<and>
    (\<exists>s2. set_acct f c' w None s1 = Inr s2 \<and> managed s2 = managed s \<and>
       resource_limits s2 = (resource_limits s)(w := put_part f (own_share f s w) (resource_limits s w)))"
  using assms by (auto simp: set_acct_Some set_acct_None fun_eq_iff)

theorem managing_is_undone_witness:
  "\<exists>s1 s2. setacctram (sample_ctx 7 [7]) 1 (Some 5000) sample_sys = Inr s1 \<and> managed s1 1 ram_managed \<and>
     resource_limits s1 1 = (5000, 0, 0) \<and> setacctram (sample_ctx 7 [7]) 1 None s1 = Inr s2 \<and>
     resource_limits s2 1 = (1400, 0, 0)"
proof -
  let ?c = "sample_ctx 7 [7]"
  have auth: "has_auth ?c (ctx_self ?c)" by (simp add: sample_simps)
  obtain s1 where s1: "set_acct ram_managed ?c 1 (Some 5000) sample_sys = Inr s1"
    using set_acct_Some [of ram_managed ?c 1 5000 sample_sys] auth by auto
  have "\<not> managed sample_sys 1 ram_managed" by (simp add: managed_def sample_sys_def empty_sys_def)
  from managing_is_undone [OF s1 this auth] s1 show ?thesis
    by (auto simp: sample_sys_def empty_sys_def ram_gift_bytes_def)
qed

text \<open>What the chain makes of a packed list: the value under each id.\<close>

definition unpacked :: "(int \<times> int) list \<Rightarrow> blockchain_parameters" where
  "unpacked xs = \<lparr>max_block_net_usage = the (map_of xs 0), target_block_net_usage_pct = the (map_of xs 1),
     max_transaction_net_usage = the (map_of xs 2), base_per_transaction_net_usage = the (map_of xs 3),
     net_usage_leeway = the (map_of xs 4), context_free_discount_net_usage_num = the (map_of xs 5),
     context_free_discount_net_usage_den = the (map_of xs 6), max_block_cpu_usage = the (map_of xs 7),
     target_block_cpu_usage_pct = the (map_of xs 8), max_transaction_cpu_usage = the (map_of xs 9),
     min_transaction_cpu_usage = the (map_of xs 10), max_transaction_lifetime = the (map_of xs 11),
     deferred_trx_expiration_window = the (map_of xs 12), max_transaction_delay = the (map_of xs 13),
     max_inline_action_size = the (map_of xs 14), max_inline_action_depth = the (map_of xs 15),
     max_authority_depth = the (map_of xs 16)\<rparr>"

text \<open>
  C24: \<open>setparams\<close>, which only the contract's account can sign, installs on the chain what it records:
  the list it sends is as long as the count before it says, has each parameter once, in the order of the ids, and unpacks to the parameters
  of the global state; an authority depth below three is refused.
\<close>

theorem setparams_installs_what_it_records:
  assumes "setparams c p ext s = Inr s'"
  shows "has_auth c (ctx_self c) \<and> 3 \<le> max_authority_depth p \<and>
    (\<exists>n xs. host_calls s' = host_calls s @ [Set_parameters n xs] \<and> n = int (length xs) \<and> sorted_wrt (<) (map fst xs) \<and>
       unpacked xs = gs_parameters (gs s') \<and> gs_parameters (gs s') = p \<and> map_of xs 17 = ext)"
  using assms
  by (auto simp: setparams_def Let_def call_host_def packed_count_def packed_parameters_def unpacked_def split: option.split)

theorem setparams_installs_what_it_records_witness:
  "\<exists>s'. setparams (sample_ctx 7 [7]) ((gs_parameters default_gstate)\<lparr>max_authority_depth := 6\<rparr>) (Some 256) sample_sys = Inr s' \<and>
     (\<exists>xs. host_calls s' = host_calls sample_sys @ [Set_parameters (int (length xs)) xs] \<and> map_of xs 17 = Some 256)"
proof -
  obtain s' where s': "setparams (sample_ctx 7 [7]) ((gs_parameters default_gstate)\<lparr>max_authority_depth := 6\<rparr>)
      (Some 256) sample_sys = Inr s'"
    by (simp add: setparams_def require_auth_def sample_simps)
  then show ?thesis using setparams_installs_what_it_records [OF s'] by blast
qed

end
