(* ===== verification/VoteWeight.thy ===== *)
theory VoteWeight
  imports SystemState
begin

text \<open>
  What the two kinds of votes share: \<open>stake2vote\<close> (\<open>voting.cpp\<close>) and the
  \<open>std::map<name, pair<double, bool>>\<close> in which \<open>update_votes\<close> and \<open>update_wps_votes\<close> collect how much
  weight each candidate loses and gains. The lemmas give the entry of each candidate in closed form.
\<close>

section \<open>The weight of a stake\<close>

text \<open>Seconds since the epoch (\<open>sec_since_epoch\<close>, and the conversion to \<open>time_point_sec\<close>).\<close>

definition seconds_of :: "int \<Rightarrow> int" where
  "seconds_of t = u32 (t sdiv 1000000)"

definition stake2vote :: "ctx \<Rightarrow> int \<Rightarrow> f64" where
  "stake2vote c stake =
     (let weight = fdiv (of_i64 ((seconds_of (ctx_now c) - 946684800) sdiv (seconds_per_day * 7))) (Fin 13) in
      fmul (of_i64 stake) (math_pow (ctx_math c) (Fin 2) weight))"

section \<open>What candidates lose and gain\<close>

type_synonym vote_deltas = "(name, f64 \<times> bool) ordered_rows"

definition add_delta :: "(f64 \<Rightarrow> f64) \<Rightarrow> bool \<Rightarrow> name \<Rightarrow> vote_deltas \<Rightarrow> vote_deltas" where
  "add_delta f new k d =
     put_entry k (f (case entry d k of None \<Rightarrow> Fin 0 | Some (w, _) \<Rightarrow> w), new) d"

definition withdraw_votes :: "f64 \<Rightarrow> name list \<Rightarrow> vote_deltas \<Rightarrow> vote_deltas" where
  "withdraw_votes w ps d = fold (add_delta (\<lambda>x. fsub x w) False) ps d"

definition cast_votes :: "f64 \<Rightarrow> name list \<Rightarrow> vote_deltas \<Rightarrow> vote_deltas" where
  "cast_votes w ps d = fold (add_delta (\<lambda>x. fadd x w) True) ps d"

lemma entry_fold_add_delta:
  "distinct ps \<Longrightarrow> entry (fold (add_delta f new) ps d) k =
     (if k \<in> set ps then Some (f (case entry d k of None \<Rightarrow> Fin 0 | Some (w, _) \<Rightarrow> w), new) else entry d k)"
  by (induction ps arbitrary: d) (auto simp: add_delta_def entry_put_entry)

lemma entry_withdraw:
  "distinct ps \<Longrightarrow> entry (withdraw_votes w ps no_rows) k =
     (if k \<in> set ps then Some (fsub (Fin 0) w, False) else None)"
  by (simp add: withdraw_votes_def entry_fold_add_delta)

lemma entry_cast:
  "distinct ps \<Longrightarrow> entry (cast_votes w ps d) k =
     (if k \<in> set ps then Some (fadd (case entry d k of None \<Rightarrow> Fin 0 | Some (v, _) \<Rightarrow> v) w, True) else entry d k)"
  by (simp add: cast_votes_def entry_fold_add_delta)

text \<open>The collected change of one candidate, when the lists have no duplicates.\<close>

definition net_delta :: "(f64 \<times> name list) option \<Rightarrow> (f64 \<times> name list) option \<Rightarrow> name \<Rightarrow> f64 option" where
  "net_delta old new k =
     (let lost = (case old of None \<Rightarrow> None | Some (v, ps) \<Rightarrow> if k \<in> set ps then Some (fsub (Fin 0) v) else None) in
      case new of
        None \<Rightarrow> lost
      | Some (w, qs) \<Rightarrow>
          if k \<in> set qs then Some (fadd (case lost of None \<Rightarrow> Fin 0 | Some x \<Rightarrow> x) w) else lost)"

lemma entries_keys_ordered: "keys_ordered (entries d)"
  using entries [of d] by simp

lemma distinct_entries: "distinct (map fst (entries d))"
  by (rule keys_ordered_distinct [OF entries_keys_ordered])

lemma map_of_entries: "map_of (entries d) k = entry d k"
  by (simp add: entry.rep_eq)

end
