(* ===== verification/Wps.thy ===== *)
theory Wps
  imports VoteWeight
begin

text \<open>
  The worker proposal system (\<open>wps.cpp\<close>): proposers, proposals, committees and reviewers, the vote on
  proposals and the payment of approved ones in instalments. One definition per action; the lemmas
  take a successful action apart. The properties are in \<open>WpsProperties\<close>.
\<close>

section \<open>Proposers\<close>

record proposer_form =
  pf_first_name :: string
  pf_last_name :: string
  pf_img_url :: string
  pf_bio :: string
  pf_country :: string
  pf_telegram :: string
  pf_website :: string
  pf_linkedin :: string

definition check_proposer_form :: "proposer_form \<Rightarrow> 'a result \<Rightarrow> 'a result" where
  "check_proposer_form p r =
     check (length (pf_first_name p) > 0) ''first name should be more than 0 characters long'' (
     check (length (pf_last_name p) > 0) ''last name should be more than 0 characters long'' (
     check (length (pf_img_url p) > 0) ''not a valid image URL'' (
     check (length (pf_bio p) > 0) ''bio should be more than 0 characters long'' (
     check (length (pf_country p) > 0) ''country name should be more than 0 characters long'' (
     check (length (pf_first_name p) < 128) ''first name should be shorter than 128 characters.'' (
     check (length (pf_last_name p) < 128) ''last name should be shorter than 128 characters.'' (
     check (length (pf_img_url p) < 128) ''image URL should be shorter than 128 characters.'' (
     check (length (pf_bio p) < 256) ''description should be shorter than 256 characters.'' (
     check (length (pf_country p) < 64) ''country name should be shorter than 64 characters.'' (
     check (length (pf_telegram p) < 64) ''telegram username should be shorter than 64 characters.'' (
     check (length (pf_website p) < 128) ''website URL should be shorter than 128 characters.'' (
     check (length (pf_linkedin p) < 128) ''linked URL should be shorter than 128 characters.'' r))))))))))))"

definition regproposer :: "ctx \<Rightarrow> name \<Rightarrow> proposer_form \<Rightarrow> sys \<Rightarrow> sys result" where
  "regproposer c account p s =
     require_auth c account (
     check_proposer_form p (
     check (find_row (proposers s) account = None) ''This account has already been registered as a proposer'' (
     Inr (s\<lparr>proposers := put account account
       \<lparr>pr_account = account, pr_first_name = pf_first_name p, pr_last_name = pf_last_name p,
        pr_img_url = pf_img_url p, pr_bio = pf_bio p, pr_country = pf_country p,
        pr_telegram = pf_telegram p, pr_website = pf_website p, pr_linkedin = pf_linkedin p,
        pr_last_claim_time = 0\<rparr> (proposers s)\<rparr>))))"

definition editproposer :: "ctx \<Rightarrow> name \<Rightarrow> proposer_form \<Rightarrow> sys \<Rightarrow> sys result" where
  "editproposer c account p s =
     require_auth c account (
     check_proposer_form p (
     some_or (find_row (proposers s) account) (Check ''Account not found in proposer table'') (\<lambda>row.
     Inr (s\<lparr>proposers := modify_row same_payer account
       (row\<lparr>pr_account := account, pr_first_name := pf_first_name p, pr_last_name := pf_last_name p,
        pr_img_url := pf_img_url p, pr_bio := pf_bio p, pr_country := pf_country p,
        pr_telegram := pf_telegram p, pr_website := pf_website p, pr_linkedin := pf_linkedin p\<rparr>)
       (proposers s)\<rparr>))))"

definition rmvproposer :: "ctx \<Rightarrow> name \<Rightarrow> sys \<Rightarrow> sys result" where
  "rmvproposer c account s =
     require_auth c account (
     check (find_row (proposers s) account \<noteq> None) ''Account not found in proposer table'' (
     Inr (s\<lparr>proposers := erase_row account (proposers s)\<rparr>)))"

section \<open>Payment\<close>

text \<open>
  When the next instalment is due: all in \<open>uint32_t\<close> seconds. A proposal with no instalments would
  divide by zero.
\<close>

definition claim_interval :: "wps_proposal \<Rightarrow> int result" where
  "claim_interval p =
     (let funding_duration_seconds = u32 (u64 (wp_duration p * seconds_per_day)) in
      if wp_total_iterations p = 0 then Inl (Undefined ''division by zero'')
      else Inr (funding_duration_seconds div wp_total_iterations p))"

definition start_funding_round :: "wps_proposal \<Rightarrow> int \<Rightarrow> int" where
  "start_funding_round p interval = u32 (wp_fund_start_time p + u32 (wp_iteration_of_funding p * interval))"

definition pay_proposer :: "name \<Rightarrow> asset \<Rightarrow> sys \<Rightarrow> sys" where
  "pay_proposer account transfer_amount s =
     send_token [(saving_account, active_permission)]
       (Transfer saving_account account transfer_amount ''Your worker proposal has been approved.'') s"

definition claimfunds :: "ctx \<Rightarrow> name \<Rightarrow> sys \<Rightarrow> sys result" where
  "claimfunds c account s =
     require_auth c account (
     some_or (find_row (proposers s) account) (Check ''Account not found in proposer table'') (\<lambda>row.
     some_or (find_row (proposals s) account) (Check ''Proposal not found in proposal table'') (\<lambda>p.
     let current_time = seconds_of (ctx_now c) in
     check (wp_status p = APPROVED) ''Proposal::status is not PROPOSAL_STATUS::APPROVED'' (
     check (wp_iteration_of_funding p \<le> wp_total_iterations p)
       ''all funds for this proposal have already been claimed'' (
     bind_result (claim_interval p) (\<lambda>interval.
     check (current_time > start_funding_round p interval)
       ''Please wait until the end of this interval to claim funding'' (
     some_or (asset_div (ctx_lib c) (wp_funding_goal p) (wp_total_iterations p)) overflow (\<lambda>transfer_amount.
     let s1 = pay_proposer account transfer_amount s;
         past_iteration = wp_iteration_of_funding p;
         p1 = p\<lparr>wp_iteration_of_funding := u32 (wp_iteration_of_funding p + 1)\<rparr>;
         p2 = (if past_iteration \<ge> wp_total_iterations p then p1\<lparr>wp_status := COMPLETED\<rparr> else p1) in
     Inr (s1\<lparr>proposers := modify_row same_payer account (row\<lparr>pr_last_claim_time := current_time\<rparr>) (proposers s1),
             proposals := modify_row same_payer account p2 (proposals s1)\<rparr>)))))))))"

section \<open>Proposals\<close>

record proposal_form =
  pp_committee :: name
  pp_subcategory :: int
  pp_title :: string
  pp_summary :: string
  pp_project_img_url :: string
  pp_description :: string
  pp_roadmap :: string
  pp_duration :: int
  pp_members :: "string list"
  pp_funding_goal :: asset
  pp_total_iterations :: int

abbreviation no_singleton :: error where "no_singleton \<equiv> Library ''singleton does not exist''"

text \<open>The checks that \<open>regproposal\<close> and \<open>editproposal\<close> share, before and after the environment is read.\<close>

definition check_texts :: "proposal_form \<Rightarrow> 'a result \<Rightarrow> 'a result" where
  "check_texts f r =
     check (length (pp_title f) > 0) ''title should be more than 0 characters long'' (
     check (length (pp_summary f) > 0) ''summary should be more than 0 characters long'' (
     check (length (pp_project_img_url f) > 0) ''URL should be more than 0 characters long'' (
     check (length (pp_description f) > 0) ''description should be more than 0 characters long'' (
     check (length (pp_roadmap f) > 0) ''roadmap should be more than 0 characters long'' r))))"

definition check_sizes :: "cdt \<Rightarrow> wpsenv \<Rightarrow> string \<Rightarrow> proposal_form \<Rightarrow> 'a result \<Rightarrow> 'a result" where
  "check_sizes L env too_long f r =
     check (pp_subcategory f < 10) ''invalid sub-category'' (
     check (length (pp_title f) < 256) ''title should be shorter than 256 characters.'' (
     check (length (pp_summary f) < 400) ''subtitle should be shorter than 256 characters.'' (
     check (length (pp_project_img_url f) < 128) ''URL should be shorter than 128 characters.'' (
     check (length (pp_description f) < 5000) ''description should be shorter than 1024 characters.'' (
     check (length (pp_roadmap f) < 2000) ''financial_roadmap should be shorter than 256 characters.'' (
     check (pp_duration f \<le> max_duration_of_funding env) too_long (
     check (length (pp_members f) < 50) ''members should be shorter than 50 characters.'' (
     check (asset_valid L (pp_funding_goal f)) ''invalid quantity'' (
     check (amount (pp_funding_goal f) > 0) ''must request positive amount'' (
     check (pp_total_iterations f < 100) ''total iterations must be less than 100'' r))))))))))"

text \<open>
  \<open>available_primary_key\<close> of a table keyed by names: one above the greatest key in use. The code asks
  the table of the proposers for it.
\<close>

definition available_primary_key :: "(name, 'v) table \<Rightarrow> int result" where
  "available_primary_key t =
     (if rows t = [] then Inr 0
      else let k = uint (fst (last (rows t))) in
        if k < 2 ^ 64 - 3 then Inr (k + 1)
        else Inl (Library ''next primary key in table is at autoincrement limit''))"

definition regproposal :: "ctx \<Rightarrow> name \<Rightarrow> proposal_form \<Rightarrow> sys \<Rightarrow> sys result" where
  "regproposal c account f s =
     require_auth c account (
     check (ctx_is_account c (pp_committee f)) ''committee account doesn't exist'' (
     check_texts f (
     check (pp_duration f \<ge> 30) ''duration should be at least 30 days'' (
     check (length (pp_members f) > 0) ''member should be more than 0'' (
     check (pp_total_iterations f \<ge> 1) ''total number of iterations must be at least 1'' (
     some_or (wps_env s) no_singleton (\<lambda>env.
     check_sizes (ctx_lib c) env ''this proposal is over the maximum duration'' f (
     check (find_row (proposers s) account \<noteq> None) ''This account is not a registered proposer'' (
     check (find_row (proposals s) account = None) ''This account has already registered a proposal'' (
     some_or (find_row (committees s) (pp_committee f)) (Check ''Account not found in committee table'') (\<lambda>com.
     bind_result (available_primary_key (proposers s)) (\<lambda>new_id.
     Inr (s\<lparr>proposals := put account account
       \<lparr>wp_proposer = account, wp_id = new_id, wp_committee = pp_committee f, wp_category = cm_category com,
        wp_subcategory = pp_subcategory f, wp_title = pp_title f, wp_summary = pp_summary f,
        wp_project_img_url = pp_project_img_url f, wp_description = pp_description f,
        wp_roadmap = pp_roadmap f, wp_duration = pp_duration f, wp_members = pp_members f,
        wp_funding_goal = pp_funding_goal f, wp_total_votes = Fin 0, wp_status = PENDING,
        wp_vote_start_time = 0, wp_fund_start_time = 0, wp_iteration_of_funding = 1,
        wp_total_iterations = pp_total_iterations f\<rparr> (proposals s)\<rparr>)))))))))))))"

definition editproposal :: "ctx \<Rightarrow> name \<Rightarrow> proposal_form \<Rightarrow> sys \<Rightarrow> sys result" where
  "editproposal c account f s =
     require_auth c account (
     check (ctx_is_account c (pp_committee f)) ''committee account doesn't exist'' (
     check_texts f (
     check (pp_duration f > 0) ''duration should be longer than 0 days'' (
     check (length (pp_members f) > 0) ''member should be more than 0'' (
     check (pp_total_iterations f \<ge> 3) ''total number of iterations must be at least 3'' (
     some_or (wps_env s) no_singleton (\<lambda>env.
     check_sizes (ctx_lib c) env ''duration maximum exceeded'' f (
     check (find_row (proposers s) account \<noteq> None) ''This account is not a registered proposer'' (
     some_or (find_row (proposals s) account) (Check ''Account not found in proposal table'') (\<lambda>p.
     check (wp_status p = PENDING) ''Proposal::status is not PROPOSAL_STATUS::PENDING'' (
     some_or (find_row (committees s) (pp_committee f)) (Check ''Account not found in committee table'') (\<lambda>com.
     Inr (s\<lparr>proposals := modify_row same_payer account
       (p\<lparr>wp_proposer := account, wp_committee := pp_committee f, wp_category := cm_category com,
        wp_subcategory := pp_subcategory f, wp_title := pp_title f, wp_summary := pp_summary f,
        wp_project_img_url := pp_project_img_url f, wp_description := pp_description f,
        wp_roadmap := pp_roadmap f, wp_duration := pp_duration f, wp_members := pp_members f,
        wp_funding_goal := pp_funding_goal f, wp_total_iterations := pp_total_iterations f\<rparr>) (proposals s)\<rparr>)))))))))))))"

section \<open>Reviewers\<close>

definition check_reviewer_names :: "string \<Rightarrow> string \<Rightarrow> 'a result \<Rightarrow> 'a result" where
  "check_reviewer_names first_name last_name r =
     check (length first_name > 0) ''first name should be more than 0 characters long'' (
     check (length last_name > 0) ''last name should be more than 0 characters long'' (
     check (length first_name < 128) ''first name should be shorter than 128 characters.'' (
     check (length last_name < 128) ''last name should be shorter than 128 characters.'' r)))"

definition regreviewer :: "ctx \<Rightarrow> name \<Rightarrow> name \<Rightarrow> string \<Rightarrow> string \<Rightarrow> sys \<Rightarrow> sys result" where
  "regreviewer c com account first_name last_name s =
     require_auth c com (
     check (ctx_is_account c account) ''The reviewer account does not exist'' (
     check_reviewer_names first_name last_name (
     check (find_row (committees s) com \<noteq> None) ''Account not found in committee table'' (
     check (find_row (reviewers s) account = None) ''This account has already been registered as a reviewer'' (
     Inr (s\<lparr>reviewers := put account com
       \<lparr>rv_account = account, rv_committee = com, rv_first_name = first_name, rv_last_name = last_name\<rparr>
       (reviewers s)\<rparr>))))))"

definition editreviewer :: "ctx \<Rightarrow> name \<Rightarrow> name \<Rightarrow> string \<Rightarrow> string \<Rightarrow> sys \<Rightarrow> sys result" where
  "editreviewer c com account first_name last_name s =
     require_auth c com (
     check (ctx_is_account c account) ''The reviewer account does not exist'' (
     check_reviewer_names first_name last_name (
     check (find_row (committees s) com \<noteq> None) ''Account not found in committee table'' (
     some_or (find_row (reviewers s) account) (Check ''Account not found in reviewers table'') (\<lambda>row.
     check (rv_committee row = com) ''The given reviewer is not part of this committee'' (
     Inr (s\<lparr>reviewers := modify_row same_payer account
       (row\<lparr>rv_account := account, rv_first_name := first_name, rv_last_name := last_name,
            rv_committee := com\<rparr>) (reviewers s)\<rparr>)))))))"

definition rmvreviewer :: "ctx \<Rightarrow> name \<Rightarrow> name \<Rightarrow> sys \<Rightarrow> sys result" where
  "rmvreviewer c com account s =
     require_auth c com (
     check (ctx_is_account c account) ''The account does not exist'' (
     check (find_row (committees s) com \<noteq> None) ''Account not found in committee table'' (
     some_or (find_row (reviewers s) account) (Check ''Account not found in reviewers table'') (\<lambda>row.
     check (rv_committee row = com) ''The given reviewer is not part of this committee'' (
     Inr (s\<lparr>reviewers := erase_row account (reviewers s)\<rparr>))))))"

text \<open>What a reviewer's decision starts with: the reviewer's signature and row, the proposal's row.\<close>

definition with_reviewer :: "ctx \<Rightarrow> name \<Rightarrow> sys \<Rightarrow> (reviewer \<Rightarrow> 'a result) \<Rightarrow> 'a result" where
  "with_reviewer c account s k =
     some_or (find_row (reviewers s) account) (Check ''Account not found in reviewers table'') k"

abbreviation same_committee_msg :: string where
  "same_committee_msg \<equiv> ''Reviewer is not part of this proposal's responsible committee''"

definition acceptprop :: "ctx \<Rightarrow> name \<Rightarrow> name \<Rightarrow> sys \<Rightarrow> sys result" where
  "acceptprop c account owner s =
     require_auth c account (
     check (ctx_is_account c owner) ''Proposal creator does not exist'' (
     with_reviewer c account s (\<lambda>r.
     some_or (find_row (proposals s) owner) (Check ''Proposal not found in proposal table'') (\<lambda>p.
     check (wp_status p = PENDING) ''Proposal::status is not proposal_status::PENDING'' (
     check (wp_committee p = rv_committee r) same_committee_msg (
     Inr (s\<lparr>proposals := modify_row same_payer owner
       (p\<lparr>wp_vote_start_time := seconds_of (ctx_now c), wp_status := ON_VOTE\<rparr>) (proposals s)\<rparr>)))))))"

definition rejectprop :: "ctx \<Rightarrow> name \<Rightarrow> name \<Rightarrow> string \<Rightarrow> sys \<Rightarrow> sys result" where
  "rejectprop c account owner reason s =
     require_auth c account (
     check (ctx_is_account c owner) ''Proposal creator does not exist'' (
     check (length reason > 0) ''must provide a brief reason'' (
     check (length reason < 256) ''reason is too long'' (
     with_reviewer c account s (\<lambda>r.
     some_or (find_row (proposals s) owner) (Check ''Proposal not found in proposal table'') (\<lambda>p.
     check (wp_committee p = rv_committee r) same_committee_msg (
     check (wp_status p = PENDING \<or> wp_status p = ON_VOTE \<or> wp_status p = FINISHED_VOTING)
       ''invalid proposal status'' (
     Inr (s\<lparr>proposals := modify_row (Some (wp_proposer p)) owner (p\<lparr>wp_status := REJECTED\<rparr>) (proposals s)\<rparr>)))))))))"

definition approve :: "ctx \<Rightarrow> name \<Rightarrow> name \<Rightarrow> sys \<Rightarrow> sys result" where
  "approve c account owner s =
     require_auth c account (
     check (ctx_is_account c owner) ''Proposal creator does not exist'' (
     with_reviewer c account s (\<lambda>r.
     some_or (find_row (proposals s) owner) (Check ''Proposal not found in proposal table'') (\<lambda>p.
     check (wp_committee p = rv_committee r) same_committee_msg (
     check (wp_status p = FINISHED_VOTING) ''Proposal::status is not PROPOSAL_STATUS::FINISHED_VOTING'' (
     Inr (s\<lparr>proposals := modify_row same_payer owner
       (p\<lparr>wp_fund_start_time := seconds_of (ctx_now c), wp_status := APPROVED\<rparr>) (proposals s)\<rparr>)))))))"

definition rmvreject :: "ctx \<Rightarrow> name \<Rightarrow> name \<Rightarrow> sys \<Rightarrow> sys result" where
  "rmvreject c account owner s =
     require_auth c account (
     check (ctx_is_account c owner) ''Proposal creator does not exist'' (
     with_reviewer c account s (\<lambda>r.
     some_or (find_row (proposals s) owner) (Check ''Proposal not found in rejected proposal table'') (\<lambda>p.
     check (wp_status p = REJECTED) ''Proposal::status is not PROPOSAL_STATUS::REJECTED'' (
     check (wp_committee p = rv_committee r) same_committee_msg (
     Inr (s\<lparr>proposals := erase_row owner (proposals s)\<rparr>)))))))"

definition rmvcompleted :: "ctx \<Rightarrow> name \<Rightarrow> name \<Rightarrow> sys \<Rightarrow> sys result" where
  "rmvcompleted c account owner s =
     require_auth c account (
     check (ctx_is_account c owner) ''Proposal creator does not exist'' (
     with_reviewer c account s (\<lambda>r.
     some_or (find_row (proposals s) owner) (Check ''Proposal not found in completed proposals table'') (\<lambda>p.
     check (wp_status p = COMPLETED) ''Proposal::status is not PROPOSAL_STATUS::COMPLETED'' (
     check (wp_committee p = rv_committee r) same_committee_msg (
     Inr (s\<lparr>proposals := erase_row owner (proposals s)\<rparr>)))))))"

section \<open>Removing votes\<close>

text \<open>
  \<open>cleanvotes\<close> walks over the voters at the positions \<open>begin\<close> to \<open>end\<close>: \<open>std::next\<close> takes a 32-bit
  difference and aborts outside the table; a walk that starts behind its end runs past the table.
  \<open>clean_walk\<close> is the loop over the rows from the first position on, with the positions left to the
  end as its bound.
\<close>

definition i32 :: "int \<Rightarrow> int" where
  "i32 x = (x + 2 ^ 31) mod 2 ^ 32 - 2 ^ 31"

fun clean_walk :: "name \<Rightarrow> nat \<Rightarrow> (name \<times> wps_voter) list \<Rightarrow> (name, wps_voter) table \<Rightarrow> (name, wps_voter) table" where
  "clean_walk owner 0 rs t = t"
| "clean_walk owner (Suc n) [] t = t"
| "clean_walk owner (Suc n) ((k, v) # rs) t =
     clean_walk owner n rs
       (if owner \<in> set (wv_proposals v)
        then modify_row same_payer k (v\<lparr>wv_proposals := remove1 owner (wv_proposals v)\<rparr>) t else t)"

definition cleanvotes :: "ctx \<Rightarrow> name \<Rightarrow> name \<Rightarrow> int \<Rightarrow> int \<Rightarrow> sys \<Rightarrow> sys result" where
  "cleanvotes c account owner from_pos to_pos s =
     require_auth c account (
     check (ctx_is_account c owner) ''Proposal creator does not exist'' (
     with_reviewer c account s (\<lambda>r.
     check (to_pos > from_pos) ''Invalid range'' (
     let n = int (length (rows (wpsvoters s))); b = i32 from_pos; e = i32 to_pos in
     if b < 0 then Inl (Library ''cannot decrement iterator at beginning of table'')
     else if n < b then Inl (Library ''cannot increment end iterator'')
     else if e < 0 then Inl (Library ''cannot decrement iterator at beginning of table'')
     else if n < e then Inl (Library ''cannot increment end iterator'')
     else if e < b then Inl (Undefined ''end iterator'')
     else Inr (s\<lparr>wpsvoters := clean_walk owner (nat (e - b)) (drop (nat b) (rows (wpsvoters s)))
                   (wpsvoters s)\<rparr>)))))"

section \<open>The environment and the committees\<close>

definition setwpsenv :: "ctx \<Rightarrow> int \<Rightarrow> int \<Rightarrow> int \<Rightarrow> int \<Rightarrow> sys \<Rightarrow> sys result" where
  "setwpsenv c voting_percent voting_days funding_days iterations s =
     require_auth c (ctx_self c) (
     check (voting_percent > 0) ''total_voting_percent should be more 0'' (
     check (voting_days > 0) ''duration_of_voting should be more than 0'' (
     check (funding_days > 0) ''max_duration_of_funding should be more than 0'' (
     check (iterations > 0) ''total_iteration_of_funding should be more than 0'' (
     Inr (s\<lparr>wps_env := Some \<lparr>total_voting_percent = voting_percent, duration_of_voting = voting_days,
        max_duration_of_funding = funding_days, total_iteration_of_funding = iterations\<rparr>\<rparr>))))))"

definition setwpsstate :: "ctx \<Rightarrow> f64 \<Rightarrow> sys \<Rightarrow> sys result" where
  "setwpsstate c total_stake s =
     require_auth c (ctx_self c) (
     check (flt (Fin 0) total_stake) ''total_stake should be more 0'' (
     Inr (s\<lparr>wps_total_stake := total_stake\<rparr>)))"

definition regcommittee :: "ctx \<Rightarrow> name \<Rightarrow> string \<Rightarrow> bool \<Rightarrow> sys \<Rightarrow> sys result" where
  "regcommittee c account category oversight s =
     require_auth c (ctx_self c) (
     check (ctx_is_account c account) ''committeeman account doesn't exist'' (
     check (length category > 0) ''category should be more than 0 characters long'' (
     check (length category < 64) ''category should be less than 64 characters long'' (
     check (find_row (committees s) account = None) ''This account has already been registered as a committee'' (
     Inr (s\<lparr>committees := put account (ctx_self c)
       \<lparr>cm_committeeman = account, cm_category = category, is_oversight = oversight\<rparr> (committees s)\<rparr>))))))"

definition edcommittee :: "ctx \<Rightarrow> name \<Rightarrow> string \<Rightarrow> bool \<Rightarrow> sys \<Rightarrow> sys result" where
  "edcommittee c account category oversight s =
     require_auth c (ctx_self c) (
     check (ctx_is_account c account) ''committee account doesn't exist'' (
     check (length category > 0) ''category should be more than 0 characters long'' (
     check (length category < 64) ''category should be less than 64 characters long'' (
     some_or (find_row (committees s) account) (Check ''Account not found in committee table'') (\<lambda>row.
     Inr (s\<lparr>committees := modify_row same_payer account
       (row\<lparr>cm_committeeman := account, cm_category := category, is_oversight := oversight\<rparr>) (committees s)\<rparr>))))))"

definition rmvcommittee :: "ctx \<Rightarrow> name \<Rightarrow> sys \<Rightarrow> sys result" where
  "rmvcommittee c account s =
     require_auth c (ctx_self c) (
     check (ctx_is_account c account) ''committeeman account doesn't exist'' (
     check (find_row (committees s) account \<noteq> None) ''Account not found in committee table'' (
     Inr (s\<lparr>committees := erase_row account (committees s)\<rparr>))))"

definition rejectfund :: "ctx \<Rightarrow> name \<Rightarrow> name \<Rightarrow> string \<Rightarrow> sys \<Rightarrow> sys result" where
  "rejectfund c account owner reason s =
     require_auth c account (
     check (ctx_is_account c owner) ''Proposal creator does not exist'' (
     check (length reason > 0) ''must provide a brief reason'' (
     check (length reason < 256) ''reason is too long'' (
     some_or (find_row (committees s) account) (Check ''Account not found in committee table'') (\<lambda>com.
     some_or (find_row (proposals s) owner) (Check ''Proposal not found in proposal table'') (\<lambda>p.
     check (wp_committee p = cm_committeeman com \<or> is_oversight com)
       ''Committee is not associated with this proposal'' (
     check (wp_status p = APPROVED) ''Proposal::status is not PROPOSAL_STATUS::APPROVED'' (
     Inr (s\<lparr>proposals := modify_row same_payer owner (p\<lparr>wp_status := REJECTED\<rparr>) (proposals s)\<rparr>)))))))))"

section \<open>Votes\<close>

text \<open>One round of the loop over the collected changes.\<close>

definition vote_on_proposal :: "ctx \<Rightarrow> name \<times> f64 \<times> bool \<Rightarrow> sys \<Rightarrow> sys result" where
  "vote_on_proposal c pd s =
     (case pd of (k, delta, _) \<Rightarrow>
      case find_row (proposals s) k of
        None \<Rightarrow> Inr s
      | Some p \<Rightarrow>
          if wp_status p = ON_VOTE then
            let current_time = seconds_of (ctx_now c) in
            some_or (wps_env s) no_singleton (\<lambda>env.
            let voting_seconds = u32 (duration_of_voting env * seconds_per_day) in
            if u32 (current_time - wp_vote_start_time p) \<ge> voting_seconds then
              Inr (s\<lparr>proposals := modify_row same_payer k (p\<lparr>wp_status := REJECTED\<rparr>) (proposals s)\<rparr>)
            else
              let v = fadd (wp_total_votes p) delta;
                  p1 = p\<lparr>wp_total_votes := (if flt v (Fin 0) then Fin 0 else v)\<rparr> in
              bind_result (to_i64 (wps_total_stake s)) (\<lambda>total_stake.
              let total_activated_vote = stake2vote c total_stake;
                  p2 = (if flt (fdiv (fmul total_activated_vote (of_i64 (total_voting_percent env))) (Fin 100))
                             (wp_total_votes p1)
                        then p1\<lparr>wp_status := FINISHED_VOTING\<rparr> else p1) in
              Inr (s\<lparr>proposals := modify_row same_payer k p2 (proposals s)\<rparr>)))
          else Inr s)"

definition proposal_deltas :: "wps_voter option \<Rightarrow> f64 \<Rightarrow> name list \<Rightarrow> vote_deltas" where
  "proposal_deltas old new_vote_weight ps =
     (let d = (case old of None \<Rightarrow> no_rows
               | Some wv \<Rightarrow>
                   if flt (Fin 0) (wv_last_vote_weight wv)
                   then withdraw_votes (wv_last_vote_weight wv) (wv_proposals wv) no_rows else no_rows) in
      if fle (Fin 0) new_vote_weight then cast_votes new_vote_weight ps d else d)"

definition update_wps_votes :: "ctx \<Rightarrow> name \<Rightarrow> name list \<Rightarrow> sys \<Rightarrow> sys result" where
  "update_wps_votes c voter_name ps s =
     check (flt (Fin 0) (wps_total_stake s)) ''system-wide stake must be greater than 0'' (
     check (length ps \<le> 30) ''attempt to vote for too many proposals'' (
     check (distinct ps) ''proposal votes must be unique'' (
     some_or (find_row (voters s) voter_name) (Check ''user must stake before they can vote'') (\<lambda>voter.
     check (total_activated_stake (gs s) \<ge> min_activated_stake)
       ''cannot update wps votes until the chain is activated (at least 15% of all tokens participate in voting)'' (
     let new_vote_weight = stake2vote c (staked voter);
         old = find_row (wpsvoters s) voter_name in
     check (\<not> is_proxy voter) ''Proxies can't vote for worker proposals'' (
     bind_result (fold_result (vote_on_proposal c) (entries (proposal_deltas old new_vote_weight ps)) s) (\<lambda>s1.
     Inr (case old of
        None \<Rightarrow> s1\<lparr>wpsvoters := put voter_name voter_name
          \<lparr>wv_owner = voter_name, wv_proposals = ps, wv_last_vote_weight = new_vote_weight\<rparr> (wpsvoters s1)\<rparr>
      | Some wv \<Rightarrow> s1\<lparr>wpsvoters := modify_row same_payer voter_name
          (wv\<lparr>wv_proposals := ps, wv_last_vote_weight := new_vote_weight\<rparr>) (wpsvoters s1)\<rparr>))))))))"

definition voteproposal :: "ctx \<Rightarrow> name \<Rightarrow> name list \<Rightarrow> sys \<Rightarrow> sys result" where
  "voteproposal c voter_name ps s = require_auth c voter_name (update_wps_votes c voter_name ps s)"

section \<open>The actions together\<close>

datatype wps_action =
    Regproposer name proposer_form
  | Editproposer name proposer_form
  | Rmvproposer name
  | Claimfunds name
  | Regproposal name proposal_form
  | Editproposal name proposal_form
  | Regreviewer name name string string
  | Editreviewer name name string string
  | Rmvreviewer name name
  | Acceptprop name name
  | Rejectprop name name string
  | Approve name name
  | Rmvreject name name
  | Rmvcompleted name name
  | Cleanvotes name name int int
  | Setwpsenv int int int int
  | Setwpsstate f64
  | Regcommittee name string bool
  | Edcommittee name string bool
  | Rmvcommittee name
  | Rejectfund name name string
  | Voteproposal name "name list"

fun wps_step :: "ctx \<times> wps_action \<Rightarrow> sys \<Rightarrow> sys result" where
  "wps_step (c, Regproposer a f) s = regproposer c a f s"
| "wps_step (c, Editproposer a f) s = editproposer c a f s"
| "wps_step (c, Rmvproposer a) s = rmvproposer c a s"
| "wps_step (c, Claimfunds a) s = claimfunds c a s"
| "wps_step (c, Regproposal a f) s = regproposal c a f s"
| "wps_step (c, Editproposal a f) s = editproposal c a f s"
| "wps_step (c, Regreviewer m a f l) s = regreviewer c m a f l s"
| "wps_step (c, Editreviewer m a f l) s = editreviewer c m a f l s"
| "wps_step (c, Rmvreviewer m a) s = rmvreviewer c m a s"
| "wps_step (c, Acceptprop r a) s = acceptprop c r a s"
| "wps_step (c, Rejectprop r a t) s = rejectprop c r a t s"
| "wps_step (c, Approve r a) s = approve c r a s"
| "wps_step (c, Rmvreject r a) s = rmvreject c r a s"
| "wps_step (c, Rmvcompleted r a) s = rmvcompleted c r a s"
| "wps_step (c, Cleanvotes r a b e) s = cleanvotes c r a b e s"
| "wps_step (c, Setwpsenv v d f i) s = setwpsenv c v d f i s"
| "wps_step (c, Setwpsstate t) s = setwpsstate c t s"
| "wps_step (c, Regcommittee m g b) s = regcommittee c m g b s"
| "wps_step (c, Edcommittee m g b) s = edcommittee c m g b s"
| "wps_step (c, Rmvcommittee m) s = rmvcommittee c m s"
| "wps_step (c, Rejectfund m a t) s = rejectfund c m a t s"
| "wps_step (c, Voteproposal w ps) s = voteproposal c w ps s"

end
