(* ===== verification/WpsLemmas.thy ===== *)
theory WpsLemmas
  imports Wps
begin

text \<open>
  Lemmas on the worker proposal system: the loop over the collected votes equals its row-by-row
  specification, every action refines the life cycle of a proposal, and an approved proposal is paid
  in its instalments, never more than its goal.
\<close>

section \<open>The loop over the votes\<close>

definition env_of :: "sys \<Rightarrow> wpsenv" where
  "env_of s = (case wps_env s of Some e \<Rightarrow> e | None \<Rightarrow> \<lparr>total_voting_percent = 0, duration_of_voting = 0,
     max_duration_of_funding = 0, total_iteration_of_funding = 0\<rparr>)"

definition stake_of :: "sys \<Rightarrow> int" where
  "stake_of s = (case to_i64 (wps_total_stake s) of Inr x \<Rightarrow> x | Inl _ \<Rightarrow> 0)"

definition vote_threshold :: "ctx \<Rightarrow> sys \<Rightarrow> f64" where
  "vote_threshold c s = fdiv (fmul (stake2vote c (stake_of s)) (of_i64 (total_voting_percent (env_of s)))) (Fin 100)"

definition voting_over :: "ctx \<Rightarrow> sys \<Rightarrow> wps_proposal \<Rightarrow> bool" where
  "voting_over c s p \<longleftrightarrow>
     u32 (duration_of_voting (env_of s) * seconds_per_day) \<le> u32 (seconds_of (ctx_now c) - wp_vote_start_time p)"

text \<open>What a change of \<open>delta\<close> makes of a proposal.\<close>

definition voted :: "ctx \<Rightarrow> sys \<Rightarrow> f64 \<Rightarrow> wps_proposal \<Rightarrow> wps_proposal" where
  "voted c s delta p =
     (if wp_status p \<noteq> ON_VOTE then p
      else if voting_over c s p then p\<lparr>wp_status := REJECTED\<rparr>
      else let v = fadd (wp_total_votes p) delta; w = (if flt v (Fin 0) then Fin 0 else v) in
        if flt (vote_threshold c s) w then p\<lparr>wp_total_votes := w, wp_status := FINISHED_VOTING\<rparr>
        else p\<lparr>wp_total_votes := w\<rparr>)"

lemma voted_frame:
  "voted c (s\<lparr>proposals := t\<rparr>) = voted c s"
  by (simp add: fun_eq_iff voted_def voting_over_def vote_threshold_def env_of_def stake_of_def)

lemma vote_on_proposal_Inr:
  assumes "vote_on_proposal c (k, d, b) s = Inr s'"
  shows "s' = s\<lparr>proposals := proposals s'\<rparr>"
    "find_row (proposals s') k = map_option (voted c s d) (find_row (proposals s) k)"
    "j \<noteq> k \<Longrightarrow> find_row (proposals s') j = find_row (proposals s) j"
proof -
  have "s' = s\<lparr>proposals := proposals s'\<rparr> \<and>
    find_row (proposals s') k = map_option (voted c s d) (find_row (proposals s) k) \<and>
    (j \<noteq> k \<longrightarrow> find_row (proposals s') j = find_row (proposals s) j)"
  proof (cases "find_row (proposals s) k")
    case None
    then show ?thesis using assms by (simp add: vote_on_proposal_def)
  next
    case (Some p)
    show ?thesis
    proof (cases "wp_status p = ON_VOTE")
      case False
      then show ?thesis using assms Some by (simp add: vote_on_proposal_def voted_def)
    next
      case True
      then obtain env where env: "wps_env s = Some env" using assms Some by (auto simp: vote_on_proposal_def)
      then have over: "voting_over c s p \<longleftrightarrow>
          u32 (duration_of_voting env * seconds_per_day) \<le> u32 (seconds_of (ctx_now c) - wp_vote_start_time p)"
        by (simp add: voting_over_def env_of_def)
      show ?thesis
      proof (cases "voting_over c s p")
        case over': True
        then show ?thesis using assms Some True env over by (auto simp: vote_on_proposal_def voted_def)
      next
        case running: False
        then obtain n where n: "to_i64 (wps_total_stake s) = Inr n"
          using assms Some True env over by (auto simp: vote_on_proposal_def Let_def)
        then have "fdiv (fmul (stake2vote c n) (of_i64 (total_voting_percent env))) (Fin 100) = vote_threshold c s"
          by (simp add: vote_threshold_def stake_of_def env_of_def env)
        then show ?thesis
          using assms Some True env over running n
          by (auto simp: vote_on_proposal_def voted_def Let_def)
      qed
    qed
  qed
  then show "s' = s\<lparr>proposals := proposals s'\<rparr>"
    "find_row (proposals s') k = map_option (voted c s d) (find_row (proposals s) k)"
    "j \<noteq> k \<Longrightarrow> find_row (proposals s') j = find_row (proposals s) j"
    by blast+
qed

lemma vote_loop_Inr:
  assumes "fold_result (vote_on_proposal c) (entries ds) s = Inr s1"
  shows "s1 = s\<lparr>proposals := proposals s1\<rparr>"
    "find_row (proposals s1) k = (case entry ds k of None \<Rightarrow> find_row (proposals s) k
       | Some (d, b) \<Rightarrow> map_option (voted c s d) (find_row (proposals s) k))"
proof -
  have "s1 = s\<lparr>proposals := proposals s1\<rparr> \<and> (\<forall>j. case map_of (entries ds) j of
      None \<Rightarrow> find_row (proposals s1) j = find_row (proposals s) j
    | Some e \<Rightarrow> find_row (proposals s1) j = map_option (voted c s (fst e)) (find_row (proposals s) j))"
  proof (rule fold_result_pointwise [OF assms distinct_entries, where look = "\<lambda>t k. find_row (proposals t) k"])
    fix j e t t'
    assume inv: "t = s\<lparr>proposals := proposals t\<rparr>" and run: "vote_on_proposal c (j, e) t = Inr t'"
    obtain d b where e: "e = (d, b)" by (cases e)
    note v = vote_on_proposal_Inr [OF run [unfolded e]]
    have "voted c t = voted c s" by (subst inv) (rule voted_frame)
    moreover have "t' = s\<lparr>proposals := proposals t'\<rparr>" by (subst v(1), subst inv) simp
    ultimately show "t' = s\<lparr>proposals := proposals t'\<rparr> \<and>
        find_row (proposals t') j = map_option (voted c s (fst e)) (find_row (proposals t) j) \<and>
        (\<forall>i. i \<noteq> j \<longrightarrow> find_row (proposals t') i = find_row (proposals t) i)"
      using v(2,3) by (simp add: e)
  qed simp
  then show "s1 = s\<lparr>proposals := proposals s1\<rparr>"
    "find_row (proposals s1) k = (case entry ds k of None \<Rightarrow> find_row (proposals s) k
       | Some (d, b) \<Rightarrow> map_option (voted c s d) (find_row (proposals s) k))"
    by (auto simp: map_of_entries split: option.splits prod.splits dest: spec [of _ k])
qed

definition weights_before :: "sys \<Rightarrow> name \<Rightarrow> (f64 \<times> name list) option" where
  "weights_before s w = (case find_row (wpsvoters s) w of None \<Rightarrow> None
     | Some wv \<Rightarrow> if flt (Fin 0) (wv_last_vote_weight wv) then Some (wv_last_vote_weight wv, wv_proposals wv) else None)"

definition wps_voters_ok :: "sys \<Rightarrow> bool" where
  "wps_voters_ok s \<longleftrightarrow> all_rows (\<lambda>_ wv. distinct (wv_proposals wv)) (wpsvoters s)"

lemma entry_proposal_deltas:
  assumes "distinct ps" and "wps_voters_ok s"
  shows "map_option fst (entry (proposal_deltas (find_row (wpsvoters s) w) x ps) k) =
    net_delta (weights_before s w) (if fle (Fin 0) x then Some (x, ps) else None) k"
proof -
  have "distinct (wv_proposals wv)" if "find_row (wpsvoters s) w = Some wv" for wv
    using assms(2) that by (auto simp: wps_voters_ok_def dest: all_rowsD)
  then show ?thesis
    using assms(1)
    by (auto simp: proposal_deltas_def net_delta_def weights_before_def entry_cast entry_withdraw Let_def
        split: option.split)
qed

definition wps_record :: "name list \<Rightarrow> f64 \<Rightarrow> name \<Rightarrow> wps_voter option \<Rightarrow> wps_voter" where
  "wps_record ps x w old = (case old of None \<Rightarrow> \<lparr>wv_owner = w, wv_proposals = ps, wv_last_vote_weight = x\<rparr>
     | Some wv \<Rightarrow> wv\<lparr>wv_proposals := ps, wv_last_vote_weight := x\<rparr>)"

lemma update_wps_votes_Inr:
  assumes "update_wps_votes c w ps s = Inr s'"
  obtains voter where "find_row (voters s) w = Some voter" "\<not> is_proxy voter" "distinct ps" "length ps \<le> 30"
    "min_activated_stake \<le> total_activated_stake (gs s)" "flt (Fin 0) (wps_total_stake s)"
    "s' = s\<lparr>proposals := proposals s', wpsvoters := wpsvoters s'\<rparr>"
    "\<And>k. find_row (wpsvoters s') k = (if k = w
       then Some (wps_record ps (stake2vote c (staked voter)) w (find_row (wpsvoters s) w)) else find_row (wpsvoters s) k)"
    "\<And>k. find_row (proposals s') k =
       (case entry (proposal_deltas (find_row (wpsvoters s) w) (stake2vote c (staked voter)) ps) k of
          None \<Rightarrow> find_row (proposals s) k
        | Some (d, b) \<Rightarrow> map_option (voted c s d) (find_row (proposals s) k))"
proof -
  obtain voter s1 where v: "find_row (voters s) w = Some voter" "\<not> is_proxy voter" "distinct ps" "length ps \<le> 30"
    "min_activated_stake \<le> total_activated_stake (gs s)" "flt (Fin 0) (wps_total_stake s)"
    and loop: "fold_result (vote_on_proposal c)
       (entries (proposal_deltas (find_row (wpsvoters s) w) (stake2vote c (staked voter)) ps)) s = Inr s1"
    and s': "s' = (case find_row (wpsvoters s) w of
        None \<Rightarrow> s1\<lparr>wpsvoters := put w w \<lparr>wv_owner = w, wv_proposals = ps,
          wv_last_vote_weight = stake2vote c (staked voter)\<rparr> (wpsvoters s1)\<rparr>
      | Some wv \<Rightarrow> s1\<lparr>wpsvoters := modify_row same_payer w
          (wv\<lparr>wv_proposals := ps, wv_last_vote_weight := stake2vote c (staked voter)\<rparr>) (wpsvoters s1)\<rparr>)"
    using assms by (auto simp: update_wps_votes_def Let_def)
  note l = vote_loop_Inr [OF loop]
  have same: "wpsvoters s1 = wpsvoters s" by (subst l(1)) simp
  have "proposals s' = proposals s1" by (simp add: s' split: option.split)
  then have rows: "find_row (proposals s') k =
       (case entry (proposal_deltas (find_row (wpsvoters s) w) (stake2vote c (staked voter)) ps) k of
          None \<Rightarrow> find_row (proposals s) k
        | Some (d, b) \<Rightarrow> map_option (voted c s d) (find_row (proposals s) k))" for k
    using l(2) by simp
  have "s' = s1\<lparr>wpsvoters := wpsvoters s'\<rparr>" by (simp add: s' split: option.split)
  then have frame: "s' = s\<lparr>proposals := proposals s', wpsvoters := wpsvoters s'\<rparr>"
    using l(1) \<open>proposals s' = proposals s1\<close> by (metis sys.surjective sys.update_convs(11) sys.update_convs(7))
  have "find_row (wpsvoters s') k = (if k = w
       then Some (wps_record ps (stake2vote c (staked voter)) w (find_row (wpsvoters s) w)) else find_row (wpsvoters s) k)" for k
    by (simp add: s' same wps_record_def split: option.split)
  then show thesis using that v rows frame by blast
qed

section \<open>The life of a proposal\<close>

definition status_of :: "sys \<Rightarrow> name \<Rightarrow> int option" where
  "status_of s owner = map_option wp_status (find_row (proposals s) owner)"

text \<open>A reviewer of the proposal's committee signed.\<close>

definition reviewed_by :: "ctx \<Rightarrow> name \<Rightarrow> sys \<Rightarrow> name \<Rightarrow> bool" where
  "reviewed_by c account s owner \<longleftrightarrow> has_auth c account \<and>
     (\<exists>r p. find_row (reviewers s) account = Some r \<and> find_row (proposals s) owner = Some p \<and>
        wp_committee p = rv_committee r)"

text \<open>The abstract life cycle: which action may move a proposal from which status to which.\<close>

inductive moves :: "ctx \<times> wps_action \<Rightarrow> sys \<Rightarrow> name \<Rightarrow> int option \<Rightarrow> int option \<Rightarrow> bool" where
  submit: "has_auth c owner \<Longrightarrow> moves (c, Regproposal owner f) s owner None (Some PENDING)"
| accept: "reviewed_by c r s owner \<Longrightarrow> moves (c, Acceptprop r owner) s owner (Some PENDING) (Some ON_VOTE)"
| reject: "reviewed_by c r s owner \<Longrightarrow> st \<in> {PENDING, ON_VOTE, FINISHED_VOTING} \<Longrightarrow>
    moves (c, Rejectprop r owner t) s owner (Some st) (Some REJECTED)"
| expire: "has_auth c w \<Longrightarrow> find_row (proposals s) owner = Some p \<Longrightarrow> voting_over c s p \<Longrightarrow>
    moves (c, Voteproposal w ps) s owner (Some ON_VOTE) (Some REJECTED)"
| pass: "has_auth c w \<Longrightarrow> find_row (proposals s) owner = Some p \<Longrightarrow> \<not> voting_over c s p \<Longrightarrow>
    flt (vote_threshold c s) v \<Longrightarrow>
    moves (c, Voteproposal w ps) s owner (Some ON_VOTE) (Some FINISHED_VOTING)"
| approved: "reviewed_by c r s owner \<Longrightarrow> moves (c, Approve r owner) s owner (Some FINISHED_VOTING) (Some APPROVED)"
| paid: "has_auth c owner \<Longrightarrow> find_row (proposals s) owner = Some p \<Longrightarrow>
    wp_iteration_of_funding p = wp_total_iterations p \<Longrightarrow>
    moves (c, Claimfunds owner) s owner (Some APPROVED) (Some COMPLETED)"
| defund: "has_auth c m \<Longrightarrow> find_row (committees s) m = Some com \<Longrightarrow> find_row (proposals s) owner = Some p \<Longrightarrow>
    wp_committee p = cm_committeeman com \<or> is_oversight com \<Longrightarrow>
    moves (c, Rejectfund m owner t) s owner (Some APPROVED) (Some REJECTED)"
| drop_rejected: "reviewed_by c r s owner \<Longrightarrow> moves (c, Rmvreject r owner) s owner (Some REJECTED) None"
| drop_completed: "reviewed_by c r s owner \<Longrightarrow> moves (c, Rmvcompleted r owner) s owner (Some COMPLETED) None"

lemma check_form_Inr:
  "check_proposer_form f r = Inr x \<Longrightarrow> r = Inr x"
  "check_texts g r' = Inr y \<Longrightarrow> r' = Inr y"
  "check_sizes L env m g r' = Inr y \<Longrightarrow> r' = Inr y"
  "check_reviewer_names n l r = Inr x \<Longrightarrow> r = Inr x"
  by (simp_all add: check_proposer_form_def check_texts_def check_sizes_def check_reviewer_names_def)

lemma distinct_statuses [simp]:
  "PENDING \<noteq> ON_VOTE" "PENDING \<noteq> REJECTED" "PENDING \<noteq> FINISHED_VOTING" "PENDING \<noteq> APPROVED" "PENDING \<noteq> COMPLETED"
  "ON_VOTE \<noteq> PENDING" "ON_VOTE \<noteq> REJECTED" "ON_VOTE \<noteq> FINISHED_VOTING" "ON_VOTE \<noteq> APPROVED" "ON_VOTE \<noteq> COMPLETED"
  "REJECTED \<noteq> PENDING" "REJECTED \<noteq> ON_VOTE" "REJECTED \<noteq> FINISHED_VOTING" "REJECTED \<noteq> APPROVED" "REJECTED \<noteq> COMPLETED"
  "FINISHED_VOTING \<noteq> PENDING" "FINISHED_VOTING \<noteq> ON_VOTE" "FINISHED_VOTING \<noteq> REJECTED"
  "FINISHED_VOTING \<noteq> APPROVED" "FINISHED_VOTING \<noteq> COMPLETED"
  "APPROVED \<noteq> PENDING" "APPROVED \<noteq> ON_VOTE" "APPROVED \<noteq> REJECTED" "APPROVED \<noteq> FINISHED_VOTING" "APPROVED \<noteq> COMPLETED"
  "COMPLETED \<noteq> PENDING" "COMPLETED \<noteq> ON_VOTE" "COMPLETED \<noteq> REJECTED" "COMPLETED \<noteq> FINISHED_VOTING" "COMPLETED \<noteq> APPROVED"
  by (simp_all add: status_defs)

text \<open>Every action that does not touch a proposal's status, and each that does.\<close>

definition lives :: "ctx \<times> wps_action \<Rightarrow> sys \<Rightarrow> name \<Rightarrow> sys \<Rightarrow> bool" where
  "lives a s owner s' \<longleftrightarrow> status_of s' owner = status_of s owner
     \<or> moves a s owner (status_of s owner) (status_of s' owner)"

lemma lives_same: "proposals s' = proposals s \<Longrightarrow> lives a s owner s'"
  by (simp add: lives_def status_of_def)

lemma lives_row:
  assumes "\<And>j. j \<noteq> k \<Longrightarrow> find_row (proposals s') j = find_row (proposals s) j" and "lives a s k s'"
  shows "lives a s owner s'"
  using assms by (cases "owner = k") (auto simp: lives_def status_of_def)

lemma lives_decisions:
  "acceptprop c r k s = Inr s' \<Longrightarrow> lives (c, Acceptprop r k) s owner s'"
  "rejectprop c r k t s = Inr s' \<Longrightarrow> lives (c, Rejectprop r k t) s owner s'"
  "approve c r k s = Inr s' \<Longrightarrow> lives (c, Approve r k) s owner s'"
  "rmvreject c r k s = Inr s' \<Longrightarrow> lives (c, Rmvreject r k) s owner s'"
  "rmvcompleted c r k s = Inr s' \<Longrightarrow> lives (c, Rmvcompleted r k) s owner s'"
  by (rule lives_row [of k]; force simp: acceptprop_def rejectprop_def approve_def rmvreject_def rmvcompleted_def
      with_reviewer_def lives_def status_of_def reviewed_by_def intro: moves.intros)+

lemma lives_rejectfund: "rejectfund c m k t s = Inr s' \<Longrightarrow> lives (c, Rejectfund m k t) s owner s'"
  by (rule lives_row [of k]; force simp: rejectfund_def lives_def status_of_def intro: moves.intros)

lemma lives_regproposal: "regproposal c k f s = Inr s' \<Longrightarrow> lives (c, Regproposal k f) s owner s'"
  by (rule lives_row [of k]; force simp: regproposal_def lives_def status_of_def dest!: check_form_Inr intro: moves.intros)

lemma lives_editproposal: "editproposal c k f s = Inr s' \<Longrightarrow> lives (c, Editproposal k f) s owner s'"
  by (rule lives_row [of k]; force simp: editproposal_def lives_def status_of_def dest!: check_form_Inr)

lemma claimfunds_Inr:
  assumes "claimfunds c k s = Inr s'"
  obtains row p interval q where "has_auth c k" "find_row (proposers s) k = Some row" "find_row (proposals s) k = Some p"
    "wp_status p = APPROVED" "wp_iteration_of_funding p \<le> wp_total_iterations p" "claim_interval p = Inr interval"
    "start_funding_round p interval < seconds_of (ctx_now c)"
    "asset_div (ctx_lib c) (wp_funding_goal p) (wp_total_iterations p) = Some q"
    "s' = s\<lparr>outbox := outbox s @ [\<lparr>in_auths = [(saving_account, active_permission)], in_call = Token_call
           (Transfer saving_account k q ''Your worker proposal has been approved.'')\<rparr>],
        proposers := modify_row same_payer k (row\<lparr>pr_last_claim_time := seconds_of (ctx_now c)\<rparr>) (proposers s),
        proposals := modify_row same_payer k
          (p\<lparr>wp_iteration_of_funding := u32 (wp_iteration_of_funding p + 1),
             wp_status := (if wp_iteration_of_funding p = wp_total_iterations p then COMPLETED else APPROVED)\<rparr>)
          (proposals s)\<rparr>"
proof -
  obtain row p interval q where c: "has_auth c k" "find_row (proposers s) k = Some row" "find_row (proposals s) k = Some p"
    "wp_status p = APPROVED" "wp_iteration_of_funding p \<le> wp_total_iterations p" "claim_interval p = Inr interval"
    "start_funding_round p interval < seconds_of (ctx_now c)"
    "asset_div (ctx_lib c) (wp_funding_goal p) (wp_total_iterations p) = Some q"
    and s': "s' = pay_proposer k q s\<lparr>
        proposers := modify_row same_payer k (row\<lparr>pr_last_claim_time := seconds_of (ctx_now c)\<rparr>) (proposers (pay_proposer k q s)),
        proposals := modify_row same_payer k
          (if wp_iteration_of_funding p \<ge> wp_total_iterations p
           then p\<lparr>wp_iteration_of_funding := u32 (wp_iteration_of_funding p + 1)\<rparr>\<lparr>wp_status := COMPLETED\<rparr>
           else p\<lparr>wp_iteration_of_funding := u32 (wp_iteration_of_funding p + 1)\<rparr>) (proposals (pay_proposer k q s))\<rparr>"
    using assms unfolding claimfunds_def Let_def require_auth_Inr some_or_Inr check_Inr bind_result_Inr sum.inject
    by (elim exE conjE) (rule that, assumption+, rule sym)
  have "(if wp_iteration_of_funding p \<ge> wp_total_iterations p
           then p\<lparr>wp_iteration_of_funding := u32 (wp_iteration_of_funding p + 1)\<rparr>\<lparr>wp_status := COMPLETED\<rparr>
           else p\<lparr>wp_iteration_of_funding := u32 (wp_iteration_of_funding p + 1)\<rparr>) =
    p\<lparr>wp_iteration_of_funding := u32 (wp_iteration_of_funding p + 1),
       wp_status := (if wp_iteration_of_funding p = wp_total_iterations p then COMPLETED else APPROVED)\<rparr>"
    using c(4,5) by (cases p) auto
  then show thesis
    by (intro that [OF c]) (simp add: s' pay_proposer_def send_token_def)
qed

lemma lives_claimfunds: "claimfunds c k s = Inr s' \<Longrightarrow> lives (c, Claimfunds k) s owner s'"
proof -
  assume "claimfunds c k s = Inr s'"
  then show ?thesis
    by (rule claimfunds_Inr, rule_tac lives_row [of k]) (auto simp: lives_def status_of_def intro: moves.paid)
qed

lemma lives_voteproposal: "voteproposal c w ps s = Inr s' \<Longrightarrow> lives (c, Voteproposal w ps) s owner s'"
proof -
  assume "voteproposal c w ps s = Inr s'"
  then have auth: "has_auth c w" and run: "update_wps_votes c w ps s = Inr s'" by (auto simp: voteproposal_def)
  show ?thesis
    using run
  proof (rule update_wps_votes_Inr)
  fix voter
  assume rows: "\<And>k. find_row (proposals s') k =
       (case entry (proposal_deltas (find_row (wpsvoters s) w) (stake2vote c (staked voter)) ps) k of
          None \<Rightarrow> find_row (proposals s) k
        | Some (d, b) \<Rightarrow> map_option (voted c s d) (find_row (proposals s) k))"
  let ?ds = "proposal_deltas (find_row (wpsvoters s) w) (stake2vote c (staked voter)) ps"
  show ?thesis
  proof (cases "find_row (proposals s) owner")
    case (Some p)
    show ?thesis
    proof (cases "entry ?ds owner")
      case entry: (Some e)
      obtain d b where e: "e = (d, b)" by (cases e)
      have new: "find_row (proposals s') owner = Some (voted c s d p)" using rows [of owner] Some entry by (simp add: e)
      show ?thesis
        using moves.expire [OF auth Some] moves.pass [OF auth Some]
        by (auto simp: lives_def status_of_def Some new voted_def Let_def)
    qed (use rows [of owner] Some in \<open>simp add: lives_def status_of_def\<close>)
  qed (use rows [of owner] in \<open>auto simp: lives_def status_of_def split: option.splits\<close>)
  qed
qed

lemma lives_others:
  "regproposer c k f s = Inr s' \<Longrightarrow> lives a s owner s'"
  "editproposer c k f s = Inr s' \<Longrightarrow> lives a s owner s'"
  "rmvproposer c k s = Inr s' \<Longrightarrow> lives a s owner s'"
  "regreviewer c m k n l s = Inr s' \<Longrightarrow> lives a s owner s'"
  "editreviewer c m k n l s = Inr s' \<Longrightarrow> lives a s owner s'"
  "rmvreviewer c m k s = Inr s' \<Longrightarrow> lives a s owner s'"
  "setwpsenv c x1 x2 x3 x4 s = Inr s' \<Longrightarrow> lives a s owner s'"
  "setwpsstate c t s = Inr s' \<Longrightarrow> lives a s owner s'"
  "regcommittee c m g b s = Inr s' \<Longrightarrow> lives a s owner s'"
  "edcommittee c m g b s = Inr s' \<Longrightarrow> lives a s owner s'"
  "rmvcommittee c m s = Inr s' \<Longrightarrow> lives a s owner s'"
  "cleanvotes c r k x1 x2 s = Inr s' \<Longrightarrow> lives a s owner s'"
  by (rule lives_same; force simp: regproposer_def editproposer_def rmvproposer_def regreviewer_def editreviewer_def
      rmvreviewer_def setwpsenv_def setwpsstate_def regcommittee_def edcommittee_def rmvcommittee_def cleanvotes_def
      with_reviewer_def Let_def dest!: check_form_Inr split: if_splits)+

lemma wps_step_lives: "wps_step a s = Inr s' \<Longrightarrow> lives a s owner s'"
  by (induction a s rule: wps_step.induct)
     (auto intro: lives_others lives_voteproposal lives_claimfunds lives_editproposal lives_regproposal
       lives_rejectfund lives_decisions)

section \<open>The terms of a proposal\<close>

definition terms_ok :: "wps_proposal \<Rightarrow> bool" where
  "terms_ok p \<longleftrightarrow> 1 \<le> wp_total_iterations p \<and> wp_total_iterations p < 100 \<and>
     asset_in_range (wp_funding_goal p) \<and> 0 < amount (wp_funding_goal p)"

definition same_terms :: "wps_proposal \<Rightarrow> wps_proposal \<Rightarrow> bool" where
  "same_terms p n \<longleftrightarrow> wp_total_iterations n = wp_total_iterations p \<and> wp_funding_goal n = wp_funding_goal p \<and>
     wp_iteration_of_funding n = wp_iteration_of_funding p"

lemma same_terms_refl [simp]: "same_terms p p"
  by (simp add: same_terms_def)

lemma check_sizes_Inr:
  "check_sizes L env m f r = Inr x \<Longrightarrow> r = Inr x \<and> asset_valid L (pp_funding_goal f) \<and>
     0 < amount (pp_funding_goal f) \<and> pp_total_iterations f < 100"
  by (simp add: check_sizes_def)

text \<open>What an action does to the terms of \<open>w\<close>'s row: nothing, or it edits a pending one, or it claims.\<close>

definition terms_step :: "ctx \<times> wps_action \<Rightarrow> name \<Rightarrow> sys \<Rightarrow> sys \<Rightarrow> bool" where
  "terms_step a w s s' \<longleftrightarrow>
     (case (find_row (proposals s) w, find_row (proposals s') w) of
        (None, Some n) \<Rightarrow> (\<exists>f. snd a = Regproposal w f) \<and> terms_ok n \<and> wp_iteration_of_funding n = 1 \<and> wp_status n = PENDING
      | (Some p, Some n) \<Rightarrow> same_terms p n
          \<or> (\<exists>f. snd a = Editproposal w f) \<and> wp_status p = PENDING \<and> wp_status n = PENDING \<and> terms_ok n \<and>
            wp_iteration_of_funding n = wp_iteration_of_funding p
          \<or> snd a = Claimfunds w
      | _ \<Rightarrow> True)
     \<and> (snd a \<noteq> Claimfunds w \<longrightarrow> (\<forall>v. snd a \<noteq> Claimfunds v) \<longrightarrow> outbox s' = outbox s)"

lemma terms_step_same: "proposals s' = proposals s \<Longrightarrow> outbox s' = outbox s \<Longrightarrow> terms_step a w s s'"
  by (simp add: terms_step_def split: option.split)

lemma terms_step_decisions:
  "acceptprop c r k s = Inr s' \<Longrightarrow> terms_step (c, Acceptprop r k) w s s'"
  "rejectprop c r k t s = Inr s' \<Longrightarrow> terms_step (c, Rejectprop r k t) w s s'"
  "approve c r k s = Inr s' \<Longrightarrow> terms_step (c, Approve r k) w s s'"
  "rmvreject c r k s = Inr s' \<Longrightarrow> terms_step (c, Rmvreject r k) w s s'"
  "rmvcompleted c r k s = Inr s' \<Longrightarrow> terms_step (c, Rmvcompleted r k) w s s'"
  "rejectfund c r k t s = Inr s' \<Longrightarrow> terms_step (c, Rejectfund r k t) w s s'"
  by (cases "w = k"; force simp: acceptprop_def rejectprop_def approve_def rmvreject_def rmvcompleted_def rejectfund_def
      with_reviewer_def terms_step_def same_terms_def split: option.split)+

lemma terms_step_regproposal:
  "asset_library (ctx_lib c) \<Longrightarrow> regproposal c k f s = Inr s' \<Longrightarrow> terms_step (c, Regproposal k f) w s s'"
  by (cases "w = k"; force simp: regproposal_def terms_step_def terms_ok_def split: option.split
      dest!: check_form_Inr(2) check_sizes_Inr asset_library.valid_in_range)

lemma terms_step_editproposal:
  "asset_library (ctx_lib c) \<Longrightarrow> editproposal c k f s = Inr s' \<Longrightarrow> terms_step (c, Editproposal k f) w s s'"
  by (cases "w = k"; force simp: editproposal_def terms_step_def terms_ok_def split: option.split
      dest!: check_form_Inr(2) check_sizes_Inr asset_library.valid_in_range)

lemma terms_step_claimfunds: "claimfunds c k s = Inr s' \<Longrightarrow> terms_step (c, Claimfunds k) w s s'"
  by (erule claimfunds_Inr) (simp add: terms_step_def split: option.split)

lemma same_terms_voted [simp]: "same_terms p (voted c s d p)"
  by (simp add: voted_def same_terms_def Let_def)

lemma terms_step_voteproposal: "voteproposal c v ps s = Inr s' \<Longrightarrow> terms_step (c, Voteproposal v ps) w s s'"
proof -
  assume "voteproposal c v ps s = Inr s'"
  then have run: "update_wps_votes c v ps s = Inr s'" by (simp add: voteproposal_def)
  show ?thesis
    using run
  proof (rule update_wps_votes_Inr)
    fix voter
    assume rows: "\<And>k. find_row (proposals s') k =
         (case entry (proposal_deltas (find_row (wpsvoters s) v) (stake2vote c (staked voter)) ps) k of
            None \<Rightarrow> find_row (proposals s) k
          | Some (d, b) \<Rightarrow> map_option (voted c s d) (find_row (proposals s) k))"
      and "s' = s\<lparr>proposals := proposals s', wpsvoters := wpsvoters s'\<rparr>"
    from this(2) have "outbox s' = outbox s" by (rule ssubst) simp
    then show ?thesis using rows [of w] by (auto simp: terms_step_def split: option.splits prod.splits)
  qed
qed

lemma terms_step_others:
  "regproposer c k f s = Inr s' \<Longrightarrow> terms_step a owner s s'"
  "editproposer c k f s = Inr s' \<Longrightarrow> terms_step a owner s s'"
  "rmvproposer c k s = Inr s' \<Longrightarrow> terms_step a owner s s'"
  "regreviewer c m k n l s = Inr s' \<Longrightarrow> terms_step a owner s s'"
  "editreviewer c m k n l s = Inr s' \<Longrightarrow> terms_step a owner s s'"
  "rmvreviewer c m k s = Inr s' \<Longrightarrow> terms_step a owner s s'"
  "setwpsenv c x1 x2 x3 x4 s = Inr s' \<Longrightarrow> terms_step a owner s s'"
  "setwpsstate c t s = Inr s' \<Longrightarrow> terms_step a owner s s'"
  "regcommittee c m g b s = Inr s' \<Longrightarrow> terms_step a owner s s'"
  "edcommittee c m g b s = Inr s' \<Longrightarrow> terms_step a owner s s'"
  "rmvcommittee c m s = Inr s' \<Longrightarrow> terms_step a owner s s'"
  "cleanvotes c r k x1 x2 s = Inr s' \<Longrightarrow> terms_step a owner s s'"
  by (rule terms_step_same; force simp: regproposer_def editproposer_def rmvproposer_def regreviewer_def editreviewer_def
      rmvreviewer_def setwpsenv_def setwpsstate_def regcommittee_def edcommittee_def rmvcommittee_def cleanvotes_def
      with_reviewer_def Let_def dest!: check_form_Inr split: if_splits)+

lemma wps_step_terms:
  "asset_library (ctx_lib (fst a)) \<Longrightarrow> wps_step a s = Inr s' \<Longrightarrow> terms_step a w s s'"
  by (induction a s rule: wps_step.induct)
     (auto intro: terms_step_others terms_step_voteproposal terms_step_claimfunds terms_step_editproposal
       terms_step_regproposal terms_step_decisions)

section \<open>The invariant of the proposals\<close>

definition proposal_ok :: "wps_proposal \<Rightarrow> bool" where
  "proposal_ok p \<longleftrightarrow> terms_ok p \<and> 1 \<le> wp_iteration_of_funding p \<and>
     wp_iteration_of_funding p \<le> wp_total_iterations p + 1 \<and>
     (wp_iteration_of_funding p = wp_total_iterations p + 1 \<longleftrightarrow> wp_status p = COMPLETED) \<and>
     (wp_status p \<in> {PENDING, ON_VOTE, FINISHED_VOTING} \<longrightarrow> wp_iteration_of_funding p = 1)"

definition wps_inv :: "sys \<Rightarrow> bool" where
  "wps_inv s \<longleftrightarrow> all_rows (\<lambda>_ p. proposal_ok p) (proposals s)"

lemma wps_invD: "wps_inv s \<Longrightarrow> find_row (proposals s) w = Some p \<Longrightarrow> proposal_ok p"
  by (auto simp: wps_inv_def dest: all_rowsD)

lemma claimed_row:
  assumes "claimfunds c w s = Inr s'" and "find_row (proposals s) w = Some p" and "proposal_ok p"
    and "asset_library (ctx_lib c)"
  shows "find_row (proposals s') w = Some (p\<lparr>wp_iteration_of_funding := wp_iteration_of_funding p + 1,
      wp_status := (if wp_iteration_of_funding p = wp_total_iterations p then COMPLETED else APPROVED)\<rparr>)"
    "wp_status p = APPROVED" "wp_iteration_of_funding p \<le> wp_total_iterations p"
    "j \<noteq> w \<Longrightarrow> find_row (proposals s') j = find_row (proposals s) j"
    "outbox s' = outbox s @ [\<lparr>in_auths = [(saving_account, active_permission)], in_call = Token_call
       (Transfer saving_account w ((wp_funding_goal p)\<lparr>amount := amount (wp_funding_goal p) div wp_total_iterations p\<rparr>)
         ''Your worker proposal has been approved.'')\<rparr>]"
proof -
  have t: "1 \<le> wp_total_iterations p" "wp_total_iterations p < 100" "asset_in_range (wp_funding_goal p)"
    "0 < amount (wp_funding_goal p)" "1 \<le> wp_iteration_of_funding p"
    using assms(3) by (simp_all add: proposal_ok_def terms_ok_def)
  have div: "asset_div (ctx_lib c) (wp_funding_goal p) (wp_total_iterations p) =
      Some ((wp_funding_goal p)\<lparr>amount := amount (wp_funding_goal p) div wp_total_iterations p\<rparr>)"
    using asset_library.div_ok [OF assms(4) t(3)] t by (simp add: sdiv_nonneg)
  show "find_row (proposals s') w = Some (p\<lparr>wp_iteration_of_funding := wp_iteration_of_funding p + 1,
      wp_status := (if wp_iteration_of_funding p = wp_total_iterations p then COMPLETED else APPROVED)\<rparr>)"
    "wp_status p = APPROVED" "wp_iteration_of_funding p \<le> wp_total_iterations p"
    "j \<noteq> w \<Longrightarrow> find_row (proposals s') j = find_row (proposals s) j"
    "outbox s' = outbox s @ [\<lparr>in_auths = [(saving_account, active_permission)], in_call = Token_call
       (Transfer saving_account w ((wp_funding_goal p)\<lparr>amount := amount (wp_funding_goal p) div wp_total_iterations p\<rparr>)
         ''Your worker proposal has been approved.'')\<rparr>]"
    using assms(1,2) t div by (auto elim!: claimfunds_Inr)
qed

inductive_cases moves_to_None: "moves a s w (Some st) None"
inductive_cases moves_Some: "moves a s w (Some st) (Some st')"
inductive_cases moves_from_None: "moves a s w None x"

lemma moved_status:
  assumes "moves a s w (Some st) (Some st')" and "snd a \<noteq> Claimfunds w"
  shows "st \<noteq> COMPLETED \<and> st' \<noteq> COMPLETED \<and> st' \<noteq> PENDING \<and>
    (st' \<in> {ON_VOTE, FINISHED_VOTING} \<longrightarrow> st \<in> {PENDING, ON_VOTE, FINISHED_VOTING})"
  using assms by (cases rule: moves.cases) auto

lemma kept_ok:
  assumes ok: "proposal_ok p" and lib: "asset_library (ctx_lib (fst a))" and run: "wps_step a s = Inr s'"
    and old: "find_row (proposals s) w = Some p" and new: "find_row (proposals s') w = Some n"
    and other: "snd a \<noteq> Claimfunds w"
  shows "proposal_ok n"
    "wp_status p \<noteq> PENDING \<Longrightarrow> same_terms p n \<and> wp_status n \<noteq> PENDING \<and> (wp_status n = COMPLETED \<longleftrightarrow> wp_status p = COMPLETED)"
proof -
  have t: "same_terms p n \<or> wp_status p = PENDING \<and> wp_status n = PENDING \<and> terms_ok n \<and>
      wp_iteration_of_funding n = wp_iteration_of_funding p"
    using wps_step_terms [OF lib run, of w] old new other by (auto simp: terms_step_def)
  have l: "wp_status n = wp_status p \<or> moves a s w (Some (wp_status p)) (Some (wp_status n))"
    using wps_step_lives [OF run, of w] old new by (auto simp: lives_def status_of_def)
  then have st: "wp_status n = wp_status p \<or> wp_status p \<noteq> COMPLETED \<and> wp_status n \<noteq> COMPLETED \<and> wp_status n \<noteq> PENDING \<and>
     (wp_status n \<in> {ON_VOTE, FINISHED_VOTING} \<longrightarrow> wp_status p \<in> {PENDING, ON_VOTE, FINISHED_VOTING})"
    using moved_status other by blast
  have same_ok: "proposal_ok n" if "same_terms p n"
  proof -
    have "terms_ok n" "wp_iteration_of_funding n = wp_iteration_of_funding p"
      "wp_total_iterations n = wp_total_iterations p"
      using that ok by (simp_all add: proposal_ok_def same_terms_def terms_ok_def)
    moreover have "wp_status n = COMPLETED \<longleftrightarrow> wp_status p = COMPLETED" using st by auto
    moreover have "wp_status n \<in> {PENDING, ON_VOTE, FINISHED_VOTING} \<longrightarrow> wp_status p \<in> {PENDING, ON_VOTE, FINISHED_VOTING}"
      using st by auto
    ultimately show ?thesis using ok unfolding proposal_ok_def by (metis (full_types))
  qed
  then show "proposal_ok n"
    using t ok by (auto simp: proposal_ok_def terms_ok_def)
  show "wp_status p \<noteq> PENDING \<Longrightarrow> same_terms p n \<and> wp_status n \<noteq> PENDING \<and> (wp_status n = COMPLETED \<longleftrightarrow> wp_status p = COMPLETED)"
    using t st by auto
qed

abbreviation wps_admissible :: "ctx \<times> wps_action \<Rightarrow> bool" where
  "wps_admissible a \<equiv> asset_library (ctx_lib (fst a))"

lemma wps_step_inv:
  assumes "wps_admissible a" and "wps_inv s" and "wps_step a s = Inr s'"
  shows "wps_inv s'"
  unfolding wps_inv_def all_rows_iff
proof (intro allI impI)
  fix w n
  assume new: "find_row (proposals s') w = Some n"
  show "proposal_ok n"
  proof (cases "find_row (proposals s) w")
    case None
    then show ?thesis
      using wps_step_terms [OF assms(1,3), of w] new
      by (auto simp: terms_step_def proposal_ok_def terms_ok_def)
  next
    case (Some p)
    note ok = wps_invD [OF assms(2) Some]
    show ?thesis
    proof (cases "snd a = Claimfunds w")
      case True
      then have "claimfunds (fst a) w s = Inr s'" using assms(3) by (cases a) auto
      from claimed_row [OF this Some ok assms(1)] show ?thesis
        using ok new by (auto simp: proposal_ok_def terms_ok_def)
    qed (rule kept_ok [OF ok assms(1,3) Some new])
  qed
qed

interpretation worker_proposals: contract_machine wps_step wps_admissible wps_inv
  by unfold_locales (rule wps_step_inv)

section \<open>Payments\<close>

fun paid_by_call :: "name \<Rightarrow> inline_call \<Rightarrow> int" where
  "paid_by_call w (Token_call (Transfer f t q m)) = (if f = saving_account \<and> t = w then amount q else 0)"
| "paid_by_call w x = 0"

definition paid_to :: "name \<Rightarrow> inline_action list \<Rightarrow> int" where
  "paid_to w xs = (\<Sum>x \<leftarrow> xs. paid_by_call w (in_call x))"

text \<open>What was paid since a state in which the proposal \<open>r\<close> of \<open>w\<close> had been accepted, at \<open>b\<close> paid.\<close>

definition paying :: "name \<Rightarrow> wps_proposal \<Rightarrow> int \<Rightarrow> sys \<Rightarrow> bool" where
  "paying w r b s \<longleftrightarrow> wps_inv s \<and>
     (\<exists>k. 0 \<le> k \<and> k \<le> wp_total_iterations r \<and>
        paid_to w (outbox s) = b + k * (amount (wp_funding_goal r) div wp_total_iterations r) \<and>
        (\<forall>p. find_row (proposals s) w = Some p \<longrightarrow>
           wp_total_iterations p = wp_total_iterations r \<and> wp_funding_goal p = wp_funding_goal r \<and>
           wp_status p \<noteq> PENDING \<and> wp_iteration_of_funding p = k + 1))"

lemma claim_of_other:
  assumes "claimfunds c v s = Inr s'" and "v \<noteq> w"
  shows "find_row (proposals s') w = find_row (proposals s) w" "paid_to w (outbox s') = paid_to w (outbox s)"
  using assms by (auto elim!: claimfunds_Inr simp: paid_to_def)

lemma paying_step:
  assumes adm: "wps_admissible a" "\<And>f. snd a \<noteq> Regproposal w f" and pay: "paying w r b s"
    and run: "wps_step a s = Inr s'"
  shows "paying w r b s'"
proof -
  obtain k where k: "0 \<le> k" "k \<le> wp_total_iterations r"
    "paid_to w (outbox s) = b + k * (amount (wp_funding_goal r) div wp_total_iterations r)"
    and row: "\<And>p. find_row (proposals s) w = Some p \<Longrightarrow>
       wp_total_iterations p = wp_total_iterations r \<and> wp_funding_goal p = wp_funding_goal r \<and>
       wp_status p \<noteq> PENDING \<and> wp_iteration_of_funding p = k + 1"
    using pay by (auto simp: paying_def)
  have inv: "wps_inv s" using pay by (simp add: paying_def)
  have inv': "wps_inv s'" by (rule wps_step_inv [OF adm(1) inv run])
  show ?thesis
  proof (cases "snd a = Claimfunds w")
    case True
    then have claim: "claimfunds (fst a) w s = Inr s'" using run by (cases a) auto
    then obtain p where p: "find_row (proposals s) w = Some p" by (auto elim: claimfunds_Inr)
    note c = claimed_row [OF claim p wps_invD [OF inv p] adm(1)]
    show ?thesis
      unfolding paying_def
    proof (intro conjI exI [of _ "k + 1"])
      show "paid_to w (outbox s') = b + (k + 1) * (amount (wp_funding_goal r) div wp_total_iterations r)"
        using k(3) row [OF p] c(5) by (simp add: paid_to_def algebra_simps)
    qed (use k row [OF p] c inv' in auto)
  next
    case False
    have "paid_to w (outbox s') = paid_to w (outbox s)"
    proof (cases "\<exists>v. snd a = Claimfunds v")
      case True
      then obtain c v where a: "a = (c, Claimfunds v)" by (cases a) auto
      then show ?thesis using run False claim_of_other(2) [of c v s s' w] by simp
    next
      case no_claim: False
      then have "outbox s' = outbox s"
        using wps_step_terms [OF adm(1) run, of w] by (auto simp: terms_step_def)
      then show ?thesis by simp
    qed
    moreover have "wp_total_iterations n = wp_total_iterations r \<and> wp_funding_goal n = wp_funding_goal r \<and>
       wp_status n \<noteq> PENDING \<and> wp_iteration_of_funding n = k + 1" if n: "find_row (proposals s') w = Some n" for n
    proof (cases "find_row (proposals s) w")
      case None
      then show ?thesis using wps_step_terms [OF adm(1) run, of w] n adm(2) by (auto simp: terms_step_def)
    next
      case (Some p)
      then show ?thesis
        using kept_ok(2) [OF wps_invD [OF inv Some] adm(1) run Some n False] row [OF Some]
        by (auto simp: same_terms_def)
    qed
    ultimately show ?thesis using k inv' by (auto simp: paying_def)
  qed
qed

lemma paying_machine:
  "contract_machine wps_step (\<lambda>a. wps_admissible a \<and> (\<forall>f. snd a \<noteq> Regproposal w f)) (paying w r b)"
  by unfold_locales (use paying_step in blast)

end
