(* ===== verification/WpsProperties.thy ===== *)
theory WpsProperties
  imports WpsLemmas
begin

text \<open>
  The properties of the worker proposal system: the life of a proposal, the votes, when a claim succeeds,
  and the bound on what is paid.
\<close>

section \<open>Properties\<close>

text \<open>
  C25: every successful action refines the life cycle of proposals: the status of every account's
  proposal stays, or it takes one of the ten steps of \<open>moves\<close>, each with the signature it needs (the
  proposer's, a reviewer's of the proposal's own committee, a committee's, or a vote that crosses the
  threshold in time).
\<close>

theorem proposals_follow_their_life_cycle:
  assumes "wps_step a s = Inr s'"
  shows "status_of s' owner = status_of s owner \<or> moves a s owner (status_of s owner) (status_of s' owner)"
  using wps_step_lives [OF assms] by (simp add: lives_def)

text \<open>
  C26: a vote on worker proposals, whose loop goes over a map of collected changes, equals this row by
  row: every proposal that lost or gained is changed as \<open>voted\<close> says by the weight it lost and gained
  together, every other is left alone, and the voter's new list and weight are recorded. Only an
  account with stake that is no proxy votes, for at most thirty distinct proposals.
\<close>

theorem vote_changes_rows:
  assumes "voteproposal c w ps s = Inr s'" and "wps_voters_ok s"
  shows "\<exists>voter :: voter_info. find_row (voters s) w = Some voter \<and> \<not> is_proxy voter \<and> has_auth c w \<and> length ps \<le> 30 \<and>
    (let x = stake2vote c (staked voter) in
     (\<forall>k. find_row (proposals s') k =
        (case net_delta (weights_before s w) (if fle (Fin 0) x then Some (x, ps) else None) k of
           None \<Rightarrow> find_row (proposals s) k
         | Some d \<Rightarrow> map_option (voted c s d) (find_row (proposals s) k))) \<and>
     (\<forall>k. find_row (wpsvoters s') k = (if k = w then Some (wps_record ps x w (find_row (wpsvoters s) w))
        else find_row (wpsvoters s) k))) \<and>
    wps_voters_ok s' \<and> s' = s\<lparr>proposals := proposals s', wpsvoters := wpsvoters s'\<rparr>"
proof -
  have auth: "has_auth c w" and run: "update_wps_votes c w ps s = Inr s'"
    using assms(1) by (simp_all add: voteproposal_def)
  show ?thesis
    using run
  proof (rule update_wps_votes_Inr)
    fix voter :: voter_info
    let ?x = "stake2vote c (staked voter)"
    let ?e = "entry (proposal_deltas (find_row (wpsvoters s) w) ?x ps)"
    let ?d = "net_delta (weights_before s w) (if fle (Fin 0) ?x then Some (?x, ps) else None)"
    assume v: "find_row (voters s) w = Some voter" "\<not> is_proxy voter" "length ps \<le> 30"
      and ps: "distinct ps" and frame: "s' = s\<lparr>proposals := proposals s', wpsvoters := wpsvoters s'\<rparr>"
      and ws: "\<And>k. find_row (wpsvoters s') k = (if k = w
         then Some (wps_record ps ?x w (find_row (wpsvoters s) w)) else find_row (wpsvoters s) k)"
      and rows: "\<And>k. find_row (proposals s') k = (case ?e k of None \<Rightarrow> find_row (proposals s) k
          | Some (d, b) \<Rightarrow> map_option (voted c s d) (find_row (proposals s) k))"
    have "find_row (proposals s') k = (case ?d k of None \<Rightarrow> find_row (proposals s) k
         | Some d \<Rightarrow> map_option (voted c s d) (find_row (proposals s) k))" for k
      using rows [of k] by (simp flip: entry_proposal_deltas [OF ps assms(2)] split: option.split prod.split)
    moreover have "wps_voters_ok s'"
      using assms(2) ws ps by (auto simp: wps_voters_ok_def all_rows_iff wps_record_def split: option.split)
    ultimately show ?thesis using v auth ws frame by (auto simp: Let_def)
  qed
qed

text \<open>
  C27: a claim of funds succeeds exactly when the proposer signs and is registered, the proposal is
  approved and the next instalment is due; then it is paid from \<open>eosio.saving\<close> an instalment's share
  of the goal, and the proposal counts the instalment and is completed with the last.
\<close>

theorem claim_succeeds_iff:
  assumes "asset_library (ctx_lib c)" and "wps_inv s"
  shows "(is_ok (claimfunds c w s) \<longleftrightarrow> has_auth c w \<and> find_row (proposers s) w \<noteq> None \<and>
      (\<exists>p. find_row (proposals s) w = Some p \<and> wp_status p = APPROVED \<and>
        start_funding_round p (u32 (u64 (wp_duration p * seconds_per_day)) div wp_total_iterations p)
          < seconds_of (ctx_now c))) \<and>
    (\<forall>s' p. claimfunds c w s = Inr s' \<longrightarrow> find_row (proposals s) w = Some p \<longrightarrow>
      find_row (proposals s') w = Some (p\<lparr>wp_iteration_of_funding := wp_iteration_of_funding p + 1,
        wp_status := (if wp_iteration_of_funding p = wp_total_iterations p then COMPLETED else APPROVED)\<rparr>))"
proof -
  have terms: "terms_ok p" "wp_status p = APPROVED \<Longrightarrow> wp_iteration_of_funding p \<le> wp_total_iterations p"
    if "find_row (proposals s) w = Some p" for p
    using wps_invD [OF assms(2) that] by (auto simp: proposal_ok_def)
  have "is_ok (claimfunds c w s) \<longleftrightarrow> has_auth c w \<and> find_row (proposers s) w \<noteq> None \<and>
      (\<exists>p. find_row (proposals s) w = Some p \<and> wp_status p = APPROVED \<and>
        start_funding_round p (u32 (u64 (wp_duration p * seconds_per_day)) div wp_total_iterations p)
          < seconds_of (ctx_now c))"
  proof (cases "find_row (proposals s) w")
    case (Some p)
    have "wp_total_iterations p \<noteq> 0" "is_ok (some_or (asset_div (ctx_lib c) (wp_funding_goal p) (wp_total_iterations p)) e (\<lambda>x. Inr (g x)))"
      for e and g :: "asset \<Rightarrow> sys"
      using terms(1) [OF Some] asset_library.div_ok [OF assms(1)] by (auto simp: terms_ok_def)
    then show ?thesis
      using terms(2) [OF Some] Some
      by (cases "find_row (proposers s) w") (auto simp: claimfunds_def Let_def claim_interval_def)
  qed (auto simp: claimfunds_def is_ok_iff)
  then show ?thesis using claimed_row(1) [OF _ _ wps_invD [OF assms(2)] assms(1)] by blast
qed

text \<open>
  C28: no history pays a proposal more than its goal: take any reachable state in which a proposal was
  accepted for the vote and nothing is paid yet, and any history after it in which its account does
  not register another one. What \<open>eosio.saving\<close> was told to pay the account since is a number of
  instalments, at most the agreed number, hence at most the goal; while the proposal is on record
  it counts them, and it is completed exactly when all are paid.
\<close>

theorem instalments_stay_within_the_goal:
  assumes "list_all wps_admissible pre" and "proposals start = no_rows" and "s0 = run wps_step pre start"
    and "find_row (proposals s0) w = Some r" and "wp_status r \<noteq> PENDING" and "wp_iteration_of_funding r = 1"
    and "list_all (\<lambda>a. wps_admissible a \<and> (\<forall>f. snd a \<noteq> Regproposal w f)) as" and "s = run wps_step as s0"
  shows "\<exists>k. 0 \<le> k \<and> k \<le> wp_total_iterations r \<and>
      paid_to w (outbox s) - paid_to w (outbox s0) = k * (amount (wp_funding_goal r) div wp_total_iterations r) \<and>
      paid_to w (outbox s) - paid_to w (outbox s0) \<le> amount (wp_funding_goal r) \<and>
      (\<forall>p. find_row (proposals s) w = Some p \<longrightarrow>
        wp_iteration_of_funding p = k + 1 \<and> (wp_status p = COMPLETED \<longleftrightarrow> k = wp_total_iterations r))"
proof -
  have inv: "wps_inv s0"
    unfolding assms(3) by (rule worker_proposals.run_inv [OF assms(1)]) (simp add: wps_inv_def assms(2))
  have r: "terms_ok r" using wps_invD [OF inv assms(4)] by (simp add: proposal_ok_def)
  have "paying w r (paid_to w (outbox s0)) s0"
    unfolding paying_def using inv assms(4-6) r by (intro conjI exI [of _ 0]) (auto simp: terms_ok_def)
  then have "paying w r (paid_to w (outbox s0)) s"
    unfolding assms(8) by (rule contract_machine.run_inv [OF paying_machine assms(7)])
  then obtain k where k: "0 \<le> k" "k \<le> wp_total_iterations r" "wps_inv s"
    "paid_to w (outbox s) = paid_to w (outbox s0) + k * (amount (wp_funding_goal r) div wp_total_iterations r)"
    "\<forall>p. find_row (proposals s) w = Some p \<longrightarrow> wp_total_iterations p = wp_total_iterations r \<and>
       wp_iteration_of_funding p = k + 1"
    by (auto simp: paying_def)
  have "k * (amount (wp_funding_goal r) div wp_total_iterations r)
      \<le> wp_total_iterations r * (amount (wp_funding_goal r) div wp_total_iterations r)"
    using k r by (intro mult_right_mono) (auto simp: terms_ok_def pos_imp_zdiv_nonneg_iff)
  also have "\<dots> = amount (wp_funding_goal r) - amount (wp_funding_goal r) mod wp_total_iterations r"
    by (rule minus_mod_eq_mult_div [symmetric])
  also have "\<dots> \<le> amount (wp_funding_goal r)" using r by (simp add: terms_ok_def)
  finally have bound: "k * (amount (wp_funding_goal r) div wp_total_iterations r) \<le> amount (wp_funding_goal r)" .
  have "wp_iteration_of_funding p = k + 1 \<and> (wp_status p = COMPLETED \<longleftrightarrow> k = wp_total_iterations r)"
    if "find_row (proposals s) w = Some p" for p
  proof -
    have "wp_iteration_of_funding p = wp_total_iterations p + 1 \<longleftrightarrow> wp_status p = COMPLETED"
      using wps_invD [OF k(3) that] by (simp add: proposal_ok_def)
    then show ?thesis using k(5) that by auto
  qed
  then show ?thesis using k bound by (intro exI [of _ k]) simp
qed

section \<open>A history for the witnesses\<close>

definition sample_proposer :: proposer_form where
  "sample_proposer = \<lparr>pf_first_name = ''a'', pf_last_name = ''b'', pf_img_url = ''c'', pf_bio = ''d'',
     pf_country = ''e'', pf_telegram = '''', pf_website = '''', pf_linkedin = ''''\<rparr>"

definition sample_proposal :: proposal_form where
  "sample_proposal = \<lparr>pp_committee = 20, pp_subcategory = 1, pp_title = ''t'', pp_summary = ''s'',
     pp_project_img_url = ''u'', pp_description = ''d'', pp_roadmap = ''r'', pp_duration = 30,
     pp_members = [''m''], pp_funding_goal = wax_asset 1001, pp_total_iterations = 2\<rparr>"

definition wps_ctx :: "name \<Rightarrow> int \<Rightarrow> ctx" where
  "wps_ctx w day = (sample_ctx 7 [w])\<lparr>ctx_now := (946684800 + day * 86400) * 1000000\<rparr>"

definition wps_setup :: "(ctx \<times> wps_action) list" where
  "wps_setup = [(wps_ctx 7 0, Setwpsenv 5 30 500 6), (wps_ctx 7 0, Setwpsstate (Fin 1000)),
     (wps_ctx 7 0, Regcommittee 20 ''x'' False), (wps_ctx 20 0, Regreviewer 20 30 ''n'' ''l''),
     (wps_ctx 40 0, Regproposer 40 sample_proposer)]"

definition wps_approval :: "(ctx \<times> wps_action) list" where
  "wps_approval = [(wps_ctx 40 0, Regproposal 40 sample_proposal), (wps_ctx 30 0, Acceptprop 30 40),
     (wps_ctx 50 0, Voteproposal 50 [40]), (wps_ctx 30 0, Approve 30 40)]"

definition wps_payment :: "(ctx \<times> wps_action) list" where
  "wps_payment = [(wps_ctx 40 20, Claimfunds 40), (wps_ctx 40 40, Claimfunds 40)]"

definition wps_start :: sys where
  "wps_start = empty_sys\<lparr>voters := put 50 50 ((default_voter 50)\<lparr>staked := 60\<rparr>) no_rows,
     gs := default_gstate\<lparr>total_activated_stake := min_activated_stake\<rparr>\<rparr>"

lemma wps_ctx_simps [simp]:
  "ctx_lib (wps_ctx w d) = std_cdt" "ctx_self (wps_ctx w d) = 7" "has_auth (wps_ctx w d) v \<longleftrightarrow> v = w"
  "ctx_is_account (wps_ctx w d) v" "ctx_math (wps_ctx w d) = std_libm"
  "ctx_now (wps_ctx w d) = (946684800 + d * 86400) * 1000000"
  by (auto simp: wps_ctx_def sample_ctx_def has_auth_def)

lemma sample_forms [simp]:
  "check_proposer_form sample_proposer r = r" "check_texts sample_proposal r' = r'"
  "max_duration_of_funding env \<ge> 30 \<Longrightarrow> check_sizes std_cdt env m sample_proposal r' = r'"
  by (simp_all add: sample_proposer_def sample_proposal_def check_proposer_form_def check_texts_def check_sizes_def
      std_cdt_def wax_asset_def wax_def asset_in_range_def max_amount_def)

lemma sample_proposal_simps [simp]:
  "pp_committee sample_proposal = 20" "pp_duration sample_proposal = 30" "pp_members sample_proposal = [''m'']"
  "pp_total_iterations sample_proposal = 2" "pp_funding_goal sample_proposal = wax_asset 1001"
  by (simp_all add: sample_proposal_def)

lemma setup_run:
  "run wps_step wps_setup wps_start = wps_start\<lparr>
     wps_env := Some \<lparr>total_voting_percent = 5, duration_of_voting = 30, max_duration_of_funding = 500,
        total_iteration_of_funding = 6\<rparr>, wps_total_stake := Fin 1000,
     committees := put 20 7 \<lparr>cm_committeeman = 20, cm_category = ''x'', is_oversight = False\<rparr> no_rows,
     reviewers := put 30 20 \<lparr>rv_account = 30, rv_committee = 20, rv_first_name = ''n'', rv_last_name = ''l''\<rparr> no_rows,
     proposers := put 40 40 \<lparr>pr_account = 40, pr_first_name = ''a'', pr_last_name = ''b'', pr_img_url = ''c'',
        pr_bio = ''d'', pr_country = ''e'', pr_telegram = '''', pr_website = '''', pr_linkedin = '''',
        pr_last_claim_time = 0\<rparr> no_rows\<rparr>"
  by (simp add: wps_setup_def setwpsenv_def setwpsstate_def regcommittee_def regreviewer_def regproposer_def
      require_auth_def check_reviewer_names_def wps_start_def empty_sys_def sample_proposer_def
      check_proposer_form_def)

lemma sample_time [simp]: "seconds_of ((946684800 + d * 86400) * 1000000) = u32 (946684800 + d * 86400)" if "0 \<le> d"
  using that by (simp add: seconds_of_def sdiv_nonneg add.commute mult.commute)

lemma sample_weight: "stake2vote (wps_ctx w 0) n = fmul (of_i64 n) (Fin 1)"
  by (simp add: stake2vote_def seconds_of_def std_libm_def seconds_per_day_def sdiv_nonneg)

lemma sample_epoch: "seconds_of 946684800000000 = 946684800"
  by (simp add: seconds_of_def sdiv_nonneg)

lemma approval_rows:
  "\<exists>p. find_row (proposals (run wps_step (wps_setup @ wps_approval) wps_start)) 40 = Some p \<and> wp_status p = APPROVED \<and>
     wp_iteration_of_funding p = 1 \<and> wp_total_iterations p = 2 \<and> wp_funding_goal p = wax_asset 1001 \<and>
     wp_duration p = 30 \<and> wp_fund_start_time p = 946684800 \<and>
     proposers (run wps_step (wps_setup @ wps_approval) wps_start) = proposers (run wps_step wps_setup wps_start)"
  unfolding run_append setup_run
  by (simp add: wps_approval_def regproposal_def acceptprop_def voteproposal_def approve_def with_reviewer_def
      require_auth_def available_primary_key_def wps_start_def empty_sys_def
      update_wps_votes_def proposal_deltas_def cast_votes_def add_delta_def vote_on_proposal_def sample_weight
      put_entry.rep_eq default_voter_def seconds_per_day_def Let_def fle_def in_i64_def sample_epoch)

lemma wps_start_simps [simp]: "proposals wps_start = no_rows" "wpsvoters wps_start = no_rows"
  by (simp_all add: wps_start_def empty_sys_def)

lemma sample_history_admissible:
  "list_all wps_admissible (wps_setup @ wps_approval)"
  "list_all (\<lambda>a. wps_admissible a \<and> (\<forall>f. snd a \<noteq> Regproposal 40 f)) wps_payment"
  by (simp_all add: wps_setup_def wps_approval_def wps_payment_def std_library.asset_library_axioms)

lemma sample_reachable: "wps_inv (run wps_step (wps_setup @ wps_approval) wps_start)"
  by (rule worker_proposals.run_inv [OF sample_history_admissible(1)]) (simp add: wps_inv_def)

lemma sample_claimable:
  "\<exists>s'. claimfunds (wps_ctx 40 20) 40 (run wps_step (wps_setup @ wps_approval) wps_start) = Inr s'"
proof -
  obtain p where p: "find_row (proposals (run wps_step (wps_setup @ wps_approval) wps_start)) 40 = Some p"
    "wp_status p = APPROVED" "wp_iteration_of_funding p = 1" "wp_total_iterations p = 2"
    "wp_funding_goal p = wax_asset 1001" "wp_duration p = 30" "wp_fund_start_time p = 946684800"
    "proposers (run wps_step (wps_setup @ wps_approval) wps_start) = proposers (run wps_step wps_setup wps_start)"
    using approval_rows by blast
  have row: "find_row (proposers (run wps_step (wps_setup @ wps_approval) wps_start)) 40 \<noteq> None"
    unfolding p(8) setup_run by simp
  show ?thesis
    using p row by (auto simp: claimfunds_def require_auth_def claim_interval_def start_funding_round_def
        seconds_per_day_def wax_asset_def std_cdt_def Let_def simp del: sample_time)
       (auto simp: seconds_of_def sdiv_nonneg)
qed

theorem proposals_follow_their_life_cycle_witness:
  "\<exists>s s'. wps_step (wps_ctx 40 20, Claimfunds 40) s = Inr s' \<and>
     (status_of s' 40 = status_of s 40 \<or> moves (wps_ctx 40 20, Claimfunds 40) s 40 (status_of s 40) (status_of s' 40))"
proof -
  obtain s' where "wps_step (wps_ctx 40 20, Claimfunds 40) (run wps_step (wps_setup @ wps_approval) wps_start) = Inr s'"
    using sample_claimable by auto
  from proposals_follow_their_life_cycle [OF this, of 40] this show ?thesis by blast
qed

theorem vote_changes_rows_witness:
  "\<exists>s s'. voteproposal (wps_ctx 50 0) 50 [] s = Inr s' \<and> wps_voters_ok s'"
proof -
  let ?s = "run wps_step wps_setup wps_start"
  obtain s' where s': "voteproposal (wps_ctx 50 0) 50 [] ?s = Inr s'"
    unfolding setup_run
    by (simp add: voteproposal_def update_wps_votes_def proposal_deltas_def cast_votes_def require_auth_def
        wps_start_def empty_sys_def default_voter_def Let_def)
  have "wps_voters_ok ?s" unfolding setup_run by (simp add: wps_voters_ok_def)
  from vote_changes_rows [OF s' this] s' show ?thesis by blast
qed

theorem claim_succeeds_iff_witness:
  "\<exists>s p. is_ok (claimfunds (wps_ctx 40 20) 40 s) \<and> find_row (proposals s) 40 = Some p \<and> wp_status p = APPROVED"
proof -
  have lib: "asset_library (ctx_lib (wps_ctx 40 20))" by (simp add: std_library.asset_library_axioms)
  show ?thesis
    using claim_succeeds_iff [OF lib sample_reachable, of 40] sample_claimable unfolding is_ok_iff by blast
qed

theorem instalments_stay_within_the_goal_witness:
  "\<exists>s0 s. s = run wps_step wps_payment s0 \<and> paid_to 40 (outbox s) - paid_to 40 (outbox s0) \<le> 1001"
proof -
  obtain p where p: "find_row (proposals (run wps_step (wps_setup @ wps_approval) wps_start)) 40 = Some p"
    "wp_status p \<noteq> PENDING" "wp_iteration_of_funding p = 1" "wp_funding_goal p = wax_asset 1001"
    using approval_rows by (auto simp: status_defs)
  from instalments_stay_within_the_goal [OF sample_history_admissible(1) wps_start_simps(1) refl p(1-3)
      sample_history_admissible(2) refl]
  show ?thesis using p(4) by (auto simp: wax_asset_def)
qed

end
