(* ===== verification/Voting.thy ===== *)
theory Voting
  imports VoteWeight
begin

text \<open>
  Producers, their votes and proxies (\<open>voting.cpp\<close>, without the claims of voters, which are in
  \<open>ProducerPay\<close>). The shares of the vote pay that the code integrates over time are kept as the code
  keeps them, in doubles. \<open>propagate_weight_change\<close> calls itself along a chain of proxies; the model
  bounds the calls by a number, and the lemmas show that the number of voters is always enough.
\<close>

section \<open>Producers\<close>

definition elapsed_seconds :: "int \<Rightarrow> int \<Rightarrow> f64" where
  "elapsed_seconds ct since = fdiv (of_i64 (i64 (ct - since))) (Fin 1000000)"

definition update_total_votepay_share :: "int \<Rightarrow> f64 \<Rightarrow> f64 \<Rightarrow> sys \<Rightarrow> sys" where
  "update_total_votepay_share ct additional_shares_delta shares_rate_delta s =
     (let passed = (if ct > last_vpay_state_update (gs3 s)
                    then fmul (total_vpay_share_change_rate (gs3 s)) (elapsed_seconds ct (last_vpay_state_update (gs3 s)))
                    else Fin 0);
          delta = fadd passed additional_shares_delta;
          share = (if flt delta (Fin 0) \<and> flt (total_producer_votepay_share (gs2 s)) (fneg delta) then Fin 0
                   else fadd (total_producer_votepay_share (gs2 s)) delta);
          rate = (if flt shares_rate_delta (Fin 0) \<and> flt (total_vpay_share_change_rate (gs3 s)) (fneg shares_rate_delta)
                  then Fin 0 else fadd (total_vpay_share_change_rate (gs3 s)) shares_rate_delta) in
      s\<lparr>gs2 := (gs2 s)\<lparr>total_producer_votepay_share := share\<rparr>,
        gs3 := (gs3 s)\<lparr>total_vpay_share_change_rate := rate, last_vpay_state_update := ct\<rparr>\<rparr>)"

definition new_votepay_share :: "int \<Rightarrow> f64 \<Rightarrow> producer_info2 \<Rightarrow> f64" where
  "new_votepay_share ct shares_rate p =
     fadd (votepay_share p)
       (if flt (Fin 0) shares_rate \<and> ct > last_votepay_share_update p
        then fmul shares_rate (elapsed_seconds ct (last_votepay_share_update p)) else Fin 0)"

definition update_producer_votepay_share :: "name \<Rightarrow> producer_info2 \<Rightarrow> int \<Rightarrow> f64 \<Rightarrow> bool \<Rightarrow> sys \<Rightarrow> f64 \<times> sys" where
  "update_producer_votepay_share k p ct shares_rate reset_to_zero s =
     (let share = new_votepay_share ct shares_rate p in
      (share, s\<lparr>producers2 := modify_row same_payer k
         (p\<lparr>votepay_share := (if reset_to_zero then Fin 0 else share), last_votepay_share_update := ct\<rparr>)
         (producers2 s)\<rparr>))"

definition legacy_key :: "block_signing_authority \<Rightarrow> bytes" where
  "legacy_key auth = (case au_keys auth of [(key, _)] \<Rightarrow> key | _ \<Rightarrow> [])"

definition register_producer :: "ctx \<Rightarrow> name \<Rightarrow> block_signing_authority \<Rightarrow> string \<Rightarrow> int \<Rightarrow> sys \<Rightarrow> sys result" where
  "register_producer c producer auth url location s =
     (let ct = ctx_now c; fresh = \<lparr>p2_owner = producer, votepay_share = Fin 0, last_votepay_share_update = ct\<rparr> in
      case find_row (producers s) producer of
        Some info \<Rightarrow>
          let s1 = s\<lparr>producers := modify_row (Some producer) producer
            (info\<lparr>producer_key := legacy_key auth, is_active := True, pi_url := url, pi_location := location,
                  producer_authority := Some auth,
                  pi_last_claim_time := (if pi_last_claim_time info = 0 then ct else pi_last_claim_time info)\<rparr>)
            (producers s)\<rparr> in
          if find_row (producers2 s1) producer = None then
            Inr (update_total_votepay_share ct (Fin 0) (total_votes info)
              (s1\<lparr>producers2 := put producer producer fresh (producers2 s1)\<rparr>))
          else Inr s1
      | None \<Rightarrow>
          bind_result (emplace_row producer producer fresh (producers2 s)) (\<lambda>t2.
          Inr (s\<lparr>producers := put producer producer
            \<lparr>pi_owner = producer, total_votes = Fin 0, producer_key = legacy_key auth, is_active = True,
             pi_url = url, unpaid_blocks = 0, pi_last_claim_time = ct, pi_location = location,
             producer_authority = Some auth\<rparr> (producers s), producers2 := t2\<rparr>)))"

definition regproducer :: "ctx \<Rightarrow> name \<Rightarrow> bytes \<Rightarrow> string \<Rightarrow> int \<Rightarrow> sys \<Rightarrow> sys result" where
  "regproducer c producer key url location s =
     require_auth c producer (
     check (length url < 512) ''url too long'' (
     register_producer c producer (convert_to_block_signing_authority key) url location s))"

text \<open>\<open>is_valid\<close> of an authority is the toolkit's.\<close>

definition regproducer2 :: "(block_signing_authority \<Rightarrow> bool) \<Rightarrow> ctx \<Rightarrow> name \<Rightarrow> block_signing_authority \<Rightarrow>
    string \<Rightarrow> int \<Rightarrow> sys \<Rightarrow> sys result" where
  "regproducer2 authority_valid c producer auth url location s =
     require_auth c producer (
     check (length url < 512) ''url too long'' (
     check (authority_valid auth) ''invalid producer authority'' (
     register_producer c producer auth url location s)))"

definition unregprod :: "ctx \<Rightarrow> name \<Rightarrow> sys \<Rightarrow> sys result" where
  "unregprod c producer s =
     require_auth c producer (
     some_or (find_row (producers s) producer) (Check ''producer not found'') (\<lambda>p.
     Inr (s\<lparr>producers := modify_row same_payer producer (deactivate p) (producers s)\<rparr>)))"

section \<open>The schedule\<close>

text \<open>The index \<open>prototalvote\<close>: rows by \<open>by_votes\<close>, equal ones by name.\<close>

fun insert_by_votes :: "name \<times> producer_info \<Rightarrow> (name \<times> producer_info) list \<Rightarrow> (name \<times> producer_info) list" where
  "insert_by_votes x [] = [x]"
| "insert_by_votes x (y # ys) =
     (if flt (by_votes (snd y)) (by_votes (snd x)) then y # insert_by_votes x ys else x # y # ys)"

definition prototalvote :: "(name, producer_info) table \<Rightarrow> (name \<times> producer_info) list" where
  "prototalvote t = foldr insert_by_votes (rows t) []"

definition top_producers :: "(name, producer_info) table \<Rightarrow> (name \<times> producer_info) list" where
  "top_producers t =
     take 21 (takeWhile (\<lambda>(k, p). flt (Fin 0) (total_votes p) \<and> is_active p) (prototalvote t))"

text \<open>
  \<open>accepted\<close> is the host's answer to \<open>set_proposed_producers\<close>: true when it is not negative.
\<close>

definition update_elected_producers ::
    "((name \<times> block_signing_authority) list \<Rightarrow> bool) \<Rightarrow> int \<Rightarrow> sys \<Rightarrow> sys" where
  "update_elected_producers accepted block_time s =
     (let s1 = s\<lparr>gs := (gs s)\<lparr>last_producer_schedule_update := block_time\<rparr>\<rparr>;
          best = top_producers (producers s1) in
      if best = [] \<or> int (length best) < last_producer_schedule_size (gs s1) then s1
      else
        let schedule = map (\<lambda>(k, p). (pi_owner p, get_producer_authority p))
              (sort_key (\<lambda>(k, p). (pi_location p, pi_owner p)) best);
            s2 = call_host (Set_proposed_producers schedule) s1 in
        if accepted schedule
        then s2\<lparr>gs := (gs s2)\<lparr>last_producer_schedule_size := u16 (int (length best))\<rparr>\<rparr>
        else s2)"

section \<open>Votes\<close>

definition three_days :: int where "three_days = 3 * useconds_per_day"

text \<open>
  The part of the two loops over producers that follows a change of a producer's votes: the share the
  producer has earned is brought up to date, and what the totals change by is collected.
\<close>

definition settle_votepay ::
    "int \<Rightarrow> name \<Rightarrow> producer_info \<Rightarrow> f64 \<Rightarrow> f64 \<Rightarrow> f64 \<times> f64 \<times> sys \<Rightarrow> f64 \<times> f64 \<times> sys" where
  "settle_votepay ct k p init_total_votes delta acc =
     (case acc of (rate, inactive, s) \<Rightarrow>
      case find_row (producers2 s) k of
        None \<Rightarrow> (rate, inactive, s)
      | Some prod2 \<Rightarrow>
          let threshold = i64 (pi_last_claim_time p + three_days);
              crossed_threshold = (threshold \<le> ct);
              updated_after_threshold = (threshold \<le> last_votepay_share_update prod2) in
          case update_producer_votepay_share k prod2 ct (if updated_after_threshold then Fin 0 else init_total_votes)
                 (crossed_threshold \<and> \<not> updated_after_threshold) s of
            (share, s1) \<Rightarrow>
              if \<not> crossed_threshold then (fadd rate delta, inactive, s1)
              else if \<not> updated_after_threshold then (fsub rate init_total_votes, fadd inactive share, s1)
              else (rate, inactive, s1))"

definition fabs :: "f64 \<Rightarrow> f64" where
  "fabs x = (if flt x (Fin 0) then fneg x else x)"

text \<open>One round of the loop of \<open>propagate_weight_change\<close> over a voter's producers.\<close>

definition shift_producer :: "int \<Rightarrow> f64 \<Rightarrow> name \<Rightarrow> f64 \<times> f64 \<times> sys \<Rightarrow> (f64 \<times> f64 \<times> sys) result" where
  "shift_producer ct delta k acc =
     (case acc of (rate, inactive, s) \<Rightarrow>
      some_or (find_row (producers s) k) (Check ''producer not found'') (\<lambda>p.
      let s1 = s\<lparr>producers := modify_row same_payer k (p\<lparr>total_votes := fadd (total_votes p) delta\<rparr>) (producers s),
                 gs := (gs s)\<lparr>total_producer_vote_weight := fadd (total_producer_vote_weight (gs s)) delta\<rparr>\<rparr> in
      Inr (settle_votepay ct k p (total_votes p) delta (rate, inactive, s1))))"

definition full_weight :: "ctx \<Rightarrow> voter_info \<Rightarrow> f64" where
  "full_weight c v =
     (if is_proxy v then fadd (stake2vote c (staked v)) (proxied_vote_weight v) else stake2vote c (staked v))"

definition set_last_weight :: "name \<Rightarrow> f64 \<Rightarrow> sys \<Rightarrow> sys" where
  "set_last_weight w x s =
     (case find_row (voters s) w of None \<Rightarrow> s
      | Some v \<Rightarrow> s\<lparr>voters := modify_row same_payer w (v\<lparr>last_vote_weight := x\<rparr>) (voters s)\<rparr>)"

abbreviation proxied_msg :: string where
  "proxied_msg \<equiv> ''account registered as a proxy is not allowed to use a proxy''"

definition add_proxied :: "name \<Rightarrow> f64 \<Rightarrow> voter_info \<Rightarrow> sys \<Rightarrow> sys" where
  "add_proxied w x v s =
     s\<lparr>voters := modify_row same_payer w (v\<lparr>proxied_vote_weight := fadd (proxied_vote_weight v) x\<rparr>) (voters s)\<rparr>"

abbreviation out_of_calls :: error where "out_of_calls \<equiv> Undefined ''call depth''"

fun propagate_weight_change :: "nat \<Rightarrow> ctx \<Rightarrow> name \<Rightarrow> sys \<Rightarrow> sys result" where
  "propagate_weight_change 0 c w s = Inl out_of_calls"
| "propagate_weight_change (Suc n) c w s =
     some_or (find_row (voters s) w) (Undefined ''end iterator'') (\<lambda>voter.
     check (vi_proxy voter = 0 \<or> \<not> is_proxy voter) proxied_msg (
     let new_weight = full_weight c voter; delta = fsub new_weight (last_vote_weight voter) in
     bind_result
       (if flt (Fin 1) (fabs delta) then
          if vi_proxy voter \<noteq> 0 then
            some_or (find_row (voters s) (vi_proxy voter)) (Check ''proxy not found'') (\<lambda>proxy.
            propagate_weight_change n c (vi_proxy voter) (add_proxied (vi_proxy voter) delta proxy s))
          else
            bind_result (fold_result (shift_producer (ctx_now c) delta) (vi_producers voter) (Fin 0, Fin 0, s))
              (\<lambda>(rate, inactive, s1). Inr (update_total_votepay_share (ctx_now c) (fneg inactive) rate s1))
        else Inr s)
       (\<lambda>s2. Inr (set_last_weight w new_weight s2))))"

text \<open>The calls allowed: one for each voter.\<close>

definition propagate :: "ctx \<Rightarrow> name \<Rightarrow> sys \<Rightarrow> sys result" where
  "propagate c w s = propagate_weight_change (length (rows (voters s))) c w s"

definition update_voter_votepay_share :: "ctx \<Rightarrow> name \<Rightarrow> voter_info \<Rightarrow> sys \<Rightarrow> sys" where
  "update_voter_votepay_share c w v s =
     (let ct = ctx_now c;
          share = (if unpaid_voteshare_last_updated v \<noteq> 0 \<and> unpaid_voteshare_last_updated v < ct
                   then fadd (unpaid_voteshare v)
                          (fmul (unpaid_voteshare_change_rate v) (elapsed_seconds ct (unpaid_voteshare_last_updated v)))
                   else unpaid_voteshare v);
          new_change_rate = (if 16 \<le> length (vi_producers v) \<or> vi_proxy v \<noteq> 0
                             then fsub (last_vote_weight v) (proxied_vote_weight v) else Fin 0);
          change_rate_delta = fsub new_change_rate (unpaid_voteshare_change_rate v);
          total = (if total_unpaid_voteshare_last_updated (gs s) \<noteq> 0 \<and> total_unpaid_voteshare_last_updated (gs s) < ct
                   then fadd (total_unpaid_voteshare (gs s))
                          (fmul (total_voteshare_change_rate (gs s))
                                (elapsed_seconds ct (total_unpaid_voteshare_last_updated (gs s))))
                   else total_unpaid_voteshare (gs s)) in
      s\<lparr>gs := (gs s)\<lparr>total_unpaid_voteshare := total,
                     total_voteshare_change_rate := fadd (total_voteshare_change_rate (gs s)) change_rate_delta,
                     total_unpaid_voteshare_last_updated := ct\<rparr>,
        voters := modify_row same_payer w
          (v\<lparr>unpaid_voteshare := share, unpaid_voteshare_last_updated := ct,
             unpaid_voteshare_change_rate := new_change_rate\<rparr>) (voters s)\<rparr>)"

fun strictly_sorted :: "name list \<Rightarrow> bool" where
  "strictly_sorted (x # y # xs) \<longleftrightarrow> x < y \<and> strictly_sorted (y # xs)"
| "strictly_sorted xs = True"

text \<open>
  The first vote of an account before the chain is activated counts its stake. The three steps of
  \<open>update_votes\<close>: count the stake, take the old vote back and cast the new one, and settle the
  producers whose votes changed.
\<close>

definition activate_stake :: "ctx \<Rightarrow> voter_info \<Rightarrow> sys \<Rightarrow> sys" where
  "activate_stake c v s =
     (if thresh_activated_stake_time (gs s) = 0 \<and> fle (last_vote_weight v) (Fin 0) then
        let total = i64 (total_activated_stake (gs s) + staked v) in
        s\<lparr>gs := (gs s)\<lparr>total_activated_stake := total,
          thresh_activated_stake_time := (if total \<ge> min_activated_stake then ctx_now c
             else thresh_activated_stake_time (gs s))\<rparr>\<rparr>
      else s)"

definition withdraw_old_vote :: "ctx \<Rightarrow> voter_info \<Rightarrow> sys \<Rightarrow> (vote_deltas \<times> sys) result" where
  "withdraw_old_vote c v s =
     (if flt (Fin 0) (last_vote_weight v) then
        if vi_proxy v \<noteq> 0 then
          some_or (find_row (voters s) (vi_proxy v)) (Check ''old proxy not found'') (\<lambda>old.
          bind_result (propagate c (vi_proxy v) (s\<lparr>voters := modify_row same_payer (vi_proxy v)
              (old\<lparr>proxied_vote_weight := fsub (proxied_vote_weight old) (last_vote_weight v)\<rparr>) (voters s)\<rparr>)) (\<lambda>s1.
          Inr (no_rows, s1)))
        else Inr (withdraw_votes (last_vote_weight v) (vi_producers v) no_rows, s)
      else Inr (no_rows, s))"

definition cast_new_vote ::
    "ctx \<Rightarrow> f64 \<Rightarrow> name \<Rightarrow> name list \<Rightarrow> bool \<Rightarrow> vote_deltas \<times> sys \<Rightarrow> (vote_deltas \<times> sys) result" where
  "cast_new_vote c new_vote_weight proxy ps voting ds =
     (case ds of (d, s) \<Rightarrow>
      if proxy \<noteq> 0 then
        some_or (find_row (voters s) proxy) (Check ''invalid proxy specified'') (\<lambda>new.
        check (\<not> voting \<or> is_proxy new) ''proxy not found'' (
        if fle (Fin 0) new_vote_weight then
          bind_result (propagate c proxy (add_proxied proxy new_vote_weight new s)) (\<lambda>s1. Inr (d, s1))
        else Inr (d, s)))
      else Inr (if fle (Fin 0) new_vote_weight then cast_votes new_vote_weight ps d else d, s))"

text \<open>One round of the loop over the collected changes.\<close>

definition vote_on_producer ::
    "ctx \<Rightarrow> bool \<Rightarrow> name \<times> f64 \<times> bool \<Rightarrow> f64 \<times> f64 \<times> sys \<Rightarrow> (f64 \<times> f64 \<times> sys) result" where
  "vote_on_producer c voting pd acc =
     (case pd of (k, delta, from_new) \<Rightarrow> case acc of (rate, inactive, s) \<Rightarrow>
      case find_row (producers s) k of
        Some p \<Rightarrow>
          check (\<not> (voting \<and> \<not> is_active p \<and> from_new))
            (''producer '' @ name_to_string (ctx_lib c) (pi_owner p) @ '' is not currently registered'') (
          let v = fadd (total_votes p) delta;
              s1 = s\<lparr>producers := modify_row same_payer k
                     (p\<lparr>total_votes := (if flt v (Fin 0) then Fin 0 else v)\<rparr>) (producers s),
                   gs := (gs s)\<lparr>total_producer_vote_weight := fadd (total_producer_vote_weight (gs s)) delta\<rparr>\<rparr> in
          Inr (settle_votepay (ctx_now c) k p (total_votes p) delta (rate, inactive, s1)))
      | None \<Rightarrow>
          check (\<not> from_new) (''producer '' @ name_to_string (ctx_lib c) k @ '' is not registered'') (Inr acc))"

definition record_vote :: "name \<Rightarrow> f64 \<Rightarrow> name \<Rightarrow> name list \<Rightarrow> ctx \<Rightarrow> sys \<Rightarrow> sys" where
  "record_vote w new_vote_weight proxy ps c s =
     (case find_row (voters s) w of None \<Rightarrow> s
      | Some v \<Rightarrow>
          let v1 = v\<lparr>last_vote_weight := new_vote_weight, vi_producers := ps, vi_proxy := proxy\<rparr> in
          update_voter_votepay_share c w v1 (s\<lparr>voters := modify_row same_payer w v1 (voters s)\<rparr>))"

definition update_votes :: "ctx \<Rightarrow> name \<Rightarrow> name \<Rightarrow> name list \<Rightarrow> bool \<Rightarrow> sys \<Rightarrow> sys result" where
  "update_votes c voter_name proxy ps voting s =
     check (proxy = 0 \<or> ps = []) ''cannot vote for producers and proxy at same time'' (
     check (proxy = 0 \<or> voter_name \<noteq> proxy) ''cannot proxy to self'' (
     check (proxy \<noteq> 0 \<or> length ps \<le> 30) ''attempt to vote for too many producers'' (
     check (proxy \<noteq> 0 \<or> strictly_sorted ps) ''producer votes must be unique and sorted'' (
     some_or (find_row (voters s) voter_name) (Check ''user must stake before they can vote'') (\<lambda>voter.
     check (proxy = 0 \<or> \<not> is_proxy voter) proxied_msg (
     let s1 = activate_stake c voter s; new_vote_weight = full_weight c voter in
     bind_result (withdraw_old_vote c voter s1) (\<lambda>ds1.
     bind_result (cast_new_vote c new_vote_weight proxy ps voting ds1) (\<lambda>(d, s2).
     bind_result (fold_result (vote_on_producer c voting) (entries d) (Fin 0, Fin 0, s2)) (\<lambda>(rate, inactive, s3).
     Inr (record_vote voter_name new_vote_weight proxy ps c
       (update_total_votepay_share (ctx_now c) (fneg inactive) rate s3)))))))))))"

definition voteproducer :: "ctx \<Rightarrow> name \<Rightarrow> name \<Rightarrow> name list \<Rightarrow> sys \<Rightarrow> sys result" where
  "voteproducer c voter_name proxy ps s = require_auth c voter_name (update_votes c voter_name proxy ps True s)"

definition regproxy :: "ctx \<Rightarrow> name \<Rightarrow> bool \<Rightarrow> sys \<Rightarrow> sys result" where
  "regproxy c proxy isproxy s =
     require_auth c proxy (
     case find_row (voters s) proxy of
       Some v \<Rightarrow>
         check (isproxy \<noteq> is_proxy v) ''action has no effect'' (
         check (\<not> isproxy \<or> vi_proxy v = 0) ''account that uses a proxy is not allowed to become a proxy'' (
         propagate c proxy (s\<lparr>voters := modify_row same_payer proxy (v\<lparr>is_proxy := isproxy\<rparr>) (voters s)\<rparr>)))
     | None \<Rightarrow> Inr (s\<lparr>voters := put proxy proxy ((default_voter proxy)\<lparr>is_proxy := isproxy\<rparr>) (voters s)\<rparr>))"

end
