(* ===== verification/Bandwidth.thy ===== *)
theory Bandwidth
  imports Voting Wps
begin

text \<open>
  Staking (\<open>delegate_bandwidth.cpp\<close>, without the RAM market, which is in \<open>Ram\<close>): \<open>delegatebw\<close> and
  \<open>undelegatebw\<close> with what \<open>changebw\<close> does in its four blocks, the refunds, the genesis tokens that a
  stake earns, and the voting power that follows the stake. Asset arithmetic is the toolkit's.
\<close>

section \<open>Helpers\<close>

text \<open>A row that the code emplaces or modifies and then erases when it is empty.\<close>

definition keep_row :: "name \<Rightarrow> name option \<Rightarrow> bool \<Rightarrow> 'k::linorder \<Rightarrow> 'v \<Rightarrow> ('k, 'v) table \<Rightarrow> ('k, 'v) table" where
  "keep_row creator modifier gone k r t =
     (if gone then erase_row k t
      else case find_row t k of None \<Rightarrow> put k creator r t | Some _ \<Rightarrow> modify_row modifier k r t)"

text \<open>\<open>check(a >= b, msg)\<close> on assets: the toolkit aborts when the symbols differ.\<close>

definition check_at_least :: "cdt \<Rightarrow> asset \<Rightarrow> asset \<Rightarrow> string \<Rightarrow> 'a result \<Rightarrow> 'a result" where
  "check_at_least L a b msg r = some_or (asset_less L a b) overflow (\<lambda>less. check (\<not> less) msg r)"

text \<open>\<open>asset( amount, core_symbol() )\<close>.\<close>

definition core_asset :: "cdt \<Rightarrow> int \<Rightarrow> sys \<Rightarrow> asset result" where
  "core_asset L n s = bind_result (core_symbol s) (\<lambda>core. some_or (mk_asset L n core) overflow Inr)"

section \<open>Voting power\<close>

definition b1_account :: name where "b1_account = name_of ''b1''"

definition validate_b1_vesting :: "ctx \<Rightarrow> int \<Rightarrow> 'a result \<Rightarrow> 'a result" where
  "validate_b1_vesting c stake r =
     (let base_time = 1527811200; max_claimable = 1000000000000 in
      bind_result (to_i64 (fdiv (fmul (of_i64 max_claimable) (of_i64 (seconds_of (ctx_now c) - base_time)))
                                (of_i64 (10 * seconds_per_year)))) (\<lambda>claimable.
      check (max_claimable - claimable \<le> stake) ''b1 can only claim their tokens over 10 years'' r))"

definition update_voting_power :: "ctx \<Rightarrow> name \<Rightarrow> asset \<Rightarrow> sys \<Rightarrow> sys result" where
  "update_voting_power c voter total_update s =
     (let v = (case find_row (voters s) voter of
                 None \<Rightarrow> (default_voter voter)\<lparr>staked := amount total_update\<rparr>
               | Some v \<Rightarrow> v\<lparr>staked := i64 (staked v + amount total_update)\<rparr>);
          s1 = s\<lparr>voters := (case find_row (voters s) voter of
                 None \<Rightarrow> put voter voter v (voters s)
               | Some _ \<Rightarrow> modify_row same_payer voter v (voters s))\<rparr> in
      check (0 \<le> staked v) ''stake for voting cannot be negative'' (
      bind_result (if voter = b1_account then validate_b1_vesting c (staked v) (Inr s1) else Inr s1) (\<lambda>s2.
      bind_result (if vi_producers v \<noteq> [] \<or> vi_proxy v \<noteq> 0
                   then update_votes c voter (vi_proxy v) (vi_producers v) False s2 else Inr s2) (\<lambda>s3.
      case find_row (wpsvoters s3) voter of
        None \<Rightarrow> Inr s3
      | Some wv \<Rightarrow> update_wps_votes c voter (wv_proposals wv) s3))))"

section \<open>The blocks of changebw\<close>

definition update_delband :: "ctx \<Rightarrow> name \<Rightarrow> name \<Rightarrow> asset \<Rightarrow> asset \<Rightarrow> sys \<Rightarrow> sys result" where
  "update_delband c frm receiver stake_net_delta stake_cpu_delta s =
     bind_result
       (case find_row (delband s) (frm, receiver) of
          None \<Rightarrow> Inr \<lparr>db_from = frm, db_to = receiver, db_net_weight = stake_net_delta, db_cpu_weight = stake_cpu_delta\<rparr>
        | Some dbo \<Rightarrow>
            some_or (asset_plus (ctx_lib c) (db_net_weight dbo) stake_net_delta) overflow (\<lambda>net.
            some_or (asset_plus (ctx_lib c) (db_cpu_weight dbo) stake_cpu_delta) overflow (\<lambda>cpu.
            Inr (dbo\<lparr>db_net_weight := net, db_cpu_weight := cpu\<rparr>)))) (\<lambda>row.
     check (0 \<le> amount (db_net_weight row)) ''insufficient staked net bandwidth'' (
     check (0 \<le> amount (db_cpu_weight row)) ''insufficient staked cpu bandwidth'' (
     Inr (s\<lparr>delband := keep_row frm same_payer (db_is_empty row) (frm, receiver) row (delband s)\<rparr>))))"

text \<open>The limits that follow the totals of an account, but for those the system manages.\<close>

definition apply_limits :: "name \<Rightarrow> user_resources \<Rightarrow> sys \<Rightarrow> sys" where
  "apply_limits receiver tot s =
     (if managed s receiver net_managed \<and> managed s receiver cpu_managed then s
      else case get_resource_limits s receiver of (ram_bytes, net, cpu) \<Rightarrow>
        set_resource_limits receiver
          (if managed s receiver ram_managed then ram_bytes else max (i64 (ur_ram_bytes tot + ram_gift_bytes)) ram_bytes)
          (if managed s receiver net_managed then net else amount (ur_net_weight tot))
          (if managed s receiver cpu_managed then cpu else amount (ur_cpu_weight tot)) s)"

definition update_totals :: "ctx \<Rightarrow> name \<Rightarrow> name \<Rightarrow> asset \<Rightarrow> asset \<Rightarrow> sys \<Rightarrow> sys result" where
  "update_totals c frm receiver stake_net_delta stake_cpu_delta s =
     bind_result
       (case find_row (userres s) receiver of
          None \<Rightarrow> Inr \<lparr>ur_owner = receiver, ur_net_weight = stake_net_delta, ur_cpu_weight = stake_cpu_delta, ur_ram_bytes = 0\<rparr>
        | Some tot \<Rightarrow>
            some_or (asset_plus (ctx_lib c) (ur_net_weight tot) stake_net_delta) overflow (\<lambda>net.
            some_or (asset_plus (ctx_lib c) (ur_cpu_weight tot) stake_cpu_delta) overflow (\<lambda>cpu.
            Inr (tot\<lparr>ur_net_weight := net, ur_cpu_weight := cpu\<rparr>)))) (\<lambda>row.
     check (0 \<le> amount (ur_net_weight row)) ''insufficient staked total net bandwidth'' (
     check (0 \<le> amount (ur_cpu_weight row)) ''insufficient staked total cpu bandwidth'' (
     Inr ((apply_limits receiver row s)\<lparr>userres :=
       keep_row frm (if frm = receiver then Some frm else same_payer) (ur_is_empty row) receiver row (userres s)\<rparr>))))"

text \<open>
  A refund takes up a change of the stake: what remains of the request, and what of the change is
  left to be paid.
\<close>

definition offset_refund :: "cdt \<Rightarrow> asset \<Rightarrow> asset \<Rightarrow> (asset \<times> asset) result" where
  "offset_refund L requested balance =
     some_or (asset_minus L requested balance) overflow (\<lambda>r.
     Inr (if amount r < 0 then (r\<lparr>amount := 0\<rparr>, asset_neg L r) else (r, balance\<lparr>amount := 0\<rparr>)))"

definition open_refund :: "cdt \<Rightarrow> asset \<Rightarrow> sys \<Rightarrow> (asset \<times> asset) result" where
  "open_refund L balance s =
     (if amount balance < 0 then Inr (asset_neg L balance, balance\<lparr>amount := 0\<rparr>)
      else bind_result (core_asset L 0 s) (\<lambda>zero. Inr (zero, balance)))"

definition update_refund :: "ctx \<Rightarrow> name \<Rightarrow> asset \<Rightarrow> asset \<Rightarrow> sys \<Rightarrow> (asset \<times> asset \<times> sys) result" where
  "update_refund c frm net_balance cpu_balance s =
     (case find_row (refunds s) frm of
        Some r \<Rightarrow>
          let requested = (if amount net_balance < 0 \<or> amount cpu_balance < 0 then seconds_of (ctx_now c) else request_time r) in
          bind_result (offset_refund (ctx_lib c) (net_amount r) net_balance) (\<lambda>(net, net_left).
          bind_result (offset_refund (ctx_lib c) (cpu_amount r) cpu_balance) (\<lambda>(cpu, cpu_left).
          let row = r\<lparr>request_time := requested, net_amount := net, cpu_amount := cpu\<rparr> in
          check (0 \<le> amount net) ''negative net refund amount'' (
          check (0 \<le> amount cpu) ''negative cpu refund amount'' (
          Inr (net_left, cpu_left, s\<lparr>refunds := keep_row frm same_payer (rr_is_empty row) frm row (refunds s)\<rparr>)))))
      | None \<Rightarrow>
          if amount net_balance < 0 \<or> amount cpu_balance < 0 then
            bind_result (open_refund (ctx_lib c) net_balance s) (\<lambda>(net, net_left).
            bind_result (open_refund (ctx_lib c) cpu_balance s) (\<lambda>(cpu, cpu_left).
            Inr (net_left, cpu_left, s\<lparr>refunds := put frm frm
              \<lparr>rr_owner = frm, request_time = seconds_of (ctx_now c), net_amount = net, cpu_amount = cpu\<rparr> (refunds s)\<rparr>)))
          else Inr (net_balance, cpu_balance, s))"

definition settle_stake :: "ctx \<Rightarrow> name \<Rightarrow> name \<Rightarrow> name \<Rightarrow> asset \<Rightarrow> asset \<Rightarrow> bool \<Rightarrow> sys \<Rightarrow> sys result" where
  "settle_stake c source_stake_from frm receiver stake_net_delta stake_cpu_delta transfer s =
     (if stake_account = source_stake_from then Inr s
      else
        let is_undelegating = (i64 (amount stake_net_delta + amount stake_cpu_delta) < 0);
            is_delegating_to_self = (\<not> transfer \<and> frm = receiver) in
        bind_result (if is_delegating_to_self \<or> is_undelegating
                     then update_refund c frm stake_net_delta stake_cpu_delta s
                     else Inr (stake_net_delta, stake_cpu_delta, s)) (\<lambda>(net_balance, cpu_balance, s1).
        some_or (asset_plus (ctx_lib c) net_balance cpu_balance) overflow (\<lambda>transfer_amount.
        Inr (if 0 < amount transfer_amount
             then send_token [(source_stake_from, active_permission)]
                    (Transfer source_stake_from stake_account transfer_amount ''stake bandwidth'') s1
             else s1))))"

definition changebw :: "ctx \<Rightarrow> name \<Rightarrow> name \<Rightarrow> asset \<Rightarrow> asset \<Rightarrow> bool \<Rightarrow> sys \<Rightarrow> sys result" where
  "changebw c source_stake_from receiver stake_net_delta stake_cpu_delta transfer s =
     require_auth c source_stake_from (
     check (amount stake_net_delta \<noteq> 0 \<or> amount stake_cpu_delta \<noteq> 0) ''should stake non-zero amount'' (
     some_or (asset_plus (ctx_lib c) stake_net_delta stake_cpu_delta) overflow (\<lambda>total.
     check (\<bar>amount total\<bar> \<ge> max \<bar>amount stake_net_delta\<bar> \<bar>amount stake_cpu_delta\<bar>)
       ''net and cpu deltas cannot be opposite signs'' (
     let frm = (if transfer then receiver else source_stake_from) in
     bind_result (update_delband c frm receiver stake_net_delta stake_cpu_delta s) (\<lambda>s1.
     bind_result (update_totals c frm receiver stake_net_delta stake_cpu_delta s1) (\<lambda>s2.
     bind_result (settle_stake c source_stake_from frm receiver stake_net_delta stake_cpu_delta transfer s2) (\<lambda>s3.
     update_voting_power c frm total
       (s3\<lparr>wps_total_stake := fadd (wps_total_stake s3)
          (of_i64 (i64 (amount stake_net_delta + amount stake_cpu_delta)))\<rparr>))))))))"

section \<open>Genesis tokens\<close>

text \<open>The row that \<open>genesis_balance_table(_self, owner)\<close> keeps under the code of the core symbol.\<close>

definition genesis_row :: "name \<Rightarrow> string \<Rightarrow> sys \<Rightarrow> (name \<times> symbol_code \<Rightarrow> genesis_tokens \<Rightarrow> 'a result) \<Rightarrow> 'a result" where
  "genesis_row owner msg s f =
     bind_result (core_symbol s) (\<lambda>core.
     some_or (find_row (genesis s) (owner, sym_code core)) (Check msg) (f (owner, sym_code core)))"

definition get_unclaimed_gbm_balance :: "ctx \<Rightarrow> name \<Rightarrow> sys \<Rightarrow> int result" where
  "get_unclaimed_gbm_balance c claimer s =
     (if ctx_now c \<le> gbm_initial_time then Inr 0
      else genesis_row claimer ''no genesis balance object found'' s (\<lambda>_ row.
        let claim_time = min (ctx_now c) gbm_final_time in
        if claim_time \<le> last_updated row then Inr (amount (unclaimed_balance row))
        else
          let elapsed_useconds = i64 (claim_time - last_updated row) in
          bind_result (to_i64 (fmul (of_i64 (amount (gt_balance row)))
              (fdiv (of_i64 elapsed_useconds) (of_i64 useconds_in_gbm_period)))) (\<lambda>earned.
          Inr (i64 (earned + amount (unclaimed_balance row))))))"

definition claimgenesis :: "ctx \<Rightarrow> name \<Rightarrow> sys \<Rightarrow> sys result" where
  "claimgenesis c claimer s =
     require_auth c claimer (
     genesis_row claimer ''no genesis balance object found'' s (\<lambda>k row.
     check (i64 (ctx_now c - gt_last_claim_time row) > useconds_per_day) ''already claimed rewards within past day'' (
     bind_result (get_unclaimed_gbm_balance c claimer s) (\<lambda>unclaimed.
     check (unclaimed > 0) ''nothing to claim'' (
     bind_result (core_asset (ctx_lib c) 0 s) (\<lambda>zero_asset.
     let s1 = s\<lparr>genesis := (if gt_balance row = zero_asset then erase_row k (genesis s)
           else modify_row (Some claimer) k
             (row\<lparr>gt_last_claim_time := ctx_now c, last_updated := ctx_now c, unclaimed_balance := zero_asset\<rparr>)
             (genesis s))\<rparr> in
     bind_result (core_asset (ctx_lib c) unclaimed s1) (\<lambda>payable_rewards.
     Inr (send_token [(genesis_account, active_permission)]
       (Transfer genesis_account claimer payable_rewards ''claimgenesis'') s1))))))))"

definition has_genesis_balance :: "name \<Rightarrow> sys \<Rightarrow> bool result" where
  "has_genesis_balance owner s =
     bind_result (core_symbol s) (\<lambda>core.
     Inr (case find_row (genesis s) (owner, sym_code core) of None \<Rightarrow> False | Some g \<Rightarrow> amount (gt_balance g) > 0))"

text \<open>What is left of a genesis balance when the stake of its owner is \<open>staked_to_self\<close>.\<close>

definition remaining_genesis :: "cdt \<Rightarrow> delegated_bandwidth option \<Rightarrow> asset \<Rightarrow> asset \<Rightarrow> (asset \<times> asset) result" where
  "remaining_genesis L self_stake zero_asset balance =
     (case self_stake of
        None \<Rightarrow> Inr (zero_asset, balance)
      | Some del_bw \<Rightarrow>
          some_or (asset_plus L (db_net_weight del_bw) (db_cpu_weight del_bw)) overflow (\<lambda>total.
          some_or (asset_less L balance total) overflow (\<lambda>less.
          let left = (if less then balance else total) in
          some_or (asset_minus L balance left) overflow (\<lambda>withdrawn. Inr (left, withdrawn)))))"

text \<open>The part of the withdrawn tokens that had not vested is burnt.\<close>

definition burn_unvested :: "ctx \<Rightarrow> asset \<Rightarrow> sys \<Rightarrow> sys result" where
  "burn_unvested c withdrawn_genesis s =
     (let unstake_time = min (ctx_now c) gbm_final_time;
          delta_time_usec = i64 (gbm_final_time - unstake_time) in
      bind_result (to_i64 (fmul (of_i64 (amount withdrawn_genesis))
          (fdiv (of_i64 delta_time_usec) (of_i64 useconds_in_gbm_period)))) (\<lambda>to_burn_amount.
      if to_burn_amount > 0 then
        bind_result (core_asset (ctx_lib c) to_burn_amount s) (\<lambda>to_burn.
        Inr (send_token [(ctx_self c, active_permission)]
               (Retire to_burn ''to burn pre-minted tokens from unstaking.'')
            (send_token [(genesis_account, active_permission)]
               (Transfer genesis_account (ctx_self c) to_burn
                  ''transfering back to eosio to burn pre-minted tokens from unstaking.'') s)))
      else Inr s))"

definition change_genesis :: "ctx \<Rightarrow> name \<Rightarrow> sys \<Rightarrow> sys result" where
  "change_genesis c owner s =
     bind_result (has_genesis_balance owner s) (\<lambda>has.
     if \<not> has then Inr s
     else genesis_row owner ''no balance object found'' s (\<lambda>k g.
       bind_result (get_unclaimed_gbm_balance c owner s) (\<lambda>unclaimed.
       bind_result (core_asset (ctx_lib c) 0 s) (\<lambda>zero_asset.
       bind_result (core_asset (ctx_lib c) unclaimed s) (\<lambda>unclaimed_asset.
       bind_result (remaining_genesis (ctx_lib c) (find_row (delband s) (owner, owner)) zero_asset (gt_balance g))
         (\<lambda>(left, withdrawn_genesis).
       let g1 = g\<lparr>unclaimed_balance := unclaimed_asset, last_updated := ctx_now c, gt_balance := left\<rparr>;
           s1 = s\<lparr>genesis := (if gt_balance g1 = zero_asset \<and> unclaimed_balance g1 = zero_asset
                   then erase_row k (genesis s) else modify_row (Some owner) k g1 (genesis s))\<rparr> in
       burn_unvested c withdrawn_genesis s1))))))"

section \<open>Actions\<close>

definition delegatebw :: "ctx \<Rightarrow> name \<Rightarrow> name \<Rightarrow> asset \<Rightarrow> asset \<Rightarrow> bool \<Rightarrow> sys \<Rightarrow> sys result" where
  "delegatebw c frm receiver stake_net_quantity stake_cpu_quantity transfer s =
     bind_result (core_asset (ctx_lib c) 0 s) (\<lambda>zero_asset.
     check_at_least (ctx_lib c) stake_cpu_quantity zero_asset ''must stake a positive amount'' (
     check_at_least (ctx_lib c) stake_net_quantity zero_asset ''must stake a positive amount'' (
     check (i64 (amount stake_net_quantity + amount stake_cpu_quantity) > 0) ''must stake a positive amount'' (
     check (\<not> transfer \<or> frm \<noteq> receiver) ''cannot use transfer flag if delegating to self'' (
     changebw c frm receiver stake_net_quantity stake_cpu_quantity transfer s)))))"

definition undelegatebw :: "ctx \<Rightarrow> name \<Rightarrow> name \<Rightarrow> asset \<Rightarrow> asset \<Rightarrow> sys \<Rightarrow> sys result" where
  "undelegatebw c frm receiver unstake_net_quantity unstake_cpu_quantity s =
     bind_result (core_asset (ctx_lib c) 0 s) (\<lambda>zero_asset.
     check_at_least (ctx_lib c) unstake_cpu_quantity zero_asset ''must unstake a positive amount'' (
     check_at_least (ctx_lib c) unstake_net_quantity zero_asset ''must unstake a positive amount'' (
     check (i64 (amount unstake_cpu_quantity + amount unstake_net_quantity) > 0) ''must unstake a positive amount'' (
     check (thresh_activated_stake_time (gs s) \<noteq> 0)
       ''cannot undelegate bandwidth until the chain is activated (at least 15% of all tokens participate in voting)'' (
     bind_result (changebw c frm receiver (asset_neg (ctx_lib c) unstake_net_quantity)
         (asset_neg (ctx_lib c) unstake_cpu_quantity) False s)
       (change_genesis c receiver))))))"

definition refund :: "ctx \<Rightarrow> name \<Rightarrow> sys \<Rightarrow> sys result" where
  "refund c owner s =
     require_auth c owner (
     some_or (find_row (refunds s) owner) (Check ''refund request not found'') (\<lambda>req.
     check (i64 (request_time req * 1000000 + refund_delay_sec * 1000000) \<le> ctx_now c) ''refund is not available yet'' (
     some_or (asset_plus (ctx_lib c) (net_amount req) (cpu_amount req)) overflow (\<lambda>total.
     Inr ((send_token [(stake_account, active_permission), (rr_owner req, active_permission)]
             (Transfer stake_account (rr_owner req) total ''unstake'') s)
          \<lparr>refunds := erase_row owner (refunds s)\<rparr>)))))"

text \<open>Tokens are taken out of the part for the network first.\<close>

definition reduce_refund :: "cdt \<Rightarrow> asset \<Rightarrow> asset \<Rightarrow> refund_request \<Rightarrow> refund_request result" where
  "reduce_refund L tokens zero_asset req =
     some_or (asset_less L (net_amount req) tokens) overflow (\<lambda>less.
     if \<not> less then
       some_or (asset_minus L (net_amount req) tokens) overflow (\<lambda>net. Inr (req\<lparr>net_amount := net\<rparr>))
     else
       some_or (asset_minus L tokens (net_amount req)) overflow (\<lambda>rest.
       some_or (asset_minus L (cpu_amount req) rest) overflow (\<lambda>cpu.
       Inr (req\<lparr>cpu_amount := cpu, net_amount := zero_asset\<rparr>))))"

definition removerefund :: "ctx \<Rightarrow> name \<Rightarrow> asset \<Rightarrow> sys \<Rightarrow> sys result" where
  "removerefund c account tokens s =
     require_auth c (ctx_self c) (
     bind_result (core_asset (ctx_lib c) 0 s) (\<lambda>zero_asset.
     some_or (find_row (refunds s) account) (Check ''no refund found'') (\<lambda>req.
     some_or (asset_plus (ctx_lib c) (net_amount req) (cpu_amount req)) overflow (\<lambda>total.
     check_at_least (ctx_lib c) total tokens ''account does not have enough staked tokens'' (
     if total = tokens then Inr (s\<lparr>refunds := erase_row account (refunds s)\<rparr>)
     else
       bind_result (reduce_refund (ctx_lib c) tokens zero_asset req) (\<lambda>row.
       Inr (s\<lparr>refunds := modify_row same_payer account row (refunds s)\<rparr>)))))))"

section \<open>The actions on stakes and votes together\<close>

datatype stake_action =
    Delegatebw name name asset asset bool
  | Undelegatebw name name asset asset
  | Refund name
  | Removerefund name asset
  | Claimgenesis name
  | Voteproducer name name "name list"
  | Regproxy name bool
  | Regproducer name bytes string int
  | Unregprod name

fun stake_step :: "ctx \<times> stake_action \<Rightarrow> sys \<Rightarrow> sys result" where
  "stake_step (c, Delegatebw f r n p t) s = delegatebw c f r n p t s"
| "stake_step (c, Undelegatebw f r n p) s = undelegatebw c f r n p s"
| "stake_step (c, Refund w) s = refund c w s"
| "stake_step (c, Removerefund w q) s = removerefund c w q s"
| "stake_step (c, Claimgenesis w) s = claimgenesis c w s"
| "stake_step (c, Voteproducer w p ps) s = voteproducer c w p ps s"
| "stake_step (c, Regproxy w b) s = regproxy c w b s"
| "stake_step (c, Regproducer w k u l) s = regproducer c w k u l s"
| "stake_step (c, Unregprod w) s = unregprod c w s"

end
