(* ===== verification/VotingLemmas.thy ===== *)
theory VotingLemmas
  imports Voting
begin

text \<open>
  What the voting code leaves alone: every action on votes keeps the rows of the other tables and what
  was sent, and changes of a voter's row at most the vote itself. From the shape of the voters the
  lemmas derive that a chain of proxies has no cycle and that \<open>propagate_weight_change\<close> always returns.
\<close>

section \<open>Frames\<close>

text \<open>The part of a voter's row that decides where its weight goes, and the tables that hold tokens.\<close>

record voter_shape =
  sh_owner :: name
  sh_proxy :: name
  sh_producers :: "name list"
  sh_staked :: int
  sh_is_proxy :: bool
  sh_flags :: flags

definition voter_shape :: "voter_info \<Rightarrow> voter_shape" where
  "voter_shape v = \<lparr>sh_owner = vi_owner v, sh_proxy = vi_proxy v, sh_producers = vi_producers v,
     sh_staked = staked v, sh_is_proxy = is_proxy v, sh_flags = flags1 v\<rparr>"

definition shapes :: "sys \<Rightarrow> name \<Rightarrow> voter_shape option" where
  "shapes s k = map_option voter_shape (find_row (voters s) k)"

record holdings =
  h_userres :: "(name, user_resources) table"
  h_delband :: "(name \<times> name, delegated_bandwidth) table"
  h_refunds :: "(name, refund_request) table"
  h_genesis :: "(name \<times> symbol_code, genesis_tokens) table"
  h_outbox :: "inline_action list"
  h_market :: "exchange_state option"
  h_limits :: "name \<Rightarrow> int \<times> int \<times> int"
  h_ram :: "int \<times> int"
  h_power :: "powerup_state option \<times> (int, powerup_order) table"

definition holdings :: "sys \<Rightarrow> holdings" where
  "holdings s = \<lparr>h_userres = userres s, h_delband = delband s, h_refunds = refunds s, h_genesis = genesis s,
     h_outbox = outbox s, h_market = rammarket s, h_limits = resource_limits s,
     h_ram = (max_ram_size (gs s), total_ram_bytes_reserved (gs s)), h_power = (powerup_st s, powerup_orders s)\<rparr>"

lemma holdingsD:
  assumes "holdings s' = holdings s"
  shows "userres s' = userres s" "delband s' = delband s" "refunds s' = refunds s" "genesis s' = genesis s"
    "outbox s' = outbox s" "rammarket s' = rammarket s" "resource_limits s' = resource_limits s"
    "max_ram_size (gs s') = max_ram_size (gs s)" "total_ram_bytes_reserved (gs s') = total_ram_bytes_reserved (gs s)"
    "powerup_st s' = powerup_st s" "powerup_orders s' = powerup_orders s"
  using assms by (simp_all add: holdings_def)

lemma holdings_gs [simp]:
  "max_ram_size a = max_ram_size (gs s) \<Longrightarrow> total_ram_bytes_reserved a = total_ram_bytes_reserved (gs s) \<Longrightarrow>
   holdings (s\<lparr>gs := a\<rparr>) = holdings s"
  by (simp add: holdings_def)

lemma holdings_updates [simp]:
  "holdings (s\<lparr>gs2 := b\<rparr>) = holdings s" "holdings (s\<lparr>gs3 := d\<rparr>) = holdings s"
  "holdings (s\<lparr>voters := e\<rparr>) = holdings s" "holdings (s\<lparr>producers := f\<rparr>) = holdings s"
  "holdings (s\<lparr>producers2 := g\<rparr>) = holdings s" "holdings (s\<lparr>proposals := h\<rparr>) = holdings s"
  "holdings (s\<lparr>wpsvoters := i\<rparr>) = holdings s" "holdings (s\<lparr>wps_total_stake := x\<rparr>) = holdings s"
  by (simp_all add: holdings_def)

lemma shapes_updates [simp]:
  "shapes (s\<lparr>gs := a\<rparr>) = shapes s" "shapes (s\<lparr>gs2 := b\<rparr>) = shapes s" "shapes (s\<lparr>gs3 := d\<rparr>) = shapes s"
  "shapes (s\<lparr>producers := f\<rparr>) = shapes s" "shapes (s\<lparr>producers2 := g\<rparr>) = shapes s"
  "shapes (s\<lparr>proposals := h\<rparr>) = shapes s" "shapes (s\<lparr>wpsvoters := i\<rparr>) = shapes s"
  "shapes (s\<lparr>wps_total_stake := x\<rparr>) = shapes s" "shapes (s\<lparr>delband := j\<rparr>) = shapes s"
  "shapes (s\<lparr>userres := u\<rparr>) = shapes s" "shapes (s\<lparr>refunds := r\<rparr>) = shapes s"
  "shapes (s\<lparr>genesis := q\<rparr>) = shapes s" "shapes (s\<lparr>outbox := o'\<rparr>) = shapes s"
  "shapes (s\<lparr>resource_limits := l\<rparr>) = shapes s"
  by (simp_all add: shapes_def fun_eq_iff)

lemma shapes_modify:
  "find_row (voters s) k = Some v \<Longrightarrow>
   shapes (s\<lparr>voters := modify_row p k w (voters s)\<rparr>) = (shapes s)(k \<mapsto> voter_shape w)"
  by (simp add: shapes_def fun_eq_iff)

lemma shapes_modify_same:
  "find_row (voters s) k = Some v \<Longrightarrow> voter_shape w = voter_shape v \<Longrightarrow>
   shapes (s\<lparr>voters := modify_row p k w (voters s)\<rparr>) = shapes s"
  by (simp add: shapes_def fun_eq_iff)

text \<open>What the rewrite rules below are about: the holdings and the shapes together.\<close>

definition kept :: "sys \<Rightarrow> holdings \<times> (name \<Rightarrow> voter_shape option)" where
  "kept s = (holdings s, shapes s)"

lemma kept_gs [simp]:
  "max_ram_size a = max_ram_size (gs s) \<Longrightarrow> total_ram_bytes_reserved a = total_ram_bytes_reserved (gs s) \<Longrightarrow>
   kept (s\<lparr>gs := a\<rparr>) = kept s"
  by (simp add: kept_def)

lemma kept_updates [simp]:
  "kept (s\<lparr>gs2 := b\<rparr>) = kept s" "kept (s\<lparr>gs3 := d\<rparr>) = kept s"
  "kept (s\<lparr>producers := f\<rparr>) = kept s" "kept (s\<lparr>producers2 := g\<rparr>) = kept s"
  "kept (s\<lparr>proposals := h\<rparr>) = kept s" "kept (s\<lparr>wpsvoters := i\<rparr>) = kept s"
  "kept (s\<lparr>wps_total_stake := x\<rparr>) = kept s"
  by (simp_all add: kept_def)

lemma kept_modify:
  "find_row (voters s) k = Some v \<Longrightarrow> voter_shape w = voter_shape v \<Longrightarrow>
   kept (s\<lparr>voters := modify_row p k w (voters s)\<rparr>) = kept s"
  by (simp add: kept_def shapes_modify_same)

lemma kept_total [simp]: "kept (update_total_votepay_share t x y s) = kept s"
  by (simp add: update_total_votepay_share_def Let_def)

lemma kept_settle: "settle_votepay ct k p v d acc = (r, i, s') \<Longrightarrow> kept s' = kept (snd (snd acc))"
  by (auto simp: settle_votepay_def update_producer_votepay_share_def Let_def split: prod.splits option.splits if_splits)

lemma kept_shift: "shift_producer ct d k acc = Inr (r, i, s') \<Longrightarrow> kept s' = kept (snd (snd acc))"
  by (auto simp: shift_producer_def Let_def dest!: kept_settle split: prod.splits)

lemma kept_vote_on: "vote_on_producer c b pd acc = Inr (r, i, s') \<Longrightarrow> kept s' = kept (snd (snd acc))"
  by (auto simp: vote_on_producer_def Let_def dest!: kept_settle split: prod.splits option.splits)

lemma kept_fold:
  assumes "\<And>x acc r i s'. f x acc = Inr (r, i, s') \<Longrightarrow> kept s' = kept (snd (snd acc))"
    and "fold_result f xs acc = Inr (r, i, s')"
  shows "kept s' = kept (snd (snd acc))"
proof -
  have "kept (snd (snd (r, i, s'))) = kept (snd (snd acc))"
    by (rule fold_result_inv [OF assms(2), where I = "\<lambda>a. kept (snd (snd a)) = kept (snd (snd acc))"])
       (auto dest!: assms(1))
  then show ?thesis by simp
qed

lemma kept_fold_shift: "fold_result (shift_producer ct d) ks (x, y, s) = Inr (r, i, s') \<Longrightarrow> kept s' = kept s"
  using kept_fold [of "shift_producer ct d", OF kept_shift] by fastforce

lemma kept_fold_vote_on: "fold_result (vote_on_producer c b) pds (x, y, s) = Inr (r, i, s') \<Longrightarrow> kept s' = kept s"
  using kept_fold [of "vote_on_producer c b", OF kept_vote_on] by fastforce

lemma kept_set_last [simp]: "kept (set_last_weight w x s) = kept s"
  by (auto simp: set_last_weight_def voter_shape_def intro!: kept_modify split: option.split)

lemma kept_add_proxied: "find_row (voters s) w = Some v \<Longrightarrow> kept (add_proxied w x v s) = kept s"
  by (simp add: add_proxied_def voter_shape_def kept_modify)

lemma kept_propagate: "propagate_weight_change n c w s = Inr s' \<Longrightarrow> kept s' = kept s"
proof (induction n arbitrary: w s s')
  case (Suc n)
  then show ?case
    by (auto simp: Let_def kept_add_proxied split: if_splits dest!: kept_fold_shift)
qed simp

section \<open>Chains of proxies\<close>

text \<open>Who follows whom.\<close>

definition follows :: "(name \<Rightarrow> voter_shape option) \<Rightarrow> (name \<times> name) set" where
  "follows sh = {(x, y). y \<noteq> 0 \<and> sh y \<noteq> None \<and> (\<exists>v. sh x = Some v \<and> sh_proxy v = y)}"

lemma followers_known: "(x, y) \<in> (follows sh)\<^sup>* \<Longrightarrow> sh x \<noteq> None \<Longrightarrow> sh y \<noteq> None"
  by (induction rule: rtrancl_induct) (auto simp: follows_def)

lemma dom_shapes: "dom (shapes s) = fst ` set (rows (voters s))"
proof -
  have "dom (shapes s) = dom (map_of (rows (voters s)))" by (auto simp: shapes_def map_of_rows dom_def)
  then show ?thesis by (simp only: dom_map_of_conv_image_fst)
qed

lemma chain_finite:
  assumes "shapes s w \<noteq> None"
  shows "finite ((follows (shapes s))\<^sup>* `` {w})" and "card ((follows (shapes s))\<^sup>* `` {w}) \<le> length (rows (voters s))"
proof -
  have sub: "(follows (shapes s))\<^sup>* `` {w} \<subseteq> fst ` set (rows (voters s))"
    using followers_known assms by (force simp flip: dom_shapes)
  then show "finite ((follows (shapes s))\<^sup>* `` {w})" by (rule finite_subset) simp
  have "card ((follows (shapes s))\<^sup>* `` {w}) \<le> card (fst ` set (rows (voters s)))"
    using sub by (rule card_mono [rotated]) simp
  also have "\<dots> \<le> length (rows (voters s))"
    using card_image_le [of "set (rows (voters s))" fst] card_length [of "rows (voters s)"] by simp
  finally show "card ((follows (shapes s))\<^sup>* `` {w}) \<le> length (rows (voters s))" .
qed

lemma chain_shrinks:
  assumes "acyclic r" and "(x, y) \<in> r" and "finite (r\<^sup>* `` {x})"
  shows "card (r\<^sup>* `` {y}) < card (r\<^sup>* `` {x})"
proof (rule psubset_card_mono [OF assms(3)])
  have "(y, x) \<notin> r\<^sup>*" using assms(1,2) by (meson acyclic_def rtrancl_into_trancl2)
  then show "r\<^sup>* `` {y} \<subset> r\<^sup>* `` {x}"
    using assms(2) by (auto intro: converse_rtrancl_into_rtrancl)
qed

lemma fold_shift_returns: "fold_result (shift_producer ct d) ks acc \<noteq> Inl out_of_calls"
proof (induction ks arbitrary: acc)
  case (Cons k ks)
  then show ?case
    by (auto simp: shift_producer_def bind_result_def some_or_def Let_def split: sum.splits prod.splits option.splits)
qed simp

text \<open>As many calls as there are accounts down the chain are enough.\<close>

lemma enough_calls:
  assumes "acyclic (follows (shapes s))" and "shapes s w \<noteq> None"
    and "card ((follows (shapes s))\<^sup>* `` {w}) \<le> n"
  shows "propagate_weight_change n c w s \<noteq> Inl out_of_calls"
  using assms
proof (induction n arbitrary: w s)
  case 0
  then show ?case using chain_finite(1) [of s w] by (auto simp: card_eq_0_iff)
next
  case (Suc n)
  obtain v where v: "find_row (voters s) w = Some v" using Suc.prems(2) by (auto simp: shapes_def)
  have deeper: "propagate_weight_change n c (vi_proxy v) (add_proxied (vi_proxy v) d p s) \<noteq> Inl out_of_calls"
    if p: "find_row (voters s) (vi_proxy v) = Some p" "vi_proxy v \<noteq> 0" for d p
  proof -
    have sh: "shapes (add_proxied (vi_proxy v) d p s) = shapes s"
      using kept_add_proxied [OF p(1)] by (simp add: kept_def)
    have known: "shapes s (vi_proxy v) \<noteq> None" using p(1) by (simp add: shapes_def)
    moreover have "(w, vi_proxy v) \<in> follows (shapes s)"
      using p v by (simp add: follows_def shapes_def voter_shape_def)
    then have "card ((follows (shapes s))\<^sup>* `` {vi_proxy v}) < card ((follows (shapes s))\<^sup>* `` {w})"
      by (rule chain_shrinks [OF Suc.prems(1) _ chain_finite(1) [OF Suc.prems(2)]])
    ultimately show ?thesis using Suc.prems(1,3) by (intro Suc.IH) (simp_all add: sh)
  qed
  show ?case
    using deeper fold_shift_returns [of "ctx_now c" _ "vi_producers v" "(Fin 0, Fin 0, s)"]
    by (auto simp: v Let_def bind_result_def some_or_def check_def split: sum.splits option.splits prod.splits)
qed

lemma propagate_returns:
  "acyclic (follows (shapes s)) \<Longrightarrow> find_row (voters s) w \<noteq> None \<Longrightarrow> propagate c w s \<noteq> Inl out_of_calls"
  unfolding propagate_def by (rule enough_calls) (auto simp: chain_finite(2) shapes_def)

section \<open>What a vote changes\<close>

lemma kept_activate [simp]: "kept (activate_stake c v s) = kept s"
  by (simp add: activate_stake_def Let_def)

lemma voters_activate [simp]: "voters (activate_stake c v s) = voters s"
  by (simp add: activate_stake_def Let_def)

lemma kept_withdraw: "withdraw_old_vote c v s = Inr (d, s') \<Longrightarrow> kept s' = kept s"
  by (auto simp: withdraw_old_vote_def propagate_def voter_shape_def kept_modify dest!: kept_propagate split: if_splits)

lemma cast_vote_effect:
  "cast_new_vote c x proxy ps b (d, s) = Inr (d', s') \<Longrightarrow>
   kept s' = kept s \<and> (proxy \<noteq> 0 \<longrightarrow> (\<exists>p. find_row (voters s) proxy = Some p \<and> (b \<longrightarrow> is_proxy p)))"
  by (auto simp: cast_new_vote_def propagate_def kept_add_proxied dest!: kept_propagate split: if_splits)

lemma record_vote_effect:
  assumes "find_row (voters s) w = Some v"
  shows "holdings (record_vote w x proxy ps c s) = holdings s"
    and "shapes (record_vote w x proxy ps c s) = (shapes s)(w \<mapsto> (voter_shape v)\<lparr>sh_proxy := proxy, sh_producers := ps\<rparr>)"
  using assms by (auto simp: record_vote_def update_voter_votepay_share_def Let_def shapes_def voter_shape_def fun_eq_iff)

lemma shape_found: "shapes s k = Some h \<Longrightarrow> \<exists>v. find_row (voters s) k = Some v \<and> h = voter_shape v"
  by (auto simp: shapes_def)

lemma kept_voter:
  "kept s' = kept s \<Longrightarrow> find_row (voters s) k = Some v \<Longrightarrow>
   \<exists>v'. find_row (voters s') k = Some v' \<and> voter_shape v' = voter_shape v"
  by (metis (no_types, lifting) kept_def prod.inject shape_found shapes_def option.simps(9))

definition vote_allowed :: "name \<Rightarrow> voter_shape \<Rightarrow> name \<Rightarrow> name list \<Rightarrow> bool \<Rightarrow> (name \<Rightarrow> voter_shape option) \<Rightarrow> bool" where
  "vote_allowed w h proxy ps voting sh \<longleftrightarrow>
     (if proxy = 0 then length ps \<le> 30 \<and> strictly_sorted ps
      else ps = [] \<and> w \<noteq> proxy \<and> \<not> sh_is_proxy h \<and> (\<exists>p. sh proxy = Some p \<and> (voting \<longrightarrow> sh_is_proxy p)))"

lemma update_votes_effect:
  assumes "update_votes c w proxy ps voting s = Inr s'"
  obtains h where "shapes s w = Some h" and "holdings s' = holdings s"
    and "shapes s' = (shapes s)(w \<mapsto> h\<lparr>sh_proxy := proxy, sh_producers := ps\<rparr>)"
    and "vote_allowed w h proxy ps voting (shapes s)"
proof -
  obtain v d1 s1 d2 s2 r i s3 where v: "find_row (voters s) w = Some v"
    and guards: "proxy = 0 \<or> ps = []" "proxy = 0 \<or> w \<noteq> proxy" "proxy \<noteq> 0 \<or> length ps \<le> 30"
      "proxy \<noteq> 0 \<or> strictly_sorted ps" "proxy = 0 \<or> \<not> is_proxy v"
    and one: "withdraw_old_vote c v (activate_stake c v s) = Inr (d1, s1)"
    and two: "cast_new_vote c (full_weight c v) proxy ps voting (d1, s1) = Inr (d2, s2)"
    and three: "fold_result (vote_on_producer c voting) (entries d2) (Fin 0, Fin 0, s2) = Inr (r, i, s3)"
    and s': "s' = record_vote w (full_weight c v) proxy ps c (update_total_votepay_share (ctx_now c) (fneg i) r s3)"
    using assms unfolding update_votes_def Let_def check_Inr bind_result_Inr some_or_Inr split_paired_Ex prod.case sum.inject
    by (elim exE conjE) (rule that, assumption+, rule sym)
  note c2 = cast_vote_effect [OF two]
  have k1: "kept s1 = kept s" using kept_withdraw [OF one] by simp
  have k: "kept (update_total_votepay_share (ctx_now c) (fneg i) r s3) = kept s"
    using k1 c2 kept_fold_vote_on [OF three] by simp
  obtain v' where v': "find_row (voters (update_total_votepay_share (ctx_now c) (fneg i) r s3)) w = Some v'"
    and shape: "voter_shape v' = voter_shape v"
    using kept_voter [OF k v] by blast
  show ?thesis
  proof (rule that)
    show "shapes s w = Some (voter_shape v)" using v by (simp add: shapes_def)
    show "holdings s' = holdings s" using record_vote_effect(1) [OF v'] k by (simp add: s' kept_def)
    show "shapes s' = (shapes s)(w \<mapsto> (voter_shape v)\<lparr>sh_proxy := proxy, sh_producers := ps\<rparr>)"
      using record_vote_effect(2) [OF v'] k by (simp add: s' kept_def shape)
    have "proxy \<noteq> 0 \<Longrightarrow> \<exists>p. shapes s proxy = Some p \<and> (voting \<longrightarrow> sh_is_proxy p)"
    proof -
      assume "proxy \<noteq> 0"
      then obtain p where "find_row (voters s1) proxy = Some p" "voting \<longrightarrow> is_proxy p" using c2 by blast
      then have "shapes s1 proxy = Some (voter_shape p)" "voting \<longrightarrow> sh_is_proxy (voter_shape p)"
        by (simp_all add: shapes_def voter_shape_def)
      moreover have "shapes s1 = shapes s" using k1 by (simp add: kept_def)
      ultimately show "\<exists>p. shapes s proxy = Some p \<and> (voting \<longrightarrow> sh_is_proxy p)" by auto
    qed
    then show "vote_allowed w (voter_shape v) proxy ps voting (shapes s)"
      using guards by (auto simp: vote_allowed_def voter_shape_def)
  qed
qed

text \<open>A vote never runs out of calls, whatever it ends with.\<close>

lemma fold_result_error:
  assumes "fold_result f xs s = Inl e" and "\<And>x s. f x s \<noteq> Inl e"
  shows False
  using assms by (induction xs arbitrary: s) (auto simp: bind_result_def split: sum.splits)

lemma vote_on_returns: "vote_on_producer c b pd acc \<noteq> Inl out_of_calls"
  by (auto simp: vote_on_producer_def Let_def check_def split: prod.splits option.splits)

lemma acyclic_kept: "kept s' = kept s \<Longrightarrow> acyclic (follows (shapes s)) \<Longrightarrow> acyclic (follows (shapes s'))"
  by (simp add: kept_def)

lemma withdraw_returns:
  assumes "acyclic (follows (shapes s))"
  shows "withdraw_old_vote c v s \<noteq> Inl out_of_calls"
proof -
  have "propagate c k (s\<lparr>voters := modify_row same_payer k (p\<lparr>proxied_vote_weight := x\<rparr>) (voters s)\<rparr>) \<noteq> Inl out_of_calls"
    if "find_row (voters s) k = Some p" for k p x
  proof (rule propagate_returns)
    show "acyclic (follows (shapes (s\<lparr>voters := modify_row same_payer k (p\<lparr>proxied_vote_weight := x\<rparr>) (voters s)\<rparr>)))"
      using assms that by (simp add: shapes_modify_same voter_shape_def)
  qed (use that in simp)
  then show ?thesis
    by (auto simp: withdraw_old_vote_def bind_result_def some_or_def split: sum.splits option.splits)
qed

lemma cast_returns:
  assumes "acyclic (follows (shapes s))"
  shows "cast_new_vote c x proxy ps b (d, s) \<noteq> Inl out_of_calls"
proof -
  have "propagate c proxy (add_proxied proxy x p s) \<noteq> Inl out_of_calls"
    if p: "find_row (voters s) proxy = Some p" for p
    using propagate_returns [of "add_proxied proxy x p s" proxy c] assms kept_add_proxied [OF p, of x]
      kept_voter [OF kept_add_proxied [OF p, of x] p]
    by (auto simp: kept_def)
  then show ?thesis
    by (auto simp: cast_new_vote_def bind_result_def some_or_def check_def split: sum.splits option.splits)
qed

lemma update_votes_returns:
  assumes "acyclic (follows (shapes s))"
  shows "update_votes c w proxy ps voting s \<noteq> Inl out_of_calls"
proof
  assume run: "update_votes c w proxy ps voting s = Inl out_of_calls"
  have act: "acyclic (follows (shapes (activate_stake c v s)))" for v
    using acyclic_kept [OF kept_activate assms] by simp
  have cast: "cast_new_vote c x proxy ps voting (d, t) \<noteq> Inl out_of_calls"
    if "withdraw_old_vote c v (activate_stake c v s) = Inr (d, t)" for v x d t
    by (rule cast_returns) (use acyclic_kept [OF kept_withdraw [OF that] act] in simp)
  have loop: "fold_result (vote_on_producer c voting) xs acc \<noteq> Inl out_of_calls" for xs acc
    by (rule notI, erule fold_result_error) (rule vote_on_returns)
  show False
    using run withdraw_returns [OF act] cast loop
    by (auto simp: update_votes_def Let_def check_def bind_result_def some_or_def
        split: if_splits sum.splits option.splits prod.splits)
qed

lemma regproxy_effect:
  assumes "regproxy c k b s = Inr s'"
  obtains h where "holdings s' = holdings s" and "shapes s' = (shapes s)(k \<mapsto> h\<lparr>sh_is_proxy := b\<rparr>)"
    and "shapes s k = Some h \<and> (b \<longrightarrow> sh_proxy h = 0) \<or> shapes s k = None \<and> h = voter_shape (default_voter k)"
proof (cases "find_row (voters s) k")
  case None
  show ?thesis
    by (rule that [of "voter_shape (default_voter k)"])
       (use assms None in \<open>auto simp: regproxy_def shapes_def voter_shape_def fun_eq_iff\<close>)
next
  case (Some v)
  have run: "propagate c k (s\<lparr>voters := modify_row same_payer k (v\<lparr>is_proxy := b\<rparr>) (voters s)\<rparr>) = Inr s'"
    and ok: "b \<longrightarrow> vi_proxy v = 0"
    using assms Some by (auto simp: regproxy_def)
  note k = kept_propagate [OF run [unfolded propagate_def]]
  show ?thesis
  proof (rule that)
    show "holdings s' = holdings s" using k by (simp add: kept_def)
    show "shapes s' = (shapes s)(k \<mapsto> (voter_shape v)\<lparr>sh_is_proxy := b\<rparr>)"
      using k shapes_modify [OF Some] by (simp add: kept_def voter_shape_def)
    show "shapes s k = Some (voter_shape v) \<and> (b \<longrightarrow> sh_proxy (voter_shape v) = 0) \<or>
        shapes s k = None \<and> voter_shape v = voter_shape (default_voter k)"
      using Some ok by (simp add: shapes_def voter_shape_def)
  qed
qed

lemma follows_is_proxy: "sh k = Some h \<Longrightarrow> follows (sh(k \<mapsto> h\<lparr>sh_is_proxy := b\<rparr>)) = follows sh"
  by (auto simp: follows_def split: if_splits)

lemma regproxy_returns:
  assumes "acyclic (follows (shapes s))"
  shows "regproxy c k b s \<noteq> Inl out_of_calls"
proof (cases "find_row (voters s) k")
  case None
  then show ?thesis by (simp add: regproxy_def require_auth_def)
next
  case (Some v)
  have "shapes (s\<lparr>voters := modify_row same_payer k (v\<lparr>is_proxy := b\<rparr>) (voters s)\<rparr>) =
      (shapes s)(k \<mapsto> (voter_shape v)\<lparr>sh_is_proxy := b\<rparr>)"
    using shapes_modify [OF Some] by (simp add: voter_shape_def)
  moreover have "shapes s k = Some (voter_shape v)" using Some by (simp add: shapes_def)
  ultimately have "propagate c k (s\<lparr>voters := modify_row same_payer k (v\<lparr>is_proxy := b\<rparr>) (voters s)\<rparr>) \<noteq> Inl out_of_calls"
    using assms by (intro propagate_returns) (simp_all add: Some follows_is_proxy)
  then show ?thesis using Some by (auto simp: regproxy_def require_auth_def check_def)
qed

section \<open>Well-formed votes\<close>

definition shape_ok :: "(name \<Rightarrow> voter_shape option) \<Rightarrow> name \<Rightarrow> voter_shape \<Rightarrow> bool" where
  "shape_ok sh k h \<longleftrightarrow> length (sh_producers h) \<le> 30 \<and> strictly_sorted (sh_producers h) \<and>
     (sh_proxy h \<noteq> 0 \<longrightarrow> sh_producers h = [] \<and> \<not> sh_is_proxy h \<and> sh_proxy h \<noteq> k \<and> sh (sh_proxy h) \<noteq> None)"

definition votes_ok :: "(name \<Rightarrow> voter_shape option) \<Rightarrow> bool" where
  "votes_ok sh \<longleftrightarrow> (\<forall>k h. sh k = Some h \<longrightarrow> shape_ok sh k h) \<and> acyclic (follows sh)"

lemma votes_ok_upd:
  assumes "votes_ok sh" and "shape_ok (sh(w \<mapsto> h)) w h" and "acyclic (follows (sh(w \<mapsto> h)))"
  shows "votes_ok (sh(w \<mapsto> h))"
  using assms by (fastforce simp: votes_ok_def shape_ok_def split: if_splits)

text \<open>Changes of a row that leave its vote alone, among them a new row.\<close>

lemma votes_ok_same_vote:
  assumes ok: "votes_ok sh"
    and old: "sh w = Some h \<or> sh w = None \<and> h = voter_shape (default_voter w)"
    and new: "sh_proxy h' = sh_proxy h" "sh_producers h' = sh_producers h"
      "sh_is_proxy h' \<longrightarrow> sh_is_proxy h \<or> sh_proxy h = 0"
  shows "votes_ok (sh(w \<mapsto> h'))"
proof (rule votes_ok_upd [OF ok])
  have shape: "shape_ok sh w h" using old ok by (auto simp: votes_ok_def shape_ok_def voter_shape_def default_voter_def)
  then show "shape_ok (sh(w \<mapsto> h')) w h'" using new by (auto simp: shape_ok_def)
  have "follows (sh(w \<mapsto> h')) \<subseteq> follows sh"
    using ok old new(1) unfolding votes_ok_def shape_ok_def
    by (fastforce simp: follows_def voter_shape_def default_voter_def split: if_splits)
  then show "acyclic (follows (sh(w \<mapsto> h')))" using ok by (auto simp: votes_ok_def intro: acyclic_subset)
qed

text \<open>A vote keeps the chains free of cycles: a proxy votes for itself, so no chain goes on from it.\<close>

lemma votes_ok_vote:
  assumes ok: "votes_ok sh" and w: "sh w = Some h" and allowed: "vote_allowed w h proxy ps voting sh"
    and "voting \<or> proxy = sh_proxy h"
  shows "votes_ok (sh(w \<mapsto> h\<lparr>sh_proxy := proxy, sh_producers := ps\<rparr>))"
proof (rule votes_ok_upd [OF ok])
  let ?new = "sh(w \<mapsto> h\<lparr>sh_proxy := proxy, sh_producers := ps\<rparr>)"
  show "shape_ok ?new w (h\<lparr>sh_proxy := proxy, sh_producers := ps\<rparr>)"
    using allowed by (auto simp: shape_ok_def vote_allowed_def split: if_splits)
  have ac: "acyclic (follows sh)" using ok by (simp add: votes_ok_def)
  show "acyclic (follows ?new)"
  proof (cases "proxy = 0 \<or> proxy = sh_proxy h")
    case True
    then have "follows ?new \<subseteq> follows sh" using w by (auto simp: follows_def split: if_splits)
    then show ?thesis using ac acyclic_subset by blast
  next
    case False
    then obtain p where p: "sh proxy = Some p" "sh_is_proxy p" "w \<noteq> proxy"
      using allowed assms(4) by (auto simp: vote_allowed_def)
    then have "sh_proxy p = 0" using ok by (auto simp: votes_ok_def shape_ok_def)
    then have "(proxy, w) \<notin> (follows sh)\<^sup>*"
      using p by (auto simp: follows_def elim: converse_rtranclE)
    moreover have "follows ?new \<subseteq> insert (w, proxy) (follows sh)"
      using w by (auto simp: follows_def split: if_splits)
    ultimately show ?thesis using ac acyclic_insert acyclic_subset by metis
  qed
qed

end
