(* ===== verification/StakeLemmas.thy ===== *)
theory StakeLemmas
  imports Bandwidth VotingLemmas WpsLemmas
begin

text \<open>
  How the four blocks of \<open>changebw\<close> change the books: the sums over \<open>delband\<close>, the totals in \<open>userres\<close>,
  the refunds with what is transferred to \<open>eosio.stake\<close>, and the stake a voter has. Each lemma is about
  one block; the invariants of all histories are put together from them.
\<close>

section \<open>Voting power\<close>

lemma kept_wps_votes:
  assumes "update_wps_votes c w ps s = Inr s'"
  shows "kept s' = kept s"
proof -
  have "kept t = kept s" if "fold_result (vote_on_proposal c) (entries d) s = Inr t" for d t
    by (subst vote_loop_Inr(1) [OF that]) simp
  then show ?thesis
    using assms by (auto simp: update_wps_votes_def Let_def split: option.splits)
qed

text \<open>An action returns when none of its parts runs out of calls.\<close>

definition returns :: "'a result \<Rightarrow> bool" where
  "returns r \<longleftrightarrow> r \<noteq> Inl out_of_calls"

named_theorems returning \<open>introduction rules for actions that return\<close>

lemma returns_basic [returning]:
  "returns (Inr x)" "returns (Inl (Check m))" "returns (Inl (Library m))" "returns (Inl (Missing_auth w))"
  by (simp_all add: returns_def)

lemma returns_bind [returning]:
  "returns r \<Longrightarrow> (\<And>x. r = Inr x \<Longrightarrow> returns (f x)) \<Longrightarrow> returns (bind_result r f)"
  by (cases r) (auto simp: returns_def)

lemma returns_check [returning]: "(b \<Longrightarrow> returns r) \<Longrightarrow> returns (check b msg r)"
  by (simp add: returns_def check_def)

lemma returns_some_or [returning]:
  "(\<And>y. x = Some y \<Longrightarrow> returns (f y)) \<Longrightarrow> e \<noteq> out_of_calls \<Longrightarrow> returns (some_or x e f)"
  by (cases x) (auto simp: returns_def)

lemma returns_auth [returning]: "returns r \<Longrightarrow> returns (require_auth c w r)"
  by (simp add: returns_def require_auth_def)

lemma returns_if [returning]:
  "(b \<Longrightarrow> returns r) \<Longrightarrow> (\<not> b \<Longrightarrow> returns r') \<Longrightarrow> returns (if b then r else r')"
  by simp

lemma returns_option [returning]:
  "(x = None \<Longrightarrow> returns r) \<Longrightarrow> (\<And>y. x = Some y \<Longrightarrow> returns (f y)) \<Longrightarrow> returns (case x of None \<Rightarrow> r | Some y \<Rightarrow> f y)"
  by (cases x) simp_all

lemma returns_prod [returning]: "(\<And>a b. p = (a, b) \<Longrightarrow> returns (f a b)) \<Longrightarrow> returns (case p of (a, b) \<Rightarrow> f a b)"
  by (cases p) simp

lemma returns_to_i64 [returning]: "returns (to_i64 x)"
  by (cases x) (simp_all add: returns_def)

lemma returns_update_votes:
  "acyclic (follows (shapes s)) \<Longrightarrow> returns (update_votes c w proxy ps voting s)"
  using update_votes_returns by (simp add: returns_def)

lemma returns_wps_votes [returning]: "returns (update_wps_votes c w ps s)"
proof -
  have "returns (vote_on_proposal c pd t)" for pd t
    unfolding vote_on_proposal_def Let_def by (intro returning) simp_all
  then have "returns (fold_result (vote_on_proposal c) pds t)" for pds t
    using fold_result_error unfolding returns_def by metis
  then show ?thesis unfolding update_wps_votes_def Let_def by (intro returning) simp_all
qed

text \<open>The row of a voter before its stake changes, and the stake after.\<close>

definition stake_changes :: "name \<Rightarrow> int \<Rightarrow> (name \<Rightarrow> voter_shape option) \<Rightarrow> voter_shape \<Rightarrow> int \<Rightarrow> bool" where
  "stake_changes w d sh h n \<longleftrightarrow>
     (sh w = Some h \<and> n = i64 (sh_staked h + d) \<or> sh w = None \<and> h = voter_shape (default_voter w) \<and> n = d)"

lemma voting_power_effect:
  assumes "update_voting_power c w q s = Inr s'"
  obtains h n where "stake_changes w (amount q) (shapes s) h n" and "0 \<le> n" and "holdings s' = holdings s"
    and "shapes s' = (shapes s)(w \<mapsto> h\<lparr>sh_staked := n\<rparr>)"
proof -
  define v where "v = (case find_row (voters s) w of
                 None \<Rightarrow> (default_voter w)\<lparr>staked := amount q\<rparr>
               | Some v \<Rightarrow> v\<lparr>staked := i64 (staked v + amount q)\<rparr>)"
  define h where "h = (case shapes s w of None \<Rightarrow> voter_shape (default_voter w) | Some h \<Rightarrow> h)"
  define s1 where "s1 = s\<lparr>voters := (case find_row (voters s) w of
                 None \<Rightarrow> put w w v (voters s)
               | Some _ \<Rightarrow> modify_row same_payer w v (voters s))\<rparr>"
  have sv: "voter_shape v = h\<lparr>sh_staked := staked v\<rparr>"
    by (simp add: v_def h_def shapes_def voter_shape_def split: option.split)
  have sh1: "shapes s1 = (shapes s)(w \<mapsto> h\<lparr>sh_staked := staked v\<rparr>)"
    by (auto simp: s1_def shapes_def fun_eq_iff simp flip: sv split: option.split)
  obtain s2 s3 where pos: "0 \<le> staked v"
    and two: "(if w = b1_account then validate_b1_vesting c (staked v) (Inr s1) else Inr s1) = Inr s2"
    and three: "(if vi_producers v \<noteq> [] \<or> vi_proxy v \<noteq> 0
                 then update_votes c w (vi_proxy v) (vi_producers v) False s2 else Inr s2) = Inr s3"
    and four: "(case find_row (wpsvoters s3) w of None \<Rightarrow> Inr s3
                | Some wv \<Rightarrow> update_wps_votes c w (wv_proposals wv) s3) = Inr s'"
    using assms unfolding update_voting_power_def Let_def v_def [symmetric] s1_def [symmetric] by auto
  have s2: "s2 = s1" using two by (auto simp: validate_b1_vesting_def Let_def split: if_splits)
  have k4: "kept s' = kept s3" using four by (auto split: option.splits dest: kept_wps_votes)
  have k3: "holdings s3 = holdings s1 \<and> shapes s3 = shapes s1"
  proof (cases "vi_producers v \<noteq> [] \<or> vi_proxy v \<noteq> 0")
    case True
    then have run: "update_votes c w (vi_proxy v) (vi_producers v) False s1 = Inr s3" using three s2 by simp
    obtain h' where h': "shapes s1 w = Some h'" "holdings s3 = holdings s1"
      "shapes s3 = (shapes s1)(w \<mapsto> h'\<lparr>sh_proxy := vi_proxy v, sh_producers := vi_producers v\<rparr>)"
      by (rule update_votes_effect [OF run]) (rule that)
    have "h' = voter_shape v" using h'(1) by (simp add: sh1 sv)
    then have "h'\<lparr>sh_proxy := vi_proxy v, sh_producers := vi_producers v\<rparr> = h'" by (simp add: voter_shape_def)
    then show ?thesis using h' by (simp add: fun_upd_idem)
  qed (use three s2 in simp)
  have "stake_changes w (amount q) (shapes s) h (staked v)"
    by (auto simp: stake_changes_def h_def v_def shapes_def voter_shape_def split: option.split)
  moreover have "holdings s1 = holdings s" by (simp add: s1_def)
  ultimately show ?thesis using pos k3 k4 by (intro that) (simp_all add: kept_def sh1)
qed

lemma voting_power_returns:
  assumes "votes_ok (shapes s)"
  shows "returns (update_voting_power c w q s)"
proof -
  define v where "v = (case find_row (voters s) w of
                 None \<Rightarrow> (default_voter w)\<lparr>staked := amount q\<rparr>
               | Some v \<Rightarrow> v\<lparr>staked := i64 (staked v + amount q)\<rparr>)"
  define h where "h = (case shapes s w of None \<Rightarrow> voter_shape (default_voter w) | Some h \<Rightarrow> h)"
  define s1 where "s1 = s\<lparr>voters := (case find_row (voters s) w of
                 None \<Rightarrow> put w w v (voters s)
               | Some _ \<Rightarrow> modify_row same_payer w v (voters s))\<rparr>"
  have "voter_shape v = h\<lparr>sh_staked := staked v\<rparr>"
    by (simp add: v_def h_def shapes_def voter_shape_def split: option.split)
  then have sh1: "shapes s1 = (shapes s)(w \<mapsto> h\<lparr>sh_staked := staked v\<rparr>)"
    by (auto simp: s1_def shapes_def fun_eq_iff split: option.split)
  have "votes_ok (shapes s1)"
    unfolding sh1 by (rule votes_ok_same_vote [OF assms, of w h]) (auto simp: h_def split: option.split)
  then have ac: "acyclic (follows (shapes s1))" by (simp add: votes_ok_def)
  have b1: "returns (validate_b1_vesting c n (Inr t))" for n and t :: sys
    unfolding validate_b1_vesting_def Let_def by (intro returning)
  have same: "(if w = b1_account then validate_b1_vesting c n (Inr t) else Inr t) = Inr t' \<Longrightarrow> t' = t" for n and t t' :: sys
    by (auto simp: validate_b1_vesting_def Let_def split: if_splits)
  show ?thesis
    unfolding update_voting_power_def Let_def v_def [symmetric] s1_def [symmetric]
    by (intro returning b1) (auto dest!: same intro!: returns_update_votes ac)
qed

section \<open>Sums over the books\<close>

lemma find_row_keep [simp]:
  "find_row (keep_row c m e k r t) j = (if j = k then (if e then None else Some r) else find_row t j)"
  by (auto simp: keep_row_def split: option.split)

lemma sum_rows_keep:
  "(e \<Longrightarrow> g k r = 0) \<Longrightarrow> sum_rows g (keep_row c m e k r t) =
   sum_rows g t + g k r - (case find_row t k of None \<Rightarrow> 0 | Some w \<Rightarrow> g k w)"
  by (auto simp: keep_row_def sum_rows_erase sum_rows_put sum_rows_modify split: option.split)

lemma all_rows_keep: "all_rows P t \<Longrightarrow> (\<not> e \<Longrightarrow> P k r) \<Longrightarrow> all_rows P (keep_row c m e k r t)"
  by (auto simp: all_rows_iff)

text \<open>Stakes in \<open>delband\<close>, each weighed by who staked it for whom.\<close>

definition weighed :: "(name \<times> name \<Rightarrow> int) \<Rightarrow> (name \<times> name \<Rightarrow> int) \<Rightarrow> (name \<times> name, delegated_bandwidth) table \<Rightarrow> int" where
  "weighed u v t = sum_rows (\<lambda>k d. u k * amount (db_net_weight d) + v k * amount (db_cpu_weight d)) t"

definition net_staked_to :: "name \<Rightarrow> sys \<Rightarrow> int" where
  "net_staked_to a s = weighed (\<lambda>k. of_bool (snd k = a)) (\<lambda>k. 0) (delband s)"

definition cpu_staked_to :: "name \<Rightarrow> sys \<Rightarrow> int" where
  "cpu_staked_to a s = weighed (\<lambda>k. 0) (\<lambda>k. of_bool (snd k = a)) (delband s)"

definition staked_by :: "name \<Rightarrow> sys \<Rightarrow> int" where
  "staked_by a s = weighed (\<lambda>k. of_bool (fst k = a)) (\<lambda>k. of_bool (fst k = a)) (delband s)"

definition all_staked :: "sys \<Rightarrow> int" where
  "all_staked s = weighed (\<lambda>k. 1) (\<lambda>k. 1) (delband s)"

definition all_refunds :: "sys \<Rightarrow> int" where
  "all_refunds s = sum_rows (\<lambda>k r. amount (net_amount r) + amount (cpu_amount r)) (refunds s)"

text \<open>An amount that can be owned: of the core symbol, not negative and in range.\<close>

definition holding :: "symbol \<Rightarrow> asset \<Rightarrow> bool" where
  "holding core a \<longleftrightarrow> asset_symbol a = core \<and> 0 \<le> amount a \<and> asset_in_range a"

definition delband_ok :: "symbol \<Rightarrow> name \<times> name \<Rightarrow> delegated_bandwidth \<Rightarrow> bool" where
  "delband_ok core k d \<longleftrightarrow> db_from d = fst k \<and> db_to d = snd k \<and> holding core (db_net_weight d) \<and>
     holding core (db_cpu_weight d) \<and> \<not> db_is_empty d"

definition userres_ok :: "symbol \<Rightarrow> name \<Rightarrow> user_resources \<Rightarrow> bool" where
  "userres_ok core k r \<longleftrightarrow> ur_owner r = k \<and> holding core (ur_net_weight r) \<and> holding core (ur_cpu_weight r)"

definition refund_ok :: "symbol \<Rightarrow> name \<Rightarrow> refund_request \<Rightarrow> bool" where
  "refund_ok core k r \<longleftrightarrow> rr_owner r = k \<and> k \<noteq> stake_account \<and> holding core (net_amount r) \<and> holding core (cpu_amount r)"

text \<open>A change of the stake as \<open>delegatebw\<close> and \<open>undelegatebw\<close> hand it on.\<close>

definition delta_ok :: "symbol \<Rightarrow> asset \<Rightarrow> asset \<Rightarrow> bool" where
  "delta_ok core dn dc \<longleftrightarrow> asset_symbol dn = core \<and> asset_symbol dc = core \<and> asset_in_range dn \<and> asset_in_range dc \<and>
     \<bar>amount dn + amount dc\<bar> \<le> max_amount \<and>
     (0 \<le> amount dn \<and> 0 \<le> amount dc \<or> amount dn \<le> 0 \<and> amount dc \<le> 0)"

text \<open>
  How a stake is paid for: what an account stakes for itself is first taken from its refund request, part by part,
  and only the rest is transferred; the time of a request stays.
\<close>

definition owed_to :: "(refund_request \<Rightarrow> asset) \<Rightarrow> name \<Rightarrow> (name, refund_request) table \<Rightarrow> int" where
  "owed_to g k t = (case find_row t k of None \<Rightarrow> 0 | Some r \<Rightarrow> amount (g r))"

definition refunds_used :: "name \<Rightarrow> int \<Rightarrow> int \<Rightarrow> (name, refund_request) table \<Rightarrow> (name, refund_request) table \<Rightarrow> bool" where
  "refunds_used f un uc t t' \<longleftrightarrow>
     owed_to net_amount f t' = owed_to net_amount f t - un \<and> owed_to cpu_amount f t' = owed_to cpu_amount f t - uc \<and>
     (\<forall>k. k \<noteq> f \<longrightarrow> find_row t' k = find_row t k) \<and>
     (\<forall>r'. find_row t' f = Some r' \<longrightarrow> (\<exists>r. find_row t f = Some r \<and> request_time r' = request_time r))"

lemma refunds_used_refl: "refunds_used f 0 0 t t"
  by (simp add: refunds_used_def)

text \<open>What an account stakes is paid for by its refund, as far as it stakes for itself, and by a transfer.\<close>

definition stake_paid :: "symbol \<Rightarrow> bool \<Rightarrow> name \<Rightarrow> name \<Rightarrow> asset \<Rightarrow> asset \<Rightarrow> sys \<Rightarrow> (name, refund_request) table \<Rightarrow>
    inline_action list \<Rightarrow> bool" where
  "stake_paid core own src f dn dc s t x \<longleftrightarrow>
     (let un = (if own then min (amount dn) (owed_to net_amount f (refunds s)) else 0);
          uc = (if own then min (amount dc) (owed_to cpu_amount f (refunds s)) else 0) in
      (\<not> own \<longrightarrow> t = refunds s) \<and> refunds_used f un uc (refunds s) t \<and>
      (own \<and> owed_to net_amount f t = 0 \<and> owed_to cpu_amount f t = 0 \<longrightarrow> find_row t f = None) \<and>
      (\<exists>q. holding core q \<and> amount q = amount dn + amount dc - un - uc \<and>
        x = (if 0 < amount q then [\<lparr>in_auths = [(src, active_permission)],
               in_call = Token_call (Transfer src stake_account q ''stake bandwidth'')\<rparr>] else [])))"

text \<open>What \<open>eosio.stake\<close> received and nobody has staked or is owed.\<close>

definition unclaimed_stake :: "sys \<Rightarrow> int" where
  "unclaimed_stake s = net_flow stake_account (outbox s) - all_staked s - all_refunds s"

text \<open>The books: every row is in order, the totals and the voters' stakes agree with \<open>delband\<close>.\<close>

definition total_of :: "(user_resources \<Rightarrow> asset) \<Rightarrow> name \<Rightarrow> sys \<Rightarrow> int" where
  "total_of g a s = (case find_row (userres s) a of None \<Rightarrow> 0 | Some r \<Rightarrow> amount (g r))"

definition stake_of_voter :: "name \<Rightarrow> sys \<Rightarrow> int" where
  "stake_of_voter a s = (case find_row (voters s) a of None \<Rightarrow> 0 | Some v \<Rightarrow> staked v)"

definition books :: "symbol \<Rightarrow> sys \<Rightarrow> bool" where
  "books core s \<longleftrightarrow> core_symbol s = Inr core \<and> all_rows (delband_ok core) (delband s) \<and>
     all_rows (userres_ok core) (userres s) \<and> all_rows (refund_ok core) (refunds s) \<and> votes_ok (shapes s) \<and>
     (\<forall>a. total_of ur_net_weight a s = net_staked_to a s \<and> total_of ur_cpu_weight a s = cpu_staked_to a s \<and>
          stake_of_voter a s = i64 (staked_by a s))"

lemma stake_of_shape: "stake_of_voter a s = (case shapes s a of None \<Rightarrow> 0 | Some h \<Rightarrow> sh_staked h)"
  by (simp add: stake_of_voter_def shapes_def voter_shape_def split: option.split)

text \<open>Only the holdings and the shapes of the voters matter to the books.\<close>

lemma books_kept:
  assumes "books core s" and "holdings s' = holdings s" and "votes_ok (shapes s')"
    and "\<And>a. stake_of_voter a s' = stake_of_voter a s"
  shows "books core s'" and "unclaimed_stake s' = unclaimed_stake s"
  using assms holdingsD [OF assms(2)]
  by (simp_all add: books_def core_symbol_def total_of_def net_staked_to_def cpu_staked_to_def staked_by_def
      unclaimed_stake_def all_staked_def all_refunds_def)

lemma i64_add_left [simp]: "i64 (i64 x + y) = i64 (x + y)"
  by (rule i64_congs(1))

lemma stake_changes_sum:
  assumes "stake_changes w d (shapes s) h n" and "in_i64 d" and "stake_of_voter w s = i64 x"
  shows "n = i64 (x + d)"
proof -
  have "n = i64 (i64 x + d)"
    using assms by (auto simp: stake_changes_def stake_of_shape in_i64_id simp del: i64_add_left)
  then show ?thesis by simp
qed

lemma limits_frames [simp]:
  "delband (apply_limits r row s) = delband s" "userres (apply_limits r row s) = userres s"
  "refunds (apply_limits r row s) = refunds s" "genesis (apply_limits r row s) = genesis s"
  "outbox (apply_limits r row s) = outbox s" "rammarket (apply_limits r row s) = rammarket s"
  "voters (apply_limits r row s) = voters s" "gs (apply_limits r row s) = gs s"
  by (simp_all add: apply_limits_def set_resource_limits_def split: prod.split)

text \<open>
  The messages of an action on stakes: what goes into or out of \<open>eosio.stake\<close> is in the core symbol, and nothing
  else touches its tokens.
\<close>

fun core_call :: "symbol \<Rightarrow> permission_level list \<Rightarrow> inline_call \<Rightarrow> bool" where
  "core_call core auths (Token_call (Transfer f t q memo)) \<longleftrightarrow> (f = stake_account \<or> t = stake_account \<longrightarrow> asset_symbol q = core)"
| "core_call core auths (Token_call (Issue to q memo)) \<longleftrightarrow> to \<noteq> stake_account"
| "core_call core auths (Token_call (Retire q memo)) \<longleftrightarrow> \<not> list_ex (\<lambda>p. fst p = stake_account) auths"
| "core_call core auths (Token_call _) = False"
| "core_call core auths (Powup_result fee n p) = True"

definition core_message :: "symbol \<Rightarrow> inline_action \<Rightarrow> bool" where
  "core_message core m = core_call core (in_auths m) (in_call m)"

text \<open>
  The part of the books that only the actions on stakes write, and what such an action does to it: the rows stay
  in order, what it transfers to \<open>eosio.stake\<close> is what stakes and refunds grow by (up to \<open>k\<close>), in the core token.
\<close>

definition stake_records :: "symbol \<Rightarrow> sys \<Rightarrow> bool" where
  "stake_records core s \<longleftrightarrow> core_symbol s = Inr core \<and> all_rows (delband_ok core) (delband s) \<and> all_rows (refund_ok core) (refunds s)"

definition settled :: "symbol \<Rightarrow> int \<Rightarrow> sys \<Rightarrow> sys \<Rightarrow> bool" where
  "settled core k s s' \<longleftrightarrow> stake_records core s' \<and> unclaimed_stake s' = unclaimed_stake s + k \<and>
     (\<exists>x. outbox s' = outbox s @ x \<and> list_all (core_message core) x)"

lemma books_records: "books core s \<Longrightarrow> stake_records core s"
  by (simp add: books_def stake_records_def)

lemma settled_trans:
  assumes "settled core j s t" and "settled core k t u"
  shows "settled core (j + k) s u"
proof -
  obtain x y where "outbox t = outbox s @ x" "outbox u = outbox t @ y" "list_all (core_message core) x" "list_all (core_message core) y"
    using assms by (auto simp: settled_def)
  then have "outbox u = outbox s @ (x @ y) \<and> list_all (core_message core) (x @ y)" by simp
  then show ?thesis using assms by (auto simp: settled_def)
qed

context asset_library
begin

lemma delband_effect:
  assumes run: "update_delband c f r dn dc s = Inr s'" and c: "ctx_lib c = L"
    and ok: "all_rows (delband_ok core) (delband s)" and d: "delta_ok core dn dc"
  obtains t row where "s' = s\<lparr>delband := t\<rparr>" and "all_rows (delband_ok core) t"
    and "\<And>u v. weighed u v t = weighed u v (delband s) + u (f, r) * amount dn + v (f, r) * amount dc"
    and "\<And>k. k \<noteq> (f, r) \<Longrightarrow> find_row t k = find_row (delband s) k"
    and "find_row t (f, r) = (if db_is_empty row then None else Some row)"
proof -
  obtain row where new: "(case find_row (delband s) (f, r) of
          None \<Rightarrow> Inr \<lparr>db_from = f, db_to = r, db_net_weight = dn, db_cpu_weight = dc\<rparr>
        | Some dbo \<Rightarrow>
            some_or (asset_plus L (db_net_weight dbo) dn) overflow (\<lambda>net.
            some_or (asset_plus L (db_cpu_weight dbo) dc) overflow (\<lambda>cpu.
            Inr (dbo\<lparr>db_net_weight := net, db_cpu_weight := cpu\<rparr>)))) = Inr row"
    and pos: "0 \<le> amount (db_net_weight row)" "0 \<le> amount (db_cpu_weight row)"
    and s': "s' = s\<lparr>delband := keep_row f same_payer (db_is_empty row) (f, r) row (delband s)\<rparr>"
    using run unfolding update_delband_def c bind_result_Inr check_Inr sum.inject
    by (elim exE conjE) (rule that, assumption+, rule sym)
  let ?old = "\<lambda>g. case find_row (delband s) (f, r) of None \<Rightarrow> 0 | Some w \<Rightarrow> amount (g w)"
  have row: "db_from row = f \<and> db_to row = r \<and> holding core (db_net_weight row) \<and> holding core (db_cpu_weight row) \<and>
      amount (db_net_weight row) = ?old db_net_weight + amount dn \<and>
      amount (db_cpu_weight row) = ?old db_cpu_weight + amount dc"
  proof (cases "find_row (delband s) (f, r)")
    case None
    then show ?thesis using new pos d by (auto simp: holding_def delta_ok_def)
  next
    case (Some dbo)
    then have b: "delband_ok core (f, r) dbo" by (rule all_rowsD [OF ok])
    obtain net cpu where p: "asset_plus L (db_net_weight dbo) dn = Some net" "asset_plus L (db_cpu_weight dbo) dc = Some cpu"
      and row: "row = dbo\<lparr>db_net_weight := net, db_cpu_weight := cpu\<rparr>"
      using new Some by auto
    have "asset_symbol net = core \<and> amount net = amount (db_net_weight dbo) + amount dn \<and> asset_in_range net"
      "asset_symbol cpu = core \<and> amount cpu = amount (db_cpu_weight dbo) + amount dc \<and> asset_in_range cpu"
      using plus_Some [OF _ _ p(1)] plus_Some [OF _ _ p(2)] b d by (auto simp: delband_ok_def holding_def delta_ok_def)
    then show ?thesis using b pos by (simp add: row Some delband_ok_def holding_def)
  qed
  show ?thesis
  proof (rule that [OF s'])
    show "all_rows (delband_ok core) (keep_row f same_payer (db_is_empty row) (f, r) row (delband s))"
      by (rule all_rows_keep [OF ok]) (use row in \<open>simp add: delband_ok_def\<close>)
    show "weighed u v (keep_row f same_payer (db_is_empty row) (f, r) row (delband s)) =
        weighed u v (delband s) + u (f, r) * amount dn + v (f, r) * amount dc" for u v
      unfolding weighed_def
      by (subst sum_rows_keep) (use row in \<open>auto simp: db_is_empty_def algebra_simps split: option.split\<close>)
  qed simp_all
qed

text \<open>The totals of the receiver.\<close>

lemma totals_effect:
  assumes run: "update_totals c f r dn dc s = Inr s'" and c: "ctx_lib c = L"
    and ok: "all_rows (userres_ok core) (userres s)" and d: "delta_ok core dn dc"
  obtains row t where "s' = (apply_limits r row s)\<lparr>userres := t\<rparr>" and "all_rows (userres_ok core) t"
    and "userres_ok core r row"
    and "\<And>k. find_row t k = (if k = r then if ur_is_empty row then None else Some row else find_row (userres s) k)"
    and "amount (ur_net_weight row) =
      (case find_row (userres s) r of None \<Rightarrow> 0 | Some w \<Rightarrow> amount (ur_net_weight w)) + amount dn"
    and "amount (ur_cpu_weight row) =
      (case find_row (userres s) r of None \<Rightarrow> 0 | Some w \<Rightarrow> amount (ur_cpu_weight w)) + amount dc"
    and "ur_ram_bytes row = (case find_row (userres s) r of None \<Rightarrow> 0 | Some w \<Rightarrow> ur_ram_bytes w)"
proof -
  obtain row where new: "(case find_row (userres s) r of
          None \<Rightarrow> Inr \<lparr>ur_owner = r, ur_net_weight = dn, ur_cpu_weight = dc, ur_ram_bytes = 0\<rparr>
        | Some tot \<Rightarrow>
            some_or (asset_plus L (ur_net_weight tot) dn) overflow (\<lambda>net.
            some_or (asset_plus L (ur_cpu_weight tot) dc) overflow (\<lambda>cpu.
            Inr (tot\<lparr>ur_net_weight := net, ur_cpu_weight := cpu\<rparr>)))) = Inr row"
    and pos: "0 \<le> amount (ur_net_weight row)" "0 \<le> amount (ur_cpu_weight row)"
    and s': "s' = (apply_limits r row s)\<lparr>userres :=
      keep_row f (if f = r then Some f else same_payer) (ur_is_empty row) r row (userres s)\<rparr>"
    using run unfolding update_totals_def c bind_result_Inr check_Inr sum.inject
    by (elim exE conjE) (rule that, assumption+, rule sym)
  let ?old = "\<lambda>g. case find_row (userres s) r of None \<Rightarrow> 0 | Some w \<Rightarrow> g w"
  have row: "userres_ok core r row \<and>
      amount (ur_net_weight row) = ?old (\<lambda>w. amount (ur_net_weight w)) + amount dn \<and>
      amount (ur_cpu_weight row) = ?old (\<lambda>w. amount (ur_cpu_weight w)) + amount dc \<and>
      ur_ram_bytes row = ?old ur_ram_bytes"
  proof (cases "find_row (userres s) r")
    case None
    then show ?thesis using new pos d by (auto simp: holding_def delta_ok_def userres_ok_def)
  next
    case (Some tot)
    then have b: "userres_ok core r tot" by (rule all_rowsD [OF ok])
    obtain net cpu where p: "asset_plus L (ur_net_weight tot) dn = Some net" "asset_plus L (ur_cpu_weight tot) dc = Some cpu"
      and row: "row = tot\<lparr>ur_net_weight := net, ur_cpu_weight := cpu\<rparr>"
      using new Some by auto
    have "asset_symbol net = core \<and> amount net = amount (ur_net_weight tot) + amount dn \<and> asset_in_range net"
      "asset_symbol cpu = core \<and> amount cpu = amount (ur_cpu_weight tot) + amount dc \<and> asset_in_range cpu"
      using plus_Some [OF _ _ p(1)] plus_Some [OF _ _ p(2)] b d by (auto simp: userres_ok_def holding_def delta_ok_def)
    then show ?thesis using b pos by (simp add: row Some userres_ok_def holding_def)
  qed
  show ?thesis
    by (rule that [OF s' all_rows_keep [OF ok]]) (use row in auto)
qed

text \<open>A refund takes up the change, and what it does not take up is still to be paid.\<close>

lemma offset_effect:
  assumes "offset_refund L r d = Inr (r', rest)" and "holding core r" and "asset_symbol d = core" and "asset_in_range d"
  shows "holding core r'" and "holding core rest" and "amount r' - amount rest = amount r - amount d"
    and "amount d \<le> 0 \<Longrightarrow> amount rest = 0"
proof -
  obtain q where q: "asset_minus L r d = Some q"
    and eq: "(if amount q < 0 then (q\<lparr>amount := 0\<rparr>, asset_neg L q) else (q, d\<lparr>amount := 0\<rparr>)) = (r', rest)"
    using assms(1) by (auto simp: offset_refund_def)
  have m: "asset_symbol q = core \<and> amount q = amount r - amount d \<and> asset_in_range q"
    using minus_Some [OF _ assms(4) q] assms(2) by (simp add: holding_def)
  then show "holding core r'" "holding core rest" "amount r' - amount rest = amount r - amount d"
    "amount d \<le> 0 \<Longrightarrow> amount rest = 0"
    using eq assms(2,3) by (auto simp: neg_ok holding_def asset_in_range_def max_amount_def split: if_splits)
qed

lemma open_refund_effect:
  assumes "open_refund L d s = Inr (r', rest)" and "core_symbol s = Inr core" and "asset_symbol d = core" and "asset_in_range d"
  shows "holding core r'" and "holding core rest" and "amount r' - amount rest = - amount d"
    and "amount d \<le> 0 \<Longrightarrow> amount rest = 0"
proof -
  have "holding core r' \<and> holding core rest \<and> amount r' - amount rest = - amount d \<and> (amount d \<le> 0 \<longrightarrow> amount rest = 0)"
  proof (cases "amount d < 0")
    case True
    then show ?thesis
      using assms by (auto simp: open_refund_def neg_ok holding_def asset_in_range_def max_amount_def)
  next
    case False
    then obtain zero where "mk_asset L 0 core = Some zero" "r' = zero" "rest = d"
      using assms(1,2) by (auto simp: open_refund_def core_asset_def)
    then show ?thesis using assms(3,4) False mk_Some [of 0 core zero] by (auto simp: holding_def)
  qed
  then show "holding core r'" "holding core rest" "amount r' - amount rest = - amount d"
    "amount d \<le> 0 \<Longrightarrow> amount rest = 0" by blast+
qed

lemma refund_effect:
  assumes run: "update_refund c f dn dc s = Inr (nl, cl, s')" and c: "ctx_lib c = L" and f: "f \<noteq> stake_account"
    and core: "core_symbol s = Inr core" and ok: "all_rows (refund_ok core) (refunds s)" and d: "delta_ok core dn dc"
  obtains t where "s' = s\<lparr>refunds := t\<rparr>" and "all_rows (refund_ok core) t"
    and "holding core nl" and "holding core cl"
    and "all_refunds s' = all_refunds s - (amount dn + amount dc) + (amount nl + amount cl)"
    and "amount dn + amount dc < 0 \<Longrightarrow> amount nl + amount cl = 0"
proof -
  have range: "asset_symbol dn = core" "asset_in_range dn" "asset_symbol dc = core" "asset_in_range dc"
    and sign: "amount dn + amount dc < 0 \<Longrightarrow> amount dn \<le> 0 \<and> amount dc \<le> 0"
    using d by (auto simp: delta_ok_def)
  show ?thesis
  proof (cases "find_row (refunds s) f")
    case (Some r)
    then have r: "refund_ok core f r" by (rule all_rowsD [OF ok])
    obtain net cpu where off: "offset_refund L (net_amount r) dn = Inr (net, nl)" "offset_refund L (cpu_amount r) dc = Inr (cpu, cl)"
      and s': "s' = s\<lparr>refunds := keep_row f same_payer (rr_is_empty (r\<lparr>request_time :=
          (if amount dn < 0 \<or> amount dc < 0 then seconds_of (ctx_now c) else request_time r), net_amount := net, cpu_amount := cpu\<rparr>)) f
          (r\<lparr>request_time := (if amount dn < 0 \<or> amount dc < 0 then seconds_of (ctx_now c) else request_time r),
             net_amount := net, cpu_amount := cpu\<rparr>) (refunds s)\<rparr>"
      using run Some unfolding update_refund_def c Let_def by auto
    have t: "refunds s' = keep_row f same_payer (rr_is_empty (r\<lparr>request_time :=
          (if amount dn < 0 \<or> amount dc < 0 then seconds_of (ctx_now c) else request_time r), net_amount := net, cpu_amount := cpu\<rparr>)) f
          (r\<lparr>request_time := (if amount dn < 0 \<or> amount dc < 0 then seconds_of (ctx_now c) else request_time r),
             net_amount := net, cpu_amount := cpu\<rparr>) (refunds s)"
      by (simp add: s')
    have h: "holding core (net_amount r)" "holding core (cpu_amount r)" using r by (simp_all add: refund_ok_def)
    note n = offset_effect [OF off(1) h(1) range(1,2)] and p = offset_effect [OF off(2) h(2) range(3,4)]
    show ?thesis
    proof (rule that [OF s'])
      show "all_refunds s' = all_refunds s - (amount dn + amount dc) + (amount nl + amount cl)"
        unfolding all_refunds_def t
        by (subst sum_rows_keep) (use n(3) p(3) in \<open>auto simp: rr_is_empty_def Some\<close>)
    qed (use n p r sign in \<open>auto intro!: all_rows_keep [OF ok] simp: refund_ok_def\<close>)
  next
    case None
    show ?thesis
    proof (cases "amount dn < 0 \<or> amount dc < 0")
      case True
      obtain net cpu where off: "open_refund L dn s = Inr (net, nl)" "open_refund L dc s = Inr (cpu, cl)"
        and s': "s' = s\<lparr>refunds := put f f \<lparr>rr_owner = f, request_time = seconds_of (ctx_now c), net_amount = net, cpu_amount = cpu\<rparr> (refunds s)\<rparr>"
        using run None True unfolding update_refund_def c by auto
      note n = open_refund_effect [OF off(1) core range(1,2)] and p = open_refund_effect [OF off(2) core range(3,4)]
      show ?thesis
      proof (rule that [OF s'])
        show "all_refunds s' = all_refunds s - (amount dn + amount dc) + (amount nl + amount cl)"
          using n(3) p(3) by (simp add: all_refunds_def s' sum_rows_put None)
      qed (use n p f sign in \<open>auto intro!: all_rows_put [OF ok] simp: refund_ok_def\<close>)
    next
      case False
      then have s': "s' = s" "nl = dn" "cl = dc" using run None by (auto simp: update_refund_def)
      show ?thesis
        by (rule that [of "refunds s"]) (use s' ok range False in \<open>auto simp: holding_def\<close>)
    qed
  qed
qed

lemma offset_uses:
  assumes "offset_refund L r d = Inr (r', rest)" and "holding core r" and "asset_symbol d = core" and "asset_in_range d"
    and "0 \<le> amount d"
  shows "amount rest = amount d - min (amount d) (amount r)" and "amount r' = amount r - min (amount d) (amount r)"
proof -
  obtain q where q: "asset_minus L r d = Some q"
    and eq: "(if amount q < 0 then (q\<lparr>amount := 0\<rparr>, asset_neg L q) else (q, d\<lparr>amount := 0\<rparr>)) = (r', rest)"
    using assms(1) by (auto simp: offset_refund_def)
  have m: "amount q = amount r - amount d" "asset_in_range q"
    using minus_Some [OF _ assms(4) q] assms(2,3) by (simp_all add: holding_def)
  then show "amount rest = amount d - min (amount d) (amount r)" "amount r' = amount r - min (amount d) (amount r)"
    using eq by (auto simp: neg_ok split: if_splits)
qed

lemma refund_uses:
  assumes run: "update_refund c f dn dc s = Inr (nl, cl, s')" and c: "ctx_lib c = L"
    and ok: "all_rows (refund_ok core) (refunds s)" and d: "delta_ok core dn dc" and pos: "0 \<le> amount dn" "0 \<le> amount dc"
    and un: "un = min (amount dn) (owed_to net_amount f (refunds s))" and uc: "uc = min (amount dc) (owed_to cpu_amount f (refunds s))"
  shows "refunds_used f un uc (refunds s) (refunds s') \<and> amount nl = amount dn - un \<and> amount cl = amount dc - uc \<and>
    (owed_to net_amount f (refunds s') = 0 \<and> owed_to cpu_amount f (refunds s') = 0 \<longrightarrow> find_row (refunds s') f = None)"
proof (cases "find_row (refunds s) f")
  case (Some r)
  then have r: "holding core (net_amount r)" "holding core (cpu_amount r)"
    using all_rowsD [OF ok Some] by (simp_all add: refund_ok_def)
  obtain net cpu where off: "offset_refund L (net_amount r) dn = Inr (net, nl)" "offset_refund L (cpu_amount r) dc = Inr (cpu, cl)"
    and s': "s' = s\<lparr>refunds := keep_row f same_payer (rr_is_empty (r\<lparr>net_amount := net, cpu_amount := cpu\<rparr>)) f
        (r\<lparr>net_amount := net, cpu_amount := cpu\<rparr>) (refunds s)\<rparr>"
    using run Some pos unfolding update_refund_def c Let_def by auto
  have range: "asset_symbol dn = core" "asset_in_range dn" "asset_symbol dc = core" "asset_in_range dc"
    using d by (simp_all add: delta_ok_def)
  note n = offset_uses [OF off(1) r(1) range(1,2) pos(1)] and p = offset_uses [OF off(2) r(2) range(3,4) pos(2)]
  have u: "un = min (amount dn) (amount (net_amount r))" "uc = min (amount dc) (amount (cpu_amount r))"
    by (simp_all add: un uc owed_to_def Some)
  show ?thesis
    using n p by (auto simp: refunds_used_def owed_to_def s' Some u rr_is_empty_def)
next
  case None
  then have "s' = s" "nl = dn" "cl = dc" using run pos by (auto simp: update_refund_def)
  then show ?thesis using pos by (simp add: un uc owed_to_def None refunds_used_refl)
qed

text \<open>Whatever a change of the stake leaves to be paid is transferred to \<open>eosio.stake\<close>.\<close>

lemma settle_effect:
  assumes run: "settle_stake c src f r dn dc tr s = Inr s'" and c: "ctx_lib c = L"
    and src: "src \<noteq> stake_account" and tr: "tr \<Longrightarrow> 0 < amount dn + amount dc" "\<not> tr \<Longrightarrow> f = src"
    and core: "core_symbol s = Inr core" and ok: "all_rows (refund_ok core) (refunds s)" and d: "delta_ok core dn dc"
  obtains t x where "s' = s\<lparr>refunds := t, outbox := outbox s @ x\<rparr>" and "all_rows (refund_ok core) t"
    and "net_flow stake_account x - all_refunds s' = amount dn + amount dc - all_refunds s"
    and "amount dn + amount dc < 0 \<Longrightarrow> x = []"
    and "0 < amount dn + amount dc \<Longrightarrow> stake_paid core (\<not> tr \<and> f = r) src f dn dc s t x"
    and "list_all (core_message core) x"
proof -
  have sum: "i64 (amount dn + amount dc) = amount dn + amount dc"
    using d in_i64_id by (auto simp: delta_ok_def in_range_arith)
  let ?refunding = "\<not> tr \<and> f = r \<or> amount dn + amount dc < 0"
  obtain nl cl s1 q where one: "(if ?refunding then update_refund c f dn dc s else Inr (dn, dc, s)) = Inr (nl, cl, s1)"
    and q: "asset_plus L nl cl = Some q"
    and s': "s' = (if 0 < amount q then send_token [(src, active_permission)]
                    (Transfer src stake_account q ''stake bandwidth'') s1 else s1)"
    using run src by (auto simp: settle_stake_def Let_def sum c)
  have step: "\<exists>t. s1 = s\<lparr>refunds := t\<rparr> \<and> all_rows (refund_ok core) t \<and> holding core nl \<and> holding core cl \<and>
      all_refunds s1 = all_refunds s - (amount dn + amount dc) + (amount nl + amount cl) \<and>
      (amount dn + amount dc < 0 \<longrightarrow> amount nl + amount cl = 0)"
  proof (cases ?refunding)
    case True
    then have "f \<noteq> stake_account" using tr src by (cases tr) auto
    with True show ?thesis
      using one by (auto elim!: refund_effect [OF _ c _ core ok d])
  next
    case False
    then show ?thesis
      using one ok d by (intro exI [of _ "refunds s"]) (auto simp: delta_ok_def holding_def)
  qed
  then obtain t where t: "s1 = s\<lparr>refunds := t\<rparr>" "all_rows (refund_ok core) t" and h: "holding core nl" "holding core cl"
    and bal: "all_refunds s1 = all_refunds s - (amount dn + amount dc) + (amount nl + amount cl)"
    and neg: "amount dn + amount dc < 0 \<Longrightarrow> amount nl + amount cl = 0"
    by blast
  have a: "asset_symbol q = core \<and> amount q = amount nl + amount cl \<and> asset_in_range q"
    using plus_Some [OF _ _ q] h by (auto simp: holding_def)
  define x where "x = (if 0 < amount q then [\<lparr>in_auths = [(src, active_permission)],
      in_call = Token_call (Transfer src stake_account q ''stake bandwidth'')\<rparr>] else [])"
  have eq: "s' = s\<lparr>refunds := t, outbox := outbox s @ x\<rparr>"
    unfolding s' t x_def by (simp add: send_token_def)
  have flow: "net_flow stake_account x = amount q"
    using src h a by (auto simp: x_def holding_def)
  show ?thesis
  proof (rule that [OF eq t(2)])
    have "all_refunds s' = all_refunds s1" by (simp add: all_refunds_def eq t)
    then show "net_flow stake_account x - all_refunds s' = amount dn + amount dc - all_refunds s"
      using bal a by (simp add: flow)
    show "amount dn + amount dc < 0 \<Longrightarrow> x = []" using neg a by (simp add: x_def)
    show "stake_paid core (\<not> tr \<and> f = r) src f dn dc s t x" if pos: "0 < amount dn + amount dc"
    proof -
      have both: "0 \<le> amount dn" "0 \<le> amount dc" using d pos by (auto simp: delta_ok_def)
      have own: "refunds_used f (min (amount dn) (owed_to net_amount f (refunds s))) (min (amount dc) (owed_to cpu_amount f (refunds s)))
          (refunds s) t \<and> amount nl = amount dn - min (amount dn) (owed_to net_amount f (refunds s)) \<and>
          amount cl = amount dc - min (amount dc) (owed_to cpu_amount f (refunds s)) \<and>
          (owed_to net_amount f t = 0 \<and> owed_to cpu_amount f t = 0 \<longrightarrow> find_row t f = None)" if "\<not> tr \<and> f = r"
        using refund_uses [OF _ c ok d both refl refl, of f nl cl s1] one that by (simp add: t)
      have away: "t = refunds s \<and> nl = dn \<and> cl = dc" if "\<not> (\<not> tr \<and> f = r)"
      proof -
        have "s1 = s \<and> nl = dn \<and> cl = dc" using one that pos by (auto split: if_splits)
        then show ?thesis using arg_cong [OF t(1), of refunds] by simp
      qed
      have hq: "holding core q" using a h by (simp add: holding_def)
      show ?thesis
      proof (cases "\<not> tr \<and> f = r")
        case True
        then show ?thesis
          unfolding stake_paid_def Let_def using own [OF True] a hq by (auto simp: x_def intro!: exI [of _ q])
      next
        case False
        then show ?thesis
          unfolding stake_paid_def Let_def using away [OF False] a hq
          by (auto simp: x_def refunds_used_refl intro!: exI [of _ q])
      qed
    qed
    show "list_all (core_message core) x" using a by (simp add: x_def core_message_def)
  qed
qed

text \<open>The four blocks together.\<close>

lemma changebw_parts:
  assumes run: "changebw c src r dn dc tr s = Inr s'" and c: "ctx_lib c = L"
    and src: "src \<noteq> stake_account" and tr: "tr \<Longrightarrow> 0 < amount dn + amount dc"
    and books: "books core s" and d: "delta_ok core dn dc" and f: "f = (if tr then r else src)"
  obtains t1 drow t2 row t3 x h n where
    "delband s' = t1" and "all_rows (delband_ok core) t1"
    and "\<And>u v. weighed u v t1 = weighed u v (delband s) + u (f, r) * amount dn + v (f, r) * amount dc"
    and "\<And>k. k \<noteq> (f, r) \<Longrightarrow> find_row t1 k = find_row (delband s) k"
    and "find_row t1 (f, r) = (if db_is_empty drow then None else Some drow)"
    and "userres s' = t2" and "all_rows (userres_ok core) t2"
    and "\<And>k. find_row t2 k = (if k = r then if ur_is_empty row then None else Some row else find_row (userres s) k)"
    and "amount (ur_net_weight row) = total_of ur_net_weight r s + amount dn"
    and "amount (ur_cpu_weight row) = total_of ur_cpu_weight r s + amount dc"
    and "ur_ram_bytes row = (case find_row (userres s) r of None \<Rightarrow> 0 | Some w \<Rightarrow> ur_ram_bytes w)"
    and "resource_limits s' = resource_limits (apply_limits r row s)"
    and "refunds s' = t3" and "outbox s' = outbox s @ x" and "all_rows (refund_ok core) t3"
    and "net_flow stake_account x - all_refunds s' = amount dn + amount dc - all_refunds s"
    and "amount dn + amount dc < 0 \<Longrightarrow> x = []"
    and "0 < amount dn + amount dc \<Longrightarrow> stake_paid core (\<not> tr \<and> f = r) src f dn dc s t3 x"
    and "genesis s' = genesis s" and "core_symbol s' = Inr core"
    and "stake_changes f (amount dn + amount dc) (shapes s) h n" and "0 \<le> n" and "shapes s' = (shapes s)(f \<mapsto> h\<lparr>sh_staked := n\<rparr>)"
    and "list_all (core_message core) x"
proof -
  obtain q s1 s2 s3 where q: "asset_plus L dn dc = Some q"
    and one: "update_delband c f r dn dc s = Inr s1" and two: "update_totals c f r dn dc s1 = Inr s2"
    and three: "settle_stake c src f r dn dc tr s2 = Inr s3"
    and four: "update_voting_power c f q (s3\<lparr>wps_total_stake := fadd (wps_total_stake s3)
          (of_i64 (i64 (amount dn + amount dc)))\<rparr>) = Inr s'"
    using run by (auto simp: changebw_def Let_def c f)
  have b: "core_symbol s = Inr core" "all_rows (delband_ok core) (delband s)" "all_rows (userres_ok core) (userres s)"
    "all_rows (refund_ok core) (refunds s)"
    using books by (simp_all add: books_def)
  have amt: "amount q = amount dn + amount dc" using plus_Some [OF _ _ q] d by (simp add: delta_ok_def)
  obtain t1 drow where s1: "s1 = s\<lparr>delband := t1\<rparr>" and D: "all_rows (delband_ok core) t1"
    "\<And>u v. weighed u v t1 = weighed u v (delband s) + u (f, r) * amount dn + v (f, r) * amount dc"
    "\<And>k. k \<noteq> (f, r) \<Longrightarrow> find_row t1 k = find_row (delband s) k"
    "find_row t1 (f, r) = (if db_is_empty drow then None else Some drow)"
    by (rule delband_effect [OF one c b(2) d]) (rule that)
  have "all_rows (userres_ok core) (userres s1)" using b(3) by (simp add: s1)
  then obtain row t2 where s2: "s2 = (apply_limits r row s1)\<lparr>userres := t2\<rparr>" and T: "all_rows (userres_ok core) t2"
    "\<And>k. find_row t2 k = (if k = r then if ur_is_empty row then None else Some row else find_row (userres s1) k)"
    "amount (ur_net_weight row) = (case find_row (userres s1) r of None \<Rightarrow> 0 | Some w \<Rightarrow> amount (ur_net_weight w)) + amount dn"
    "amount (ur_cpu_weight row) = (case find_row (userres s1) r of None \<Rightarrow> 0 | Some w \<Rightarrow> amount (ur_cpu_weight w)) + amount dc"
    "ur_ram_bytes row = (case find_row (userres s1) r of None \<Rightarrow> 0 | Some w \<Rightarrow> ur_ram_bytes w)"
    by (rule totals_effect [OF two c _ d]) (rule that)
  have core2: "core_symbol s2 = Inr core" using b(1) by (simp add: s2 s1 core_symbol_def)
  have r2: "refunds s2 = refunds s" "outbox s2 = outbox s" by (simp_all add: s2 s1)
  have ok2: "all_rows (refund_ok core) (refunds s2)" using b(4) by (simp add: r2)
  obtain t3 x where s3: "s3 = s2\<lparr>refunds := t3, outbox := outbox s2 @ x\<rparr>" and R: "all_rows (refund_ok core) t3"
    "net_flow stake_account x - all_refunds s3 = amount dn + amount dc - all_refunds s2"
    "amount dn + amount dc < 0 \<Longrightarrow> x = []"
    "0 < amount dn + amount dc \<Longrightarrow> stake_paid core (\<not> tr \<and> f = r) src f dn dc s2 t3 x"
    "list_all (core_message core) x"
    by (rule settle_effect [OF three c src tr _ core2 ok2 d]) (simp_all add: that f)
  have sh3: "shapes s3 = shapes s" by (simp add: s3 s2 s1 shapes_def fun_eq_iff)
  obtain h n where V: "stake_changes f (amount dn + amount dc) (shapes s) h n" "0 \<le> n"
    "holdings s' = holdings s3" "shapes s' = (shapes s)(f \<mapsto> h\<lparr>sh_staked := n\<rparr>)"
    by (rule voting_power_effect [OF four]) (simp_all add: that sh3 amt)
  note H = holdingsD [OF V(3)]
  have paid: "0 < amount dn + amount dc \<Longrightarrow> stake_paid core (\<not> tr \<and> f = r) src f dn dc s t3 x"
    using R(4) unfolding stake_paid_def r2 .
  have lim: "resource_limits (apply_limits r row s1) = resource_limits (apply_limits r row s)"
    by (simp add: apply_limits_def set_resource_limits_def get_resource_limits_def s1 managed_def split: prod.split)
  show ?thesis
  proof (rule that [of t1 drow t2 row t3 x h n])
    show "net_flow stake_account x - all_refunds s' = amount dn + amount dc - all_refunds s"
      using R(2) H r2 by (simp add: all_refunds_def)
  qed (use D T R(1-3,5) V H lim core2 paid in \<open>simp_all add: s1 s2 s3 total_of_def core_symbol_def\<close>)
qed

lemma changebw_books:
  assumes run: "changebw c src r dn dc tr s = Inr s'" and c: "ctx_lib c = L"
    and src: "src \<noteq> stake_account" and tr: "tr \<Longrightarrow> 0 < amount dn + amount dc"
    and books: "books core s" and d: "delta_ok core dn dc"
  shows "books core s'" and "unclaimed_stake s' = unclaimed_stake s"
proof -
  define f where "f = (if tr then r else src)"
  have agree: "total_of ur_net_weight a s = net_staked_to a s" "total_of ur_cpu_weight a s = cpu_staked_to a s"
    "stake_of_voter a s = i64 (staked_by a s)" for a
    using books by (simp_all add: books_def)
  have range: "in_i64 (amount dn + amount dc)"
    using d by (auto simp: delta_ok_def in_i64_def asset_in_range_def max_amount_def)
  show "books core s'" "unclaimed_stake s' = unclaimed_stake s"
  proof (atomize (full), rule changebw_parts [OF run c src tr books d f_def], goal_cases)
    case (2 t1 drow t2 row t3 x h n)
    note D = 2(2-4) and T = 2(7-11) and R = 2(14-17) and V = 2(21-23)
    have staked: "staked_by a s' = staked_by a s + of_bool (f = a) * (amount dn + amount dc)" for a
      by (simp add: staked_by_def 2(1) D(2) algebra_simps)
    have "n = i64 (staked_by f s + (amount dn + amount dc))"
      by (rule stake_changes_sum [OF V(1) range]) (simp add: agree)
    then have "stake_of_voter a s' = i64 (staked_by a s')" for a
      using agree(3) [of a] by (simp add: stake_of_shape V(3) staked)
    moreover have "total_of ur_net_weight a s' = net_staked_to a s'" "total_of ur_cpu_weight a s' = cpu_staked_to a s'" for a
      using T agree(1,2) [of a]
      by (auto simp: total_of_def net_staked_to_def cpu_staked_to_def 2(1) D(2) 2(6) ur_is_empty_def split: option.splits)
    moreover have "votes_ok (shapes s')"
      unfolding V(3) by (rule votes_ok_same_vote [where h = h])
        (use V(1) books in \<open>auto simp: books_def stake_changes_def\<close>)
    ultimately have "books core s'"
      using D(1) T(1) R(2) 2(1,6,13,20) by (simp add: books_def)
    moreover have "all_staked s' = all_staked s + amount dn + amount dc"
      by (simp add: all_staked_def 2(1) D(2))
    then have "unclaimed_stake s' = unclaimed_stake s"
      using 2(14,16) by (simp add: unclaimed_stake_def)
    ultimately show ?case by simp
  qed simp
qed

text \<open>The totals and the voting power have no part in the records.\<close>

lemma totals_frame:
  assumes "update_totals c f r dn dc s = Inr s'"
  shows "delband s' = delband s \<and> refunds s' = refunds s \<and> outbox s' = outbox s \<and> rammarket s' = rammarket s"
  using assms unfolding update_totals_def bind_result_Inr check_Inr sum.inject
  by (elim exE conjE) (auto simp: apply_limits_def set_resource_limits_def split: prod.split)

lemma changebw_settled:
  assumes run: "changebw c src r dn dc tr s = Inr s'" and c: "ctx_lib c = L"
    and src: "src \<noteq> stake_account" and tr: "tr \<Longrightarrow> 0 < amount dn + amount dc"
    and rec: "stake_records core s" and d: "delta_ok core dn dc"
  shows "settled core 0 s s'"
proof -
  define f where "f = (if tr then r else src)"
  obtain q s1 s2 s3 where one: "update_delband c f r dn dc s = Inr s1" and two: "update_totals c f r dn dc s1 = Inr s2"
    and three: "settle_stake c src f r dn dc tr s2 = Inr s3"
    and four: "update_voting_power c f q (s3\<lparr>wps_total_stake := fadd (wps_total_stake s3)
          (of_i64 (i64 (amount dn + amount dc)))\<rparr>) = Inr s'"
    using run by (auto simp: changebw_def Let_def f_def)
  have ok: "all_rows (delband_ok core) (delband s)" using rec by (simp add: stake_records_def)
  obtain t1 where s1: "s1 = s\<lparr>delband := t1\<rparr>" and t1: "all_rows (delband_ok core) t1"
    "\<And>u v. weighed u v t1 = weighed u v (delband s) + u (f, r) * amount dn + v (f, r) * amount dc"
    by (rule delband_effect [OF one c ok d]) (rule that)
  note s2 = totals_frame [OF two]
  have core2: "core_symbol s2 = Inr core" and ok2: "all_rows (refund_ok core) (refunds s2)"
    using rec s2 by (simp_all add: stake_records_def core_symbol_def s1)
  obtain t3 x where s3: "s3 = s2\<lparr>refunds := t3, outbox := outbox s2 @ x\<rparr>" and t3: "all_rows (refund_ok core) t3"
    "net_flow stake_account x - all_refunds s3 = amount dn + amount dc - all_refunds s2" "list_all (core_message core) x"
    by (rule settle_effect [OF three c src tr _ core2 ok2 d]) (simp_all add: that f_def)
  have "holdings s' = holdings s3" by (rule voting_power_effect [OF four]) simp
  note H = holdingsD [OF this]
  show ?thesis
    using rec t1 t3 s2 H
    by (auto simp: settled_def stake_records_def core_symbol_def unclaimed_stake_def all_staked_def all_refunds_def s1 s3)
qed

end

text \<open>Actions that only touch the genesis table and send tokens that are not of the stake.\<close>

definition genesis_only :: "sys \<Rightarrow> sys \<Rightarrow> bool" where
  "genesis_only s s' \<longleftrightarrow> (\<exists>g x. s' = s\<lparr>genesis := g, outbox := outbox s @ x\<rparr> \<and>
     net_flow stake_account x = 0 \<and> (\<forall>core. list_all (core_message core) x))"

lemma genesis_onlyI:
  "s' = s\<lparr>genesis := g, outbox := outbox s @ x\<rparr> \<Longrightarrow> net_flow stake_account x = 0 \<Longrightarrow> (\<And>core. list_all (core_message core) x) \<Longrightarrow>
   genesis_only s s'"
  by (auto simp: genesis_only_def)

lemma genesis_only_refl: "genesis_only s s"
  by (rule genesis_onlyI [where g = "genesis s" and x = "[]"]) simp_all

lemma genesis_only_table: "genesis_only s (s\<lparr>genesis := g\<rparr>)"
  by (rule genesis_onlyI [where g = g and x = "[]"]) simp_all

lemma genesis_only_send:
  assumes "genesis_only s s'" and "flow_of_call stake_account (Token_call a) = 0" and "\<And>core. core_call core au (Token_call a)"
  shows "genesis_only s (send_token au a s')"
proof -
  obtain g x where "s' = s\<lparr>genesis := g, outbox := outbox s @ x\<rparr>" "net_flow stake_account x = 0"
    "\<And>core. list_all (core_message core) x"
    using assms(1) by (auto simp: genesis_only_def)
  then show ?thesis
    using assms(2,3)
    by (intro genesis_onlyI [where g = g and x = "x @ [\<lparr>in_auths = au, in_call = Token_call a\<rparr>]"])
      (simp_all add: send_token_def core_message_def)
qed

lemma genesis_only_trans:
  assumes "genesis_only s t" and "genesis_only t u"
  shows "genesis_only s u"
proof -
  obtain g x h y where "t = s\<lparr>genesis := g, outbox := outbox s @ x\<rparr>" "u = t\<lparr>genesis := h, outbox := outbox t @ y\<rparr>"
    "net_flow stake_account x = 0" "net_flow stake_account y = 0"
    "\<And>core. list_all (core_message core) x" "\<And>core. list_all (core_message core) y"
    using assms by (auto simp: genesis_only_def)
  then show ?thesis by (intro genesis_onlyI [where g = h and x = "x @ y"]) simp_all
qed

lemma books_genesis:
  assumes "genesis_only s s'"
  shows "books core s' \<longleftrightarrow> books core s" and "unclaimed_stake s' = unclaimed_stake s"
  using assms
  by (auto simp: genesis_only_def books_def core_symbol_def total_of_def stake_of_voter_def net_staked_to_def
      cpu_staked_to_def staked_by_def unclaimed_stake_def all_staked_def all_refunds_def)

lemma settled_genesis: "genesis_only s s' \<Longrightarrow> stake_records core s \<Longrightarrow> settled core 0 s s'"
  by (auto simp: genesis_only_def settled_def stake_records_def core_symbol_def unclaimed_stake_def all_staked_def all_refunds_def)

lemma burn_genesis_only:
  assumes "burn_unvested c w s = Inr s'" and "ctx_self c \<noteq> stake_account"
  shows "genesis_only s s'"
  using assms unfolding burn_unvested_def Let_def
  by (auto split: if_splits intro!: genesis_only_send genesis_only_refl)

lemma change_genesis_only:
  assumes "change_genesis c w s = Inr s'" and "ctx_self c \<noteq> stake_account"
  shows "genesis_only s s'"
proof -
  consider "s' = s" | g y where "burn_unvested c y (s\<lparr>genesis := g\<rparr>) = Inr s'"
  proof (cases "has_genesis_balance w s = Inr False")
    case True
    then show ?thesis using assms(1) that by (simp add: change_genesis_def)
  next
    case False
    then have has: "has_genesis_balance w s = Inr True" using assms(1) by (auto simp: change_genesis_def)
    show ?thesis
      using assms(1) unfolding change_genesis_def has genesis_row_def Let_def bind_result_Inr some_or_Inr bind_result_simps
        if_False not_True_eq_False split_paired_Ex prod.case
      by (elim exE conjE) (rule that(2))
  qed
  then show ?thesis
    by cases (use burn_genesis_only [OF _ assms(2)] genesis_only_trans genesis_only_table genesis_only_refl in blast)+
qed

lemma claimgenesis_only:
  assumes "claimgenesis c w s = Inr s'" and "w \<noteq> stake_account"
  shows "genesis_only s s'"
proof -
  obtain g q where "s' = send_token [(genesis_account, active_permission)]
      (Transfer genesis_account w q ''claimgenesis'') (s\<lparr>genesis := g\<rparr>)"
    using assms(1) unfolding claimgenesis_def genesis_row_def Let_def require_auth_Inr bind_result_Inr some_or_Inr
      check_Inr sum.inject
    by (elim exE conjE) (rule that, rule sym)
  then show ?thesis using assms(2) by (auto intro!: genesis_only_send genesis_only_table)
qed

context asset_library
begin

text \<open>The checks of \<open>delegatebw\<close> and \<open>undelegatebw\<close> leave a change of the stake in order.\<close>

lemma core_asset_zero: "core_asset L 0 s = Inr z \<Longrightarrow> core_symbol s = Inr core \<Longrightarrow> asset_symbol z = core \<and> amount z = 0"
  by (auto simp: core_asset_def dest: mk_Some)

lemma at_least_Inr:
  "check_at_least L a b msg r = Inr x \<longleftrightarrow> asset_symbol a = asset_symbol b \<and> amount b \<le> amount a \<and> r = Inr x"
  by (auto simp: check_at_least_def less_ok)

lemma at_least_zero:
  "check_at_least L a z msg r = Inr x \<Longrightarrow> asset_symbol z = core \<Longrightarrow> amount z = 0 \<Longrightarrow>
   asset_symbol a = core \<and> 0 \<le> amount a \<and> r = Inr x"
  by (auto simp: check_at_least_def less_ok split: if_splits)

lemma i64_sum_pos:
  assumes "0 \<le> a" "0 \<le> b" "in_i64 a" "in_i64 b" "0 < i64 (a + b)"
  shows "i64 (a + b) = a + b"
proof -
  have "a + b < 2 ^ 63"
  proof (rule ccontr)
    assume "\<not> a + b < 2 ^ 63"
    then have "0 \<le> a + b - 2 ^ 63 \<and> a + b - 2 ^ 63 < 2 ^ 64" using assms by (auto simp: in_i64_def)
    then have "(a + b - 2 ^ 63) mod 2 ^ 64 = a + b - 2 ^ 63" by (simp add: mod_pos_pos_trivial)
    moreover have "(a + b + 2 ^ 63) mod 2 ^ 64 = (a + b - 2 ^ 63) mod 2 ^ 64"
    proof -
      have "a + b + 2 ^ 63 = (a + b - 2 ^ 63) + 2 ^ 64" by simp
      then show ?thesis by (simp only: mod_add_self2)
    qed
    ultimately have "i64 (a + b) < 0" using assms by (simp add: i64_def in_i64_def)
    then show False using assms by simp
  qed
  then show ?thesis using assms by simp
qed

lemma delta_of_positive:
  assumes "asset_symbol n = core" "asset_symbol p = core" "0 \<le> amount n" "0 \<le> amount p"
    and "in_i64 (amount n)" "in_i64 (amount p)" "0 < i64 (amount n + amount p)" and "asset_plus L n p = Some q"
  shows "delta_ok core n p" and "0 < amount n + amount p"
proof -
  note sum = i64_sum_pos [OF assms(3,4,5,6,7)]
  have "\<bar>amount n + amount p\<bar> \<le> max_amount" using assms(5,6,8) by (simp add: plus_wrap sum split: if_splits)
  then show "delta_ok core n p" using assms(1-4) by (simp add: delta_ok_def asset_in_range_def)
  show "0 < amount n + amount p" using assms(7) sum by simp
qed

lemma delta_of_negative:
  assumes "asset_symbol n = core" "asset_symbol p = core" "0 \<le> amount n" "0 \<le> amount p"
    and "in_i64 (amount n)" "in_i64 (amount p)" "0 < i64 (amount p + amount n)"
    and "asset_plus L (asset_neg L n) (asset_neg L p) = Some q"
  shows "delta_ok core (asset_neg L n) (asset_neg L p)"
    and "amount (asset_neg L n) = - amount n" "amount (asset_neg L p) = - amount p" "0 < amount p + amount n"
proof -
  note sum = i64_sum_pos [OF assms(4,3,6,5,7)]
  have neg: "asset_neg L n = n\<lparr>amount := - amount n\<rparr>" "asset_neg L p = p\<lparr>amount := - amount p\<rparr>"
    using assms(3-6) by (auto simp: neg_wrap in_i64_def)
  have "i64 (- amount n - amount p) = - amount n - amount p"
    by (rule in_i64_id) (use i64_range [of "amount p + amount n"] assms(3,4) sum in \<open>auto simp: in_i64_def\<close>)
  moreover have "in_i64 (- amount n)" "in_i64 (- amount p)" using assms(3-6) by (auto simp: in_i64_def)
  ultimately have "\<bar>- amount n - amount p\<bar> \<le> max_amount" using assms(8) by (simp add: plus_wrap neg split: if_splits)
  then show "delta_ok core (asset_neg L n) (asset_neg L p)" using assms(1-4) by (simp add: delta_ok_def asset_in_range_def neg)
  show "amount (asset_neg L n) = - amount n" "amount (asset_neg L p) = - amount p" by (simp_all add: neg)
  show "0 < amount p + amount n" using assms(7) sum by simp
qed

lemma delegatebw_parts:
  assumes "delegatebw c f r n p tr s = Inr s'" and "ctx_lib c = L"
    and "in_i64 (amount n)" "in_i64 (amount p)" and core: "core_symbol s = Inr core"
  shows "delta_ok core n p \<and> 0 < amount n + amount p \<and> changebw c f r n p tr s = Inr s'"
proof -
  obtain z where z: "core_asset L 0 s = Inr z"
    and run: "check_at_least L p z ''must stake a positive amount'' (
      check_at_least L n z ''must stake a positive amount'' (
      check (0 < i64 (amount n + amount p)) ''must stake a positive amount'' (
      check (\<not> tr \<or> f \<noteq> r) ''cannot use transfer flag if delegating to self'' (
      changebw c f r n p tr s)))) = Inr s'"
    using assms(1) unfolding delegatebw_def assms(2) bind_result_Inr by blast
  note zero = core_asset_zero [OF z core]
  note p = at_least_zero [OF run zero [THEN conjunct1] zero [THEN conjunct2]]
  note n = at_least_zero [OF p [THEN conjunct2, THEN conjunct2] zero [THEN conjunct1] zero [THEN conjunct2]]
  have pos: "0 < i64 (amount n + amount p)" and run': "changebw c f r n p tr s = Inr s'" using n by simp_all
  obtain t where t: "asset_plus L n p = Some t" using run' assms(2) by (auto simp: changebw_def)
  show ?thesis using delta_of_positive [OF _ _ _ _ assms(3,4) pos t] n p run' by blast
qed

lemma undelegatebw_parts:
  assumes "undelegatebw c f r n p s = Inr s'" and "ctx_lib c = L"
    and "in_i64 (amount n)" "in_i64 (amount p)" and core: "core_symbol s = Inr core"
  obtains s1 where "delta_ok core (asset_neg L n) (asset_neg L p)"
    and "amount (asset_neg L n) = - amount n" and "amount (asset_neg L p) = - amount p" and "0 < amount p + amount n"
    and "thresh_activated_stake_time (gs s) \<noteq> 0"
    and "changebw c f r (asset_neg L n) (asset_neg L p) False s = Inr s1" and "change_genesis c r s1 = Inr s'"
proof -
  obtain z where z: "core_asset L 0 s = Inr z"
    and run: "check_at_least L p z ''must unstake a positive amount'' (
      check_at_least L n z ''must unstake a positive amount'' (
      check (i64 (amount p + amount n) > 0) ''must unstake a positive amount'' (
      check (thresh_activated_stake_time (gs s) \<noteq> 0)
        ''cannot undelegate bandwidth until the chain is activated (at least 15% of all tokens participate in voting)'' (
      bind_result (changebw c f r (asset_neg L n) (asset_neg L p) False s) (change_genesis c r))))) = Inr s'"
    using assms(1) unfolding undelegatebw_def assms(2) bind_result_Inr by blast
  note zero = core_asset_zero [OF z core]
  note p = at_least_zero [OF run zero [THEN conjunct1] zero [THEN conjunct2]]
  note n = at_least_zero [OF p [THEN conjunct2, THEN conjunct2] zero [THEN conjunct1] zero [THEN conjunct2]]
  obtain s1 where pos: "0 < i64 (amount p + amount n)" and act: "thresh_activated_stake_time (gs s) \<noteq> 0"
    and run': "changebw c f r (asset_neg L n) (asset_neg L p) False s = Inr s1" and gen: "change_genesis c r s1 = Inr s'"
    using n by auto
  obtain t where t: "asset_plus L (asset_neg L n) (asset_neg L p) = Some t" using run' assms(2) by (auto simp: changebw_def)
  note d = delta_of_negative [OF _ _ _ _ assms(3,4) pos t]
  show ?thesis by (rule that [OF d _ run' gen]) (use n p act in simp_all)
qed

end

end
