(* ===== verification/StakeProperties.thy ===== *)
theory StakeProperties
  imports StakeLemmas
begin

text \<open>
  What holds after every history of staking and voting: the books agree with each other, \<open>eosio.stake\<close>
  holds what is staked or owed, every stake can be refunded after three days, the chains of proxies end.
\<close>

section \<open>Histories\<close>

fun stake_admissible :: "ctx \<times> stake_action \<Rightarrow> bool" where
  "stake_admissible (c, a) \<longleftrightarrow> asset_library (ctx_lib c) \<and> ctx_self c \<noteq> stake_account \<and>
     (case a of
        Delegatebw f r n p t \<Rightarrow> f \<noteq> stake_account \<and> in_i64 (amount n) \<and> in_i64 (amount p)
      | Undelegatebw f r n p \<Rightarrow> f \<noteq> stake_account \<and> in_i64 (amount n) \<and> in_i64 (amount p)
      | Removerefund w q \<Rightarrow> in_i64 (amount q)
      | Claimgenesis w \<Rightarrow> w \<noteq> stake_account
      | _ \<Rightarrow> True)"

text \<open>What the system takes out of a refund request.\<close>

fun removed_tokens :: "ctx \<times> stake_action \<Rightarrow> int" where
  "removed_tokens (c, Removerefund w q) = amount q"
| "removed_tokens _ = 0"

text \<open>The state before the first stake: a market for the core symbol, and no rows.\<close>

definition unstaked :: "symbol \<Rightarrow> sys \<Rightarrow> bool" where
  "unstaked core s \<longleftrightarrow> core_symbol s = Inr core \<and> delband s = no_rows \<and> userres s = no_rows \<and> refunds s = no_rows \<and>
     voters s = no_rows \<and> net_flow stake_account (outbox s) = 0"

lemma unstaked_books: "unstaked core s \<Longrightarrow> books core s \<and> unclaimed_stake s = 0"
proof -
  assume s: "unstaked core s"
  have "weighed u v no_rows = 0" for u v by (simp add: weighed_def)
  moreover have "acyclic {}" by (simp add: acyclic_def)
  moreover have "shapes s = (\<lambda>_. None)" using s by (simp add: unstaked_def shapes_def fun_eq_iff)
  moreover have "follows (\<lambda>_. None) = {}" by (simp add: follows_def)
  ultimately show ?thesis
    using s by (simp add: unstaked_def books_def votes_ok_def total_of_def stake_of_voter_def net_staked_to_def
      cpu_staked_to_def staked_by_def unclaimed_stake_def all_staked_def all_refunds_def)
qed

context asset_library
begin

lemma delegatebw_books:
  assumes "delegatebw c f r n p tr s = Inr s'" and "ctx_lib c = L" and "f \<noteq> stake_account"
    and "in_i64 (amount n)" "in_i64 (amount p)" and books: "books core s"
  shows "books core s' \<and> unclaimed_stake s' = unclaimed_stake s"
proof -
  have "core_symbol s = Inr core" using books by (simp add: books_def)
  from delegatebw_parts [OF assms(1,2,4,5) this] show ?thesis
    using changebw_books [OF _ assms(2,3) _ books] by blast
qed

lemma undelegatebw_books:
  assumes "undelegatebw c f r n p s = Inr s'" and "ctx_lib c = L" and "f \<noteq> stake_account" and "ctx_self c \<noteq> stake_account"
    and "in_i64 (amount n)" "in_i64 (amount p)" and books: "books core s"
  shows "books core s' \<and> unclaimed_stake s' = unclaimed_stake s"
proof -
  have core: "core_symbol s = Inr core" using books by (simp add: books_def)
  show ?thesis
  proof (rule undelegatebw_parts [OF assms(1,2,5,6) core])
    fix s1
    assume d: "delta_ok core (asset_neg L n) (asset_neg L p)"
      and run: "changebw c f r (asset_neg L n) (asset_neg L p) False s = Inr s1" and gen: "change_genesis c r s1 = Inr s'"
    show ?thesis
      using changebw_books [OF run assms(2,3) _ books d] books_genesis [OF change_genesis_only [OF gen assms(4)]] by simp
  qed
qed

text \<open>Rows of refunds that go or shrink.\<close>

lemma books_refunds:
  assumes "books core s" and "all_rows (refund_ok core) t"
  shows "books core (s\<lparr>refunds := t, outbox := x\<rparr>)"
  using assms by (simp add: books_def core_symbol_def total_of_def stake_of_voter_def net_staked_to_def
      cpu_staked_to_def staked_by_def)

text \<open>When a refund is paid, and with which message.\<close>

lemma refund_iff:
  assumes c: "ctx_lib c = L" and rec: "stake_records core s"
  shows "refund c w s = Inr s' \<longleftrightarrow> has_auth c w \<and> (\<exists>r. find_row (refunds s) w = Some r \<and>
    i64 (request_time r * 1000000 + refund_delay_sec * 1000000) \<le> ctx_now c \<and>
    amount (net_amount r) + amount (cpu_amount r) \<le> max_amount \<and>
    s' = s\<lparr>refunds := erase_row w (refunds s), outbox := outbox s @
      [\<lparr>in_auths = [(stake_account, active_permission), (w, active_permission)],
        in_call = Token_call (Transfer stake_account w
          \<lparr>amount = amount (net_amount r) + amount (cpu_amount r), asset_symbol = core\<rparr> ''unstake'')\<rparr>]\<rparr>)"
proof -
  have ok: "all_rows (refund_ok core) (refunds s)" using rec by (simp add: stake_records_def)
  have sum: "asset_plus L (net_amount r) (cpu_amount r) =
      (if amount (net_amount r) + amount (cpu_amount r) \<le> max_amount
       then Some \<lparr>amount = amount (net_amount r) + amount (cpu_amount r), asset_symbol = core\<rparr> else None) \<and> rr_owner r = w"
    if "find_row (refunds s) w = Some r" for r
    using all_rowsD [OF ok that] plus_ok by (simp add: refund_ok_def holding_def)
  show ?thesis
    using sum by (cases "find_row (refunds s) w") (auto simp: refund_def send_token_def c)
qed

lemma refund_settled:
  assumes "refund c w s = Inr s'" and "ctx_lib c = L" and rec: "stake_records core s"
  shows "settled core 0 s s'"
proof -
  obtain r :: refund_request where r: "find_row (refunds s) w = Some r" and s': "s' = s\<lparr>refunds := erase_row w (refunds s), outbox := outbox s @
      [\<lparr>in_auths = [(stake_account, active_permission), (w, active_permission)],
        in_call = Token_call (Transfer stake_account w
          \<lparr>amount = amount (net_amount r) + amount (cpu_amount r), asset_symbol = core\<rparr> ''unstake'')\<rparr>]\<rparr>"
    using assms(1) unfolding refund_iff [OF assms(2) rec] by blast
  have ok: "all_rows (refund_ok core) (refunds s)" using rec by (simp add: stake_records_def)
  have "w \<noteq> stake_account" using all_rowsD [OF ok r] by (simp add: refund_ok_def)
  then show ?thesis
    using rec all_rows_erase [OF ok, of w]
    by (simp add: settled_def stake_records_def core_symbol_def unclaimed_stake_def all_staked_def all_refunds_def
        s' sum_rows_erase r core_message_def)
qed

lemma refund_books:
  assumes "refund c w s = Inr s'" and "ctx_lib c = L" and books: "books core s"
  shows "books core s' \<and> unclaimed_stake s' = unclaimed_stake s"
proof -
  have settled: "settled core 0 s s'" by (rule refund_settled [OF assms(1,2) books_records [OF books]])
  obtain t x where s': "s' = s\<lparr>refunds := t, outbox := x\<rparr>"
    using assms(1) unfolding refund_iff [OF assms(2) books_records [OF books]] by blast
  have "all_rows (refund_ok core) t" using settled by (simp add: settled_def stake_records_def s')
  then show ?thesis using settled books_refunds [OF books] by (simp add: s' settled_def)
qed

lemma minus_in_range:
  assumes "asset_in_range a" and "in_i64 (amount b)" and "asset_minus L a b = Some r"
  shows "asset_symbol a = asset_symbol b \<and> asset_symbol r = asset_symbol a \<and> amount r = amount a - amount b \<and> asset_in_range r"
proof -
  have "\<bar>i64 (amount a - amount b)\<bar> \<le> max_amount" and eq: "asset_symbol a = asset_symbol b \<and> r = a\<lparr>amount := i64 (amount a - amount b)\<rparr>"
    using assms in_range_i64 by (auto simp: minus_wrap split: if_splits)
  moreover have "i64 (amount a - amount b) = amount a - amount b"
  proof -
    have "- (2 ^ 62 + 2 ^ 63) < amount a - amount b" "amount a - amount b < 2 ^ 62 + 2 ^ 63"
      using assms(1,2) by (auto simp: asset_in_range_def max_amount_def in_i64_def)
    moreover have "\<exists>k. i64 (amount a - amount b) = amount a - amount b - 2 ^ 64 * k"
      unfolding i64_def by (rule exI [of _ "(amount a - amount b + 2 ^ 63) div 2 ^ 64"])
        (simp only: minus_mult_div_eq_mod [symmetric] diff_diff_eq2 add_diff_cancel_right' algebra_simps)
    then obtain k where k: "i64 (amount a - amount b) = amount a - amount b - 2 ^ 64 * k" by blast
    moreover have "- (2 ^ 62) < i64 (amount a - amount b)" "i64 (amount a - amount b) < 2 ^ 62"
      using \<open>\<bar>i64 (amount a - amount b)\<bar> \<le> max_amount\<close> by (auto simp: max_amount_def)
    ultimately have "2 ^ 64 * k < 2 ^ 64" "- (2 ^ 64) < 2 ^ 64 * k" by simp_all
    then have "k = 0" by simp
    then show ?thesis using k by simp
  qed
  ultimately show ?thesis by (simp add: asset_in_range_def)
qed

lemma reduce_effect:
  assumes run: "reduce_refund L q z req = Inr row" and r: "refund_ok core w req" and z: "asset_symbol z = core" "amount z = 0"
    and q: "asset_symbol q = core" "in_i64 (amount q)" "amount q \<le> amount (net_amount req) + amount (cpu_amount req)"
    and total: "amount (net_amount req) + amount (cpu_amount req) \<le> max_amount"
  shows "refund_ok core w row \<and>
    amount (net_amount row) + amount (cpu_amount row) = amount (net_amount req) + amount (cpu_amount req) - amount q"
proof -
  have h: "holding core (net_amount req)" "holding core (cpu_amount req)" using r by (simp_all add: refund_ok_def)
  show ?thesis
  proof (cases "amount (net_amount req) < amount q")
    case True
    then obtain rest cpu where m: "asset_minus L q (net_amount req) = Some rest" "asset_minus L (cpu_amount req) rest = Some cpu"
      and row: "row = req\<lparr>cpu_amount := cpu, net_amount := z\<rparr>"
      using run h(1) q(1) by (auto simp: reduce_refund_def less_ok holding_def)
    have "0 \<le> amount q" "amount q \<le> max_amount" using True q(3) total h(1) by (simp_all add: holding_def)
    then have qin: "asset_in_range q" by (simp add: asset_in_range_def)
    have zin: "asset_in_range z" using z(2) by (simp add: asset_in_range_def max_amount_def)
    have in_range: "asset_in_range (net_amount req)" "asset_in_range (cpu_amount req)" using h by (simp_all add: holding_def)
    have rest: "asset_symbol rest = core \<and> amount rest = amount q - amount (net_amount req) \<and> asset_in_range rest"
      using minus_Some [OF qin in_range(1) m(1)] q(1) by simp
    have "asset_symbol cpu = core \<and> amount cpu = amount (cpu_amount req) - amount rest \<and> asset_in_range cpu"
      using minus_Some [OF in_range(2) _ m(2)] h(2) rest by (simp add: holding_def)
    then show ?thesis
      using r rest q(3) z zin by (simp add: row refund_ok_def holding_def)
  next
    case False
    then obtain net where m: "asset_minus L (net_amount req) q = Some net" and row: "row = req\<lparr>net_amount := net\<rparr>"
      using run h(1) q(1) by (auto simp: reduce_refund_def less_ok holding_def)
    have "asset_symbol net = core \<and> amount net = amount (net_amount req) - amount q \<and> asset_in_range net"
      using minus_in_range [OF _ q(2) m] h(1) by (simp add: holding_def)
    then show ?thesis using r False by (simp add: row refund_ok_def holding_def)
  qed
qed

lemma removerefund_effect:
  assumes run: "removerefund c w q s = Inr s'" and c: "ctx_lib c = L" and qr: "in_i64 (amount q)" and rec: "stake_records core s"
  obtains y where "s' = s\<lparr>refunds := y, outbox := outbox s\<rparr>" and "all_rows (refund_ok core) y"
    and "sum_rows (\<lambda>k r. amount (net_amount r) + amount (cpu_amount r)) y = all_refunds s - amount q"
proof -
  have core: "core_symbol s = Inr core" and ok: "all_rows (refund_ok core) (refunds s)"
    using rec by (simp_all add: stake_records_def)
  obtain z req t where z: "core_asset L 0 s = Inr z" and req: "find_row (refunds s) w = Some req"
    and t: "asset_plus L (net_amount req) (cpu_amount req) = Some t"
    and q: "asset_symbol t = asset_symbol q" "amount q \<le> amount t"
    and rest: "(if t = q then Inr (s\<lparr>refunds := erase_row w (refunds s)\<rparr>)
      else bind_result (reduce_refund L q z req) (\<lambda>row.
        Inr (s\<lparr>refunds := modify_row same_payer w row (refunds s)\<rparr>))) = Inr s'"
    using run unfolding removerefund_def c require_auth_Inr bind_result_Inr [of "core_asset L 0 s"]
      some_or_Inr at_least_Inr
    by (elim exE conjE) (rule that)
  have r: "refund_ok core w req" by (rule all_rowsD [OF ok req])
  have ta: "asset_symbol t = core \<and> amount t = amount (net_amount req) + amount (cpu_amount req) \<and> asset_in_range t"
    using plus_Some [OF _ _ t] r by (simp add: refund_ok_def holding_def)
  have za: "asset_symbol z = core" "amount z = 0" using core_asset_zero [OF z core] by auto
  show ?thesis
  proof (cases "t = q")
    case True
    show ?thesis
      by (rule that [OF _ all_rows_erase [OF ok, of w]])
         (use rest [symmetric] True ta in \<open>simp_all add: all_refunds_def sum_rows_erase req\<close>)
  next
    case False
    then obtain row where row: "reduce_refund L q z req = Inr row"
      and s': "s' = s\<lparr>refunds := modify_row same_payer w row (refunds s)\<rparr>"
      using rest by auto
    have "amount (net_amount req) + amount (cpu_amount req) \<le> max_amount"
      using ta by (simp add: asset_in_range_def abs_le_iff)
    note e = reduce_effect [OF row r za _ qr _ this]
    show ?thesis
    proof (rule that)
      show "s' = s\<lparr>refunds := modify_row same_payer w row (refunds s), outbox := outbox s\<rparr>" by (simp add: s')
      show "all_rows (refund_ok core) (modify_row same_payer w row (refunds s))"
        using e q ta by (intro all_rows_modify [OF ok]) simp
      show "sum_rows (\<lambda>k r. amount (net_amount r) + amount (cpu_amount r)) (modify_row same_payer w row (refunds s)) =
          all_refunds s - amount q"
        using e q ta by (simp add: all_refunds_def sum_rows_modify [OF req])
    qed
  qed
qed

lemma removerefund_settled:
  assumes "removerefund c w q s = Inr s'" and "ctx_lib c = L" and "in_i64 (amount q)" and rec: "stake_records core s"
  shows "settled core (amount q) s s'"
  by (rule removerefund_effect [OF assms])
     (use rec in \<open>simp add: settled_def stake_records_def core_symbol_def unclaimed_stake_def all_staked_def all_refunds_def\<close>)

lemma removerefund_books:
  assumes "removerefund c w q s = Inr s'" and "ctx_lib c = L" and "in_i64 (amount q)" and books: "books core s"
  shows "books core s' \<and> unclaimed_stake s' = unclaimed_stake s + amount q"
proof (rule removerefund_effect [OF assms(1-3) books_records [OF books]])
  fix y
  assume y: "s' = s\<lparr>refunds := y, outbox := outbox s\<rparr>" "all_rows (refund_ok core) y"
  then show ?thesis
    using books_refunds [OF books y(2), of "outbox s"] removerefund_settled [OF assms(1-3) books_records [OF books]]
    by (simp add: settled_def)
qed

text \<open>Delegating and undelegating.\<close>

lemma delegatebw_settled:
  assumes "delegatebw c f r n p tr s = Inr s'" and "ctx_lib c = L" and "f \<noteq> stake_account"
    and "in_i64 (amount n)" "in_i64 (amount p)" and rec: "stake_records core s"
  shows "settled core 0 s s'"
proof -
  have "core_symbol s = Inr core" using rec by (simp add: stake_records_def)
  from delegatebw_parts [OF assms(1,2,4,5) this] show ?thesis
    using changebw_settled [OF _ assms(2,3) _ rec] by blast
qed

lemma undelegatebw_settled:
  assumes "undelegatebw c f r n p s = Inr s'" and "ctx_lib c = L" and "f \<noteq> stake_account" and "ctx_self c \<noteq> stake_account"
    and "in_i64 (amount n)" "in_i64 (amount p)" and rec: "stake_records core s"
  shows "settled core 0 s s'"
proof -
  have core: "core_symbol s = Inr core" using rec by (simp add: stake_records_def)
  show ?thesis
  proof (rule undelegatebw_parts [OF assms(1,2,5,6) core])
    fix s1
    assume d: "delta_ok core (asset_neg L n) (asset_neg L p)"
      and run: "changebw c f r (asset_neg L n) (asset_neg L p) False s = Inr s1" and gen: "change_genesis c r s1 = Inr s'"
    have one: "settled core 0 s s1" by (rule changebw_settled [OF run assms(2,3) _ rec d]) simp
    then have "settled core 0 s1 s'"
      by (intro settled_genesis [OF change_genesis_only [OF gen assms(4)]]) (simp add: settled_def)
    from settled_trans [OF one this] show ?thesis by simp
  qed
qed

end

section \<open>Every step keeps the books\<close>

lemma books_votes:
  assumes "books core s" and "holdings s' = holdings s" and "shapes s' = (shapes s)(w \<mapsto> h')"
    and "votes_ok ((shapes s)(w \<mapsto> h'))"
    and "shapes s w = Some h \<or> shapes s w = None \<and> h = voter_shape (default_voter w)" and "sh_staked h' = sh_staked h"
  shows "books core s' \<and> unclaimed_stake s' = unclaimed_stake s"
proof -
  have "stake_of_voter a s' = stake_of_voter a s" for a
    using assms(5,6) by (auto simp: stake_of_shape assms(3) voter_shape_def default_voter_def)
  then show ?thesis using books_kept [OF assms(1,2)] assms(3,4) by simp
qed

lemma voteproducer_books:
  assumes "voteproducer c w p ps s = Inr s'" and "books core s"
  shows "books core s' \<and> unclaimed_stake s' = unclaimed_stake s"
proof -
  have run: "update_votes c w p ps True s = Inr s'" using assms(1) by (simp add: voteproducer_def)
  show ?thesis
  proof (rule update_votes_effect [OF run])
    fix h
    assume h: "shapes s w = Some h" "holdings s' = holdings s"
      "shapes s' = (shapes s)(w \<mapsto> h\<lparr>sh_proxy := p, sh_producers := ps\<rparr>)" "vote_allowed w h p ps True (shapes s)"
    have "votes_ok (shapes s)" using assms(2) by (simp add: books_def)
    from votes_ok_vote [OF this h(1,4)] show ?thesis
      by (intro books_votes [OF assms(2) h(2,3)]) (simp_all add: h(1))
  qed
qed

lemma regproxy_books:
  assumes "regproxy c k b s = Inr s'" and "books core s"
  shows "books core s' \<and> unclaimed_stake s' = unclaimed_stake s"
proof (rule regproxy_effect [OF assms(1)])
  fix h
  assume h: "holdings s' = holdings s" "shapes s' = (shapes s)(k \<mapsto> h\<lparr>sh_is_proxy := b\<rparr>)"
    "shapes s k = Some h \<and> (b \<longrightarrow> sh_proxy h = 0) \<or> shapes s k = None \<and> h = voter_shape (default_voter k)"
  have ok: "votes_ok (shapes s)" using assms(2) by (simp add: books_def)
  have "votes_ok ((shapes s)(k \<mapsto> h\<lparr>sh_is_proxy := b\<rparr>))"
    by (rule votes_ok_same_vote [OF ok, of k h])
       (use h(3) in \<open>auto simp: voter_shape_def default_voter_def\<close>)
  then show ?thesis by (rule books_votes [OF assms(2) h(1,2)]) (use h(3) in auto)
qed

lemma books_producers:
  assumes "kept s' = kept s" and "books core s"
  shows "books core s' \<and> unclaimed_stake s' = unclaimed_stake s"
proof -
  have k: "holdings s' = holdings s" "shapes s' = shapes s" using assms(1) by (simp_all add: kept_def)
  have "votes_ok (shapes s')" using assms(2) by (simp add: k books_def)
  moreover have "stake_of_voter a s' = stake_of_voter a s" for a by (simp add: stake_of_shape k)
  ultimately show ?thesis using books_kept [OF assms(2) k(1)] by simp
qed

lemma kept_regproducer: "regproducer c w k u l s = Inr s' \<Longrightarrow> kept s' = kept s"
  by (auto simp: regproducer_def register_producer_def Let_def split: option.splits if_splits)

lemma kept_unregprod: "unregprod c w s = Inr s' \<Longrightarrow> kept s' = kept s"
  by (auto simp: unregprod_def)

lemma stake_step_books:
  assumes "stake_admissible a" and "books core s" and "stake_step a s = Inr s'"
  shows "books core s' \<and> unclaimed_stake s' = unclaimed_stake s + removed_tokens a"
proof -
  obtain c b where a: "a = (c, b)" by (cases a)
  have lib: "asset_library (ctx_lib c)" using assms(1) by (simp add: a)
  note books_rules = asset_library.delegatebw_books [OF lib _ refl] asset_library.undelegatebw_books [OF lib _ refl]
    asset_library.refund_books [OF lib _ refl] asset_library.removerefund_books [OF lib _ refl]
    voteproducer_books regproxy_books books_producers [OF kept_regproducer] books_producers [OF kept_unregprod]
  show ?thesis
  proof (cases b)
    case (Claimgenesis w)
    then have "genesis_only s s'" using assms(1,3) claimgenesis_only by (simp add: a)
    then show ?thesis using assms(2) books_genesis by (simp add: a Claimgenesis)
  qed (use assms books_rules in \<open>simp add: a\<close>)+
qed

interpretation staking: contract_machine stake_step stake_admissible "books core" for core
  by unfold_locales (use stake_step_books in blast)

lemma history_books:
  assumes "list_all stake_admissible as" and "unstaked core s0"
  shows "books core (run stake_step as s0)"
    and "unclaimed_stake (run stake_step as s0) = (\<Sum>a \<leftarrow> effective stake_step as s0. removed_tokens a)"
proof -
  show "books core (run stake_step as s0)"
    using staking.run_inv [OF assms(1)] unstaked_books [OF assms(2)] by blast
  have "books core (run stake_step as s0) \<and>
      unclaimed_stake (run stake_step as s0) = (\<Sum>a \<leftarrow> effective stake_step as s0. removed_tokens a)"
    by (rule effective_induct [OF assms(1), where P = "\<lambda>es s. books core s \<and> unclaimed_stake s = (\<Sum>a \<leftarrow> es. removed_tokens a)"])
       (use unstaked_books [OF assms(2)] stake_step_books in auto)
  then show "unclaimed_stake (run stake_step as s0) = (\<Sum>a \<leftarrow> effective stake_step as s0. removed_tokens a)" by blast
qed

section \<open>No action runs out of calls\<close>

lemma core_symbol_returns [returning]: "returns (core_symbol s)"
  unfolding core_symbol_def by (intro returning) simp

lemma core_asset_returns [returning]: "returns (core_asset L n s)"
  unfolding core_asset_def by (intro returning) simp

lemma at_least_returns [returning]: "returns r \<Longrightarrow> returns (check_at_least L a b m r)"
  unfolding check_at_least_def by (intro returning) simp_all

lemma genesis_row_returns [returning]: "(\<And>k g. returns (f k g)) \<Longrightarrow> returns (genesis_row w m s f)"
  unfolding genesis_row_def by (intro returning) simp_all

lemma genesis_returns [returning]:
  "returns (get_unclaimed_gbm_balance c w s)" "returns (has_genesis_balance w s)"
  "returns (remaining_genesis L d z g)" "returns (burn_unvested c x s)"
  unfolding get_unclaimed_gbm_balance_def has_genesis_balance_def remaining_genesis_def burn_unvested_def Let_def
  by (intro returning; simp)+

lemma refund_returns [returning]:
  "returns (offset_refund L a b)" "returns (open_refund L a s)"
  unfolding offset_refund_def open_refund_def by (intro returning; simp)+

lemma update_refund_returns [returning]: "returns (update_refund c f a b s)"
  unfolding update_refund_def Let_def by (intro returning)

lemma update_delband_returns [returning]: "returns (update_delband c f r a b s)"
  unfolding update_delband_def by (intro returning) simp_all

lemma update_totals_returns [returning]: "returns (update_totals c f r a b s)"
  unfolding update_totals_def by (intro returning) simp_all

lemma settle_returns [returning]: "returns (settle_stake c src f r a b t s)"
  unfolding settle_stake_def Let_def by (intro returning) simp_all

lemma delband_keeps_shapes: "update_delband c f r a b s = Inr s' \<Longrightarrow> shapes s' = shapes s"
  by (auto simp: update_delband_def)

lemma totals_keep_shapes:
  assumes "update_totals c f r a b s = Inr s'"
  shows "shapes s' = shapes s"
proof -
  obtain row t where "s' = (apply_limits r row s)\<lparr>userres := t\<rparr>"
    using assms unfolding update_totals_def bind_result_Inr check_Inr sum.inject
    by (elim exE conjE) (rule that, rule sym)
  then show ?thesis by (simp add: shapes_def fun_eq_iff)
qed

lemma refund_keeps_shapes: "update_refund c f a b s = Inr (x, y, s') \<Longrightarrow> shapes s' = shapes s"
  by (auto simp: update_refund_def Let_def split: option.splits if_splits)

lemma settle_keeps_shapes:
  assumes "settle_stake c src f r a b t s = Inr s'"
  shows "shapes s' = shapes s"
proof (cases "stake_account = src")
  case False
  let ?one = "if \<not> t \<and> f = r \<or> i64 (amount a + amount b) < 0 then update_refund c f a b s else Inr (a, b, s)"
  obtain x y s1 q where one: "?one = Inr (x, y, s1)"
    and s': "(if 0 < amount q then send_token [(src, active_permission)] (Transfer src stake_account q ''stake bandwidth'') s1
          else s1) = s'"
    using assms False unfolding settle_stake_def Let_def if_not_P [OF False] bind_result_Inr some_or_Inr split_paired_Ex
      prod.case sum.inject
    by (elim exE conjE) (rule that)
  have "shapes s1 = shapes s"
  proof (cases "\<not> t \<and> f = r \<or> i64 (amount a + amount b) < 0")
    case True
    then show ?thesis using one refund_keeps_shapes by (simp only: if_P)
  next
    case False
    then show ?thesis using one unfolding if_not_P [OF False] by simp
  qed
  then show ?thesis using s' by (auto simp: send_token_def)
qed (use assms in \<open>simp add: settle_stake_def\<close>)

lemmas blocks_keep_shapes = delband_keeps_shapes totals_keep_shapes settle_keeps_shapes

lemma changebw_returns:
  assumes "votes_ok (shapes s)"
  shows "returns (changebw c src r a b t s)"
  unfolding changebw_def Let_def
  by (intro returning voting_power_returns) (use assms in \<open>simp_all add: blocks_keep_shapes\<close>)

lemma change_genesis_returns [returning]: "returns (change_genesis c w s)"
  unfolding change_genesis_def Let_def by (intro returning)

lemma stake_step_returns:
  assumes "votes_ok (shapes s)"
  shows "returns (stake_step a s)"
proof -
  obtain c b where a: "a = (c, b)" by (cases a)
  have ac: "acyclic (follows (shapes s))" using assms by (simp add: votes_ok_def)
  show ?thesis
  proof (cases b)
    case (Delegatebw f r n p t)
    show ?thesis unfolding a Delegatebw stake_step.simps delegatebw_def by (intro returning changebw_returns assms)
  next
    case (Undelegatebw f r n p)
    show ?thesis unfolding a Undelegatebw stake_step.simps undelegatebw_def by (intro returning changebw_returns assms)
  next
    case (Refund w)
    show ?thesis unfolding a Refund stake_step.simps refund_def by (intro returning) simp_all
  next
    case (Removerefund w q)
    have "returns (reduce_refund L x y r)" for L x y r unfolding reduce_refund_def by (intro returning) simp_all
    show ?thesis
      unfolding a Removerefund stake_step.simps removerefund_def by (intro returning \<open>\<And>L x y r. returns (reduce_refund L x y r)\<close>) simp_all
  next
    case (Claimgenesis w)
    show ?thesis unfolding a Claimgenesis stake_step.simps claimgenesis_def Let_def by (intro returning)
  next
    case (Voteproducer w p ps)
    show ?thesis unfolding a Voteproducer stake_step.simps voteproducer_def by (intro returning returns_update_votes ac)
  next
    case (Regproxy w r)
    then show ?thesis using regproxy_returns [OF ac] by (simp add: a returns_def)
  next
    case (Regproducer w k u l)
    show ?thesis unfolding a Regproducer stake_step.simps regproducer_def register_producer_def Let_def emplace_row_def
      by (intro returning)
  next
    case (Unregprod w)
    show ?thesis unfolding a Unregprod stake_step.simps unregprod_def by (intro returning) simp_all
  qed
qed

section \<open>A history\<close>

text \<open>A library in which a stake keeps its weight, so that the votes of the history are small numbers.\<close>

definition stake_ctx :: "name \<Rightarrow> int \<Rightarrow> ctx" where
  "stake_ctx w t = (sample_ctx 9 [w])\<lparr>ctx_now := t, ctx_math := \<lparr>math_pow = \<lambda>_ _. Fin 1, math_exp = \<lambda>_. Fin 1\<rparr>\<rparr>"

definition stake_start :: sys where
  "stake_start = sample_sys\<lparr>gs := default_gstate\<lparr>max_ram_size := 1000000, thresh_activated_stake_time := 1\<rparr>\<rparr>"

definition sample_stakes :: "(ctx \<times> stake_action) list" where
  "sample_stakes =
     [(stake_ctx 1 0, Delegatebw 1 2 (wax_asset 100) (wax_asset 50) False),
      (stake_ctx 1 2500000, Undelegatebw 1 2 (wax_asset 40) (wax_asset 50)),
      (stake_ctx 9 3000000, Removerefund 1 (wax_asset 30))]"

definition sample_votes :: "(ctx \<times> stake_action) list" where
  "sample_votes =
     [(stake_ctx 1 0, Delegatebw 1 2 (wax_asset 100) (wax_asset 50) False),
      (stake_ctx 2 0, Regproxy 2 True),
      (stake_ctx 1 10, Voteproducer 1 2 [])]"

lemma stake_ctx_simps [simp]:
  "ctx_lib (stake_ctx w t) = std_cdt" "ctx_now (stake_ctx w t) = t" "ctx_self (stake_ctx w t) = 9"
  "has_auth (stake_ctx w t) v \<longleftrightarrow> v = w" "math_pow (ctx_math (stake_ctx w t)) x y = Fin 1"
  by (auto simp: stake_ctx_def sample_ctx_def has_auth_def)

lemma sample_admissible: "list_all stake_admissible sample_stakes" "list_all stake_admissible sample_votes"
  by (simp_all add: sample_stakes_def sample_votes_def account_values in_i64_def wax_asset_def std_library.asset_library_axioms)

lemma stake_start_unstaked: "unstaked wax stake_start"
  by (simp add: unstaked_def stake_start_def sample_sys_def empty_sys_def core_symbol_def sample_market_def wax_asset_def)

lemma stake_start_simps [simp]:
  "core_symbol stake_start = Inr wax" "delband stake_start = no_rows" "userres stake_start = no_rows"
  "refunds stake_start = no_rows" "voters stake_start = no_rows" "wpsvoters stake_start = no_rows"
  "genesis stake_start = no_rows" "thresh_activated_stake_time (gs stake_start) = 1" "outbox stake_start = []"
  "resource_limits stake_start = (\<lambda>_. (0, 0, 0))"
  "wps_total_stake stake_start = Fin 0" "gs stake_start = default_gstate\<lparr>max_ram_size := 1000000, thresh_activated_stake_time := 1\<rparr>"
  using stake_start_unstaked by (simp_all add: unstaked_def stake_start_def sample_sys_def empty_sys_def)

lemma stake_market [simp]: "rammarket stake_start = Some sample_market"
  by (simp add: stake_start_def sample_sys_def)

lemma std_assets [simp]:
  "asset_plus std_cdt (wax_asset a) (wax_asset b) =
     (if \<bar>i64 (a + b)\<bar> \<le> max_amount then Some (wax_asset (i64 (a + b))) else None)"
  "asset_minus std_cdt (wax_asset a) (wax_asset b) =
     (if \<bar>i64 (a - b)\<bar> \<le> max_amount then Some (wax_asset (i64 (a - b))) else None)"
  "asset_neg std_cdt (wax_asset a) = wax_asset (i64 (- a))"
  "asset_less std_cdt (wax_asset a) (wax_asset b) = Some (a < b)"
  "mk_asset std_cdt a wax = (if \<bar>a\<bar> \<le> max_amount then Some (wax_asset a) else None)"
  "amount (wax_asset a) = a" "wax_asset a = wax_asset b \<longleftrightarrow> a = b" "(wax_asset a)\<lparr>amount := b\<rparr> = wax_asset b"
  by (simp_all add: std_cdt_def wax_asset_def wax_def)

text \<open>The core symbol of a state with the market of the start.\<close>

lemma stake_core: "rammarket s = Some sample_market \<Longrightarrow> core_symbol s = Inr wax"
  by (simp add: core_symbol_def sample_market_def wax_asset_def)

lemmas stake_evals = delegatebw_def undelegatebw_def core_asset_def max_amount_def check_at_least_def changebw_def
  require_auth_def Let_def update_delband_def keep_row_def db_is_empty_def update_totals_def ur_is_empty_def
  apply_limits_def managed_def get_resource_limits_def set_resource_limits_def settle_stake_def account_values
  update_voting_power_def b1_account_def name_of_def char_value_def send_token_def stake_core update_refund_def
  open_refund_def change_genesis_def has_genesis_balance_def ram_gift_bytes_def

abbreviation sample_stake :: "int \<Rightarrow> int \<Rightarrow> delegated_bandwidth" where
  "sample_stake n p \<equiv> \<lparr>db_from = 1, db_to = 2, db_net_weight = wax_asset n, db_cpu_weight = wax_asset p\<rparr>"

abbreviation sample_refund :: "int \<Rightarrow> int \<Rightarrow> refund_request" where
  "sample_refund n p \<equiv> \<lparr>rr_owner = 1, request_time = 2, net_amount = wax_asset n, cpu_amount = wax_asset p\<rparr>"

lemma sample_delegation:
  "\<exists>s1. delegatebw (stake_ctx 1 0) 1 2 (wax_asset 100) (wax_asset 50) False stake_start = Inr s1 \<and>
     delband s1 = put (1, 2) 1 (sample_stake 100 50) no_rows \<and>
     userres s1 = put 2 1 \<lparr>ur_owner = 2, ur_net_weight = wax_asset 100, ur_cpu_weight = wax_asset 50, ur_ram_bytes = 0\<rparr> no_rows \<and>
     refunds s1 = no_rows \<and> voters s1 = put 1 1 ((default_voter 1)\<lparr>staked := 150\<rparr>) no_rows \<and>
     wpsvoters s1 = no_rows \<and> genesis s1 = no_rows \<and> rammarket s1 = Some sample_market \<and> gs s1 = gs stake_start \<and>
     outbox s1 = [\<lparr>in_auths = [(1, active_permission)],
       in_call = Token_call (Transfer 1 stake_account (wax_asset 150) ''stake bandwidth'')\<rparr>]"
  by (simp add: stake_evals default_voter_def)

lemma sample_undelegation:
  assumes s1: "delband s1 = put (1, 2) 1 (sample_stake 100 50) no_rows"
    "userres s1 = put 2 1 \<lparr>ur_owner = 2, ur_net_weight = wax_asset 100, ur_cpu_weight = wax_asset 50, ur_ram_bytes = 0\<rparr> no_rows"
    "refunds s1 = no_rows" "voters s1 = put 1 1 ((default_voter 1)\<lparr>staked := 150\<rparr>) no_rows"
    "wpsvoters s1 = no_rows" "genesis s1 = no_rows" "rammarket s1 = Some sample_market" "gs s1 = gs stake_start"
  shows "\<exists>s2. undelegatebw (stake_ctx 1 2500000) 1 2 (wax_asset 40) (wax_asset 50) s1 = Inr s2 \<and>
     delband s2 = put (1, 2) 1 (sample_stake 60 0) no_rows \<and>
     userres s2 = put 2 1 \<lparr>ur_owner = 2, ur_net_weight = wax_asset 60, ur_cpu_weight = wax_asset 0, ur_ram_bytes = 0\<rparr> no_rows \<and>
     refunds s2 = put 1 1 (sample_refund 40 50) no_rows \<and> voters s2 = put 1 1 ((default_voter 1)\<lparr>staked := 60\<rparr>) no_rows \<and>
     wpsvoters s2 = no_rows \<and> genesis s2 = no_rows \<and> rammarket s2 = Some sample_market \<and> outbox s2 = outbox s1"
proof -
  let ?c = "stake_ctx 1 2500000" let ?n = "wax_asset (- 40)" let ?p = "wax_asset (- 50)"
  let ?t1 = "s1\<lparr>delband := put (1, 2) 1 (sample_stake 60 0) no_rows\<rparr>"
  have one: "update_delband ?c 1 2 ?n ?p s1 = Inr ?t1"
    using s1 by (simp add: stake_evals)
  obtain t2 where two: "update_totals ?c 1 2 ?n ?p ?t1 = Inr t2"
    and t2: "delband t2 = put (1, 2) 1 (sample_stake 60 0) no_rows" "refunds t2 = no_rows"
      "userres t2 = put 2 1 \<lparr>ur_owner = 2, ur_net_weight = wax_asset 60, ur_cpu_weight = wax_asset 0, ur_ram_bytes = 0\<rparr> no_rows"
      "voters t2 = put 1 1 ((default_voter 1)\<lparr>staked := 150\<rparr>) no_rows" "wpsvoters t2 = no_rows" "genesis t2 = no_rows"
      "rammarket t2 = Some sample_market" "wps_total_stake t2 = wps_total_stake s1" "outbox t2 = outbox s1"
    using s1 by (cases "resource_limits s1 2") (simp add: stake_evals)
  let ?t3 = "t2\<lparr>refunds := put 1 1 (sample_refund 40 50) no_rows\<rparr>"
  have "seconds_of 2500000 = 2" by (simp add: seconds_of_def sdiv_nonneg)
  then have three: "settle_stake ?c 1 1 2 ?n ?p False t2 = Inr ?t3"
    using t2 by (simp add: stake_evals)
  let ?t4 = "?t3\<lparr>wps_total_stake := fadd (wps_total_stake t2) (Fin (- 90))\<rparr>"
  let ?t5 = "?t4\<lparr>voters := put 1 1 ((default_voter 1)\<lparr>staked := 60\<rparr>) no_rows\<rparr>"
  have four: "update_voting_power ?c 1 (wax_asset (- 90)) ?t4 = Inr ?t5"
    using t2 by (simp add: stake_evals default_voter_def)
  have "changebw ?c 1 2 ?n ?p False s1 = Inr ?t5"
    by (simp add: changebw_def require_auth_def one two three four max_amount_def)
  then have "undelegatebw ?c 1 2 (wax_asset 40) (wax_asset 50) s1 = Inr ?t5"
    using s1 t2 by (simp add: undelegatebw_def core_asset_def stake_core max_amount_def check_at_least_def
      change_genesis_def has_genesis_balance_def)
  then show ?thesis using t2 by auto
qed

lemma sample_removal:
  assumes "rammarket s2 = Some sample_market" "refunds s2 = put 1 1 (sample_refund 40 50) no_rows"
  shows "removerefund (stake_ctx 9 3000000) 1 (wax_asset 30) s2 = Inr (s2\<lparr>refunds := put 1 1 (sample_refund 10 50) no_rows\<rparr>)"
  using assms by (simp add: removerefund_def reduce_refund_def stake_evals)

lemmas vote_evals = regproxy_def voteproducer_def update_votes_def activate_stake_def withdraw_old_vote_def cast_new_vote_def
  full_weight_def stake2vote_def propagate_def add_proxied_def fabs_def fsub_def Let_def
  set_last_weight_def record_vote_def update_voter_votepay_share_def default_gstate_def default_voter_def fle_def

lemma total_votepay_frames [simp]:
  "voters (update_total_votepay_share t x y s) = voters s" "gs (update_total_votepay_share t x y s) = gs s"
  by (simp_all add: update_total_votepay_share_def Let_def)

lemma stake_weight: "0 \<le> n \<Longrightarrow> n \<le> 1000 \<Longrightarrow> stake2vote (stake_ctx w t) n = of_i64 n"
  by (simp add: stake2vote_def Let_def of_i64_exact to_double_int)

lemma sample_proxy:
  assumes "voters s = put 1 1 ((default_voter 1)\<lparr>staked := 150\<rparr>) no_rows" and "gs s = gs stake_start"
  shows "\<exists>s1 s2. regproxy (stake_ctx 2 0) 2 True s = Inr s1 \<and> voteproducer (stake_ctx 1 10) 1 2 [] s1 = Inr s2 \<and>
     map_option voter_shape (find_row (voters s2) 1) = Some \<lparr>sh_owner = 1, sh_proxy = 2, sh_producers = [], sh_staked = 150, sh_is_proxy = False, sh_flags = 0\<rparr>"
  using assms by (simp add: vote_evals require_auth_def voter_shape_def numeral_2_eq_2 stake_weight)

lemma sample_stake_steps:
  obtains s where "run stake_step sample_stakes stake_start = s"
    and "effective stake_step sample_stakes stake_start = sample_stakes"
    and "delband s = put (1, 2) 1 (sample_stake 60 0) no_rows" and "refunds s = put 1 1 (sample_refund 10 50) no_rows"
proof -
  obtain s1 where one: "delegatebw (stake_ctx 1 0) 1 2 (wax_asset 100) (wax_asset 50) False stake_start = Inr s1"
    and s1: "delband s1 = put (1, 2) 1 (sample_stake 100 50) no_rows"
     "userres s1 = put 2 1 \<lparr>ur_owner = 2, ur_net_weight = wax_asset 100, ur_cpu_weight = wax_asset 50, ur_ram_bytes = 0\<rparr> no_rows"
     "refunds s1 = no_rows" "voters s1 = put 1 1 ((default_voter 1)\<lparr>staked := 150\<rparr>) no_rows"
     "wpsvoters s1 = no_rows" "genesis s1 = no_rows" "rammarket s1 = Some sample_market" "gs s1 = gs stake_start"
    using sample_delegation by blast
  obtain s2 where two: "undelegatebw (stake_ctx 1 2500000) 1 2 (wax_asset 40) (wax_asset 50) s1 = Inr s2"
    and s2: "delband s2 = put (1, 2) 1 (sample_stake 60 0) no_rows" "refunds s2 = put 1 1 (sample_refund 40 50) no_rows"
      "rammarket s2 = Some sample_market"
    using sample_undelegation [OF s1] by blast
  note three = sample_removal [OF s2(3,2)]
  show ?thesis
    by (rule that [of "s2\<lparr>refunds := put 1 1 (sample_refund 10 50) no_rows\<rparr>"])
       (simp_all add: sample_stakes_def one two three s2(1))
qed

lemma sample_vote_steps:
  obtains s h where "run stake_step sample_votes stake_start = s" and "find_row (voters s) 1 = Some h"
    and "vi_proxy h = 2" and "staked h = 150"
proof -
  obtain s1 where one: "delegatebw (stake_ctx 1 0) 1 2 (wax_asset 100) (wax_asset 50) False stake_start = Inr s1"
    and s1: "voters s1 = put 1 1 ((default_voter 1)\<lparr>staked := 150\<rparr>) no_rows" "gs s1 = gs stake_start"
    using sample_delegation by blast
  obtain s2 s3 v where two: "regproxy (stake_ctx 2 0) 2 True s1 = Inr s2" "voteproducer (stake_ctx 1 10) 1 2 [] s2 = Inr s3"
    and v: "find_row (voters s3) 1 = Some v" "vi_proxy v = 2" "staked v = 150"
    using sample_proxy [OF s1] by (auto simp: voter_shape_def)
  show ?thesis
    by (rule that [OF _ v]) (simp add: sample_votes_def one two)
qed

section \<open>Properties\<close>

text \<open>
  C1: what \<open>eosio.stake\<close> received, net, is exactly what is staked for somebody, what is owed as a refund,
  and what the system removed from refund requests, after every history of staking and voting. The toolkit's
  assets behave as documented, quantities are 64-bit numbers, and neither the contract itself nor an account
  that stakes, or claims genesis tokens, is \<open>eosio.stake\<close>.
\<close>

theorem stake_is_backed:
  assumes "list_all stake_admissible as" and "unstaked core s0" and "s = run stake_step as s0"
  shows "net_flow stake_account (outbox s) =
    all_staked s + all_refunds s + (\<Sum>a \<leftarrow> effective stake_step as s0. removed_tokens a)"
  using history_books(2) [OF assms(1,2)] by (simp add: assms(3) unclaimed_stake_def)

text \<open>
  C30: the books agree after every such history: the network and CPU weight in an account's totals are the sums
  over \<open>delband\<close> of what was delegated to it, the stake that counts for its votes is the sum of what it delegated
  (at the width of the field), and no row of \<open>delband\<close> is negative or empty.
\<close>

theorem books_agree:
  assumes "list_all stake_admissible as" and "unstaked core s0" and "s = run stake_step as s0"
  shows "total_of ur_net_weight a s = net_staked_to a s \<and> total_of ur_cpu_weight a s = cpu_staked_to a s \<and>
    stake_of_voter a s = i64 (staked_by a s) \<and> all_rows (delband_ok core) (delband s) \<and> all_rows (refund_ok core) (refunds s)"
  using history_books(1) [OF assms(1,2)] by (simp add: assms(3) books_def)

text \<open>
  A refund is paid out once, in full, no earlier than three days after the last undelegation: \<open>refund\<close>
  succeeds exactly for an owner who signed and has a request that old, it transfers the sum of both parts of
  the request and nothing else, and the request is gone.
\<close>

theorem refund_pays_what_is_owed:
  assumes "list_all stake_admissible as" and "unstaked core s0" and "s = run stake_step as s0"
    and "asset_library (ctx_lib c)"
  shows "refund c w s = Inr s' \<longleftrightarrow> has_auth c w \<and> (\<exists>r. find_row (refunds s) w = Some r \<and>
    i64 (request_time r * 1000000 + refund_delay_sec * 1000000) \<le> ctx_now c \<and>
    amount (net_amount r) + amount (cpu_amount r) \<le> max_amount \<and>
    s' = s\<lparr>refunds := erase_row w (refunds s), outbox := outbox s @
      [\<lparr>in_auths = [(stake_account, active_permission), (w, active_permission)],
        in_call = Token_call (Transfer stake_account w
          \<lparr>amount = amount (net_amount r) + amount (cpu_amount r), asset_symbol = core\<rparr> ''unstake'')\<rparr>]\<rparr>)"
proof -
  have ok: "all_rows (refund_ok core) (refunds s)"
    using history_books(1) [OF assms(1,2)] by (simp add: assms(3) books_def)
  have sum: "asset_plus (ctx_lib c) (net_amount r) (cpu_amount r) =
      (if amount (net_amount r) + amount (cpu_amount r) \<le> max_amount
       then Some \<lparr>amount = amount (net_amount r) + amount (cpu_amount r), asset_symbol = core\<rparr> else None) \<and> rr_owner r = w"
    if "find_row (refunds s) w = Some r" for r
    using all_rowsD [OF ok that] asset_library.plus_ok [OF assms(4)] by (simp add: refund_ok_def holding_def)
  show ?thesis
    using sum by (cases "find_row (refunds s) w") (auto simp: refund_def send_token_def)
qed

text \<open>
  C32: \<open>propagate_weight_change\<close> always returns: the accounts that use proxies never form a cycle, and no
  action runs out of the calls the model allows (one for each voter), whatever history of staking and voting it
  follows.
\<close>

theorem propagation_ends:
  assumes "list_all stake_admissible as" and "unstaked core s0" and "s = run stake_step as s0"
  shows "acyclic (follows (shapes s)) \<and> stake_step a s \<noteq> Inl out_of_calls \<and>
    (find_row (voters s) w \<noteq> None \<longrightarrow> propagate c w s \<noteq> Inl out_of_calls)"
proof -
  have ok: "votes_ok (shapes s)" using history_books(1) [OF assms(1,2)] by (simp add: assms(3) books_def)
  then show ?thesis
    using stake_step_returns [OF ok] propagate_returns [of s w c] by (simp add: votes_ok_def returns_def)
qed


text \<open>What one account has staked for another.\<close>

definition staked_for :: "(delegated_bandwidth \<Rightarrow> asset) \<Rightarrow> name \<times> name \<Rightarrow> sys \<Rightarrow> int" where
  "staked_for g k s = (case find_row (delband s) k of None \<Rightarrow> 0 | Some d \<Rightarrow> amount (g d))"

lemma sum_rows_single: "sum_rows (\<lambda>k v. of_bool (k = j) * g v) t = (case find_row t j of None \<Rightarrow> 0 | Some v \<Rightarrow> g v)"
proof -
  have "all_rows (\<lambda>k v. of_bool (k = j) * g v = 0) (erase_row j t)" by (simp add: all_rows_iff)
  then have "sum_rows (\<lambda>k v. of_bool (k = j) * g v) (erase_row j t) = 0" by (rule sum_rows_zero)
  then show ?thesis by (auto simp: sum_rows_erase split: option.splits)
qed

lemma staked_for_weighed:
  "staked_for db_net_weight j s = weighed (\<lambda>k. of_bool (k = j)) (\<lambda>k. 0) (delband s)"
  "staked_for db_cpu_weight j s = weighed (\<lambda>k. 0) (\<lambda>k. of_bool (k = j)) (delband s)"
  using sum_rows_single [of j "\<lambda>d. amount (db_net_weight d)" "delband s"]
    sum_rows_single [of j "\<lambda>d. amount (db_cpu_weight d)" "delband s"]
  by (simp_all add: staked_for_def weighed_def)

text \<open>
  C31: delegating moves exactly the two quantities. What an account stakes for itself is first taken from its refund
  request, network from network and CPU from CPU, as far as that goes: the request shrinks by it, keeps its time, and
  goes when nothing is left of it. In every other case, for another account or with transfer of ownership, no refund
  is touched. What is not covered so is transferred to \<open>eosio.stake\<close>, and nothing else is sent. The stake is booked in
  full for the account that holds it and for nobody else, the receiver's totals grow by it, and the limits the chain
  enforces for the receiver become the totals, except those the system manages.
\<close>

theorem delegation_moves_the_stake:
  assumes "list_all stake_admissible as" and "unstaked core s0" and "s = run stake_step as s0"
    and "stake_admissible (c, Delegatebw f r n p tr)" and "holder = (if tr then r else f)"
    and "delegatebw c f r n p tr s = Inr s'" and "own \<longleftrightarrow> \<not> tr \<and> f = r"
    and "un = (if own then min (amount n) (owed_to net_amount f (refunds s)) else 0)"
    and "uc = (if own then min (amount p) (owed_to cpu_amount f (refunds s)) else 0)"
  shows "0 < amount n + amount p \<and>
    (\<exists>q. amount q = amount n + amount p - un - uc \<and> asset_symbol q = core \<and> outbox s' = outbox s @
      (if 0 < amount q then [\<lparr>in_auths = [(f, active_permission)],
         in_call = Token_call (Transfer f stake_account q ''stake bandwidth'')\<rparr>] else [])) \<and>
    (\<not> own \<longrightarrow> refunds s' = refunds s) \<and>
    owed_to net_amount f (refunds s') = owed_to net_amount f (refunds s) - un \<and>
    owed_to cpu_amount f (refunds s') = owed_to cpu_amount f (refunds s) - uc \<and>
    (\<forall>k. k \<noteq> f \<longrightarrow> find_row (refunds s') k = find_row (refunds s) k) \<and>
    (\<forall>q'. find_row (refunds s') f = Some q' \<longrightarrow> (\<exists>q. find_row (refunds s) f = Some q \<and> request_time q' = request_time q)) \<and>
    (own \<and> owed_to net_amount f (refunds s') = 0 \<and> owed_to cpu_amount f (refunds s') = 0 \<longrightarrow> find_row (refunds s') f = None) \<and>
    (\<forall>k. staked_for db_net_weight k s' = staked_for db_net_weight k s + (if k = (holder, r) then amount n else 0) \<and>
         staked_for db_cpu_weight k s' = staked_for db_cpu_weight k s + (if k = (holder, r) then amount p else 0)) \<and>
    (\<forall>a. total_of ur_net_weight a s' = total_of ur_net_weight a s + (if a = r then amount n else 0) \<and>
         total_of ur_cpu_weight a s' = total_of ur_cpu_weight a s + (if a = r then amount p else 0)) \<and>
    stake_of_voter holder s' = i64 (stake_of_voter holder s + (amount n + amount p)) \<and>
    (\<not> managed s r net_managed \<longrightarrow> fst (snd (resource_limits s' r)) = total_of ur_net_weight r s') \<and>
    (\<not> managed s r cpu_managed \<longrightarrow> snd (snd (resource_limits s' r)) = total_of ur_cpu_weight r s') \<and>
    (\<forall>a. a \<noteq> r \<longrightarrow> resource_limits s' a = resource_limits s a)"
proof -
  have books: "books core s" using history_books(1) [OF assms(1,2)] by (simp add: assms(3))
  have lib: "asset_library (ctx_lib c)" and f: "f \<noteq> stake_account" and n: "in_i64 (amount n)" "in_i64 (amount p)"
    using assms(4) by simp_all
  have core: "core_symbol s = Inr core" using books by (simp add: books_def)
  have d: "delta_ok core n p" and pos: "0 < amount n + amount p" and run: "changebw c f r n p tr s = Inr s'"
    using asset_library.delegatebw_parts [OF lib assms(6) refl n core] by simp_all
  have range: "in_i64 (amount n + amount p)"
    using d by (auto simp: delta_ok_def in_i64_def asset_in_range_def max_amount_def)
  show ?thesis
  proof (rule asset_library.changebw_parts [OF lib run refl f pos books d assms(5)], goal_cases)
    case (1 t1 drow t2 row t3 x h m)
    have own: "own \<longleftrightarrow> \<not> tr \<and> holder = r" "own \<Longrightarrow> holder = f" by (auto simp: assms(5,7))
    have paid: "(\<not> own \<longrightarrow> t3 = refunds s) \<and> refunds_used f un uc (refunds s) t3 \<and>
        (own \<and> owed_to net_amount f t3 = 0 \<and> owed_to cpu_amount f t3 = 0 \<longrightarrow> find_row t3 f = None) \<and>
        (\<exists>q. holding core q \<and> amount q = amount n + amount p - un - uc \<and>
          x = (if 0 < amount q then [\<lparr>in_auths = [(f, active_permission)],
                 in_call = Token_call (Transfer f stake_account q ''stake bandwidth'')\<rparr>] else []))"
    proof (cases own)
      case True
      then show ?thesis
        using 1(18) [OF pos, folded own(1)] unfolding stake_paid_def Let_def own(2) [OF True] assms(8,9) by simp
    next
      case False
      then show ?thesis
        using 1(18) [OF pos, folded own(1)] unfolding stake_paid_def Let_def assms(8,9) by (simp add: refunds_used_refl)
    qed
    have "m = i64 (staked_by holder s + (amount n + amount p))"
      by (rule stake_changes_sum [OF 1(21) range]) (use books in \<open>simp add: books_def\<close>)
    moreover have "stake_of_voter holder s = i64 (staked_by holder s)" using books by (simp add: books_def)
    ultimately have voter: "stake_of_voter holder s' = i64 (stake_of_voter holder s + (amount n + amount p))"
      by (simp add: stake_of_shape [of holder s'] 1(23))
    have lim: "resource_limits s' a = (if a \<noteq> r \<or> managed s r net_managed \<and> managed s r cpu_managed
        then resource_limits s a else
          (if managed s r ram_managed then fst (resource_limits s r)
           else max (i64 (ur_ram_bytes row + ram_gift_bytes)) (fst (resource_limits s r)),
           if managed s r net_managed then fst (snd (resource_limits s r)) else amount (ur_net_weight row),
           if managed s r cpu_managed then snd (snd (resource_limits s r)) else amount (ur_cpu_weight row)))" for a
      unfolding 1(12)
      by (cases "resource_limits s r") (simp add: apply_limits_def get_resource_limits_def set_resource_limits_def)
    have total: "total_of ur_net_weight a s' = total_of ur_net_weight a s + (if a = r then amount n else 0)"
      "total_of ur_cpu_weight a s' = total_of ur_cpu_weight a s + (if a = r then amount p else 0)" for a
      using 1(6,8,9,10) by (auto simp: total_of_def ur_is_empty_def)
    show ?case
    proof (intro conjI allI impI)
      show "\<exists>q. amount q = amount n + amount p - un - uc \<and> asset_symbol q = core \<and> outbox s' = outbox s @
        (if 0 < amount q then [\<lparr>in_auths = [(f, active_permission)],
           in_call = Token_call (Transfer f stake_account q ''stake bandwidth'')\<rparr>] else [])"
        using paid 1(14) by (auto simp: holding_def)
      show "fst (snd (resource_limits s' r)) = total_of ur_net_weight r s'" if "\<not> managed s r net_managed"
        using that by (simp add: lim total 1(9))
      show "snd (snd (resource_limits s' r)) = total_of ur_cpu_weight r s'" if "\<not> managed s r cpu_managed"
        using that by (simp add: lim total 1(10))
    qed (use paid pos 1(1,3,13) voter lim total in \<open>simp_all add: staked_for_weighed refunds_used_def\<close>)
  qed
qed

section \<open>Witnesses\<close>

theorem stake_is_backed_witness:
  "net_flow stake_account (outbox (run stake_step sample_stakes stake_start)) = 60 + 60 + 30"
  by (rule sample_stake_steps)
     (simp add: stake_is_backed [OF sample_admissible(1) stake_start_unstaked refl] all_staked_def all_refunds_def
        weighed_def sum_rows_put, simp add: sample_stakes_def)

theorem books_agree_witness:
  "total_of ur_net_weight 2 (run stake_step sample_stakes stake_start) = 60 \<and>
   stake_of_voter 1 (run stake_step sample_stakes stake_start) = 60"
proof (rule sample_stake_steps)
  fix s
  assume s: "run stake_step sample_stakes stake_start = s" "delband s = put (1, 2) 1 (sample_stake 60 0) no_rows"
  have "total_of ur_net_weight 2 s = net_staked_to 2 s" "stake_of_voter 1 s = i64 (staked_by 1 s)"
    using books_agree [OF sample_admissible(1) stake_start_unstaked refl] by (simp_all add: s(1))
  then show ?thesis by (simp add: s net_staked_to_def staked_by_def weighed_def sum_rows_put)
qed

theorem refund_pays_what_is_owed_witness:
  "is_ok (refund (stake_ctx 1 259202000000) 1 (run stake_step sample_stakes stake_start)) \<and>
   \<not> is_ok (refund (stake_ctx 1 259201999999) 1 (run stake_step sample_stakes stake_start))"
proof (rule sample_stake_steps)
  fix s
  assume s: "run stake_step sample_stakes stake_start = s" "refunds s = put 1 1 (sample_refund 10 50) no_rows"
  have lib: "asset_library (ctx_lib (stake_ctx 1 t))" for t by (simp add: std_library.asset_library_axioms)
  note iff = refund_pays_what_is_owed [OF sample_admissible(1) stake_start_unstaked refl lib, unfolded s(1)]
  have "\<exists>s'. refund (stake_ctx 1 259202000000) 1 s = Inr s'" "\<nexists>s'. refund (stake_ctx 1 259201999999) 1 s = Inr s'"
    unfolding iff by (simp_all add: s(2) refund_delay_sec_def seconds_per_day_def max_amount_def)
  then show ?thesis by (simp add: s(1) is_ok_iff)
qed

theorem propagation_ends_witness:
  "stake_step (stake_ctx 2 20, Regproxy 2 False) (run stake_step sample_votes stake_start) \<noteq> Inl out_of_calls \<and>
   propagate (stake_ctx 1 2500000) 1 (run stake_step sample_votes stake_start) \<noteq> Inl out_of_calls"
proof (rule sample_vote_steps)
  fix s h
  assume s: "run stake_step sample_votes stake_start = s" "find_row (voters s) 1 = Some h"
  show ?thesis
    using propagation_ends [OF sample_admissible(2) stake_start_unstaked refl, where a = "(stake_ctx 2 20, Regproxy 2 False)"
      and w = 1 and c = "stake_ctx 1 2500000"] unfolding s(1) by (simp add: s(2))
qed


text \<open>
  Account 1 takes back 40 and 50 of what it staked for account 2, and stakes 30 and 60 for itself: 30 and 50 come
  out of the refund, and only 10 are transferred.
\<close>

lemma sample_restake:
  assumes s2: "delband s2 = put (1, 2) 1 (sample_stake 60 0) no_rows" "userres s2 = put 2 1 \<lparr>ur_owner = 2,
      ur_net_weight = wax_asset 60, ur_cpu_weight = wax_asset 0, ur_ram_bytes = 0\<rparr> no_rows"
    "refunds s2 = put 1 1 (sample_refund 40 50) no_rows" "voters s2 = put 1 1 ((default_voter 1)\<lparr>staked := 60\<rparr>) no_rows"
    "wpsvoters s2 = no_rows" "genesis s2 = no_rows" "rammarket s2 = Some sample_market"
  shows "\<exists>s3. delegatebw (stake_ctx 1 3000000) 1 1 (wax_asset 30) (wax_asset 60) False s2 = Inr s3"
proof -
  let ?c = "stake_ctx 1 3000000" let ?n = "wax_asset 30" let ?p = "wax_asset 60"
  let ?own = "\<lparr>db_from = 1, db_to = 1, db_net_weight = wax_asset 30, db_cpu_weight = wax_asset 60\<rparr>"
  let ?t1 = "s2\<lparr>delband := put (1, 1) 1 ?own (put (1, 2) 1 (sample_stake 60 0) no_rows)\<rparr>"
  have one: "update_delband ?c 1 1 ?n ?p s2 = Inr ?t1"
    using s2 by (simp add: stake_evals)
  obtain t2 where two: "update_totals ?c 1 1 ?n ?p ?t1 = Inr t2"
    and t2: "refunds t2 = put 1 1 (sample_refund 40 50) no_rows" "voters t2 = put 1 1 ((default_voter 1)\<lparr>staked := 60\<rparr>) no_rows"
      "wpsvoters t2 = no_rows" "genesis t2 = no_rows" "rammarket t2 = Some sample_market"
    using s2 by (cases "resource_limits s2 1") (simp add: stake_evals)
  let ?t3 = "t2\<lparr>refunds := put 1 1 (sample_refund 10 0) no_rows, outbox := outbox t2 @ [\<lparr>in_auths = [(1, active_permission)],
       in_call = Token_call (Transfer 1 stake_account (wax_asset 10) ''stake bandwidth'')\<rparr>]\<rparr>"
  have three: "settle_stake ?c 1 1 1 ?n ?p False t2 = Inr ?t3"
    using t2 by (simp add: stake_evals offset_refund_def rr_is_empty_def)
  let ?t4 = "?t3\<lparr>wps_total_stake := fadd (wps_total_stake t2) (Fin 90)\<rparr>"
  let ?t5 = "?t4\<lparr>voters := put 1 1 ((default_voter 1)\<lparr>staked := 150\<rparr>) no_rows\<rparr>"
  have four: "update_voting_power ?c 1 (wax_asset 90) ?t4 = Inr ?t5"
    using t2 by (simp add: stake_evals default_voter_def)
  have "changebw ?c 1 1 ?n ?p False s2 = Inr ?t5"
    by (simp add: changebw_def require_auth_def one two three four max_amount_def)
  then show ?thesis
    using s2 by (simp add: delegatebw_def core_asset_def stake_core max_amount_def check_at_least_def)
qed

theorem delegation_moves_the_stake_witness:
  "\<exists>s s'. s = run stake_step (take 2 sample_stakes) stake_start \<and>
     delegatebw (stake_ctx 1 3000000) 1 1 (wax_asset 30) (wax_asset 60) False s = Inr s' \<and>
     owed_to net_amount 1 (refunds s') = 10 \<and> owed_to cpu_amount 1 (refunds s') = 0 \<and>
     (\<exists>q. amount q = 10 \<and> outbox s' = outbox s @
        [\<lparr>in_auths = [(1, active_permission)], in_call = Token_call (Transfer 1 stake_account q ''stake bandwidth'')\<rparr>]) \<and>
     staked_for db_cpu_weight (1, 1) s' = 60 \<and> total_of ur_net_weight 1 s' = 30"
proof -
  obtain s1 where one: "delegatebw (stake_ctx 1 0) 1 2 (wax_asset 100) (wax_asset 50) False stake_start = Inr s1"
    and s1: "delband s1 = put (1, 2) 1 (sample_stake 100 50) no_rows"
     "userres s1 = put 2 1 \<lparr>ur_owner = 2, ur_net_weight = wax_asset 100, ur_cpu_weight = wax_asset 50, ur_ram_bytes = 0\<rparr> no_rows"
     "refunds s1 = no_rows" "voters s1 = put 1 1 ((default_voter 1)\<lparr>staked := 150\<rparr>) no_rows"
     "wpsvoters s1 = no_rows" "genesis s1 = no_rows" "rammarket s1 = Some sample_market" "gs s1 = gs stake_start"
    using sample_delegation by blast
  obtain s2 where two: "undelegatebw (stake_ctx 1 2500000) 1 2 (wax_asset 40) (wax_asset 50) s1 = Inr s2"
    and s2: "delband s2 = put (1, 2) 1 (sample_stake 60 0) no_rows"
      "userres s2 = put 2 1 \<lparr>ur_owner = 2, ur_net_weight = wax_asset 60, ur_cpu_weight = wax_asset 0, ur_ram_bytes = 0\<rparr> no_rows"
      "refunds s2 = put 1 1 (sample_refund 40 50) no_rows" "voters s2 = put 1 1 ((default_voter 1)\<lparr>staked := 60\<rparr>) no_rows"
      "wpsvoters s2 = no_rows" "genesis s2 = no_rows" "rammarket s2 = Some sample_market"
    using sample_undelegation [OF s1] by blast
  have s: "s2 = run stake_step (take 2 sample_stakes) stake_start"
    by (simp add: sample_stakes_def one two)
  obtain s3 where run: "delegatebw (stake_ctx 1 3000000) 1 1 (wax_asset 30) (wax_asset 60) False s2 = Inr s3"
    using sample_restake [OF s2] by blast
  have adm: "list_all stake_admissible (take 2 sample_stakes)"
    "stake_admissible (stake_ctx 1 3000000, Delegatebw 1 1 (wax_asset 30) (wax_asset 60) False)"
    using sample_admissible(1) by (simp_all add: sample_stakes_def account_values std_library.asset_library_axioms
      wax_asset_def in_i64_def)
  have owed: "30 = (if True then min (amount (wax_asset 30)) (owed_to net_amount 1 (refunds s2)) else 0)"
    "50 = (if True then min (amount (wax_asset 60)) (owed_to cpu_amount 1 (refunds s2)) else 0)"
    by (simp_all add: s2(3) owed_to_def)
  have own: "True \<longleftrightarrow> \<not> False \<and> (1 :: name) = 1" "(1 :: name) = (if False then 1 else 1)" by simp_all
  note effect = delegation_moves_the_stake [OF adm(1) stake_start_unstaked s adm(2) own(2) run own(1) owed]
  have old: "owed_to net_amount 1 (refunds s2) = 40" "owed_to cpu_amount 1 (refunds s2) = 50"
    "staked_for db_cpu_weight (1, 1) s2 = 0" "total_of ur_net_weight 1 s2 = 0"
    by (simp_all add: s2 owed_to_def staked_for_def total_of_def)
  obtain q where "amount q = 10" "outbox s3 = outbox s2 @
      [\<lparr>in_auths = [(1, active_permission)], in_call = Token_call (Transfer 1 stake_account q ''stake bandwidth'')\<rparr>]"
    using effect [THEN conjunct2, THEN conjunct1] by (auto simp: old)
  moreover have "owed_to net_amount 1 (refunds s3) = 10" "owed_to cpu_amount 1 (refunds s3) = 0"
    "staked_for db_cpu_weight (1, 1) s3 = 60" "total_of ur_net_weight 1 s3 = 30"
    using effect by (simp_all add: old)
  ultimately show ?thesis using s run by blast
qed

end
