(* ===== verification/Schedule.thy ===== *)
theory Schedule
  imports Voting
begin

text \<open>
  The producers that \<open>update_elected_producers\<close> (\<open>voting.cpp\<close>) proposes: the index \<open>prototalvote\<close> is the
  stable sort of the rows, its prefix of active producers with votes holds all of them, and the schedule is
  their best 21 by location and name.
\<close>

section \<open>The order of doubles\<close>

text \<open>Doubles other than NaN in their order: infinities around the finite ones.\<close>

fun fkey :: "f64 \<Rightarrow> nat \<times> rat" where
  "fkey MInf = (0, 0)"
| "fkey (Fin x) = (1, x)"
| "fkey PInf = (2, 0)"
| "fkey NaN = (3, 0)"

lemma flt_fkey: "x \<noteq> NaN \<Longrightarrow> y \<noteq> NaN \<Longrightarrow> flt x y \<longleftrightarrow> fkey x < fkey y"
  by (cases x; cases y) simp_all

lemma fle_fkey: "x \<noteq> NaN \<Longrightarrow> y \<noteq> NaN \<Longrightarrow> fle x y \<longleftrightarrow> fkey x \<le> fkey y"
  by (cases x; cases y) (auto simp: fle_def)

lemma fle_zero_not_NaN: "fle (Fin 0) x \<Longrightarrow> x \<noteq> NaN"
  by (cases x) (simp_all add: fle_def)

lemma fneg_NaN [simp]: "fneg x = NaN \<longleftrightarrow> x = NaN"
  by (cases x) simp_all

lemma fkey_fneg: "x \<noteq> NaN \<Longrightarrow> y \<noteq> NaN \<Longrightarrow> fkey (fneg x) \<le> fkey (fneg y) \<longleftrightarrow> fkey y \<le> fkey x"
  by (cases x; cases y) simp_all

section \<open>The index\<close>

definition vote_key :: "name \<times> producer_info \<Rightarrow> nat \<times> rat" where
  "vote_key x = fkey (by_votes (snd x))"

definition eligible :: "name \<times> producer_info \<Rightarrow> bool" where
  "eligible x \<longleftrightarrow> is_active (snd x) \<and> flt (Fin 0) (total_votes (snd x))"

text \<open>No producer has fewer than no votes.\<close>

definition votes_counted :: "(name, producer_info) table \<Rightarrow> bool" where
  "votes_counted t \<longleftrightarrow> all_rows (\<lambda>k p. pi_owner p = k \<and> fle (Fin 0) (total_votes p)) t"

lemma by_votes_NaN: "total_votes p \<noteq> NaN \<Longrightarrow> by_votes p \<noteq> NaN"
  by (simp add: by_votes_def)

lemma insert_insort:
  "by_votes (snd x) \<noteq> NaN \<Longrightarrow> list_all (\<lambda>y. by_votes (snd y) \<noteq> NaN) ys \<Longrightarrow>
   insert_by_votes x ys = insort_key vote_key x ys"
  by (induction ys) (auto simp: flt_fkey vote_key_def)

lemma foldr_insert_sort:
  "list_all (\<lambda>y. by_votes (snd y) \<noteq> NaN) ys \<Longrightarrow> foldr insert_by_votes ys [] = sort_key vote_key ys"
  by (induction ys) (simp_all add: insert_insort list_all_iff)

lemma prototalvote_sort:
  assumes "votes_counted t"
  shows "prototalvote t = sort_key vote_key (rows t)"
proof -
  have "by_votes (snd y) \<noteq> NaN" if "y \<in> set (rows t)" for y
    using assms that by (intro by_votes_NaN fle_zero_not_NaN) (auto simp: votes_counted_def all_rows_def list_all_iff)
  then show ?thesis unfolding prototalvote_def by (intro foldr_insert_sort) (simp add: list_all_iff)
qed

lemma eligible_key:
  assumes "fle (Fin 0) (total_votes (snd x))"
  shows "eligible x \<longleftrightarrow> vote_key x < fkey (Fin 0)"
proof -
  have "total_votes (snd x) \<noteq> NaN" by (rule fle_zero_not_NaN [OF assms])
  then show ?thesis
    using assms by (cases "total_votes (snd x)") (auto simp: eligible_def vote_key_def by_votes_def fle_def)
qed

lemma takeWhile_sorted_key:
  "sorted (map f xs) \<Longrightarrow> takeWhile (\<lambda>x. f x < c) xs = filter (\<lambda>x. f x < c) xs"
proof (induction xs)
  case (Cons x xs)
  have "\<not> f x < c \<Longrightarrow> filter (\<lambda>x. f x < c) xs = []"
    using Cons.prems by (auto simp: filter_empty_conv dest: order_le_less_trans)
  then show ?case using Cons by auto
qed simp

lemma top_is_best:
  assumes "votes_counted t"
  shows "top_producers t = take 21 (sort_key vote_key (filter eligible (rows t)))"
proof -
  have row: "fle (Fin 0) (total_votes (snd x))" if "x \<in> set (rows t)" for x
    using assms that by (auto simp: votes_counted_def all_rows_def list_all_iff)
  have "takeWhile eligible (prototalvote t) = takeWhile (\<lambda>x. vote_key x < fkey (Fin 0)) (prototalvote t)"
    unfolding prototalvote_sort [OF assms] by (rule takeWhile_cong) (use row eligible_key in auto)
  also have "\<dots> = filter (\<lambda>x. vote_key x < fkey (Fin 0)) (prototalvote t)"
    unfolding prototalvote_sort [OF assms] by (rule takeWhile_sorted_key) simp
  also have "\<dots> = filter eligible (prototalvote t)"
    unfolding prototalvote_sort [OF assms] by (rule filter_cong) (use row eligible_key in auto)
  also have "\<dots> = sort_key vote_key (filter eligible (rows t))"
    unfolding prototalvote_sort [OF assms] by (rule filter_sort)
  finally have "takeWhile eligible (prototalvote t) = sort_key vote_key (filter eligible (rows t))" .
  moreover have "eligible = (\<lambda>(k, p). flt (Fin 0) (total_votes p) \<and> is_active p)"
    by (auto simp: eligible_def fun_eq_iff)
  ultimately show ?thesis unfolding top_producers_def by simp
qed

section \<open>The schedule\<close>

definition schedule_key :: "(name, producer_info) table \<Rightarrow> name \<Rightarrow> int \<times> name" where
  "schedule_key t k = (case find_row t k of None \<Rightarrow> (0, k) | Some p \<Rightarrow> (pi_location p, k))"

definition votes_of :: "(name, producer_info) table \<Rightarrow> name \<Rightarrow> f64" where
  "votes_of t k = (case find_row t k of None \<Rightarrow> Fin 0 | Some p \<Rightarrow> total_votes p)"

text \<open>What it means that a schedule holds the best \<open>n\<close> producers.\<close>

definition best_schedule ::
    "(name, producer_info) table \<Rightarrow> nat \<Rightarrow> (name \<times> block_signing_authority) list \<Rightarrow> bool" where
  "best_schedule t n sch \<longleftrightarrow> length sch = n \<and> distinct (map fst sch) \<and> sorted (map (schedule_key t) (map fst sch)) \<and>
     (\<forall>(k, a) \<in> set sch. \<exists>p. find_row t k = Some p \<and> eligible (k, p) \<and> a = get_producer_authority p) \<and>
     (\<forall>k p. find_row t k = Some p \<longrightarrow> eligible (k, p) \<longrightarrow> k \<notin> fst ` set sch \<longrightarrow>
        n = 21 \<and> (\<forall>j \<in> fst ` set sch. fle (total_votes p) (votes_of t j)))"

lemma schedule_of_top:
  assumes t: "votes_counted t"
  shows "best_schedule t (min 21 (length (filter eligible (rows t))))
    (map (\<lambda>(k, p). (pi_owner p, get_producer_authority p))
      (sort_key (\<lambda>(k, p). (pi_location p, pi_owner p)) (top_producers t)))"
    (is "best_schedule t ?n ?sch")
proof -
  let ?cands = "sort_key vote_key (filter eligible (rows t))"
  let ?top = "top_producers t"
  have top: "?top = take 21 ?cands" by (rule top_is_best [OF t])
  have row: "pi_owner p = k \<and> total_votes p \<noteq> NaN" if "find_row t k = Some p" for k p
    using all_rowsD [OF t [unfolded votes_counted_def] that] fle_zero_not_NaN by auto
  have inc: "find_row t k = Some p \<and> eligible (k, p) \<and> pi_owner p = k" if "(k, p) \<in> set ?cands" for k p
    using that row by (simp add: in_rows_iff)
  have "set ?top \<subseteq> set ?cands" unfolding top by (rule set_take_subset)
  then have int: "find_row t k = Some p \<and> eligible (k, p) \<and> pi_owner p = k" if "(k, p) \<in> set ?top" for k p
    using that inc by blast
  have names: "map fst ?sch = map fst (sort_key (\<lambda>(k, p). (pi_location p, pi_owner p)) ?top)"
    using int by (auto simp: case_prod_unfold intro!: map_cong)
  have dist_top: "distinct (map fst ?top)"
  proof -
    have "distinct (map fst (rows t))" by (rule keys_ordered_distinct [OF keys_ordered_rows])
    then have "distinct (map fst (filter eligible (rows t)))" by (rule distinct_map_filter)
    then have "distinct (map fst ?cands)" by (simp add: distinct_map)
    then show ?thesis unfolding top by (simp add: take_map flip: take_map)
  qed
  show ?thesis
    unfolding best_schedule_def
  proof (intro conjI)
    show "length ?sch = ?n" by (simp add: top)
    show "distinct (map fst ?sch)" unfolding names using dist_top by (simp add: distinct_map)
    show "sorted (map (schedule_key t) (map fst ?sch))"
    proof -
      have eq: "map (schedule_key t) (map fst ?sch) = map (\<lambda>(k, p). (pi_location p, pi_owner p))
          (sort_key (\<lambda>(k, p). (pi_location p, pi_owner p)) ?top)"
        unfolding names map_map using int by (auto simp: schedule_key_def intro!: map_cong)
      show ?thesis unfolding eq by (rule sorted_sort_key)
    qed
    show "\<forall>(k, a) \<in> set ?sch. \<exists>p. find_row t k = Some p \<and> eligible (k, p) \<and> a = get_producer_authority p"
      using int by fastforce
    show "\<forall>k p. find_row t k = Some p \<longrightarrow> eligible (k, p) \<longrightarrow> k \<notin> fst ` set ?sch \<longrightarrow>
        ?n = 21 \<and> (\<forall>j \<in> fst ` set ?sch. fle (total_votes p) (votes_of t j))"
    proof (intro allI impI)
      fix k p
      assume p: "find_row t k = Some p" "eligible (k, p)" "k \<notin> fst ` set ?sch"
      have "fst ` set ?sch = set (map fst ?sch)" by (simp only: set_map)
      then have sch: "fst ` set ?sch = fst ` set ?top" unfolding names by simp
      have "(k, p) \<in> set ?cands" using p by (simp add: in_rows_iff)
      moreover have "set ?cands = set ?top \<union> set (drop 21 ?cands)"
        unfolding top by (metis append_take_drop_id set_append)
      ultimately have low: "(k, p) \<in> set (drop 21 ?cands)" using p(3) sch by force
      then have "21 < length ?cands" by (metis drop_eq_Nil2 emptyE leI list.set(1))
      moreover have "fle (total_votes p) (votes_of t j)" if j: "j \<in> fst ` set ?top" for j
      proof -
        obtain q where q: "(j, q) \<in> set ?top" using j by auto
        have "sorted (map vote_key (take 21 ?cands @ drop 21 ?cands))"
          by (simp only: append_take_drop_id sorted_sort_key)
        then have "vote_key (j, q) \<le> vote_key (k, p)"
          using q low unfolding top map_append sorted_append by force
        then have "fkey (fneg (total_votes q)) \<le> fkey (fneg (total_votes p))"
          using int [OF q] p(2) by (simp add: vote_key_def by_votes_def eligible_def)
        then show ?thesis
          using row [OF p(1)] row [of j q] int [OF q] by (simp add: fkey_fneg fle_fkey votes_of_def)
      qed
      ultimately show "?n = 21 \<and> (\<forall>j \<in> fst ` set ?sch. fle (total_votes p) (votes_of t j))"
        unfolding sch by simp
    qed
  qed
qed

text \<open>
  C34: the schedule that \<open>update_elected_producers\<close> proposes holds the best \<open>min 21 n\<close> producers, where \<open>n\<close> of
  them are active with a positive number of votes: each once, with the authority it registered, ordered by
  location and name, and nobody left out has more votes than somebody in it. It proposes one exactly when there
  is somebody to propose and the schedule would not be smaller than the last one. Assumed: every row is of
  its key's account and no producer has a negative number of votes.
\<close>

theorem schedule_holds_the_best:
  assumes "votes_counted (producers s)" and "n = min 21 (length (filter eligible (rows (producers s))))"
    and "s' = update_elected_producers accepted t s"
  shows "if n = 0 \<or> int n < last_producer_schedule_size (gs s) then host_calls s' = host_calls s
    else \<exists>sch. host_calls s' = host_calls s @ [Set_proposed_producers sch] \<and> best_schedule (producers s) n sch"
proof -
  have len: "length (top_producers (producers s)) = n" by (simp add: top_is_best [OF assms(1)] assms(2))
  have nil: "top_producers (producers s) = [] \<longleftrightarrow> n = 0" using len by auto
  note best = schedule_of_top [OF assms(1), folded assms(2)]
  show ?thesis
  proof (cases "n = 0 \<or> int n < last_producer_schedule_size (gs s)")
    case True
    then have "host_calls s' = host_calls s"
      using nil by (simp add: assms(3) update_elected_producers_def Let_def len)
    then show ?thesis using True by simp
  next
    case False
    let ?sch = "map (\<lambda>(k, p). (pi_owner p, get_producer_authority p))
      (sort_key (\<lambda>(k, p). (pi_location p, pi_owner p)) (top_producers (producers s)))"
    have "host_calls s' = host_calls s @ [Set_proposed_producers ?sch]"
      using False nil by (simp add: assms(3) update_elected_producers_def Let_def len call_host_def)
    then show ?thesis using best False by auto
  qed
qed

text \<open>
  The assumption is needed: a retired producer whose votes rounded below zero is sorted before the active ones
  with fewer votes, and the loop over the index stops at it. Here it hides the only producer that is active.
\<close>

definition sample_producer :: "name \<Rightarrow> int \<Rightarrow> bool \<Rightarrow> producer_info" where
  "sample_producer k v active = \<lparr>pi_owner = k, total_votes = Fin (of_int v), producer_key = [], is_active = active, pi_url = '''',
     unpaid_blocks = 0, pi_last_claim_time = 0, pi_location = 0, producer_authority = None\<rparr>"

lemma retired_producer_hides_the_rest:
  "top_producers (put 2 2 (sample_producer 2 (- 20) False) (put 1 1 (sample_producer 1 10 True) no_rows)) = []"
  by (simp add: top_producers_def prototalvote_def sample_producer_def by_votes_def)

theorem schedule_holds_the_best_witness:
  "\<exists>sch. host_calls (update_elected_producers (\<lambda>_. True) 5
       (sample_sys\<lparr>producers := put 2 2 (sample_producer 2 30 True) (put 1 1 (sample_producer 1 10 True) no_rows)\<rparr>)) =
     [Set_proposed_producers sch] \<and> length sch = 2"
proof -
  let ?t = "put 2 2 (sample_producer 2 30 True) (put 1 1 (sample_producer 1 10 True) no_rows)"
  let ?s = "sample_sys\<lparr>producers := ?t\<rparr>"
  have ok: "votes_counted (producers ?s)" by (simp add: votes_counted_def all_rows_iff sample_producer_def fle_def)
  have "2 = min 21 (length (filter eligible (rows (producers ?s))))" by (simp add: sample_producer_def eligible_def)
  from schedule_holds_the_best [OF ok this refl, of "\<lambda>_. True" 5] show ?thesis
    by (auto simp: sample_sys_def empty_sys_def default_gstate_def best_schedule_def)
qed

end
