(* ===== verification/ProducerPay.thy ===== *)
theory ProducerPay
  imports Bandwidth NameBid
begin

text \<open>
  The inflation and who is paid from it: \<open>producer_pay.cpp\<close> and the claims of voters in \<open>voting.cpp\<close>.
  \<open>tok\<close> is the state of the token contract that the static \<open>get_supply\<close> and \<open>get_balance\<close> read. Times
  are microseconds, the time stamps of blocks slots of half a second.
\<close>

section \<open>Blocks\<close>

text \<open>
  \<open>onblock\<close> with the fields it reads from the header of the block; its last part, which closes an
  auction of a name, is \<open>close_auction\<close> of \<open>NameBid\<close>.
\<close>

definition count_block :: "name \<Rightarrow> sys \<Rightarrow> sys" where
  "count_block producer s =
     (case find_row (producers s) producer of
        None \<Rightarrow> s
      | Some p \<Rightarrow> s\<lparr>gs := (gs s)\<lparr>total_unpaid_blocks := u32 (total_unpaid_blocks (gs s) + 1)\<rparr>,
          producers := modify_row same_payer producer (p\<lparr>unpaid_blocks := u32 (unpaid_blocks p + 1)\<rparr>) (producers s)\<rparr>)"

definition onblock ::
    "((name \<times> block_signing_authority) list \<Rightarrow> bool) \<Rightarrow> ctx \<Rightarrow> bytes \<Rightarrow> int \<Rightarrow> name \<Rightarrow> sys \<Rightarrow> sys result" where
  "onblock accepted c previous_block_id timestamp producer s =
     require_auth c (ctx_self c) (
     bind_result (add_to_blockinfo_table c previous_block_id timestamp (blockinfo s)) (\<lambda>infos.
     let s1 = s\<lparr>blockinfo := infos, gs2 := (gs2 s)\<lparr>last_block_num := timestamp\<rparr>\<rparr> in
     if thresh_activated_stake_time (gs s1) = 0 then Inr s1
     else
       let s2 = (if last_pervote_bucket_fill (gs s1) = 0
                 then s1\<lparr>gs := (gs s1)\<lparr>last_pervote_bucket_fill := ctx_now c\<rparr>\<rparr> else s1);
           s3 = count_block producer s2 in
       if u32 (timestamp - last_producer_schedule_update (gs s3)) > 120
       then Inr (close_auction c timestamp (update_elected_producers accepted timestamp s3))
       else Inr s3))"

section \<open>The inflation\<close>

definition inflation :: "asset \<Rightarrow> int \<Rightarrow> int result" where
  "inflation token_supply usecs =
     to_i64 (fdiv (fmul (fmul continuous_rate (of_i64 (amount token_supply))) (of_i64 usecs)) (of_i64 useconds_per_year))"

text \<open>\<open>asset(n, core_symbol())\<close> handed to an inline action.\<close>

definition send_core :: "ctx \<Rightarrow> permission_level list \<Rightarrow> int \<Rightarrow> (asset \<Rightarrow> token_action) \<Rightarrow> sys \<Rightarrow> sys result" where
  "send_core c auths n act s = bind_result (core_asset (ctx_lib c) n s) (\<lambda>q. Inr (send_token auths (act q) s))"

definition send_if :: "bool \<Rightarrow> ctx \<Rightarrow> permission_level list \<Rightarrow> int \<Rightarrow> (asset \<Rightarrow> token_action) \<Rightarrow> sys \<Rightarrow> sys result" where
  "send_if b c auths n act s = (if b then send_core c auths n act s else Inr s)"

definition fill_buckets :: "ctx \<Rightarrow> token_state \<Rightarrow> sys \<Rightarrow> sys result" where
  "fill_buckets c tok s =
     bind_result (core_symbol s) (\<lambda>core.
     bind_result (get_supply tok (sym_code core)) (\<lambda>token_supply.
     let ct = ctx_now c; self = ctx_self c; mine = [(self, active_permission)]; fees = [(fees_account, active_permission)];
         usecs_since_last_fill = i64 (ct - last_pervote_bucket_fill (gs s)) in
     if usecs_since_last_fill > 0 \<and> last_pervote_bucket_fill (gs s) > 0 then
       bind_result (get_balance tok fees_account (sym_code core)) (\<lambda>current_fees.
       bind_result (inflation token_supply usecs_since_last_fill) (\<lambda>distribute_tokens.
       let fees_to_use = min distribute_tokens (amount current_fees);
           issue_tokens = i64 (distribute_tokens - fees_to_use);
           to_per_block_pay = distribute_tokens sdiv 5;
           to_voters = i64 (2 * to_per_block_pay);
           to_savings = i64 (distribute_tokens - i64 (to_voters + to_per_block_pay)) in
       bind_result (send_if (issue_tokens > 0) c mine issue_tokens
         (\<lambda>q. Issue self q ''issue tokens for producer pay and savings'') s) (\<lambda>s1.
       bind_result (send_if (fees_to_use > 0) c fees fees_to_use
         (\<lambda>q. Transfer fees_account self q ''collect tokenomic fees'') s1) (\<lambda>s2.
       bind_result (send_core c mine to_savings
         (\<lambda>q. Transfer self saving_account q ''unallocated inflation'') s2) (\<lambda>s3.
       bind_result (send_core c mine to_voters
         (\<lambda>q. Transfer self voters_account q ''fund voters bucket'') s3) (\<lambda>s4.
       bind_result (send_core c mine to_per_block_pay
         (\<lambda>q. Transfer self bpay_account q ''fund bpay bucket'') s4) (\<lambda>s5.
       let s6 = s5\<lparr>gs := (gs s5)\<lparr>perblock_bucket := i64 (perblock_bucket (gs s5) + to_per_block_pay),
                     voters_bucket := i64 (voters_bucket (gs s5) + to_voters),
                     last_pervote_bucket_fill := ct\<rparr>\<rparr>;
           burn_fees = max 0 (i64 (amount current_fees - fees_to_use)) in
       bind_result (send_if (burn_fees > 0) c fees burn_fees
         (\<lambda>q. Transfer fees_account self q ''burn tokenomic fees'') s6) (\<lambda>s7.
       send_if (burn_fees > 0) c mine burn_fees (\<lambda>q. Retire q ''burn tokenomic fees'') s7))))))))
     else Inr s))"

section \<open>The pay of producers\<close>

text \<open>The row of \<open>producers2\<close>, which a first claim creates.\<close>

definition producer2_row :: "ctx \<Rightarrow> name \<Rightarrow> sys \<Rightarrow> producer_info2 \<times> sys" where
  "producer2_row c owner s =
     (case find_row (producers2 s) owner of
        Some p2 \<Rightarrow> (p2, s)
      | None \<Rightarrow>
          let p2 = \<lparr>p2_owner = owner, votepay_share = Fin 0, last_votepay_share_update = ctx_now c\<rparr> in
          (p2, s\<lparr>producers2 := put owner owner p2 (producers2 s)\<rparr>))"

definition block_pay :: "eosio_global_state \<Rightarrow> producer_info \<Rightarrow> int result" where
  "block_pay g p =
     (if total_unpaid_blocks g > 0 then
        bind_result (to_i64 (fdiv (fmul (of_i64 (perblock_bucket g)) (of_i64 (unpaid_blocks p)))
                                  (of_i64 (total_unpaid_blocks g)))) (\<lambda>pay.
        check (pay \<ge> 0) ''producer per block pay must be greater or equal to 0'' (Inr pay))
      else Inr 0)"

text \<open>What a claim does after the buckets are filled: the books, and the payment.\<close>

definition record_claim :: "ctx \<Rightarrow> name \<Rightarrow> producer_info \<Rightarrow> producer_info2 \<Rightarrow> bool \<Rightarrow> int \<Rightarrow> sys \<Rightarrow> sys" where
  "record_claim c owner p prod2 updated_after_threshold producer_per_block_pay s =
     (case update_producer_votepay_share owner prod2 (ctx_now c)
            (if updated_after_threshold then Fin 0 else total_votes p) True s of (share, s1) \<Rightarrow>
      let s2 = s1\<lparr>gs := (gs s1)\<lparr>perblock_bucket := i64 (perblock_bucket (gs s1) - producer_per_block_pay),
                   total_unpaid_blocks := u32 (total_unpaid_blocks (gs s1) - unpaid_blocks p)\<rparr>\<rparr>;
          s3 = update_total_votepay_share (ctx_now c) (fneg share)
                 (if updated_after_threshold then total_votes p else Fin 0) s2 in
      s3\<lparr>producers := modify_row same_payer owner
           (p\<lparr>pi_last_claim_time := ctx_now c, unpaid_blocks := 0\<rparr>) (producers s3)\<rparr>)"

definition pay_producer :: "ctx \<Rightarrow> name \<Rightarrow> producer_info \<Rightarrow> sys \<Rightarrow> sys result" where
  "pay_producer c owner p s =
     (let last_claim_plus_3days = i64 (pi_last_claim_time p + three_days);
          updated_after_threshold = (case find_row (producers2 s) owner of None \<Rightarrow> True
            | Some p2 \<Rightarrow> last_claim_plus_3days \<le> last_votepay_share_update p2) in
     case producer2_row c owner s of (prod2, s1) \<Rightarrow>
     bind_result (block_pay (gs s1) p) (\<lambda>producer_per_block_pay.
     send_if (producer_per_block_pay > 0) c [(bpay_account, active_permission), (owner, active_permission)]
       producer_per_block_pay (\<lambda>q. Transfer bpay_account owner q ''producer block pay'')
       (record_claim c owner p prod2 updated_after_threshold producer_per_block_pay s1)))"

definition claim_producer_rewards :: "ctx \<Rightarrow> token_state \<Rightarrow> name \<Rightarrow> sys \<Rightarrow> sys result" where
  "claim_producer_rewards c tok owner s =
     require_auth c owner (
     some_or (find_row (producers s) owner) (Library ''unable to find key'') (\<lambda>p.
     check (is_active p) ''producer does not have an active key'' (
     check (thresh_activated_stake_time (gs s) \<noteq> 0)
       ''cannot claim rewards until the chain is activated (at least 15% of all tokens participate in voting)'' (
     check (i64 (ctx_now c - pi_last_claim_time p) > useconds_per_day) ''already claimed rewards within past day'' (
     bind_result (fill_buckets c tok s) (pay_producer c owner p))))))"

definition claimrewards :: "ctx \<Rightarrow> token_state \<Rightarrow> name \<Rightarrow> sys \<Rightarrow> sys result" where
  "claimrewards c tok owner s = claim_producer_rewards c tok owner s"

definition claimgbmprod :: "ctx \<Rightarrow> token_state \<Rightarrow> name \<Rightarrow> sys \<Rightarrow> sys result" where
  "claimgbmprod c tok owner s = claim_producer_rewards c tok owner s"

section \<open>The pay of voters\<close>

definition collect_voter_reward :: "ctx \<Rightarrow> token_state \<Rightarrow> name \<Rightarrow> sys \<Rightarrow> (int \<times> sys) result" where
  "collect_voter_reward c tok owner s =
     require_auth c owner (
     check (total_activated_stake (gs s) \<ge> min_activated_stake)
       ''cannot claim rewards until the chain is activated (at least 15% of all tokens participate in voting)'' (
     some_or (find_row (voters s) owner) (Check ''voter does not exist.'') (\<lambda>voter.
     check (unpaid_voteshare_last_updated voter \<noteq> 0)
       ''you need to vote first! unpaid_voteshare_last_updated is zero.'' (
     let ct = ctx_now c in
     check (i64 (ct - vi_last_claim_time voter) > useconds_per_day) ''already claimed rewards within past day'' (
     bind_result (fill_buckets c tok s) (\<lambda>s1.
     let g = gs s1;
         total = fadd (total_unpaid_voteshare g) (fmul (total_voteshare_change_rate g)
                   (elapsed_seconds ct (total_unpaid_voteshare_last_updated g))) in
     check (flt (Fin 0) total) ''no rewards available.'' (
     let share = fadd (unpaid_voteshare voter) (fmul (unpaid_voteshare_change_rate voter)
                   (elapsed_seconds ct (unpaid_voteshare_last_updated voter))) in
     bind_result (to_i64 (fmul (of_i64 (voters_bucket g)) (fdiv share total))) (\<lambda>earned.
     check (earned > 0) ''no rewards available.'' (
     let reward = (if earned > voters_bucket g then voters_bucket g else earned) in
     Inr (reward, s1\<lparr>gs := g\<lparr>total_unpaid_voteshare := fsub total share,
                              total_unpaid_voteshare_last_updated := ct,
                              voters_bucket := i64 (voters_bucket g - reward)\<rparr>,
                    voters := modify_row same_payer owner
                      (voter\<lparr>unpaid_voteshare := Fin 0, unpaid_voteshare_last_updated := ct, vi_last_claim_time := ct\<rparr>)
                      (voters s1)\<rparr>))))))))))"

definition voterclaim :: "ctx \<Rightarrow> token_state \<Rightarrow> name \<Rightarrow> sys \<Rightarrow> sys result" where
  "voterclaim c tok owner s =
     bind_result (collect_voter_reward c tok owner s) (\<lambda>(reward, s1).
     send_core c [(voters_account, active_permission), (owner, active_permission)] reward
       (\<lambda>q. Transfer voters_account owner q ''voter pay'') s1)"

definition claimgbmvote :: "ctx \<Rightarrow> token_state \<Rightarrow> name \<Rightarrow> sys \<Rightarrow> sys result" where
  "claimgbmvote c tok owner s = voterclaim c tok owner s"

end
