(* ===== verification/PayLemmas.thy ===== *)
theory PayLemmas
  imports ProducerPay
begin

text \<open>
  How the inflation is split and paid out: what \<open>fill_buckets\<close> sends, that the two buckets hold exactly
  what their accounts received, and that a claim is limited in time and amount.
\<close>

section \<open>What fill\_buckets sends\<close>

text \<open>What the contract retires.\<close>

fun retired_by_call :: "inline_call \<Rightarrow> int" where
  "retired_by_call (Token_call (Retire q memo)) = amount q"
| "retired_by_call _ = 0"

definition retired :: "inline_action list \<Rightarrow> int" where
  "retired xs = (\<Sum>x \<leftarrow> xs. retired_by_call (in_call x))"

lemma retired_append [simp]: "retired (xs @ ys) = retired xs + retired ys"
  by (simp add: retired_def)

context asset_library
begin

lemma send_core_effect:
  assumes "send_core c auths n act s = Inr s'" and "ctx_lib c = L" and "core_symbol s = Inr core"
  obtains q where "amount q = n" and "asset_symbol q = core" and "s' = send_token auths (act q) s"
proof -
  obtain q where "mk_asset L n core = Some q" "s' = send_token auths (act q) s"
    using assms by (auto simp: send_core_def core_asset_def)
  then show ?thesis using mk_Some that by blast
qed

lemma send_if_effect:
  assumes "send_if b c auths n act s = Inr s'" and "ctx_lib c = L" and "core_symbol s = Inr core"
  obtains x where "s' = s\<lparr>outbox := outbox s @ x\<rparr>"
    and "\<not> b \<Longrightarrow> x = []"
    and "b \<Longrightarrow> \<exists>q. amount q = n \<and> asset_symbol q = core \<and> x = [\<lparr>in_auths = auths, in_call = Token_call (act q)\<rparr>]"
proof (cases b)
  case True
  then have "send_core c auths n act s = Inr s'" using assms(1) by (simp add: send_if_def)
  then show ?thesis
    by (rule send_core_effect [OF _ assms(2,3)]) (rule that, auto simp: send_token_def True)
next
  case False
  show ?thesis by (rule that [of "[]"]) (use False assms(1) in \<open>simp_all add: send_if_def\<close>)
qed

lemma send_if_flow:
  assumes "send_if b c auths n act s = Inr s'" and "ctx_lib c = L" and "core_symbol s = Inr core"
    and "\<And>q w. amount q = n \<Longrightarrow> flow_of_call w (Token_call (act q)) = f w"
  obtains x where "s' = s\<lparr>outbox := outbox s @ x\<rparr>" and "\<And>w. net_flow w x = (if b then f w else 0)"
    and "\<And>v. (\<And>q. amount q = n \<Longrightarrow> retired_by_call (Token_call (act q)) = v) \<Longrightarrow> retired x = (if b then v else 0)"
proof (rule send_if_effect [OF assms(1-3)])
  fix x
  assume x: "s' = s\<lparr>outbox := outbox s @ x\<rparr>" "\<not> b \<Longrightarrow> x = []"
    "b \<Longrightarrow> \<exists>q. amount q = n \<and> asset_symbol q = core \<and> x = [\<lparr>in_auths = auths, in_call = Token_call (act q)\<rparr>]"
  have "net_flow w x = (if b then f w else 0)" for w
    using x(2,3) assms(4) by (cases b) fastforce+
  moreover have "retired x = (if b then v else 0)"
    if "\<And>q. amount q = n \<Longrightarrow> retired_by_call (Token_call (act q)) = v" for v
    using x(2,3) that by (cases b) (auto simp: retired_def)
  ultimately show ?thesis by (rule that [OF x(1)])
qed

lemma send_core_flow:
  assumes "send_core c auths n act s = Inr s'" and "ctx_lib c = L" and "core_symbol s = Inr core"
    and "\<And>q w. amount q = n \<Longrightarrow> flow_of_call w (Token_call (act q)) = f w"
  obtains x where "s' = s\<lparr>outbox := outbox s @ x\<rparr>" and "\<And>w. net_flow w x = f w"
    and "\<And>v. (\<And>q. amount q = n \<Longrightarrow> retired_by_call (Token_call (act q)) = v) \<Longrightarrow> retired x = v"
proof -
  have "send_if True c auths n act s = Inr s'" using assms(1) by (simp add: send_if_def)
  then show ?thesis
  proof (rule send_if_flow [OF _ assms(2-4)], goal_cases)
    case (2 x)
    show ?thesis by (rule that [OF 2(1)]) (use 2(2,3) in simp_all)
  qed simp
qed

end

text \<open>What an account gains from the transfers of one distribution.\<close>

definition moved :: "name \<Rightarrow> name \<Rightarrow> int \<Rightarrow> name \<Rightarrow> int" where
  "moved from to n w = of_bool (to = w) * n - of_bool (from = w) * n"

lemma moved_pos: "(if 0 < n then moved from to n w else 0) = moved from to (max 0 n) w"
  by (simp add: moved_def)

record distribution =
  issued :: int
  fees_used :: int
  to_savings :: int
  to_voters :: int
  to_block_pay :: int
  burnt :: int

definition distribution_of :: "int \<Rightarrow> int \<Rightarrow> distribution" where
  "distribution_of d fees =
     (let used = min d fees; fifth = d sdiv 5 in
      \<lparr>issued = max 0 (i64 (d - used)), fees_used = max 0 used,
       to_savings = i64 (d - i64 (i64 (2 * fifth) + fifth)), to_voters = i64 (2 * fifth), to_block_pay = fifth,
       burnt = max 0 (i64 (fees - used))\<rparr>)"

definition distribution_flow :: "name \<Rightarrow> distribution \<Rightarrow> name \<Rightarrow> int" where
  "distribution_flow self D w =
     of_bool (self = w) * issued D + moved fees_account self (fees_used D) w + moved self saving_account (to_savings D) w +
     moved self voters_account (to_voters D) w + moved self bpay_account (to_block_pay D) w +
     moved fees_account self (burnt D) w"

definition fill_due :: "ctx \<Rightarrow> sys \<Rightarrow> bool" where
  "fill_due c s \<longleftrightarrow> 0 < i64 (ctx_now c - last_pervote_bucket_fill (gs s)) \<and> 0 < last_pervote_bucket_fill (gs s)"

context asset_library
begin

lemma fill_effect:
  assumes run: "fill_buckets c tok s = Inr s'" and c: "ctx_lib c = L" and core: "core_symbol s = Inr core"
  obtains (idle) "\<not> fill_due c s" "s' = s"
  | (due) stock fees d x where "fill_due c s" "get_supply tok (sym_code core) = Inr stock"
      "get_balance tok fees_account (sym_code core) = Inr fees"
      "inflation stock (i64 (ctx_now c - last_pervote_bucket_fill (gs s))) = Inr d"
      "\<And>w. net_flow w x = distribution_flow (ctx_self c) (distribution_of d (amount fees)) w"
      "retired x = burnt (distribution_of d (amount fees))"
      "s' = s\<lparr>outbox := outbox s @ x, gs := (gs s)
        \<lparr>perblock_bucket := i64 (perblock_bucket (gs s) + to_block_pay (distribution_of d (amount fees))),
         voters_bucket := i64 (voters_bucket (gs s) + to_voters (distribution_of d (amount fees))),
         last_pervote_bucket_fill := ctx_now c\<rparr>\<rparr>"
proof (cases "fill_due c s")
  case False
  have "s' = s"
    using run False core unfolding fill_buckets_def fill_due_def Let_def by auto
  then show ?thesis using False by (rule idle [rotated])
next
  case True
  have cond: "0 < i64 (ctx_now c - last_pervote_bucket_fill (gs s)) \<and> 0 < last_pervote_bucket_fill (gs s)"
    using True by (simp add: fill_due_def)
  let ?self = "ctx_self c"
  obtain stock fees d s1 s2 s3 s4 s5 s7 where read: "get_supply tok (sym_code core) = Inr stock"
      "get_balance tok fees_account (sym_code core) = Inr fees"
      "inflation stock (i64 (ctx_now c - last_pervote_bucket_fill (gs s))) = Inr d"
    and one: "send_if (0 < i64 (d - min d (amount fees))) c [(?self, active_permission)] (i64 (d - min d (amount fees)))
         (\<lambda>q. Issue ?self q ''issue tokens for producer pay and savings'') s = Inr s1"
    and two: "send_if (0 < min d (amount fees)) c [(fees_account, active_permission)] (min d (amount fees))
         (\<lambda>q. Transfer fees_account ?self q ''collect tokenomic fees'') s1 = Inr s2"
    and three: "send_core c [(?self, active_permission)] (i64 (d - i64 (i64 (2 * (d sdiv 5)) + d sdiv 5)))
         (\<lambda>q. Transfer ?self saving_account q ''unallocated inflation'') s2 = Inr s3"
    and four: "send_core c [(?self, active_permission)] (i64 (2 * (d sdiv 5)))
         (\<lambda>q. Transfer ?self voters_account q ''fund voters bucket'') s3 = Inr s4"
    and five: "send_core c [(?self, active_permission)] (d sdiv 5)
         (\<lambda>q. Transfer ?self bpay_account q ''fund bpay bucket'') s4 = Inr s5"
    and seven: "send_if (0 < max 0 (i64 (amount fees - min d (amount fees)))) c [(fees_account, active_permission)]
         (max 0 (i64 (amount fees - min d (amount fees)))) (\<lambda>q. Transfer fees_account ?self q ''burn tokenomic fees'')
         (s5\<lparr>gs := (gs s5)\<lparr>perblock_bucket := i64 (perblock_bucket (gs s5) + d sdiv 5),
                     voters_bucket := i64 (voters_bucket (gs s5) + i64 (2 * (d sdiv 5))),
                     last_pervote_bucket_fill := ctx_now c\<rparr>\<rparr>) = Inr s7"
    and eight: "send_if (0 < max 0 (i64 (amount fees - min d (amount fees)))) c [(?self, active_permission)]
         (max 0 (i64 (amount fees - min d (amount fees)))) (\<lambda>q. Retire q ''burn tokenomic fees'') s7 = Inr s'"
    using run unfolding fill_buckets_def core bind_result_simps Let_def if_P [OF cond] bind_result_Inr
    by (elim exE conjE) (rule that)
  obtain x1 where s1: "s1 = s\<lparr>outbox := outbox s @ x1\<rparr>" and x1: "\<And>w. net_flow w x1 =
      (if 0 < i64 (d - min d (amount fees)) then of_bool (?self = w) * i64 (d - min d (amount fees)) else 0)"
    and r1: "retired x1 = 0"
  proof (rule send_if_flow [OF one c core, where f = "\<lambda>w. of_bool (?self = w) * i64 (d - min d (amount fees))"], goal_cases)
    case (2 x)
    have "retired x = (if 0 < i64 (d - min d (amount fees)) then 0 else 0)"
      by (rule 2(4)) simp
    then show ?case by (intro that [OF 2(2,3)]) simp
  qed auto
  have c1: "core_symbol s1 = Inr core" using core by (simp add: s1)
  obtain x2 where s2: "s2 = s1\<lparr>outbox := outbox s1 @ x2\<rparr>" and x2: "\<And>w. net_flow w x2 =
      (if 0 < min d (amount fees) then moved fees_account ?self (min d (amount fees)) w else 0)"
    and r2: "retired x2 = 0"
  proof (rule send_if_flow [OF two c c1, where f = "moved fees_account ?self (min d (amount fees))"], goal_cases)
    case (2 x)
    have "retired x = (if 0 < min d (amount fees) then 0 else 0)" by (rule 2(4)) simp
    then show ?case by (intro that [OF 2(2,3)]) simp
  qed (auto simp: moved_def)
  have c2: "core_symbol s2 = Inr core" using c1 by (simp add: s2)
  obtain x3 where s3: "s3 = s2\<lparr>outbox := outbox s2 @ x3\<rparr>" and x3: "\<And>w. net_flow w x3 =
      moved ?self saving_account (i64 (d - i64 (i64 (2 * (d sdiv 5)) + d sdiv 5))) w"
    and r3: "retired x3 = 0"
  proof (rule send_core_flow [OF three c c2, where f = "moved ?self saving_account (i64 (d - i64 (i64 (2 * (d sdiv 5)) + d sdiv 5)))"], goal_cases)
    case (2 x)
    have "retired x = 0" by (rule 2(4)) simp
    then show ?case by (intro that [OF 2(2,3)]) simp
  qed (auto simp: moved_def)
  have c3: "core_symbol s3 = Inr core" using c2 by (simp add: s3)
  obtain x4 where s4: "s4 = s3\<lparr>outbox := outbox s3 @ x4\<rparr>" and x4: "\<And>w. net_flow w x4 =
      moved ?self voters_account (i64 (2 * (d sdiv 5))) w"
    and r4: "retired x4 = 0"
  proof (rule send_core_flow [OF four c c3, where f = "moved ?self voters_account (i64 (2 * (d sdiv 5)))"], goal_cases)
    case (2 x)
    have "retired x = 0" by (rule 2(4)) simp
    then show ?case by (intro that [OF 2(2,3)]) simp
  qed (auto simp: moved_def)
  have c4: "core_symbol s4 = Inr core" using c3 by (simp add: s4)
  obtain x5 where s5: "s5 = s4\<lparr>outbox := outbox s4 @ x5\<rparr>" and x5: "\<And>w. net_flow w x5 =
      moved ?self bpay_account (d sdiv 5) w"
    and r5: "retired x5 = 0"
  proof (rule send_core_flow [OF five c c4, where f = "moved ?self bpay_account (d sdiv 5)"], goal_cases)
    case (2 x)
    have "retired x = 0" by (rule 2(4)) simp
    then show ?case by (intro that [OF 2(2,3)]) simp
  qed (auto simp: moved_def)
  let ?burn = "max 0 (i64 (amount fees - min d (amount fees)))"
  let ?s6 = "s5\<lparr>gs := (gs s5)\<lparr>perblock_bucket := i64 (perblock_bucket (gs s5) + d sdiv 5),
                     voters_bucket := i64 (voters_bucket (gs s5) + i64 (2 * (d sdiv 5))),
                     last_pervote_bucket_fill := ctx_now c\<rparr>\<rparr>"
  have c5: "core_symbol ?s6 = Inr core" using c4 by (simp add: s5)
  obtain x7 where s7: "s7 = ?s6\<lparr>outbox := outbox ?s6 @ x7\<rparr>" and x7: "\<And>w. net_flow w x7 =
      (if 0 < ?burn then moved fees_account ?self ?burn w else 0)"
    and r7: "retired x7 = 0"
  proof (rule send_if_flow [OF seven c c5, where f = "moved fees_account ?self ?burn"], goal_cases)
    case (2 x)
    have "retired x = (if 0 < ?burn then 0 else 0)" by (rule 2(4)) simp
    then show ?case by (intro that [OF 2(2,3)]) simp
  qed (auto simp: moved_def)
  have c7: "core_symbol s7 = Inr core" using c5 by (simp add: s7)
  obtain x8 where s8: "s' = s7\<lparr>outbox := outbox s7 @ x8\<rparr>" and x8: "\<And>w. net_flow w x8 = 0"
    and r8: "retired x8 = ?burn"
  proof (rule send_if_flow [OF eight c c7, where f = "\<lambda>_. 0"], goal_cases)
    case (2 x)
    have "retired x = (if 0 < ?burn then ?burn else 0)" by (rule 2(4)) simp
    then show ?case by (intro that [OF 2(2)]) (use 2(3) in simp_all)
  qed auto
  let ?x = "x1 @ x2 @ x3 @ x4 @ x5 @ x7 @ x8"
  have flow: "net_flow w ?x = distribution_flow ?self (distribution_of d (amount fees)) w" for w
  proof -
    have "net_flow w x1 = of_bool (?self = w) * max 0 (i64 (d - min d (amount fees)))" using x1 by simp
    moreover note x2 [of w, unfolded moved_pos] x7 [of w, unfolded moved_pos]
    ultimately show ?thesis
      using x3 x4 x5 x8 by (simp only: distribution_flow_def distribution_of_def Let_def net_flow_simps distribution.select_convs)
        (simp add: moved_def)
  qed
  show ?thesis
    by (rule due [OF True read flow])
      (simp add: r1 r2 r3 r4 r5 r7 r8 distribution_of_def Let_def, simp add: s8 s7 s5 s4 s3 s2 s1 distribution_of_def Let_def)
qed

end

section \<open>The buckets\<close>

text \<open>The state of the rewards: what is in the buckets, what is owed, what was sent.\<close>

definition all_unpaid :: "sys \<Rightarrow> int" where
  "all_unpaid s = sum_rows (\<lambda>k p. unpaid_blocks p) (producers s)"

definition pay_inv :: "sys \<Rightarrow> bool" where
  "pay_inv s \<longleftrightarrow> perblock_bucket (gs s) = i64 (net_flow bpay_account (outbox s)) \<and>
     voters_bucket (gs s) = i64 (net_flow voters_account (outbox s)) \<and>
     total_unpaid_blocks (gs s) = u32 (all_unpaid s) \<and> all_rows (\<lambda>k p. 0 \<le> unpaid_blocks p) (producers s)"

declare i64_congs [simp]

lemma u32_congs [simp]: "u32 (u32 x + y) = u32 (x + y)" "u32 (x + u32 y) = u32 (x + y)" "u32 (u32 x - y) = u32 (x - y)"
  "u32 (u32 x + y - z) = u32 (x + y - z)"
proof -
  show "u32 (u32 x + y) = u32 (x + y)" "u32 (x + u32 y) = u32 (x + y)" "u32 (u32 x - y) = u32 (x - y)" for x y
    by (simp_all add: u32_def mod_simps)
  from this(1) [of x "y - z"] show "u32 (u32 x + y - z) = u32 (x + y - z)" by (simp only: add_diff_eq)
qed

lemma pay_inv_frame:
  assumes "pay_inv s" and "perblock_bucket (gs s') = perblock_bucket (gs s)" "voters_bucket (gs s') = voters_bucket (gs s)"
    "total_unpaid_blocks (gs s') = total_unpaid_blocks (gs s)" "producers s' = producers s" "outbox s' = outbox s"
  shows "pay_inv s'"
  using assms by (simp add: pay_inv_def all_unpaid_def)

lemma elected_frame: "pay_inv s \<Longrightarrow> pay_inv (update_elected_producers accepted t s)"
  by (erule pay_inv_frame) (simp_all add: update_elected_producers_def call_host_def Let_def)

lemma close_frame: "pay_inv s \<Longrightarrow> pay_inv (close_auction c t s)"
  by (erule pay_inv_frame) (simp_all add: close_auction_def split: option.split prod.split)

lemma count_block_inv: "pay_inv s \<Longrightarrow> pay_inv (count_block w s)"
  by (auto simp: count_block_def pay_inv_def all_unpaid_def sum_rows_modify algebra_simps all_rows_modify split: option.split)

lemma onblock_inv:
  assumes "onblock accepted c prev t w s = Inr s'" and "pay_inv s"
  shows "pay_inv s'"
proof -
  obtain infos where inf: "add_to_blockinfo_table c prev t (blockinfo s) = Inr infos"
    using assms(1) by (auto simp: onblock_def)
  let ?s1 = "s\<lparr>blockinfo := infos, gs2 := (gs2 s)\<lparr>last_block_num := t\<rparr>\<rparr>"
  have one: "pay_inv ?s1" by (rule pay_inv_frame [OF assms(2)]) simp_all
  have two: "pay_inv (?s1\<lparr>gs := (gs ?s1)\<lparr>last_pervote_bucket_fill := ctx_now c\<rparr>\<rparr>)"
    by (rule pay_inv_frame [OF one]) simp_all
  show ?thesis
    using assms(1) one two close_frame elected_frame count_block_inv
    by (auto simp: onblock_def inf Let_def split: if_splits)
qed

text \<open>Neither the contract itself nor an account that claims is one of the two that hold the buckets.\<close>

definition outsider :: "name \<Rightarrow> bool" where
  "outsider w \<longleftrightarrow> w \<noteq> bpay_account \<and> w \<noteq> voters_account"

context asset_library
begin

lemma fill_inv:
  assumes run: "fill_buckets c tok s = Inr s'" and c: "ctx_lib c = L" and self: "outsider (ctx_self c)" and inv: "pay_inv s"
  obtains g where "pay_inv s'" and "s' = s\<lparr>outbox := outbox s', gs := g\<rparr>"
    and "total_unpaid_blocks g = total_unpaid_blocks (gs s)"
proof -
  obtain core where core: "core_symbol s = Inr core" using run by (auto simp: fill_buckets_def)
  show ?thesis
  proof (cases rule: fill_effect [OF run c core])
    case 1
    show ?thesis by (rule that [of "gs s"]) (simp_all add: 1 inv)
  next
    case (2 stock fees d x)
    let ?D = "distribution_of d (amount fees)"
    have "net_flow bpay_account x = to_block_pay ?D" "net_flow voters_account x = to_voters ?D"
      using self by (simp_all add: 2(5) distribution_flow_def moved_def outsider_def)
    then have "pay_inv s'" using inv by (simp add: 2(7) pay_inv_def all_unpaid_def)
    then show ?thesis by (rule that [of "gs s'"]) (simp_all add: 2(7))
  qed
qed

lemma pay_producer_effect:
  assumes run: "pay_producer c owner p s = Inr s'" and c: "ctx_lib c = L" and core: "core_symbol s = Inr core"
  obtains pay where "block_pay (gs s) p = Inr pay" "0 \<le> pay"
    "perblock_bucket (gs s') = i64 (perblock_bucket (gs s) - pay)" "voters_bucket (gs s') = voters_bucket (gs s)"
    "total_unpaid_blocks (gs s') = u32 (total_unpaid_blocks (gs s) - unpaid_blocks p)"
    "producers s' = modify_row same_payer owner (p\<lparr>pi_last_claim_time := ctx_now c, unpaid_blocks := 0\<rparr>) (producers s)"
    "\<And>w. net_flow w (outbox s') = net_flow w (outbox s) + moved bpay_account owner pay w"
proof -
  obtain p2 s1 where row: "producer2_row c owner s = (p2, s1)" by (cases "producer2_row c owner s")
  have s1: "gs s1 = gs s" "outbox s1 = outbox s" "producers s1 = producers s" "rammarket s1 = rammarket s"
    using row by (auto simp: producer2_row_def Let_def split: option.splits)
  obtain pay b where pay: "block_pay (gs s) p = Inr pay" and last:
      "send_if (pay > 0) c [(bpay_account, active_permission), (owner, active_permission)] pay
         (\<lambda>q. Transfer bpay_account owner q ''producer block pay'') (record_claim c owner p p2 b pay s1) = Inr s'"
    using run unfolding pay_producer_def row prod.case s1(1) bind_result_Inr Let_def
    by (elim exE conjE) (rule that)
  have pos: "0 \<le> pay" using pay by (auto simp: block_pay_def split: if_splits)
  define s5 where "s5 = record_claim c owner p p2 b pay s1"
  have s5: "perblock_bucket (gs s5) = i64 (perblock_bucket (gs s) - pay)" "voters_bucket (gs s5) = voters_bucket (gs s)"
      "total_unpaid_blocks (gs s5) = u32 (total_unpaid_blocks (gs s) - unpaid_blocks p)"
      "producers s5 = modify_row same_payer owner (p\<lparr>pi_last_claim_time := ctx_now c, unpaid_blocks := 0\<rparr>) (producers s)"
      "outbox s5 = outbox s" "rammarket s5 = rammarket s"
    by (simp_all add: s5_def s1 record_claim_def Let_def update_producer_votepay_share_def update_total_votepay_share_def)
  have core5: "core_symbol s5 = Inr core" using core s5(6) by (simp add: core_symbol_def)
  obtain x where x: "s' = s5\<lparr>outbox := outbox s5 @ x\<rparr>" "\<And>w. net_flow w x = (if 0 < pay then moved bpay_account owner pay w else 0)"
    by (rule send_if_flow [OF last [folded s5_def] c core5, where f = "moved bpay_account owner pay"]) (auto simp: that moved_def)
  show ?thesis
    by (rule that [OF pay pos]) (use x s5 pos in \<open>simp_all add: moved_def\<close>)
qed

lemma claim_effect:
  assumes run: "claim_producer_rewards c tok owner s = Inr s'" and c: "ctx_lib c = L"
    and self: "outsider (ctx_self c)" and inv: "pay_inv s"
  obtains p s1 pay where "has_auth c owner" "find_row (producers s) owner = Some p" "is_active p"
    "useconds_per_day < i64 (ctx_now c - pi_last_claim_time p)"
    "fill_buckets c tok s = Inr s1" "pay_inv s1" "producers s1 = producers s"
    "total_unpaid_blocks (gs s1) = total_unpaid_blocks (gs s)"
    "block_pay (gs s1) p = Inr pay" "0 \<le> pay"
    "perblock_bucket (gs s') = i64 (perblock_bucket (gs s1) - pay)" "voters_bucket (gs s') = voters_bucket (gs s1)"
    "total_unpaid_blocks (gs s') = u32 (total_unpaid_blocks (gs s1) - unpaid_blocks p)"
    "producers s' = modify_row same_payer owner (p\<lparr>pi_last_claim_time := ctx_now c, unpaid_blocks := 0\<rparr>) (producers s)"
    "\<And>w. net_flow w (outbox s') = net_flow w (outbox s1) + moved bpay_account owner pay w"
proof -
  obtain p s1 where p: "has_auth c owner" "find_row (producers s) owner = Some p" "is_active p"
      "useconds_per_day < i64 (ctx_now c - pi_last_claim_time p)"
    and fill: "fill_buckets c tok s = Inr s1" and pay: "pay_producer c owner p s1 = Inr s'"
    using run by (auto simp: claim_producer_rewards_def)
  obtain g where g: "pay_inv s1" "s1 = s\<lparr>outbox := outbox s1, gs := g\<rparr>" "total_unpaid_blocks g = total_unpaid_blocks (gs s)"
    by (rule fill_inv [OF fill c self inv]) (rule that)
  have s1: "producers s1 = producers s" "gs s1 = g" "rammarket s1 = rammarket s" by (subst g(2), simp)+
  obtain core where core: "core_symbol s1 = Inr core" using fill s1(3) by (auto simp: fill_buckets_def core_symbol_def)
  show ?thesis
    by (rule pay_producer_effect [OF pay c core]) (rule that [OF p fill g(1) s1(1)], simp_all add: s1 g(3))
qed

lemma claim_inv:
  assumes "claim_producer_rewards c tok owner s = Inr s'" and "ctx_lib c = L"
    and "outsider (ctx_self c)" and "outsider owner" and "pay_inv s"
  shows "pay_inv s'"
proof (rule claim_effect [OF assms(1-3,5)], goal_cases)
  case (1 p s1 pay)
  have "all_unpaid s' = all_unpaid s - unpaid_blocks p"
    by (simp add: all_unpaid_def 1(14) sum_rows_modify [OF 1(2)])
  moreover have "all_unpaid s1 = all_unpaid s" by (simp add: all_unpaid_def 1(7))
  ultimately show ?case
    using 1(6) assms(4,5) all_rows_modify [of _ "producers s" owner]
    by (simp add: pay_inv_def 1(14) 1(11,12,13,15) moved_def outsider_def)
qed

lemma voterclaim_inv:
  assumes run: "voterclaim c tok owner s = Inr s'" and c: "ctx_lib c = L"
    and self: "outsider (ctx_self c)" and owner: "outsider owner" and inv: "pay_inv s"
  shows "pay_inv s'"
proof -
  obtain reward s1 where collect: "collect_voter_reward c tok owner s = Inr (reward, s1)"
    and send: "send_core c [(voters_account, active_permission), (owner, active_permission)] reward
       (\<lambda>q. Transfer voters_account owner q ''voter pay'') s1 = Inr s'"
    using run by (auto simp: voterclaim_def)
  obtain t where fill: "fill_buckets c tok s = Inr t" using collect by (auto simp: collect_voter_reward_def Let_def)
  have s1: "perblock_bucket (gs s1) = perblock_bucket (gs t)" "voters_bucket (gs s1) = i64 (voters_bucket (gs t) - reward)"
    "total_unpaid_blocks (gs s1) = total_unpaid_blocks (gs t)" "producers s1 = producers t" "outbox s1 = outbox t" "rammarket s1 = rammarket t"
    using collect by (auto simp: collect_voter_reward_def fill Let_def)
  obtain g where g: "pay_inv t" "t = s\<lparr>outbox := outbox t, gs := g\<rparr>"
    by (rule fill_inv [OF fill c self inv]) (rule that)
  obtain core where core: "core_symbol s = Inr core" using fill by (auto simp: fill_buckets_def)
  have "rammarket t = rammarket s" by (subst g(2)) simp
  then have core1: "core_symbol s1 = Inr core" using core s1(6) by (simp add: core_symbol_def)
  obtain x where x: "s' = s1\<lparr>outbox := outbox s1 @ x\<rparr>" "\<And>w. net_flow w x = moved voters_account owner reward w"
    by (rule send_core_flow [OF send c core1, where f = "moved voters_account owner reward"]) (auto simp: that moved_def)
  show ?thesis using g(1) s1 owner by (simp add: pay_inv_def all_unpaid_def x moved_def outsider_def)
qed

end

section \<open>Histories\<close>

datatype pay_action =
    Onblock bytes int name
  | Claimrewards token_state name
  | Claimgbmprod token_state name
  | Voterclaim token_state name
  | Claimgbmvote token_state name
  | Enlist name bytes string int
  | Withdraw name

fun pay_step :: "((name \<times> block_signing_authority) list \<Rightarrow> bool) \<Rightarrow> ctx \<times> pay_action \<Rightarrow> sys \<Rightarrow> sys result" where
  "pay_step accepted (c, Onblock prev t w) s = onblock accepted c prev t w s"
| "pay_step accepted (c, Claimrewards tok w) s = claimrewards c tok w s"
| "pay_step accepted (c, Claimgbmprod tok w) s = claimgbmprod c tok w s"
| "pay_step accepted (c, Voterclaim tok w) s = voterclaim c tok w s"
| "pay_step accepted (c, Claimgbmvote tok w) s = claimgbmvote c tok w s"
| "pay_step accepted (c, Enlist w k u l) s = regproducer c w k u l s"
| "pay_step accepted (c, Withdraw w) s = unregprod c w s"

fun claimant :: "pay_action \<Rightarrow> name option" where
  "claimant (Claimrewards tok w) = Some w"
| "claimant (Claimgbmprod tok w) = Some w"
| "claimant (Voterclaim tok w) = Some w"
| "claimant (Claimgbmvote tok w) = Some w"
| "claimant _ = None"

fun pay_admissible :: "ctx \<times> pay_action \<Rightarrow> bool" where
  "pay_admissible (c, a) \<longleftrightarrow> asset_library (ctx_lib c) \<and> outsider (ctx_self c) \<and>
     (case claimant a of None \<Rightarrow> True | Some w \<Rightarrow> outsider w)"

lemma regproducer_inv:
  assumes "regproducer c w k u l s = Inr s'" and "pay_inv s"
  shows "pay_inv s'"
  using assms
  by (auto simp: regproducer_def register_producer_def Let_def pay_inv_def all_unpaid_def update_total_votepay_share_def
      sum_rows_modify sum_rows_put all_rows_iff split: option.splits if_splits)

lemma unregprod_inv: "unregprod c w s = Inr s' \<Longrightarrow> pay_inv s \<Longrightarrow> pay_inv s'"
  by (auto simp: unregprod_def pay_inv_def all_unpaid_def deactivate_def sum_rows_modify all_rows_iff split: if_splits)

lemma pay_step_inv:
  assumes "pay_admissible a" and "pay_inv s" and "pay_step accepted a s = Inr s'"
  shows "pay_inv s'"
proof -
  obtain c b where a: "a = (c, b)" by (cases a)
  have lib: "asset_library (ctx_lib c)" and self: "outsider (ctx_self c)" using assms(1) by (simp_all add: a)
  note claims = asset_library.claim_inv [OF lib _ refl self] asset_library.voterclaim_inv [OF lib _ refl self]
  show ?thesis
    using assms claims onblock_inv regproducer_inv unregprod_inv
    by (cases b) (auto simp: a claimrewards_def claimgbmprod_def claimgbmvote_def)
qed

interpretation payroll: contract_machine "pay_step accepted" pay_admissible pay_inv for accepted
  by unfold_locales (rule pay_step_inv)

text \<open>Before the first block: nothing in the buckets, nobody produced a block.\<close>

definition unpaid_start :: "sys \<Rightarrow> bool" where
  "unpaid_start s \<longleftrightarrow> perblock_bucket (gs s) = 0 \<and> voters_bucket (gs s) = 0 \<and> total_unpaid_blocks (gs s) = 0 \<and>
     producers s = no_rows \<and> net_flow bpay_account (outbox s) = 0 \<and> net_flow voters_account (outbox s) = 0"

lemma unpaid_start_inv: "unpaid_start s \<Longrightarrow> pay_inv s"
  by (simp add: unpaid_start_def pay_inv_def all_unpaid_def u32_def)

lemma history_pay_inv:
  "list_all pay_admissible as \<Longrightarrow> unpaid_start s0 \<Longrightarrow> pay_inv (run (pay_step accepted) as s0)"
  by (rule payroll.run_inv [OF _ unpaid_start_inv])

section \<open>Bounds of the payments\<close>

text \<open>Not below zero, as far as it is a number.\<close>

fun nonneg :: "f64 \<Rightarrow> bool" where
  "nonneg (Fin x) = (0 \<le> x)"
| "nonneg MInf = False"
| "nonneg _ = True"

lemma nonneg_to_double: "0 \<le> x \<Longrightarrow> nonneg (to_double x)"
  using rnd_nonneg [of x] by (auto simp: to_double_def Let_def rnd_0)

lemma nonneg_of_i64: "0 \<le> n \<Longrightarrow> nonneg (of_i64 n)"
  by (simp add: of_i64_def nonneg_to_double)

lemma nonneg_fmul: "nonneg x \<Longrightarrow> nonneg y \<Longrightarrow> nonneg (fmul x y)"
  by (cases x; cases y) (auto simp: nonneg_to_double signed_inf_def)

lemma nonneg_fdiv: "nonneg x \<Longrightarrow> nonneg y \<Longrightarrow> nonneg (fdiv x y)"
  by (cases x; cases y) (auto simp: nonneg_to_double signed_inf_def)

lemma to_i64_nonneg: "nonneg x \<Longrightarrow> to_i64 x = Inr n \<Longrightarrow> 0 \<le> n"
  by (auto simp: to_i64_Inr trunc_rat_def)

lemma inflation_nonneg: "0 \<le> amount q \<Longrightarrow> 0 \<le> t \<Longrightarrow> inflation q t = Inr d \<Longrightarrow> 0 \<le> d"
  unfolding inflation_def
  by (erule to_i64_nonneg [rotated], intro nonneg_fdiv nonneg_fmul)
     (auto simp: nonneg_of_i64 continuous_rate_def nonneg_to_double useconds_per_year_def seconds_per_year_def)

text \<open>A share of a bucket below \<open>2 ^ 50\<close> stays below it in spite of the rounding.\<close>

lemma share_bound:
  assumes u: "0 \<le> u" "u \<le> t" "t < 2 ^ 32" "0 < t" and b: "0 \<le> b" "b \<le> 2 ^ 50"
    and run: "to_i64 (fdiv (fmul (of_i64 b) (of_i64 u)) (of_i64 t)) = Inr pay"
  shows "0 \<le> pay \<and> pay \<le> b"
proof -
  have eq: "of_i64 b = Fin (of_int b)" "of_i64 u = Fin (of_int u)" "of_i64 t = Fin (of_int t)"
    using u b by (simp_all add: of_i64_exact)
  have nn: "nonneg (fdiv (fmul (of_i64 b) (of_i64 u)) (of_i64 t))"
    using u b by (intro nonneg_fdiv nonneg_fmul nonneg_of_i64) simp_all
  have pos: "0 \<le> pay" by (rule to_i64_nonneg [OF nn run])
  show ?thesis
  proof (cases "b * u = 0")
    case True
    then have "of_int b * of_int u = (0 :: rat)" by (simp only: of_int_mult [symmetric] of_int_0)
    then have "fmul (Fin (of_int b)) (Fin (of_int u)) = Fin 0" by (simp del: of_int_mult mult_eq_0_iff)
    then have "pay = 0" using run u(4) by (simp add: eq in_i64_def del: fmul.simps)
    then show ?thesis using b by simp
  next
    case False
    let ?y = "of_int (b * u) :: rat" let ?e = "1 / 2 ^ 53 :: rat"
    have one: "1 \<le> b * u" using False mult_nonneg_nonneg [OF b(1) u(1)] by linarith
    then have y1: "1 \<le> ?y" by (simp only: of_int_1_le_iff)
    have "b * u \<le> 2 ^ 50 * 2 ^ 32" using u b by (intro mult_mono) auto
    then have "b * u \<le> 2 ^ 82" by simp
    then have y2: "?y \<le> 2 ^ 82" by (metis of_int_le_iff of_int_power of_int_numeral)
    define z where "z = rnd ?y / of_int t"
    have t: "0 < (of_int t :: rat)" "(of_int t :: rat) \<le> 2 ^ 32" using u(3,4) by (simp, metis less_imp_le of_int_le_iff of_int_power of_int_numeral)
    have br: "(of_int b :: rat) \<le> 2 ^ 50" "0 \<le> (of_int b :: rat)"
      using b by (metis of_int_le_iff of_int_power of_int_numeral, simp)
    have r1: "1 \<le> rnd ?y" by (rule le_rnd [OF y1]) (use representable_int [of 1] in simp)
    have r2: "rnd ?y \<le> ?y * (1 + ?e)" by (rule rnd_upper) (use y1 in simp)
    have "1 / 2 ^ 32 \<le> 1 / (of_int t :: rat)" using t by (simp add: field_simps)
    also have "\<dots> \<le> z" unfolding z_def using r1 t by (simp add: divide_right_mono)
    finally have z1: "1 / 2 ^ 32 \<le> z" .
    have z2: "z \<le> of_int b * (1 + ?e)"
    proof -
      have "b * u \<le> b * t" using u b by (simp add: mult_left_mono)
      then have "?y \<le> of_int b * of_int t" by (metis of_int_le_iff of_int_mult)
      then have "?y * (1 + ?e) \<le> of_int b * of_int t * (1 + ?e)" by (rule mult_right_mono) simp
      then have "rnd ?y \<le> of_int b * (1 + ?e) * of_int t" using r2 by (simp add: algebra_simps)
      then show ?thesis unfolding z_def using t by (simp add: pos_divide_le_eq)
    qed
    have z3: "rnd z \<le> z * (1 + ?e)" by (rule rnd_upper) (use z1 in simp)
    have zb: "z \<le> 2 ^ 51" using z2 br by (simp add: field_simps)
    have "to_double ?y = Fin (rnd ?y)" by (rule to_double_Fin) (use y1 y2 in simp)
    moreover have "to_double z = Fin (rnd z)" by (rule to_double_Fin) (use z1 zb in simp)
    ultimately have pay: "pay = trunc_rat (rnd z)" using run t by (simp add: eq z_def split: if_splits)
    have "rnd z \<le> of_int b * (1 + ?e) * (1 + ?e)"
      using z3 mult_right_mono [OF z2, of "1 + ?e"] by simp
    also have "\<dots> = of_int b + of_int b * (2 * ?e + ?e * ?e)" by (simp add: algebra_simps)
    also have "of_int b * (2 * ?e + ?e * ?e) \<le> 2 ^ 50 * (2 * ?e + ?e * ?e)"
      by (rule mult_right_mono) (use br in simp_all)
    also have "2 ^ 50 * (2 * ?e + ?e * ?e) < (1 :: rat)" by simp
    finally have "rnd z < of_int (b + 1)" by simp
    then have "\<lfloor>rnd z\<rfloor> < b + 1" by (simp only: floor_less_iff)
    moreover have "0 \<le> rnd z" by (rule rnd_nonneg) (use z1 in simp)
    ultimately have "pay < b + 1" by (simp add: pay trunc_rat_def)
    then show ?thesis using pos by simp
  qed
qed

end
