(* ===== verification/PayProperties.thy ===== *)
theory PayProperties
  imports PayLemmas
begin

text \<open>
  What the inflation is split into and who is paid from it, as properties of \<open>fill_buckets\<close> and of the
  claims, with one history of a producer who is enlisted, produces a block and claims a day later.
\<close>

section \<open>Properties\<close>

text \<open>
  C35: after every history of blocks, claims and registrations the two buckets on record are what their accounts
  received, net, at the width of the fields, and the total of unpaid blocks is the sum of the producers' own
  counts. Assumed: the toolkit behaves as documented, and neither the contract nor an account that claims is
  \<open>eosio.bpay\<close> or \<open>eosio.voters\<close>.
\<close>

theorem buckets_hold_what_was_received:
  assumes "list_all pay_admissible as" and "unpaid_start s0" and "s = run (pay_step accepted) as s0"
  shows "perblock_bucket (gs s) = i64 (net_flow bpay_account (outbox s)) \<and>
    voters_bucket (gs s) = i64 (net_flow voters_account (outbox s)) \<and>
    total_unpaid_blocks (gs s) = u32 (\<Sum>(k, p) \<leftarrow> rows (producers s). unpaid_blocks p)"
  using history_pay_inv [OF assms(1,2)] by (simp add: assms(3) pay_inv_def all_unpaid_def sum_rows_def)

text \<open>
  C36: when a fill is due, the whole inflation \<open>d\<close> of the time since the last one is distributed: a fifth to
  \<open>eosio.bpay\<close>, two fifths to \<open>eosio.voters\<close> and the rest, with the remainders, to \<open>eosio.saving\<close>. The
  collected fees are taken before anything is issued; fees beyond the inflation are collected too and retired,
  and the contract keeps nothing. The buckets grow by what was sent, and the time of the fill is recorded.
  Assumed of the token contract: a supply that is not negative and a balance of fees within the bounds of an asset.
\<close>

theorem inflation_is_split:
  assumes "asset_library (ctx_lib c)" and "fill_buckets c tok s = Inr s'" and "fill_due c s"
    and "core_symbol s = Inr core"
    and "get_supply tok (sym_code core) = Inr stock" and "0 \<le> amount stock"
    and "get_balance tok fees_account (sym_code core) = Inr fees" and "0 \<le> amount fees" and "amount fees \<le> max_amount"
    and "ctx_self c \<notin> {fees_account, saving_account, voters_account, bpay_account}"
  shows "\<exists>d x. inflation stock (i64 (ctx_now c - last_pervote_bucket_fill (gs s))) = Inr d \<and> 0 \<le> d \<and>
    outbox s' = outbox s @ x \<and>
    net_flow bpay_account x = d div 5 \<and> net_flow voters_account x = 2 * (d div 5) \<and>
    net_flow saving_account x = d - 3 * (d div 5) \<and> net_flow fees_account x = - amount fees \<and>
    net_flow (ctx_self c) x = retired x \<and> retired x = max 0 (amount fees - d) \<and>
    s' = s\<lparr>outbox := outbox s', gs := (gs s)\<lparr>perblock_bucket := i64 (perblock_bucket (gs s) + d div 5),
      voters_bucket := i64 (voters_bucket (gs s) + 2 * (d div 5)), last_pervote_bucket_fill := ctx_now c\<rparr>\<rparr>"
proof (cases rule: asset_library.fill_effect [OF assms(1,2) refl assms(4)])
  case 1
  then show ?thesis using assms(3) by simp
next
  case (2 stock' fees' d x)
  have read: "stock' = stock" "fees' = fees" using assms(5,7) 2(2,3) by simp_all
  have d: "0 \<le> d" "in_i64 d"
    using inflation_nonneg [OF assms(6) _ 2(4) [unfolded read]] 2(1,4)
    by (simp_all add: fill_due_def inflation_def to_i64_Inr) (auto simp: read)
  have fifth: "d sdiv 5 = d div 5" using d(1) by (simp add: sdiv_nonneg)
  have vals: "i64 (d - min d (amount fees)) = d - min d (amount fees)" "i64 (2 * (d div 5)) = 2 * (d div 5)"
      "i64 (3 * (d div 5)) = 3 * (d div 5)" "i64 (d - 3 * (d div 5)) = d - 3 * (d div 5)"
      "i64 (amount fees - min d (amount fees)) = amount fees - min d (amount fees)"
  proof -
    have q: "0 \<le> d div 5" "5 * (d div 5) \<le> d" using d(1) by simp_all
    have b: "d < 2 ^ 63" "amount fees < 2 ^ 63" using d(2) assms(9) by (simp_all add: in_i64_def max_amount_def)
    show "i64 (d - min d (amount fees)) = d - min d (amount fees)" "i64 (2 * (d div 5)) = 2 * (d div 5)"
      "i64 (3 * (d div 5)) = 3 * (d div 5)" "i64 (d - 3 * (d div 5)) = d - 3 * (d div 5)"
      "i64 (amount fees - min d (amount fees)) = amount fees - min d (amount fees)"
      using q b d(1) assms(8) by (auto simp: min_def)
  qed
  have D: "distribution_of d (amount fees) =
      \<lparr>issued = d - min d (amount fees), fees_used = min d (amount fees), to_savings = d - 3 * (d div 5),
       to_voters = 2 * (d div 5), to_block_pay = d div 5, burnt = amount fees - min d (amount fees)\<rparr>"
    using d assms(8) by (simp add: distribution_of_def Let_def fifth vals)
  have dist: "distinct [fees_account, saving_account, voters_account, bpay_account]" by (simp add: account_values)
  have flows: "net_flow bpay_account x = d div 5" "net_flow voters_account x = 2 * (d div 5)"
      "net_flow saving_account x = d - 3 * (d div 5)" "net_flow fees_account x = - amount fees"
      "net_flow (ctx_self c) x = amount fees - min d (amount fees)"
    using assms(10) dist by (auto simp: 2(5) read D distribution_flow_def moved_def)
  have "retired x = amount fees - min d (amount fees)" by (simp add: 2(6) read D)
  then show ?thesis
    using 2(4,7) d(1) flows by (intro exI [of _ d] exI [of _ x]) (simp add: read D)
qed

lemma unpaid_blocks_bounded:
  assumes "pay_inv s" and "find_row (producers s) k = Some p"
  shows "0 \<le> unpaid_blocks p" and "unpaid_blocks p \<le> all_unpaid s"
proof -
  have all: "all_rows (\<lambda>k p. 0 \<le> unpaid_blocks p) (producers s)" using assms(1) by (simp add: pay_inv_def)
  show "0 \<le> unpaid_blocks p" by (rule all_rowsD [OF all assms(2)])
  have "all_rows (\<lambda>k p. 0 \<le> unpaid_blocks p) (erase_row k (producers s))" using all by (simp add: all_rows_iff)
  from sum_rows_nonneg [OF this] show "unpaid_blocks p \<le> all_unpaid s"
    by (simp add: all_unpaid_def sum_rows_erase assms(2))
qed

text \<open>
  C37: a claim pays the producer its share of the bucket for blocks, and pays it once. It was signed by an active
  producer whose last claim is more than a day old. The payment is \<open>block_pay\<close> of the bucket after it was filled,
  at most the bucket itself in spite of the rounding (up to \<open>2^50\<close> units and fewer than \<open>2^32\<close> unpaid blocks),
  it comes from \<open>eosio.bpay\<close>, no other producer's row changes, and another claim within a day fails.
\<close>

theorem claim_pays_the_share:
  assumes "list_all pay_admissible as" and "unpaid_start s0" and "s = run (pay_step accepted) as s0"
    and "pay_admissible (c, Claimrewards tok w)" and "claimrewards c tok w s = Inr s'"
    and "(\<Sum>(k, p) \<leftarrow> rows (producers s). unpaid_blocks p) < 2 ^ 32"
  shows "has_auth c w \<and> (\<exists>p s1 pay. find_row (producers s) w = Some p \<and> is_active p \<and>
    useconds_per_day < i64 (ctx_now c - pi_last_claim_time p) \<and> fill_buckets c tok s = Inr s1 \<and>
    block_pay (gs s1) p = Inr pay \<and> 0 \<le> pay \<and>
    (0 \<le> perblock_bucket (gs s1) \<longrightarrow> perblock_bucket (gs s1) \<le> 2 ^ 50 \<longrightarrow>
       pay \<le> perblock_bucket (gs s1) \<and> perblock_bucket (gs s') = perblock_bucket (gs s1) - pay) \<and>
    (\<forall>a. net_flow a (outbox s') = net_flow a (outbox s1) + moved bpay_account w pay a) \<and>
    find_row (producers s') w = Some (p\<lparr>pi_last_claim_time := ctx_now c, unpaid_blocks := 0\<rparr>) \<and>
    (\<forall>k. k \<noteq> w \<longrightarrow> find_row (producers s') k = find_row (producers s) k) \<and>
    (\<forall>c' tok'. 0 \<le> ctx_now c' - ctx_now c \<longrightarrow> ctx_now c' - ctx_now c \<le> useconds_per_day \<longrightarrow>
       \<not> is_ok (claimrewards c' tok' w s')))"
proof -
  have inv: "pay_inv s" using history_pay_inv [OF assms(1,2)] by (simp add: assms(3))
  have lib: "asset_library (ctx_lib c)" and self: "outsider (ctx_self c)" using assms(4) by simp_all
  have few: "all_unpaid s < 2 ^ 32" using assms(6) by (simp add: all_unpaid_def sum_rows_def)
  show ?thesis
  proof (rule asset_library.claim_effect [OF lib assms(5) [unfolded claimrewards_def] refl self inv], goal_cases)
    case (1 p s1 pay)
    note u = unpaid_blocks_bounded [OF inv 1(2)]
    have t: "total_unpaid_blocks (gs s1) = all_unpaid s"
      using inv few u by (simp add: 1(8) pay_inv_def u32_def)
    have bound: "pay \<le> perblock_bucket (gs s1) \<and> perblock_bucket (gs s') = perblock_bucket (gs s1) - pay"
      if b: "0 \<le> perblock_bucket (gs s1)" "perblock_bucket (gs s1) \<le> 2 ^ 50"
    proof -
      have "pay \<le> perblock_bucket (gs s1)"
      proof (cases "0 < all_unpaid s")
        case True
        then have "to_i64 (fdiv (fmul (of_i64 (perblock_bucket (gs s1))) (of_i64 (unpaid_blocks p))) (of_i64 (all_unpaid s))) = Inr pay"
          using 1(9) by (auto simp: block_pay_def t split: if_splits)
        from share_bound [OF u few True b this] show ?thesis by simp
      next
        case False
        then have "pay = 0" using 1(9) by (simp add: block_pay_def t)
        then show ?thesis using b by simp
      qed
      moreover from this have "perblock_bucket (gs s') = perblock_bucket (gs s1) - pay"
        unfolding 1(11) using 1(10) b by (intro i64_id) simp_all
      ultimately show ?thesis by simp
    qed
    have row: "find_row (producers s') k = (if k = w then Some (p\<lparr>pi_last_claim_time := ctx_now c, unpaid_blocks := 0\<rparr>)
        else find_row (producers s) k)" for k
      using 1(2) by (simp add: 1(14))
    have again: "\<not> is_ok (claimrewards c' tok' w s')"
      if "0 \<le> ctx_now c' - ctx_now c" "ctx_now c' - ctx_now c \<le> useconds_per_day" for c' tok'
    proof -
      have "i64 (ctx_now c' - ctx_now c) = ctx_now c' - ctx_now c"
        using that by (intro i64_id) (simp_all add: useconds_per_day_def seconds_per_day_def)
      then show ?thesis using that
        by (auto simp: is_ok_iff claimrewards_def claim_producer_rewards_def row)
    qed
    show ?case
    proof (rule conjI [OF 1(1)], rule exI [of _ p], rule exI [of _ s1], rule exI [of _ pay], intro conjI)
      show "0 \<le> perblock_bucket (gs s1) \<longrightarrow> perblock_bucket (gs s1) \<le> 2 ^ 50 \<longrightarrow>
          pay \<le> perblock_bucket (gs s1) \<and> perblock_bucket (gs s') = perblock_bucket (gs s1) - pay"
        using bound by blast
      show "\<forall>c' tok'. 0 \<le> ctx_now c' - ctx_now c \<longrightarrow> ctx_now c' - ctx_now c \<le> useconds_per_day \<longrightarrow>
          \<not> is_ok (claimrewards c' tok' w s')"
        using again by blast
      show "find_row (producers s) w = Some p" by (rule 1(2))
      show "is_active p" by (rule 1(3))
      show "useconds_per_day < i64 (ctx_now c - pi_last_claim_time p)" by (rule 1(4))
      show "fill_buckets c tok s = Inr s1" by (rule 1(5))
      show "block_pay (gs s1) p = Inr pay" by (rule 1(9))
      show "0 \<le> pay" by (rule 1(10))
      show "\<forall>a. net_flow a (outbox s') = net_flow a (outbox s1) + moved bpay_account w pay a" using 1(15) by blast
      show "find_row (producers s') w = Some (p\<lparr>pi_last_claim_time := ctx_now c, unpaid_blocks := 0\<rparr>)"
        by (subst row) simp
      show "\<forall>k. k \<noteq> w \<longrightarrow> find_row (producers s') k = find_row (producers s) k" by (simp add: row)
    qed
  qed
qed

section \<open>Witnesses\<close>

text \<open>
  Account 1 enlists as a producer, a block starts the presses and counts for it, and a day later it claims. The
  supply is \<open>10 ^ 12\<close> units, and the account of the fees holds 1000.
\<close>

definition pay_ctx :: "name \<Rightarrow> int \<Rightarrow> ctx" where
  "pay_ctx w t = (sample_ctx 9 [w])\<lparr>ctx_now := t\<rparr>"

definition pay_start :: sys where
  "pay_start = sample_sys\<lparr>gs := default_gstate\<lparr>thresh_activated_stake_time := 1\<rparr>\<rparr>"

definition sample_tok :: token_state where
  "sample_tok = \<lparr>
     stats = put (sym_code wax, sym_code wax) 9
       \<lparr>st_supply = wax_asset 1000000000000, st_max_supply = wax_asset 4000000000000, st_issuer = 9\<rparr> no_rows,
     accounts = put (fees_account, sym_code wax) 9 \<lparr>acc_balance = wax_asset 1000\<rparr> no_rows, notified = []\<rparr>"

definition sample_pay :: "(ctx \<times> pay_action) list" where
  "sample_pay = [(pay_ctx 1 0, Enlist 1 [] [] 0), (pay_ctx 9 1, Onblock [0, 0, 0, 4] 10 1)]"

lemma pay_ctx_simps [simp]:
  "ctx_lib (pay_ctx w t) = std_cdt" "ctx_self (pay_ctx w t) = 9" "ctx_now (pay_ctx w t) = t"
  "has_auth (pay_ctx w t) v \<longleftrightarrow> v = w"
  by (auto simp: pay_ctx_def sample_ctx_def has_auth_def)

lemma rate_eval: "continuous_rate = Fin (439461251638813 / 9007199254740992)"
proof -
  have "to_double (4879 / 100000) = Fin (of_int (439461251638813 * 16) * 2 powi (- 5 - 52))"
    by (rule to_double_eval) (simp_all add: power_int_def power_divide)
  then show ?thesis by (simp add: continuous_rate_def power_int_def power_divide)
qed

lemma inflation_eval: "inflation (wax_asset 1000000000000) 86400000001 = Inr 134038461"
proof -
  have one: "to_double (107290344638382080078125 / 2199023255552) = Fin (of_int (48790000000 * 2 ^ 17) * 2 powi (35 - 52))"
    by (rule to_double_eval) (simp_all add: power_int_def power_divide)
  have two: "to_double 4215456000048790000000 = Fin (of_int (4215456000048790241280 div 2 ^ 19) * 2 powi (71 - 52))"
    by (rule to_double_eval) (simp_all add: power_int_def power_divide)
  have three: "to_double (2858789062533088 / 21328125) = Fin (of_int 8995168886257957 * 2 powi (26 - 52))"
    by (rule to_double_eval) (simp_all add: power_int_def power_divide)
  show ?thesis
    using one two three by (simp add: inflation_def rate_eval wax_asset_def useconds_per_year_def seconds_per_year_def of_i64_exact
      power_int_def power_divide to_i64_Inr trunc_rat_def floor_eq_iff in_i64_def)
qed

lemma pay_start_unpaid: "unpaid_start pay_start"
  by (simp add: unpaid_start_def pay_start_def sample_sys_def empty_sys_def default_gstate_def)

lemma sample_pay_admissible: "list_all pay_admissible sample_pay" "pay_admissible (pay_ctx 1 t, Claimrewards tok 1)"
  by (simp_all add: sample_pay_def outsider_def account_values std_library.asset_library_axioms)

lemma sample_block:
  obtains s p where "run (pay_step f) sample_pay pay_start = s"
    and "find_row (producers s) 1 = Some p" and "unpaid_blocks p = 1" and "pi_last_claim_time p = 0" and "is_active p"
    and "rows (producers s) = [(1, p)]"
    and "core_symbol s = Inr wax" and "outbox s = []"
    and "perblock_bucket (gs s) = 0" and "voters_bucket (gs s) = 0" and "last_pervote_bucket_fill (gs s) = 1"
    and "total_unpaid_blocks (gs s) = 1" and "thresh_activated_stake_time (gs s) = 1"
proof -
  let ?auth = "convert_to_block_signing_authority []"
  let ?p = "\<lparr>pi_owner = 1, total_votes = Fin 0, producer_key = legacy_key ?auth, is_active = True,
       pi_url = [], unpaid_blocks = 0, pi_last_claim_time = 0, pi_location = 0, producer_authority = Some ?auth\<rparr>"
  let ?s1 = "pay_start\<lparr>producers := put 1 1 ?p no_rows,
     producers2 := put 1 1 \<lparr>p2_owner = 1, votepay_share = Fin 0, last_votepay_share_update = 0\<rparr> no_rows\<rparr>"
  have one: "pay_step f (pay_ctx 1 0, Enlist 1 [] [] 0) pay_start = Inr ?s1"
    by (simp add: regproducer_def register_producer_def require_auth_def pay_start_def sample_sys_def empty_sys_def)
  obtain infos where infos: "add_to_blockinfo_table (pay_ctx 9 1) [0, 0, 0, 4] 10 no_rows = Inr infos"
  proof -
    have "is_ok (add_to_blockinfo_table (pay_ctx 9 1) [0, 0, 0, 4] 10 no_rows)"
      by (simp add: add_to_blockinfo_table_def Let_def emplace_row_def rolling_window_size_def)
    then show ?thesis using that by (auto simp: is_ok_iff)
  qed
  let ?g = "default_gstate\<lparr>thresh_activated_stake_time := 1, last_pervote_bucket_fill := 1, total_unpaid_blocks := 1\<rparr>"
  let ?s2 = "?s1\<lparr>blockinfo := infos, gs2 := (gs2 ?s1)\<lparr>last_block_num := 10\<rparr>, gs := ?g,
     producers := modify_row same_payer 1 (?p\<lparr>unpaid_blocks := 1\<rparr>) (put 1 1 ?p no_rows)\<rparr>"
  have two: "pay_step f (pay_ctx 9 1, Onblock [0, 0, 0, 4] 10 1) ?s1 = Inr ?s2"
    using infos by (simp add: onblock_def require_auth_def count_block_def pay_start_def sample_sys_def empty_sys_def
        default_gstate_def u32_def Let_def)
  have run: "run (pay_step f) sample_pay pay_start = ?s2" by (simp add: sample_pay_def one two del: pay_step.simps)
  show ?thesis
    by (rule that [OF run, where p = "?p\<lparr>unpaid_blocks := 1\<rparr>"])
      (simp_all add: pay_start_def sample_sys_def empty_sys_def default_gstate_def core_symbol_def sample_market_def wax_asset_def
        modify_row_def)
qed
lemma sample_fill:
  assumes "core_symbol s = Inr wax" and "perblock_bucket (gs s) = 0" and "last_pervote_bucket_fill (gs s) = 1"
  obtains s1 where "fill_buckets (pay_ctx 1 86400000002) sample_tok s = Inr s1"
    and "perblock_bucket (gs s1) = 26807692" and "fill_due (pay_ctx 1 86400000002) s"
    and "total_unpaid_blocks (gs s1) = total_unpaid_blocks (gs s)" and "producers s1 = producers s"
    and "producers2 s1 = producers2 s" and "core_symbol s1 = Inr wax"
proof -
  have read: "get_supply sample_tok (sym_code wax) = Inr (wax_asset 1000000000000)"
    "get_balance sample_tok fees_account (sym_code wax) = Inr (wax_asset 1000)"
    by (simp_all add: get_supply_def get_balance_def sample_tok_def)
  have send: "send_if b (pay_ctx 1 t) au n f x = Inr (if b then send_token au (f (wax_asset n)) x else x)"
      "send_core (pay_ctx 1 t) au n f x = Inr (send_token au (f (wax_asset n)) x)"
    if "core_symbol x = Inr wax" "\<bar>n\<bar> \<le> max_amount" for b t au n f x
    using that by (simp_all add: send_if_def send_core_def core_asset_def std_cdt_simps)
  have core: "core_symbol (send_token au a x) = core_symbol x" "gs (send_token au a x) = gs x"
      "producers (send_token au a x) = producers x" "producers2 (send_token au a x) = producers2 x" for au a x
    by (simp_all add: send_token_def core_symbol_def)
  have gs: "core_symbol (x\<lparr>gs := g\<rparr>) = core_symbol x" for x g by (simp add: core_symbol_def)
  have amount: "amount (wax_asset n) = n" for n by (simp add: wax_asset_def)
  have "is_ok (fill_buckets (pay_ctx 1 86400000002) sample_tok s)"
    by (simp add: fill_buckets_def assms read inflation_eval send core gs max_amount_def sdiv_nonneg amount Let_def)
  then obtain s1 where run: "fill_buckets (pay_ctx 1 86400000002) sample_tok s = Inr s1" by (auto simp: is_ok_iff)
  have due: "fill_due (pay_ctx 1 86400000002) s" by (simp add: fill_due_def assms)
  have lib: "asset_library std_cdt" by (rule std_library.asset_library_axioms)
  show ?thesis
  proof (cases rule: asset_library.fill_effect [OF lib run pay_ctx_simps(1) assms(1)])
    case 1
    then show ?thesis using due by simp
  next
    case (2 stock fees d x)
    have vals: "stock = wax_asset 1000000000000" "fees = wax_asset 1000" using 2(2,3) by (simp_all add: read)
    have d: "d = 134038461" using 2(4) by (simp add: vals inflation_eval assms(3))
    show ?thesis
      by (rule that [OF run _ due])
        (use assms(1,2) in \<open>simp_all add: 2(7) distribution_of_def Let_def vals d amount sdiv_nonneg core_symbol_def\<close>)
  qed
qed

theorem buckets_hold_what_was_received_witness:
  "total_unpaid_blocks (gs (run (pay_step (\<lambda>_. True)) sample_pay pay_start)) = 1"
proof (rule sample_block [of "\<lambda>_. True"])
  fix s p
  assume s: "run (pay_step (\<lambda>_. True)) sample_pay pay_start = s" "rows (producers s) = [(1, p)]" "unpaid_blocks p = 1"
  show ?thesis
    using buckets_hold_what_was_received [OF sample_pay_admissible(1) pay_start_unpaid refl, where accepted = "\<lambda>_. True"]
    unfolding s(1) by (simp add: s(2,3) u32_def)
qed

theorem inflation_is_split_witness:
  "\<exists>s1. fill_buckets (pay_ctx 1 86400000002) sample_tok (run (pay_step (\<lambda>_. True)) sample_pay pay_start) = Inr s1 \<and>
     net_flow bpay_account (outbox s1) = 26807692 \<and> net_flow voters_account (outbox s1) = 53615384 \<and>
     net_flow saving_account (outbox s1) = 53615385 \<and> net_flow fees_account (outbox s1) = - 1000"
proof (rule sample_block [of "\<lambda>_. True"])
  fix s
  assume s: "run (pay_step (\<lambda>_. True)) sample_pay pay_start = s" "core_symbol s = Inr wax" "outbox s = []"
    "perblock_bucket (gs s) = 0" "last_pervote_bucket_fill (gs s) = 1"
  obtain s1 where run: "fill_buckets (pay_ctx 1 86400000002) sample_tok s = Inr s1"
    and due: "fill_due (pay_ctx 1 86400000002) s"
    by (rule sample_fill [OF s(2,4,5)]) (rule that)
  have lib: "asset_library (ctx_lib (pay_ctx 1 86400000002))" by (simp add: std_library.asset_library_axioms)
  have read: "get_supply sample_tok (sym_code wax) = Inr (wax_asset 1000000000000)"
    "get_balance sample_tok fees_account (sym_code wax) = Inr (wax_asset 1000)"
    by (simp_all add: get_supply_def get_balance_def sample_tok_def)
  have small: "0 \<le> amount (wax_asset 1000000000000)" "0 \<le> amount (wax_asset 1000)" "amount (wax_asset 1000) \<le> max_amount"
    "ctx_self (pay_ctx 1 86400000002) \<notin> {fees_account, saving_account, voters_account, bpay_account}"
    by (simp_all add: wax_asset_def max_amount_def account_values)
  obtain d x where "inflation (wax_asset 1000000000000) 86400000001 = Inr d" "outbox s1 = outbox s @ x"
    and flows: "net_flow bpay_account x = d div 5" "net_flow voters_account x = 2 * (d div 5)"
      "net_flow saving_account x = d - 3 * (d div 5)" "net_flow fees_account x = - amount (wax_asset 1000)"
    using inflation_is_split [OF lib run due s(2) read(1) small(1) read(2) small(2,3,4)]
    by (elim exE conjE) (rule that, simp_all add: s(5))
  from this(1) have "d = 134038461" by (simp only: inflation_eval sum.inject)
  then show ?thesis using run \<open>outbox s1 = outbox s @ x\<close> flows by (intro exI [of _ s1]) (simp add: s wax_asset_def)
qed

theorem claim_pays_the_share_witness:
  "\<exists>s'. claimrewards (pay_ctx 1 86400000002) sample_tok 1 (run (pay_step (\<lambda>_. True)) sample_pay pay_start) = Inr s' \<and>
     (\<exists>p. find_row (producers s') 1 = Some p \<and> unpaid_blocks p = 0) \<and>
     \<not> is_ok (claimrewards (pay_ctx 1 86400000003) sample_tok 1 s')"
proof (rule sample_block [of "\<lambda>_. True"])
  fix s p
  assume s: "run (pay_step (\<lambda>_. True)) sample_pay pay_start = s" "find_row (producers s) 1 = Some p" "unpaid_blocks p = 1"
    "pi_last_claim_time p = 0" "is_active p" "rows (producers s) = [(1, p)]" "core_symbol s = Inr wax"
    "perblock_bucket (gs s) = 0" "last_pervote_bucket_fill (gs s) = 1" "total_unpaid_blocks (gs s) = 1"
    "thresh_activated_stake_time (gs s) = 1"
  let ?c = "pay_ctx 1 86400000002"
  obtain s1 where fill: "fill_buckets ?c sample_tok s = Inr s1" "perblock_bucket (gs s1) = 26807692"
      "total_unpaid_blocks (gs s1) = total_unpaid_blocks (gs s)" "producers s1 = producers s" "producers2 s1 = producers2 s"
      "core_symbol s1 = Inr wax"
    by (rule sample_fill [OF s(7-9)]) (rule that)
  obtain p2 s2 where row: "producer2_row ?c 1 s1 = (p2, s2)" by (cases "producer2_row ?c 1 s1")
  have s2: "gs s2 = gs s1" "core_symbol s2 = Inr wax"
    using row fill(6) by (auto simp: producer2_row_def core_symbol_def Let_def split: option.splits)
  have "block_pay (gs s2) p = Inr 26807692"
    by (simp add: block_pay_def s2 fill s(3,10) of_i64_exact in_i64_def to_double_int [of 26807692, simplified])
  moreover have "is_ok (send_if True ?c au 26807692 f x)" if "core_symbol x = Inr wax" for au f x
    using that by (simp add: send_if_def send_core_def core_asset_def std_cdt_simps max_amount_def)
  moreover have "core_symbol (record_claim ?c 1 p p2 b q s2) = Inr wax" for b q
    using s2(2) by (simp add: record_claim_def core_symbol_def Let_def update_producer_votepay_share_def update_total_votepay_share_def)
  ultimately have "is_ok (claimrewards ?c sample_tok 1 s)"
    by (simp add: claimrewards_def claim_producer_rewards_def require_auth_def s fill pay_producer_def row Let_def
        useconds_per_day_def seconds_per_day_def)
  then obtain s' where run: "claimrewards ?c sample_tok 1 s = Inr s'" by (auto simp: is_ok_iff)
  have few: "(\<Sum>(k, p) \<leftarrow> rows (producers s). unpaid_blocks p) < 2 ^ 32" by (simp add: s)
  note effect = claim_pays_the_share [OF sample_pay_admissible(1) pay_start_unpaid s(1) [symmetric] sample_pay_admissible(2) run few]
  have "\<exists>p. find_row (producers s') 1 = Some p \<and> unpaid_blocks p = 0"
    using effect by auto
  moreover have "\<not> is_ok (claimrewards (pay_ctx 1 86400000003) sample_tok 1 s')"
    using effect by (elim conjE exE) (simp add: useconds_per_day_def seconds_per_day_def)
  ultimately show ?thesis using run by (simp add: s(1))
qed

end
