(* ===== verification/Powerup.thy ===== *)
theory Powerup
  imports Bandwidth
begin

text \<open>
  The market of network and CPU resources (\<open>powerup.cpp\<close>): its configuration, the price of a share of a
  resource, the sale of one for a number of days, and the queue of the orders that expire. Times are seconds
  since the epoch, weights 64-bit numbers; products that the code computes in 128 bits cannot overflow there,
  and a division by zero is undefined.
\<close>

section \<open>The configuration\<close>

text \<open>A message with an apostrophe.\<close>

definition apostrophe :: "string \<Rightarrow> string \<Rightarrow> string" where
  "apostrophe a b = a @ CHR 0x27 # b"

record powerup_config_resource =
  cfg_current_weight_ratio :: "int option"
  cfg_target_weight_ratio :: "int option"
  cfg_assumed_stake_weight :: "int option"
  cfg_target_timestamp :: "int option"
  cfg_exponent :: "f64 option"
  cfg_decay_secs :: "int option"
  cfg_min_price :: "asset option"
  cfg_max_price :: "asset option"

record powerup_config =
  cfg_net :: powerup_config_resource
  cfg_cpu :: powerup_config_resource
  cfg_powerup_days :: "int option"
  cfg_min_powerup_fee :: "asset option"

text \<open>\<open>asset{}\<close>, and the states as the code starts them.\<close>

definition default_asset :: asset where
  "default_asset = \<lparr>amount = 0, asset_symbol = Symbol 0 0\<rparr>"

definition is_default_asset :: "asset \<Rightarrow> bool" where
  "is_default_asset a \<longleftrightarrow> amount a = 0 \<and> asset_symbol a = Symbol 0 0"

definition default_resource :: powerup_state_resource where
  "default_resource = \<lparr>weight = 0, weight_ratio = 0, assumed_stake_weight = 0, initial_weight_ratio = powerup_frac,
     target_weight_ratio = powerup_frac div 100, initial_timestamp = 0, target_timestamp = 0, pw_exponent = Fin 2,
     decay_secs = seconds_per_day, min_price = default_asset, max_price = default_asset, utilization = 0,
     adjusted_utilization = 0, utilization_timestamp = 0\<rparr>"

definition default_powerup_state :: powerup_state where
  "default_powerup_state = \<lparr>ps_net = default_resource, ps_cpu = default_resource, powerup_days = 30,
     min_powerup_fee = default_asset\<rparr>"

section \<open>Weights and utilization over time\<close>

abbreviation division_by_zero :: error where "division_by_zero \<equiv> Undefined ''division by zero''"

text \<open>The ratio shrinks linearly from its initial to its target value.\<close>

definition ratio_at :: "int \<Rightarrow> powerup_state_resource \<Rightarrow> int result" where
  "ratio_at now res =
     (if now \<ge> target_timestamp res then Inr (target_weight_ratio res)
      else
        let span = u32 (target_timestamp res - initial_timestamp res) in
        if span = 0 then Inl division_by_zero
        else Inr (i64 (initial_weight_ratio res +
          (i64 (target_weight_ratio res - initial_weight_ratio res) * u32 (now - initial_timestamp res)) sdiv span)))"

definition update_weight :: "int \<Rightarrow> powerup_state_resource \<Rightarrow> int \<Rightarrow> (powerup_state_resource \<times> int) result" where
  "update_weight now res delta_available =
     bind_result (ratio_at now res) (\<lambda>ratio.
     if ratio = 0 then Inl division_by_zero
     else
       let new_weight = i64 ((assumed_stake_weight res * powerup_frac) sdiv ratio - assumed_stake_weight res) in
       Inr (res\<lparr>weight_ratio := ratio, weight := new_weight\<rparr>, i64 (delta_available + i64 (new_weight - weight res))))"

definition clamp :: "int \<Rightarrow> int \<Rightarrow> int \<Rightarrow> int" where
  "clamp v lo hi = (if v < lo then lo else if hi < v then hi else v)"

definition update_utilization :: "ctx \<Rightarrow> int \<Rightarrow> powerup_state_resource \<Rightarrow> powerup_state_resource result" where
  "update_utilization c now res =
     (if now \<le> utilization_timestamp res then Inr res
      else
        bind_result
          (if utilization res \<ge> adjusted_utilization res then Inr (utilization res)
           else
             let diff = i64 (adjusted_utilization res - utilization res);
                 decay = math_exp (ctx_math c) (fdiv (fneg (of_i64 (u32 (now - utilization_timestamp res))))
                                                     (of_i64 (decay_secs res))) in
             bind_result (to_i64 (fmul (of_i64 diff) decay)) (\<lambda>delta.
             Inr (i64 (utilization res + clamp delta 0 diff))))
          (\<lambda>adjusted. Inr (res\<lparr>adjusted_utilization := adjusted, utilization_timestamp := now\<rparr>)))"

section \<open>Resources of accounts\<close>

text \<open>
  The weights change in place, without the toolkit's checks; a new row is built from assets, which are checked.
\<close>

definition adjust_resources :: "ctx \<Rightarrow> name \<Rightarrow> name \<Rightarrow> symbol \<Rightarrow> int \<Rightarrow> int \<Rightarrow> bool \<Rightarrow> sys \<Rightarrow> sys result" where
  "adjust_resources c payer account core net_change cpu_change must_not_be_managed s =
     (if net_change = 0 \<and> cpu_change = 0 then Inr s
      else
        bind_result
          (case find_row (userres s) account of
             None \<Rightarrow>
               some_or (mk_asset (ctx_lib c) net_change core) overflow (\<lambda>net.
               some_or (mk_asset (ctx_lib c) cpu_change core) overflow (\<lambda>cpu.
               Inr \<lparr>ur_owner = account, ur_net_weight = net, ur_cpu_weight = cpu, ur_ram_bytes = 0\<rparr>))
           | Some tot \<Rightarrow>
               Inr (tot\<lparr>ur_net_weight := (ur_net_weight tot)\<lparr>amount := i64 (amount (ur_net_weight tot) + net_change)\<rparr>,
                        ur_cpu_weight := (ur_cpu_weight tot)\<lparr>amount := i64 (amount (ur_cpu_weight tot) + cpu_change)\<rparr>\<rparr>))
          (\<lambda>row.
        check (0 \<le> amount (ur_net_weight row)) ''insufficient staked total net bandwidth'' (
        check (0 \<le> amount (ur_cpu_weight row)) ''insufficient staked total cpu bandwidth'' (
        check (\<not> must_not_be_managed \<or> (\<not> managed s account net_managed \<and> \<not> managed s account cpu_managed))
          (apostrophe ''something is managed which shouldn'' ''t be'') (
        Inr ((apply_limits account row s)\<lparr>userres :=
          keep_row payer same_payer (ur_is_empty row) account row (userres s)\<rparr>))))))"

section \<open>The queue of orders\<close>

text \<open>The index \<open>byexpires\<close>: by the time of expiry, then by id.\<close>

definition by_expires :: "(int, powerup_order) table \<Rightarrow> (int \<times> powerup_order) list" where
  "by_expires t = sort_key (\<lambda>(i, order). po_expires order) (rows t)"

fun expire_orders :: "nat \<Rightarrow> ctx \<Rightarrow> int \<Rightarrow> symbol \<Rightarrow> int \<times> int \<times> sys \<Rightarrow> (int \<times> int \<times> sys) result" where
  "expire_orders 0 c now core acc = Inr acc"
| "expire_orders (Suc n) c now core (net, cpu, s) =
     (case by_expires (powerup_orders s) of
        [] \<Rightarrow> Inr (net, cpu, s)
      | (i, it) # _ \<Rightarrow>
          if po_expires it > now then Inr (net, cpu, s)
          else
            bind_result (adjust_resources c (ctx_self c) (po_owner it) core
                (i64 (- po_net_weight it)) (i64 (- po_cpu_weight it)) False s) (\<lambda>s1.
            expire_orders n c now core (i64 (net + po_net_weight it), i64 (cpu + po_cpu_weight it),
              s1\<lparr>powerup_orders := erase_row i (powerup_orders s1)\<rparr>)))"

definition process_powerup_queue ::
    "ctx \<Rightarrow> int \<Rightarrow> symbol \<Rightarrow> powerup_state \<Rightarrow> nat \<Rightarrow> int \<Rightarrow> int \<Rightarrow> sys \<Rightarrow> (powerup_state \<times> int \<times> int \<times> sys) result" where
  "process_powerup_queue c now core state max_items net_delta_available cpu_delta_available s =
     bind_result (update_utilization c now (ps_net state)) (\<lambda>net.
     bind_result (update_utilization c now (ps_cpu state)) (\<lambda>cpu.
     bind_result (expire_orders max_items c now core (net_delta_available, cpu_delta_available, s)) (\<lambda>(net_change, cpu_change, s1).
     bind_result (update_weight now (net\<lparr>utilization := i64 (utilization net - net_change)\<rparr>) net_change) (\<lambda>(net1, net_available).
     bind_result (update_weight now (cpu\<lparr>utilization := i64 (utilization cpu - cpu_change)\<rparr>) cpu_change) (\<lambda>(cpu1, cpu_available).
     Inr (state\<lparr>ps_net := net1, ps_cpu := cpu1\<rparr>, net_available, cpu_available, s1))))))"

section \<open>The configuration action\<close>

text \<open>
  A setting that is not given keeps its value or takes its default. The code writes such a value through the
  empty optional and reads it back from there.
\<close>

definition given_or :: "'a option \<Rightarrow> 'a result \<Rightarrow> 'a result" where
  "given_or x r = (case x of Some v \<Rightarrow> Inr v | None \<Rightarrow> r)"

definition configure ::
    "int \<Rightarrow> symbol \<Rightarrow> powerup_state_resource \<Rightarrow> powerup_config_resource \<Rightarrow> powerup_state_resource result" where
  "configure now core state args =
     bind_result (given_or (cfg_current_weight_ratio args)
       (Inr (if weight_ratio state \<noteq> 0 then weight_ratio state else initial_weight_ratio state))) (\<lambda>current.
     bind_result (given_or (cfg_target_weight_ratio args) (Inr (target_weight_ratio state))) (\<lambda>target.
     bind_result (given_or (cfg_assumed_stake_weight args)
       (check (assumed_stake_weight state \<noteq> 0) ''assumed_stake_weight does not have a default value''
         (Inr (assumed_stake_weight state)))) (\<lambda>assumed.
     bind_result (if current = target then Inr now
       else
         bind_result (given_or (cfg_target_timestamp args)
           (check (target_timestamp state \<noteq> 0) ''target_timestamp does not have a default value''
             (Inr (target_timestamp state)))) (\<lambda>t.
         check (t > now) ''target_timestamp must be in the future'' (Inr t))) (\<lambda>until.
     bind_result (given_or (cfg_exponent args) (Inr (pw_exponent state))) (\<lambda>ex.
     bind_result (given_or (cfg_decay_secs args) (Inr (decay_secs state))) (\<lambda>decay.
     bind_result (given_or (cfg_max_price args)
       (check (\<not> is_default_asset (max_price state)) ''max_price does not have a default value''
         (Inr (max_price state)))) (\<lambda>maxp.
     bind_result (given_or (cfg_min_price args)
       (Inr (if is_default_asset (min_price state) then maxp\<lparr>amount := 0\<rparr> else min_price state))) (\<lambda>minp.
     check (current > 0) ''current_weight_ratio is too small'' (
     check (current \<le> powerup_frac) ''current_weight_ratio is too large'' (
     check (target > 0) ''target_weight_ratio is too small'' (
     check (target \<le> current) (apostrophe ''weight can'' ''t grow over time'') (
     check (assumed \<ge> 1) ''assumed_stake_weight must be at least 1; a much larger value is recommended'' (
     check ((assumed * powerup_frac) sdiv target \<le> 2 ^ 63 - 1) ''assumed_stake_weight/target_weight_ratio is too large'' (
     check (fle (Fin 1) ex) ''exponent must be >= 1'' (
     check (decay \<ge> 1) ''decay_secs must be >= 1'' (
     check (asset_symbol maxp = core) (apostrophe ''max_price doesn'' ''t match core symbol'') (
     check (amount maxp > 0) ''max_price must be positive'' (
     check (asset_symbol minp = core) (apostrophe ''min_price doesn'' ''t match core symbol'') (
     check (amount minp \<ge> 0) ''min_price must be non-negative'' (
     check (amount minp \<le> amount maxp) ''min_price cannot exceed max_price'' (
     check (\<not> feq ex (Fin 1) \<or> amount minp = amount maxp)
       ''min_price and max_price must be the same if the exponent is 1'' (
     Inr (state\<lparr>assumed_stake_weight := assumed, initial_weight_ratio := current, target_weight_ratio := target,
       initial_timestamp := now, target_timestamp := until, pw_exponent := ex, decay_secs := decay,
       min_price := minp, max_price := maxp\<rparr>)))))))))))))))))))))))"

text \<open>What the action does first: an existing state is brought up to date, a new one starts at its defaults.\<close>

definition current_powerup_state :: "ctx \<Rightarrow> int \<Rightarrow> powerup_state option \<Rightarrow> (powerup_state \<times> int \<times> int) result" where
  "current_powerup_state c now st =
     (case st of
        Some state \<Rightarrow>
          bind_result (update_utilization c now (ps_net state)) (\<lambda>net.
          bind_result (update_utilization c now (ps_cpu state)) (\<lambda>cpu.
          bind_result (update_weight now net 0) (\<lambda>(net1, net_change).
          bind_result (update_weight now cpu 0) (\<lambda>(cpu1, cpu_change).
          Inr (state\<lparr>ps_net := net1, ps_cpu := cpu1\<rparr>, net_change, cpu_change)))))
      | None \<Rightarrow>
          let fresh = default_resource\<lparr>utilization_timestamp := now\<rparr> in
          Inr (default_powerup_state\<lparr>ps_net := fresh, ps_cpu := fresh\<rparr>, 0, 0))"

definition cfgpowerup :: "ctx \<Rightarrow> powerup_config \<Rightarrow> sys \<Rightarrow> sys result" where
  "cfgpowerup c args s =
     require_auth c (ctx_self c) (
     let now = seconds_of (ctx_now c) in
     bind_result (core_symbol s) (\<lambda>core.
     check (ctx_is_account c reserve_account) ''eosio.reserv account must first be created'' (
     bind_result (current_powerup_state c now (powerup_st s)) (\<lambda>(state, net_change, cpu_change).
     bind_result (given_or (cfg_powerup_days args) (Inr (powerup_days state))) (\<lambda>days.
     bind_result (given_or (cfg_min_powerup_fee args)
       (check (\<not> is_default_asset (min_powerup_fee state)) ''min_powerup_fee does not have a default value''
         (Inr (min_powerup_fee state)))) (\<lambda>fee.
     check (days > 0) ''powerup_days must be > 0'' (
     check (asset_symbol fee = core) (apostrophe ''min_powerup_fee doesn'' ''t match core symbol'') (
     check (amount fee > 0) ''min_powerup_fee must be positive'' (
     bind_result (configure now core (ps_net state) (cfg_net args)) (\<lambda>net.
     bind_result (configure now core (ps_cpu state) (cfg_cpu args)) (\<lambda>cpu.
     bind_result (update_weight now net net_change) (\<lambda>(net1, net_available).
     bind_result (update_weight now cpu cpu_change) (\<lambda>(cpu1, cpu_available).
     check (weight net1 \<ge> utilization net1) (apostrophe ''weight can'' ''t shrink below utilization'') (
     check (weight cpu1 \<ge> utilization cpu1) (apostrophe ''weight can'' ''t shrink below utilization'') (
     bind_result (adjust_resources c (ctx_self c) reserve_account core net_available cpu_available True s) (\<lambda>s1.
     Inr (s1\<lparr>powerup_st := Some (state\<lparr>
       ps_net := net1\<lparr>adjusted_utilization := min (adjusted_utilization net1) (weight net1)\<rparr>,
       ps_cpu := cpu1\<lparr>adjusted_utilization := min (adjusted_utilization cpu1) (weight cpu1)\<rparr>,
       powerup_days := days, min_powerup_fee := fee\<rparr>)\<rparr>)))))))))))))))))"

section \<open>The price\<close>

definition price_integral_delta :: "ctx \<Rightarrow> powerup_state_resource \<Rightarrow> int \<Rightarrow> int \<Rightarrow> f64" where
  "price_integral_delta c state start_utilization end_utilization =
     (let minp = of_i64 (amount (min_price state));
          coefficient = fdiv (of_i64 (i64 (amount (max_price state) - amount (min_price state)))) (pw_exponent state);
          start_u = fdiv (of_i64 start_utilization) (of_i64 (weight state));
          end_u = fdiv (of_i64 end_utilization) (of_i64 (weight state)) in
      fsub (fadd (fsub (fmul minp end_u) (fmul minp start_u))
                 (fmul coefficient (math_pow (ctx_math c) end_u (pw_exponent state))))
           (fmul coefficient (math_pow (ctx_math c) start_u (pw_exponent state))))"

definition price_function :: "ctx \<Rightarrow> powerup_state_resource \<Rightarrow> int \<Rightarrow> f64" where
  "price_function c state u =
     (let new_exponent = fsub (pw_exponent state) (Fin 1) in
      if fle new_exponent (Fin 0) then of_i64 (amount (max_price state))
      else fadd (of_i64 (amount (min_price state)))
        (fmul (of_i64 (i64 (amount (max_price state) - amount (min_price state))))
          (math_pow (ctx_math c) (fdiv (of_i64 u) (of_i64 (weight state))) new_exponent)))"

definition calc_powerup_fee :: "ctx \<Rightarrow> powerup_state_resource \<Rightarrow> int \<Rightarrow> int result" where
  "calc_powerup_fee c state utilization_increase =
     (if utilization_increase \<le> 0 then Inr 0
      else
        let start = utilization state; adjusted = adjusted_utilization state;
            end_utilization = i64 (start + utilization_increase);
            below = (if start < adjusted
              then fadd (Fin 0) (fdiv (fmul (price_function c state adjusted)
                     (of_i64 (min utilization_increase (i64 (adjusted - start))))) (of_i64 (weight state)))
              else Fin 0);
            start_utilization = (if start < adjusted then adjusted else start);
            fee = (if start_utilization < end_utilization
              then fadd below (price_integral_delta c state start_utilization end_utilization) else below) in
        to_i64 (fceil fee))"

section \<open>Orders\<close>

definition powerupexec :: "ctx \<Rightarrow> name \<Rightarrow> nat \<Rightarrow> sys \<Rightarrow> sys result" where
  "powerupexec c user max_items s =
     require_auth c user (
     some_or (powerup_st s) (Check (apostrophe ''powerup hasn'' ''t been initialized'')) (\<lambda>state.
     bind_result (core_symbol s) (\<lambda>core.
     bind_result (process_powerup_queue c (seconds_of (ctx_now c)) core state max_items 0 0 s)
       (\<lambda>(state1, net_available, cpu_available, s1).
     bind_result (adjust_resources c (ctx_self c) reserve_account core net_available cpu_available True s1) (\<lambda>s2.
     Inr (s2\<lparr>powerup_st := Some state1\<rparr>))))))"

text \<open>A sale of the given share: the weight sold, the fee so far, and the state of the resource after it.\<close>

definition sell_share :: "ctx \<Rightarrow> int \<Rightarrow> int \<Rightarrow> powerup_state_resource \<Rightarrow> (int \<times> int \<times> powerup_state_resource) result" where
  "sell_share c share fee state =
     (if share = 0 then Inr (0, fee, state)
      else
        let sold = i64 ((share * weight state) sdiv powerup_frac) in
        check (weight state \<noteq> 0) (apostrophe ''market doesn'' ''t have resources available'') (
        check (i64 (utilization state + sold) \<le> weight state) (apostrophe ''market doesn'' ''t have enough resources available'') (
        bind_result (calc_powerup_fee c state sold) (\<lambda>f.
        check (f > 0) ''calculated fee is below minimum; try powering up with more resources'' (
        Inr (sold, i64 (fee + f), state\<lparr>utilization := i64 (utilization state + sold)\<rparr>))))))"

definition next_order_id :: "(int, powerup_order) table \<Rightarrow> int result" where
  "next_order_id t =
     (if rows t = [] then Inr 0
      else let k = fst (last (rows t)) in
        if k < 2 ^ 64 - 3 then Inr (k + 1)
        else Inl (Library ''next primary key in table is at autoincrement limit''))"

text \<open>
  The number of days is turned into microseconds, in 64 bits, and added to the time; the sum is cut to seconds.
\<close>

definition order_expiry :: "int \<Rightarrow> int \<Rightarrow> int" where
  "order_expiry now days = seconds_of (i64 (now * 1000000 + i64 (days * seconds_per_day * 1000000)))"

definition powerup :: "ctx \<Rightarrow> name \<Rightarrow> name \<Rightarrow> int \<Rightarrow> int \<Rightarrow> int \<Rightarrow> asset \<Rightarrow> sys \<Rightarrow> sys result" where
  "powerup c payer receiver days net_frac cpu_frac max_payment s =
     require_auth c payer (
     some_or (powerup_st s) (Check (apostrophe ''powerup hasn'' ''t been initialized'')) (\<lambda>state.
     let now = seconds_of (ctx_now c) in
     bind_result (core_symbol s) (\<lambda>core.
     check (asset_symbol max_payment = core) (apostrophe ''max_payment doesn'' ''t match core symbol'') (
     check (days = powerup_days state) (apostrophe ''days doesn'' ''t match configuration'') (
     check (net_frac \<ge> 0) (apostrophe ''net_frac can'' ''t be negative'') (
     check (cpu_frac \<ge> 0) (apostrophe ''cpu_frac can'' ''t be negative'') (
     check (net_frac \<le> powerup_frac) (apostrophe ''net can'' ''t be more than 100%'') (
     check (cpu_frac \<le> powerup_frac) (apostrophe ''cpu can'' ''t be more than 100%'') (
     bind_result (process_powerup_queue c now core state 2 0 0 s) (\<lambda>(state1, net_available, cpu_available, s1).
     some_or (mk_asset (ctx_lib c) 0 core) overflow (\<lambda>no_fee.
     bind_result (sell_share c net_frac (amount no_fee) (ps_net state1)) (\<lambda>(net_amount, net_fee, net).
     bind_result (sell_share c cpu_frac net_fee (ps_cpu state1)) (\<lambda>(cpu_amount, both_fees, cpu).
     let fee = no_fee\<lparr>amount := both_fees\<rparr> in
     some_or (asset_less (ctx_lib c) max_payment fee) overflow (\<lambda>too_much.
     check (\<not> too_much) (''max_payment is less than calculated fee: '' @ asset_to_string (ctx_lib c) fee) (
     check_at_least (ctx_lib c) fee (min_powerup_fee state1)
       ''calculated fee is below minimum; try powering up with more resources'' (
     bind_result (next_order_id (powerup_orders s1)) (\<lambda>i.
     bind_result (emplace_row payer i \<lparr>po_id = i, po_owner = receiver, po_net_weight = net_amount,
         po_cpu_weight = cpu_amount, po_expires = order_expiry now days\<rparr> (powerup_orders s1)) (\<lambda>orders.
     bind_result (adjust_resources c payer receiver core net_amount cpu_amount True (s1\<lparr>powerup_orders := orders\<rparr>)) (\<lambda>s2.
     bind_result (adjust_resources c (ctx_self c) reserve_account core (i64 (net_available - net_amount))
         (i64 (cpu_available - cpu_amount)) True s2) (\<lambda>s3.
     let s4 = send_token [(payer, active_permission)]
           (Transfer payer fees_account fee (''powerup fee from '' @ name_to_string (ctx_lib c) payer)) s3 in
     Inr (s4\<lparr>powerup_st := Some (state1\<lparr>ps_net := net, ps_cpu := cpu\<rparr>),
            outbox := outbox s4 @ [\<lparr>in_auths = [], in_call = Powup_result fee net_amount cpu_amount\<rparr>]\<rparr>)))))))))))))))))))))"

section \<open>Histories\<close>

datatype powerup_action =
    Cfgpowerup powerup_config
  | Powerupexec name nat
  | Powerup name name int int int asset

fun powerup_step :: "ctx \<times> powerup_action \<Rightarrow> sys \<Rightarrow> sys result" where
  "powerup_step (c, Cfgpowerup args) s = cfgpowerup c args s"
| "powerup_step (c, Powerupexec user n) s = powerupexec c user n s"
| "powerup_step (c, Powerup payer receiver days net_frac cpu_frac max_payment) s =
     powerup c payer receiver days net_frac cpu_frac max_payment s"

end
