(* ===== verification/PowerupLemmas.thy ===== *)
theory PowerupLemmas
  imports Powerup StakeLemmas
begin

text \<open>
  How the weights of the market move with time, what the queue gives back, and the books of the market: what is
  sold is what the orders hold, never more than the weight, and what every account has is what it had before, its
  orders, and for \<open>eosio.reserv\<close> what is not sold.
\<close>

section \<open>Expiry\<close>

text \<open>As long as the days fit into 64-bit microseconds, an order expires that many days later.\<close>

lemma order_expiry_days:
  assumes "0 \<le> now" "now < 2 ^ 32" and "0 \<le> days" "days \<le> 106700000"
  shows "order_expiry now days = u32 (now + days * 86400)"
proof -
  have "i64 (days * seconds_per_day * 1000000) = days * 86400 * 1000000"
    using assms(3,4) by (simp add: seconds_per_day_def)
  moreover have "i64 (now * 1000000 + days * 86400 * 1000000) = (now + days * 86400) * 1000000"
    using assms by simp
  ultimately show ?thesis
    using assms(1,3) by (simp add: order_expiry_def seconds_of_def sdiv_nonneg mult.commute)
qed

section \<open>Weights\<close>

definition ratio_val :: "int \<Rightarrow> powerup_state_resource \<Rightarrow> int" where
  "ratio_val now r =
     (if now \<ge> target_timestamp r then target_weight_ratio r
      else initial_weight_ratio r - ((initial_weight_ratio r - target_weight_ratio r) * (now - initial_timestamp r)) div
        (target_timestamp r - initial_timestamp r))"

definition weight_val :: "int \<Rightarrow> powerup_state_resource \<Rightarrow> int" where
  "weight_val now r = (assumed_stake_weight r * powerup_frac) div ratio_val now r - assumed_stake_weight r"

text \<open>What \<open>cfgpowerup\<close> accepts.\<close>

definition params_ok :: "powerup_state_resource \<Rightarrow> bool" where
  "params_ok r \<longleftrightarrow> 0 < target_weight_ratio r \<and> target_weight_ratio r \<le> initial_weight_ratio r \<and>
     initial_weight_ratio r \<le> powerup_frac \<and> 1 \<le> assumed_stake_weight r \<and>
     (assumed_stake_weight r * powerup_frac) div target_weight_ratio r < 2 ^ 63 \<and>
     0 \<le> initial_timestamp r \<and> initial_timestamp r \<le> target_timestamp r \<and> target_timestamp r < 2 ^ 32"

lemma sdiv_neg: "0 \<le> (a :: int) \<Longrightarrow> 0 < b \<Longrightarrow> (- a) sdiv b = - (a div b)"
  by (cases "a = 0") (simp_all add: signed_divide_int_def)

lemma ratio_bounds:
  assumes "params_ok r" and "initial_timestamp r \<le> t"
  shows "target_weight_ratio r \<le> ratio_val t r" and "ratio_val t r \<le> initial_weight_ratio r"
proof -
  let ?drop = "initial_weight_ratio r - target_weight_ratio r" and ?span = "target_timestamp r - initial_timestamp r"
  have d: "0 \<le> ?drop" using assms(1) by (simp add: params_ok_def)
  have "target_weight_ratio r \<le> ratio_val t r \<and> ratio_val t r \<le> initial_weight_ratio r"
  proof (cases "target_timestamp r \<le> t")
    case False
    then have span: "0 < ?span" "t - initial_timestamp r \<le> ?span" using assms(2) by simp_all
    have "0 \<le> (?drop * (t - initial_timestamp r)) div ?span"
      using d assms(2) span by (intro pos_imp_zdiv_nonneg_iff [THEN iffD2] mult_nonneg_nonneg) simp_all
    moreover have "?drop * (t - initial_timestamp r) \<le> ?drop * ?span" using d span by (intro mult_left_mono) simp_all
    then have "(?drop * (t - initial_timestamp r)) div ?span \<le> (?drop * ?span) div ?span" using span by (intro zdiv_mono1) simp_all
    ultimately show ?thesis using False span by (simp add: ratio_val_def)
  qed (use assms(1) in \<open>simp add: ratio_val_def params_ok_def\<close>)
  then show "target_weight_ratio r \<le> ratio_val t r" "ratio_val t r \<le> initial_weight_ratio r" by simp_all
qed

lemma ratio_shrinks:
  assumes "params_ok r" and "initial_timestamp r \<le> t" and "t \<le> t'"
  shows "ratio_val t' r \<le> ratio_val t r"
proof (cases "target_timestamp r \<le> t'")
  case True
  then show ?thesis using ratio_bounds(1) [OF assms(1,2)] by (simp add: ratio_val_def)
next
  case False
  have "(initial_weight_ratio r - target_weight_ratio r) * (t - initial_timestamp r) \<le>
      (initial_weight_ratio r - target_weight_ratio r) * (t' - initial_timestamp r)"
    using assms by (intro mult_left_mono) (simp_all add: params_ok_def)
  then show ?thesis using False assms(2,3) by (simp add: ratio_val_def zdiv_mono1)
qed

lemma ratio_at_val:
  assumes "params_ok r" and "initial_timestamp r \<le> t"
  shows "ratio_at t r = Inr (ratio_val t r)"
proof (cases "target_timestamp r \<le> t")
  case False
  let ?drop = "initial_weight_ratio r - target_weight_ratio r" and ?span = "target_timestamp r - initial_timestamp r"
  have par: "0 \<le> ?drop" "0 < target_weight_ratio r" "initial_weight_ratio r \<le> 2 ^ 62" "0 \<le> initial_timestamp r"
      "target_timestamp r < 2 ^ 32"
    using assms(1) by (simp_all add: params_ok_def powerup_frac_def)
  have u: "u32 ?span = ?span" "u32 (t - initial_timestamp r) = t - initial_timestamp r"
    using assms(2) False par by (intro u32_id; simp)+
  have "i64 (- ?drop) = - ?drop" by (rule i64_id) (use par in simp_all)
  moreover have "(- (?drop * (t - initial_timestamp r))) sdiv ?span = - ((?drop * (t - initial_timestamp r)) div ?span)"
    using assms(2) False par(1) by (intro sdiv_neg mult_nonneg_nonneg) simp_all
  moreover have "i64 (ratio_val t r) = ratio_val t r"
    using ratio_bounds [OF assms] par by (intro i64_id) simp_all
  ultimately show ?thesis
    using False assms(2) by (simp add: ratio_at_def ratio_val_def u Let_def minus_mult_left [symmetric] del: minus_diff_eq
        flip: minus_diff_eq [of "initial_weight_ratio r"])
qed (simp add: ratio_at_def ratio_val_def)

lemma weight_bounds:
  assumes "params_ok r" and "initial_timestamp r \<le> t"
  shows "0 \<le> weight_val t r" and "weight_val t r < 2 ^ 63"
proof -
  have par: "0 < target_weight_ratio r" "0 \<le> assumed_stake_weight r" "initial_weight_ratio r \<le> powerup_frac"
      "(assumed_stake_weight r * powerup_frac) div target_weight_ratio r < 2 ^ 63"
    using assms(1) by (simp_all add: params_ok_def)
  note b = ratio_bounds [OF assms]
  have n: "0 \<le> assumed_stake_weight r * powerup_frac" using par by (simp add: powerup_frac_def)
  have "assumed_stake_weight r * ratio_val t r \<le> assumed_stake_weight r * powerup_frac"
    using b par by (intro mult_left_mono) simp_all
  then have "(assumed_stake_weight r * ratio_val t r) div ratio_val t r \<le> (assumed_stake_weight r * powerup_frac) div ratio_val t r"
    using b par by (intro zdiv_mono1) simp_all
  then show "0 \<le> weight_val t r" using b par by (simp add: weight_val_def)
  have "(assumed_stake_weight r * powerup_frac) div ratio_val t r \<le> (assumed_stake_weight r * powerup_frac) div target_weight_ratio r"
    using b(1) par(1) n by (intro zdiv_mono2) simp_all
  then show "weight_val t r < 2 ^ 63" using par by (simp add: weight_val_def)
qed

lemma weight_grows:
  assumes "params_ok r" and "initial_timestamp r \<le> t" and "t \<le> t'"
  shows "weight_val t r \<le> weight_val t' r"
proof -
  have "0 < ratio_val t' r" "0 \<le> assumed_stake_weight r"
    using ratio_bounds(1) [OF assms(1), of t'] assms by (simp_all add: params_ok_def)
  then show ?thesis
    using ratio_shrinks [OF assms] by (simp add: weight_val_def zdiv_mono2 powerup_frac_def)
qed

lemma update_weight_val:
  assumes "params_ok r" and "initial_timestamp r \<le> t"
  shows "update_weight t r d =
    Inr (r\<lparr>weight_ratio := ratio_val t r, weight := weight_val t r\<rparr>, i64 (d + i64 (weight_val t r - weight r)))"
proof -
  have pos: "0 < ratio_val t r" using ratio_bounds(1) [OF assms] assms(1) by (simp add: params_ok_def)
  have "0 \<le> assumed_stake_weight r * powerup_frac" using assms(1) by (simp add: params_ok_def powerup_frac_def)
  then have "(assumed_stake_weight r * powerup_frac) sdiv ratio_val t r - assumed_stake_weight r = weight_val t r"
    using pos by (simp add: sdiv_nonneg weight_val_def)
  then show ?thesis
    using pos weight_bounds [OF assms] by (simp add: update_weight_def ratio_at_val [OF assms] Let_def)
qed

section \<open>Utilization\<close>

lemma clamp_bounds: "0 \<le> d \<Longrightarrow> 0 \<le> clamp v 0 d \<and> clamp v 0 d \<le> d"
  by (simp add: clamp_def)

lemma update_utilization_effect:
  assumes "update_utilization c now r = Inr r'"
    and "0 \<le> utilization r" and "in_i64 (utilization r)" and "in_i64 (adjusted_utilization r)"
  obtains a where "r' = r\<lparr>adjusted_utilization := a, utilization_timestamp := max now (utilization_timestamp r)\<rparr>"
    and "now \<le> utilization_timestamp r \<Longrightarrow> a = adjusted_utilization r"
    and "utilization_timestamp r < now \<Longrightarrow> utilization r \<le> a"
    and "utilization_timestamp r < now \<Longrightarrow> adjusted_utilization r \<le> utilization r \<Longrightarrow> a = utilization r"
    and "utilization_timestamp r < now \<Longrightarrow> utilization r < adjusted_utilization r \<Longrightarrow> a \<le> adjusted_utilization r"
proof (cases "now \<le> utilization_timestamp r")
  case True
  have "r\<lparr>adjusted_utilization := adjusted_utilization r, utilization_timestamp := utilization_timestamp r\<rparr> = r"
    by (cases r) simp
  then show ?thesis
    using assms(1) True by (intro that [of "adjusted_utilization r"]) (simp_all add: update_utilization_def max_absorb2)
next
  case False
  then have now: "max now (utilization_timestamp r) = now" by simp
  show ?thesis
  proof (cases "adjusted_utilization r \<le> utilization r")
    case True
    then show ?thesis
      using assms(1) False now by (intro that [of "utilization r"]) (simp_all add: update_utilization_def)
  next
    case less: False
    let ?diff = "adjusted_utilization r - utilization r"
    have diff: "i64 ?diff = ?diff" using less assms(2-4) by (intro i64_id) (simp_all add: in_i64_def)
    obtain delta where r': "r' = r\<lparr>adjusted_utilization := i64 (utilization r + clamp delta 0 ?diff), utilization_timestamp := now\<rparr>"
      using assms(1) False less by (auto simp: update_utilization_def diff Let_def)
    have b: "0 \<le> clamp delta 0 ?diff \<and> clamp delta 0 ?diff \<le> ?diff" by (rule clamp_bounds) (use less in simp)
    then have "i64 (utilization r + clamp delta 0 ?diff) = utilization r + clamp delta 0 ?diff"
      using assms(2-4) by (intro i64_id) (simp_all add: in_i64_def)
    then show ?thesis
      using r' b False less now by (intro that [of "utilization r + clamp delta 0 ?diff"]) simp_all
  qed
qed

section \<open>Totals\<close>

lemma total_of_keep:
  assumes "s' = s0\<lparr>userres := keep_row p m (ur_is_empty row) a row (userres s)\<rparr>"
    and "g = ur_net_weight \<or> g = ur_cpu_weight"
  shows "total_of g b s' = (if b = a then amount (g row) else total_of g b s)"
  using assms by (auto simp: total_of_def ur_is_empty_def)

context asset_library
begin

lemma adjust_effect:
  assumes run: "adjust_resources c p a core n m must s = Inr s'" and c: "ctx_lib c = L"
  obtains t lim where "s' = s\<lparr>userres := t, resource_limits := lim\<rparr>"
    and "\<And>b. i64 (total_of ur_net_weight b s') = i64 (total_of ur_net_weight b s + (if b = a then n else 0))"
    and "\<And>b. i64 (total_of ur_cpu_weight b s') = i64 (total_of ur_cpu_weight b s + (if b = a then m else 0))"
proof (cases "n = 0 \<and> m = 0")
  case True
  then have "s' = s" using run by (simp add: adjust_resources_def)
  then show ?thesis using True that [of "resource_limits s" "userres s"] by simp
next
  case False
  obtain row where s': "s' = (apply_limits a row s)\<lparr>userres := keep_row p same_payer (ur_is_empty row) a row (userres s)\<rparr>"
    and row: "i64 (amount (ur_net_weight row)) = i64 (total_of ur_net_weight a s + n)"
       "i64 (amount (ur_cpu_weight row)) = i64 (total_of ur_cpu_weight a s + m)"
  proof (cases "find_row (userres s) a")
    case None
    show ?thesis
      using run False None by (auto simp: adjust_resources_def total_of_def c intro!: that dest!: mk_Some)
  next
    case (Some tot)
    have idem: "i64 (i64 x) = i64 x" for x by (simp add: in_i64_id)
    show ?thesis
      using run False Some by (auto simp: adjust_resources_def total_of_def idem intro!: that)
  qed
  show ?thesis
  proof (rule that [of "resource_limits (apply_limits a row s)" "keep_row p same_payer (ur_is_empty row) a row (userres s)"])
    show "s' = s\<lparr>userres := keep_row p same_payer (ur_is_empty row) a row (userres s),
        resource_limits := resource_limits (apply_limits a row s)\<rparr>"
      by (simp add: s' apply_limits_def set_resource_limits_def split: prod.split)
  qed (use row in \<open>simp_all add: total_of_keep [OF s']\<close>)
qed

end

section \<open>The queue\<close>

definition sold :: "(powerup_order \<Rightarrow> int) \<Rightarrow> sys \<Rightarrow> int" where
  "sold g s = sum_rows (\<lambda>i. g) (powerup_orders s)"

definition owned :: "(powerup_order \<Rightarrow> int) \<Rightarrow> name \<Rightarrow> sys \<Rightarrow> int" where
  "owned g a s = sum_rows (\<lambda>i order. of_bool (po_owner order = a) * g order) (powerup_orders s)"

lemma by_expires_head:
  assumes "by_expires t = (i, order) # rest"
  shows "find_row t i = Some order" and "by_expires (erase_row i t) = rest"
proof -
  have dist: "distinct (map fst (by_expires t))"
  proof -
    have "distinct (map fst (rows t))" by (rule keys_ordered_distinct [OF keys_ordered_rows])
    then show ?thesis unfolding by_expires_def by (simp add: distinct_map)
  qed
  have "(i, order) \<in> set (by_expires t)" using assms by simp
  then show "find_row t i = Some order" by (simp add: by_expires_def in_rows_iff)
  have "by_expires (erase_row i t) = filter (\<lambda>x. fst x \<noteq> i) (by_expires t)"
    unfolding by_expires_def rows_erase drop_row_def by (simp add: filter_sort)
  also have "\<dots> = filter (\<lambda>x. fst x \<noteq> i) rest" using assms by simp
  also have "\<dots> = rest" using dist by (auto simp: assms filter_id_conv)
  finally show "by_expires (erase_row i t) = rest" .
qed

definition expired :: "int \<Rightarrow> (int, powerup_order) table \<Rightarrow> (int \<times> powerup_order) list" where
  "expired now t = takeWhile (\<lambda>(i, order). po_expires order \<le> now) (by_expires t)"

context asset_library
begin

lemma expire_effect:
  assumes "expire_orders n c now core (net, cpu, s) = Inr (net', cpu', s')" and c: "ctx_lib c = L"
  shows "\<exists>t lim u. s' = s\<lparr>userres := u, resource_limits := lim, powerup_orders := t\<rparr> \<and>
    by_expires t = drop (min n (length (expired now (powerup_orders s)))) (by_expires (powerup_orders s)) \<and>
    (\<forall>i order. find_row t i = Some order \<longrightarrow> find_row (powerup_orders s) i = Some order) \<and>
    i64 (net' + sold po_net_weight s') = i64 (net + sold po_net_weight s) \<and>
    i64 (cpu' + sold po_cpu_weight s') = i64 (cpu + sold po_cpu_weight s) \<and>
    (\<forall>a. i64 (total_of ur_net_weight a s' - owned po_net_weight a s') = i64 (total_of ur_net_weight a s - owned po_net_weight a s)) \<and>
    (\<forall>a. i64 (total_of ur_cpu_weight a s' - owned po_cpu_weight a s') = i64 (total_of ur_cpu_weight a s - owned po_cpu_weight a s))"
  using assms(1)
proof (induction n arbitrary: net cpu s)
  case 0
  then show ?case
    by (intro exI [of _ "powerup_orders s"] exI [of _ "resource_limits s"] exI [of _ "userres s"]) simp
next
  case (Suc n)
  have idle: ?case if "net' = net" "cpu' = cpu" "s' = s" "expired now (powerup_orders s) = []"
    using that by (intro exI [of _ "powerup_orders s"] exI [of _ "resource_limits s"] exI [of _ "userres s"]) simp
  show ?case
  proof (cases "by_expires (powerup_orders s)")
    case Nil
    then show ?thesis using Suc.prems by (intro idle) (simp_all add: expired_def)
  next
    case (Cons x rest)
    obtain i it where x: "x = (i, it)" by (cases x)
    note q = Cons [unfolded x]
    show ?thesis
    proof (cases "po_expires it > now")
      case True
      have "expired now (powerup_orders s) = []" using True by (simp add: expired_def q)
      then show ?thesis using Suc.prems True by (intro idle) (simp_all add: q)
    next
      case False
      obtain s1 where adj: "adjust_resources c (ctx_self c) (po_owner it) core
            (i64 (- po_net_weight it)) (i64 (- po_cpu_weight it)) False s = Inr s1"
        and rest: "expire_orders n c now core (i64 (net + po_net_weight it), i64 (cpu + po_cpu_weight it),
              s1\<lparr>powerup_orders := erase_row i (powerup_orders s1)\<rparr>) = Inr (net', cpu', s')"
        using Suc.prems False by (auto simp: q)
      obtain u lim where s1: "s1 = s\<lparr>userres := u, resource_limits := lim\<rparr>"
        and tot: "\<And>b. i64 (total_of ur_net_weight b s1) = i64 (total_of ur_net_weight b s + (if b = po_owner it then i64 (- po_net_weight it) else 0))"
           "\<And>b. i64 (total_of ur_cpu_weight b s1) = i64 (total_of ur_cpu_weight b s + (if b = po_owner it then i64 (- po_cpu_weight it) else 0))"
        by (rule adjust_effect [OF adj c]) (rule that)
      let ?s2 = "s1\<lparr>powerup_orders := erase_row i (powerup_orders s1)\<rparr>"
      have row: "find_row (powerup_orders s) i = Some it" and left: "by_expires (erase_row i (powerup_orders s)) = rest"
        by (rule by_expires_head [OF q])+
      obtain t lim' u' where ih: "s' = ?s2\<lparr>userres := u', resource_limits := lim', powerup_orders := t\<rparr>"
        "by_expires t = drop (min n (length (expired now (powerup_orders ?s2)))) (by_expires (powerup_orders ?s2))"
        "\<And>i order. find_row t i = Some order \<Longrightarrow> find_row (powerup_orders ?s2) i = Some order"
        "i64 (net' + sold po_net_weight s') = i64 (i64 (net + po_net_weight it) + sold po_net_weight ?s2)"
        "i64 (cpu' + sold po_cpu_weight s') = i64 (i64 (cpu + po_cpu_weight it) + sold po_cpu_weight ?s2)"
        "\<And>a. i64 (total_of ur_net_weight a s' - owned po_net_weight a s') = i64 (total_of ur_net_weight a ?s2 - owned po_net_weight a ?s2)"
        "\<And>a. i64 (total_of ur_cpu_weight a s' - owned po_cpu_weight a s') = i64 (total_of ur_cpu_weight a ?s2 - owned po_cpu_weight a ?s2)"
        using Suc.IH [OF rest] by blast
      have sold2: "sold g ?s2 = sold g s - g it" for g by (simp add: sold_def s1 sum_rows_erase row)
      have owned2: "owned g a ?s2 = owned g a s - of_bool (po_owner it = a) * g it" for g a
        by (simp add: owned_def s1 sum_rows_erase row)
      have tot2: "total_of g a ?s2 = total_of g a s1" for g a by (simp add: total_of_def)
      have exp2: "expired now (powerup_orders s) = (i, it) # expired now (powerup_orders ?s2)"
        using False by (simp add: expired_def q left s1)
      have own: "i64 (total_of g a ?s2 - owned w a ?s2) = i64 (total_of g a s - owned w a s)"
        if "i64 (total_of g a s1) = i64 (total_of g a s + (if a = po_owner it then i64 (- w it) else 0))" for g w a
      proof -
        have "i64 (total_of g a s1) = i64 (total_of g a s - of_bool (po_owner it = a) * w it)"
          unfolding that by (auto simp: i64_congs)
        from i64_diff_cong [OF this refl, of "owned w a s - of_bool (po_owner it = a) * w it"]
        show ?thesis unfolding tot2 owned2 by simp
      qed
      show ?thesis
      proof (intro exI conjI allI impI)
        show "s' = s\<lparr>userres := u', resource_limits := lim', powerup_orders := t\<rparr>" by (simp add: ih(1) s1)
        show "by_expires t = drop (min (Suc n) (length (expired now (powerup_orders s)))) (by_expires (powerup_orders s))"
          using ih(2) by (simp add: exp2 q left s1)
        show "find_row (powerup_orders s) j = Some order" if "find_row t j = Some order" for j order
          using ih(3) [OF that] by (simp add: s1 split: if_splits)
        show "i64 (net' + sold po_net_weight s') = i64 (net + sold po_net_weight s)"
          "i64 (cpu' + sold po_cpu_weight s') = i64 (cpu + sold po_cpu_weight s)"
          unfolding ih(4,5) sold2 by (simp_all add: i64_congs)
      qed (simp_all only: ih(6,7) own [of ur_net_weight _ po_net_weight, OF tot(1)] own [of ur_cpu_weight _ po_cpu_weight, OF tot(2)])
    qed
  qed
qed

end

section \<open>The books of the market\<close>

text \<open>A configured resource of which \<open>u\<close> is sold.\<close>

definition resource_ok :: "int \<Rightarrow> powerup_state_resource \<Rightarrow> bool" where
  "resource_ok u r \<longleftrightarrow> params_ok r \<and> initial_timestamp r \<le> utilization_timestamp r \<and>
     weight r = weight_val (utilization_timestamp r) r \<and> utilization r = u \<and> 0 \<le> u \<and> u \<le> weight r \<and>
     0 \<le> adjusted_utilization r \<and> adjusted_utilization r \<le> weight r"

lemma params_ok_updates [simp]:
  "params_ok (r\<lparr>weight := w\<rparr>) = params_ok r" "params_ok (r\<lparr>weight_ratio := q\<rparr>) = params_ok r"
  "params_ok (r\<lparr>utilization := u\<rparr>) = params_ok r" "params_ok (r\<lparr>adjusted_utilization := a\<rparr>) = params_ok r"
  "params_ok (r\<lparr>utilization_timestamp := t\<rparr>) = params_ok r"
  by (simp_all add: params_ok_def)

lemma weight_val_updates [simp]:
  "weight_val now (r\<lparr>weight := w\<rparr>) = weight_val now r" "weight_val now (r\<lparr>weight_ratio := q\<rparr>) = weight_val now r"
  "weight_val now (r\<lparr>utilization := u\<rparr>) = weight_val now r" "weight_val now (r\<lparr>adjusted_utilization := a\<rparr>) = weight_val now r"
  "weight_val now (r\<lparr>utilization_timestamp := t\<rparr>) = weight_val now r"
  by (simp_all add: weight_val_def ratio_val_def)

lemma resource_range:
  assumes "resource_ok u r"
  shows "in_i64 (weight r)" and "in_i64 (utilization r)" and "in_i64 (adjusted_utilization r)" and "in_i64 u"
  using assms weight_bounds [of r "utilization_timestamp r"] by (simp_all add: resource_ok_def in_i64_def)

text \<open>What every action does first with a resource: bring it up to date and take back what expired.\<close>

lemma refresh_effect:
  assumes ok: "resource_ok u r" and time: "utilization_timestamp r \<le> now"
    and one: "update_utilization c now r = Inr r1"
    and two: "update_weight now (r1\<lparr>utilization := i64 (utilization r1 - d)\<rparr>) d = Inr (r2, av)"
    and u': "0 \<le> u'" "u' \<le> u" "i64 (d + u') = i64 u"
  shows "resource_ok u' r2 \<and> utilization_timestamp r2 = now \<and> weight r2 = weight_val now r \<and>
    i64 av = i64 ((weight r2 - u') - (weight r - u))"
proof -
  note range = resource_range [OF ok]
  have par: "params_ok r" and init: "initial_timestamp r \<le> utilization_timestamp r" and w: "weight r = weight_val (utilization_timestamp r) r"
    and ut: "utilization r = u" and u: "0 \<le> u" "u \<le> weight r" and adj: "0 \<le> adjusted_utilization r" "adjusted_utilization r \<le> weight r"
    using ok by (simp_all add: resource_ok_def)
  have nn: "0 \<le> utilization r" using u ut by simp
  obtain a where r1: "r1 = r\<lparr>adjusted_utilization := a, utilization_timestamp := max now (utilization_timestamp r)\<rparr>"
    and a: "now \<le> utilization_timestamp r \<Longrightarrow> a = adjusted_utilization r" "utilization_timestamp r < now \<Longrightarrow> utilization r \<le> a"
     "utilization_timestamp r < now \<Longrightarrow> adjusted_utilization r \<le> utilization r \<Longrightarrow> a = utilization r"
     "utilization_timestamp r < now \<Longrightarrow> utilization r < adjusted_utilization r \<Longrightarrow> a \<le> adjusted_utilization r"
    by (rule update_utilization_effect [OF one nn range(2,3)]) (rule that)
  have m: "max now (utilization_timestamp r) = now" using time by simp
  have ab: "0 \<le> a \<and> a \<le> weight r"
  proof (cases "now \<le> utilization_timestamp r")
    case False
    then show ?thesis using a(2-4) adj u ut by (cases "adjusted_utilization r \<le> utilization r") simp_all
  qed (use a(1) adj in simp)
  have "i64 (u - d) = i64 (u' + d - d)" by (rule i64_diff_cong [OF _ refl]) (use u'(3) in \<open>simp add: add.commute\<close>)
  then have left: "i64 (utilization r1 - d) = u'"
    using u'(1,2) range(4) by (simp add: r1 ut in_i64_def)
  have start: "initial_timestamp r \<le> now" using init time by simp
  note upd = update_weight_val [of "r1\<lparr>utilization := u'\<rparr>" now d]
  have r2: "r2 = r1\<lparr>utilization := u', weight_ratio := ratio_val now (r1\<lparr>utilization := u'\<rparr>), weight := weight_val now r\<rparr>"
    and av: "av = i64 (d + i64 (weight_val now r - weight r))"
    using two upd par start unfolding left by (simp_all add: r1)
  have grow: "weight r \<le> weight_val now r" unfolding w by (rule weight_grows [OF par init time])
  have "i64 av = i64 (d + (weight_val now r - weight r))" by (simp add: av i64_congs in_i64_id)
  also have "\<dots> = i64 (d + u' + (weight_val now r - weight r - u'))" by simp
  also have "\<dots> = i64 (u + (weight_val now r - weight r - u'))" by (rule i64_add_cong [OF u'(3) refl])
  finally have "i64 av = i64 ((weight_val now r - u') - (weight r - u))" by (simp add: algebra_simps)
  then show ?thesis
    using par start ab grow u u' by (simp add: resource_ok_def r2 r1 m)
qed

lemma configure_effect:
  assumes run: "configure now core r args = Inr r'" and now: "0 \<le> now" "now < 2 ^ 32"
    and args: "case cfg_target_timestamp args of None \<Rightarrow> target_timestamp r < 2 ^ 32 | Some t \<Rightarrow> t < 2 ^ 32"
  shows "params_ok r' \<and> initial_timestamp r' = now \<and> weight r' = weight r \<and> utilization r' = utilization r \<and>
    adjusted_utilization r' = adjusted_utilization r \<and> utilization_timestamp r' = utilization_timestamp r"
proof -
  obtain current target assumed until ex decay maxp minp
    where checks: "current > 0" "current \<le> powerup_frac" "target > 0" "target \<le> current" "assumed \<ge> 1"
       "(assumed * powerup_frac) sdiv target \<le> 2 ^ 63 - 1"
    and until: "(if current = target then Inr now
       else
         bind_result (given_or (cfg_target_timestamp args)
           (check (target_timestamp r \<noteq> 0) (''target_timestamp does not have a default value'')
             (Inr (target_timestamp r)))) (\<lambda>t.
         check (t > now) ''target_timestamp must be in the future'' (Inr t))) = Inr until"
    and r': "r' = r\<lparr>assumed_stake_weight := assumed, initial_weight_ratio := current, target_weight_ratio := target,
       initial_timestamp := now, target_timestamp := until, pw_exponent := ex, decay_secs := decay,
       min_price := minp, max_price := maxp\<rparr>"
    using run unfolding configure_def bind_result_Inr check_Inr sum.inject
    by (elim exE conjE) (rule that, assumption+, rule sym)
  have u: "now \<le> until \<and> until < 2 ^ 32"
  proof (cases "current = target")
    case False
    then show ?thesis using until args by (auto simp: given_or_def split: option.splits)
  qed (use until now in simp)
  have "(assumed * powerup_frac) div target < 2 ^ 63"
    using checks by (simp add: sdiv_nonneg powerup_frac_def)
  then show ?thesis using checks u now by (simp add: r' params_ok_def)
qed

lemma reconfigured:
  assumes par: "params_ok r" "initial_timestamp r = now" "utilization_timestamp r = now"
    and w: "update_weight now r d = Inr (r', av)" and u: "utilization r = u" "0 \<le> u" "weight r' \<ge> utilization r'"
    and adj: "0 \<le> adjusted_utilization r"
  shows "resource_ok u (r'\<lparr>adjusted_utilization := min (adjusted_utilization r') (weight r')\<rparr>) \<and>
    utilization_timestamp r' = now \<and> i64 av = i64 (d + (weight r' - weight r))"
proof -
  have r': "r' = r\<lparr>weight_ratio := ratio_val now r, weight := weight_val now r\<rparr>"
    and av: "av = i64 (d + i64 (weight_val now r - weight r))"
    using w update_weight_val [OF par(1), of now d] par(2) by simp_all
  have "0 \<le> weight_val now r" by (rule weight_bounds(1) [OF par(1)]) (simp add: par)
  then show ?thesis
    using u adj by (simp add: resource_ok_def r' av par i64_congs in_i64_id)
qed

lemma sell_effect:
  assumes run: "sell_share c share fee r = Inr (amt, fee', r')" and ok: "resource_ok u r" and small: "weight r < 2 ^ 62"
    and share: "0 \<le> share" "share \<le> powerup_frac"
  shows "amt = (share * weight r) div powerup_frac \<and> 0 \<le> amt \<and> r' = r\<lparr>utilization := u + amt\<rparr> \<and> resource_ok (u + amt) r'"
proof -
  have u: "utilization r = u" "0 \<le> u" "u \<le> weight r" using ok by (simp_all add: resource_ok_def)
  show ?thesis
  proof (cases "share = 0")
    case True
    have "r\<lparr>utilization := utilization r\<rparr> = r" by (cases r) simp
    then show ?thesis using run ok u True by (simp add: sell_share_def)
  next
    case False
    let ?a = "(share * weight r) div powerup_frac"
    have a: "0 \<le> ?a" "?a \<le> weight r"
    proof -
      show "0 \<le> ?a" using share u by (simp add: powerup_frac_def pos_imp_zdiv_nonneg_iff)
      have "share * weight r \<le> powerup_frac * weight r" using share u by (intro mult_right_mono) simp_all
      then have "?a \<le> (powerup_frac * weight r) div powerup_frac" by (intro zdiv_mono1) (simp_all add: powerup_frac_def)
      then show "?a \<le> weight r" by (simp add: powerup_frac_def)
    qed
    have "(share * weight r) sdiv powerup_frac = ?a" using share u by (intro sdiv_nonneg) (simp_all add: powerup_frac_def)
    moreover have "i64 ?a = ?a" "i64 (u + ?a) = u + ?a" using a u small by simp_all
    ultimately have "amt = ?a" "r' = r\<lparr>utilization := u + ?a\<rparr>" "u + ?a \<le> weight r"
      using run False unfolding sell_share_def u(1) by (auto simp: Let_def)
    then show ?thesis using a u ok by (simp add: resource_ok_def)
  qed
qed

lemma sell_fee:
  assumes "sell_share c share fee r = Inr (amt, fee', r')"
  shows "if share = 0 then fee' = fee else \<exists>f. calc_powerup_fee c r amt = Inr f \<and> 0 < f \<and> fee' = i64 (fee + f)"
  using assms by (auto simp: sell_share_def Let_def)

end
