(* ===== verification/PowerupBooks.thy ===== *)
theory PowerupBooks
  imports PowerupLemmas
begin

text \<open>
  The books of the market through every action: what a configuration, a sale and the queue change, and that the
  queue never fails while they hold.
\<close>

section \<open>The invariant\<close>

lemma sum_rows_subset:
  assumes "\<And>k v. find_row t k = Some v \<Longrightarrow> find_row t' k = Some v" and "all_rows (\<lambda>k v. 0 \<le> g k v) t'"
  shows "sum_rows g t \<le> sum_rows g t'"
proof -
  have dist: "distinct (rows u)" for u :: "('a, 'b) table"
    using keys_ordered_distinct [OF keys_ordered_rows [of u]] by (simp add: distinct_map)
  have sum: "sum_rows g u = (\<Sum>(k, v) \<in> set (rows u). g k v)" for u
    unfolding sum_rows_def by (simp add: sum_list_distinct_conv_sum_set [OF dist])
  have sub: "set (rows t) \<subseteq> set (rows t')" using assms(1) by (auto simp: in_rows_iff)
  have "0 \<le> g k v" if "(k, v) \<in> set (rows t')" for k v
    using that all_rowsD [OF assms(2)] by (simp add: in_rows_iff)
  then show ?thesis unfolding sum using sub by (intro sum_mono2) auto
qed

definition orders_ok :: "sys \<Rightarrow> bool" where
  "orders_ok s \<longleftrightarrow> all_rows (\<lambda>i order. 0 \<le> po_net_weight order \<and> 0 \<le> po_cpu_weight order) (powerup_orders s)"

definition market_ok :: "sys \<Rightarrow> bool" where
  "market_ok s \<longleftrightarrow> orders_ok s \<and>
     (case powerup_st s of
        None \<Rightarrow> powerup_orders s = no_rows
      | Some st \<Rightarrow> resource_ok (sold po_net_weight s) (ps_net st) \<and> resource_ok (sold po_cpu_weight s) (ps_cpu st) \<and>
          utilization_timestamp (ps_net st) = utilization_timestamp (ps_cpu st))"

text \<open>The weight that is not sold, which \<open>eosio.reserv\<close> holds.\<close>

definition unsold :: "(powerup_state \<Rightarrow> powerup_state_resource) \<Rightarrow> (powerup_order \<Rightarrow> int) \<Rightarrow> sys \<Rightarrow> int" where
  "unsold r w s = (case powerup_st s of None \<Rightarrow> 0 | Some st \<Rightarrow> weight (r st) - sold w s)"

text \<open>What the market has added to the total of an account.\<close>

definition market_share :: "(powerup_state \<Rightarrow> powerup_state_resource) \<Rightarrow> (powerup_order \<Rightarrow> int) \<Rightarrow> name \<Rightarrow> sys \<Rightarrow> int" where
  "market_share r w a s = owned w a s + (if a = reserve_account then unsold r w s else 0)"

definition market_books :: "(name \<Rightarrow> int) \<Rightarrow> (name \<Rightarrow> int) \<Rightarrow> sys \<Rightarrow> bool" where
  "market_books N C s \<longleftrightarrow> market_ok s \<and>
     (\<forall>a. i64 (total_of ur_net_weight a s) = i64 (N a + market_share ps_net po_net_weight a s)) \<and>
     (\<forall>a. i64 (total_of ur_cpu_weight a s) = i64 (C a + market_share ps_cpu po_cpu_weight a s))"

definition clock :: "sys \<Rightarrow> int" where
  "clock s = (case powerup_st s of None \<Rightarrow> 0 | Some st \<Rightarrow> utilization_timestamp (ps_net st))"

text \<open>The weights stay below \<open>2 ^ 62\<close>, so that a sum of two of them fits.\<close>

definition small_market :: "sys \<Rightarrow> bool" where
  "small_market s \<longleftrightarrow> (case powerup_st s of None \<Rightarrow> True | Some st \<Rightarrow> weight (ps_net st) < 2 ^ 62 \<and> weight (ps_cpu st) < 2 ^ 62)"

lemma sold_nonneg: "orders_ok s \<Longrightarrow> 0 \<le> sold po_net_weight s \<and> 0 \<le> sold po_cpu_weight s"
  unfolding sold_def orders_ok_def
  by (intro conjI sum_rows_nonneg) (simp_all add: all_rows_iff)

context asset_library
begin

lemma process_effect:
  assumes run: "process_powerup_queue c now core st n 0 0 s = Inr (st1, na, ca, s1)" and c: "ctx_lib c = L"
    and ok: "market_ok s" and st: "powerup_st s = Some st" and time: "clock s \<le> now"
  shows "\<exists>t lim u. s1 = s\<lparr>userres := u, resource_limits := lim, powerup_orders := t\<rparr> \<and>
      by_expires t = drop (min n (length (expired now (powerup_orders s)))) (by_expires (powerup_orders s)) \<and>
      orders_ok s1 \<and> st1 = st\<lparr>ps_net := ps_net st1, ps_cpu := ps_cpu st1\<rparr> \<and>
      resource_ok (sold po_net_weight s1) (ps_net st1) \<and> resource_ok (sold po_cpu_weight s1) (ps_cpu st1) \<and>
      utilization_timestamp (ps_net st1) = now \<and> utilization_timestamp (ps_cpu st1) = now \<and>
      i64 na = i64 ((weight (ps_net st1) - sold po_net_weight s1) - unsold ps_net po_net_weight s) \<and>
      i64 ca = i64 ((weight (ps_cpu st1) - sold po_cpu_weight s1) - unsold ps_cpu po_cpu_weight s) \<and>
      (\<forall>a. i64 (total_of ur_net_weight a s1 - owned po_net_weight a s1) = i64 (total_of ur_net_weight a s - owned po_net_weight a s)) \<and>
      (\<forall>a. i64 (total_of ur_cpu_weight a s1 - owned po_cpu_weight a s1) = i64 (total_of ur_cpu_weight a s - owned po_cpu_weight a s))"
proof -
  have res: "resource_ok (sold po_net_weight s) (ps_net st)" "resource_ok (sold po_cpu_weight s) (ps_cpu st)"
    and times: "utilization_timestamp (ps_net st) \<le> now" "utilization_timestamp (ps_cpu st) \<le> now" and orders: "orders_ok s"
    using ok time by (simp_all add: market_ok_def st clock_def)
  obtain net cpu dn dc net1 cpu1
    where one: "update_utilization c now (ps_net st) = Inr net" "update_utilization c now (ps_cpu st) = Inr cpu"
      and exp: "expire_orders n c now core (0, 0, s) = Inr (dn, dc, s1)"
      and two: "update_weight now (net\<lparr>utilization := i64 (utilization net - dn)\<rparr>) dn = Inr (net1, na)"
        "update_weight now (cpu\<lparr>utilization := i64 (utilization cpu - dc)\<rparr>) dc = Inr (cpu1, ca)"
      and st1: "st1 = st\<lparr>ps_net := net1, ps_cpu := cpu1\<rparr>"
    using run that by (auto simp: process_powerup_queue_def split: prod.splits)
  obtain t lim u where s1: "s1 = s\<lparr>userres := u, resource_limits := lim, powerup_orders := t\<rparr>"
      "by_expires t = drop (min n (length (expired now (powerup_orders s)))) (by_expires (powerup_orders s))"
    and sub: "\<And>i order. find_row t i = Some order \<Longrightarrow> find_row (powerup_orders s) i = Some order"
    and sums: "i64 (dn + sold po_net_weight s1) = i64 (0 + sold po_net_weight s)"
      "i64 (dc + sold po_cpu_weight s1) = i64 (0 + sold po_cpu_weight s)"
    and tot: "\<forall>a. i64 (total_of ur_net_weight a s1 - owned po_net_weight a s1) = i64 (total_of ur_net_weight a s - owned po_net_weight a s)"
      "\<forall>a. i64 (total_of ur_cpu_weight a s1 - owned po_cpu_weight a s1) = i64 (total_of ur_cpu_weight a s - owned po_cpu_weight a s)"
    using expire_effect [OF exp c] by blast
  have orders1: "orders_ok s1" using orders sub by (auto simp: s1(1) orders_ok_def all_rows_iff)
  have less: "sold po_net_weight s1 \<le> sold po_net_weight s" "sold po_cpu_weight s1 \<le> sold po_cpu_weight s"
    using orders sub by (simp_all add: sold_def s1(1) sum_rows_subset orders_ok_def all_rows_iff)
  note pos = sold_nonneg [OF orders1]
  have net1: "resource_ok (sold po_net_weight s1) net1 \<and> utilization_timestamp net1 = now \<and> weight net1 = weight_val now (ps_net st) \<and>
      i64 na = i64 ((weight net1 - sold po_net_weight s1) - (weight (ps_net st) - sold po_net_weight s))"
    by (rule refresh_effect [OF res(1) times(1) one(1) two(1)]) (use pos less sums in simp_all)
  have cpu1: "resource_ok (sold po_cpu_weight s1) cpu1 \<and> utilization_timestamp cpu1 = now \<and> weight cpu1 = weight_val now (ps_cpu st) \<and>
      i64 ca = i64 ((weight cpu1 - sold po_cpu_weight s1) - (weight (ps_cpu st) - sold po_cpu_weight s))"
    by (rule refresh_effect [OF res(2) times(2) one(2) two(2)]) (use pos less sums in simp_all)
  have sel: "ps_net st1 = net1" "ps_cpu st1 = cpu1" "st1 = st\<lparr>ps_net := ps_net st1, ps_cpu := ps_cpu st1\<rparr>"
    by (simp_all add: st1)
  show ?thesis
    by (rule exI [of _ t], rule exI [of _ lim], rule exI [of _ u])
      (use s1 orders1 sel net1 cpu1 tot in \<open>simp add: unsold_def st\<close>)
qed

end

lemma books_shift:
  assumes "i64 (T1 - O1) = i64 (T - own)" and "i64 T = i64 (N + (own + U))" and "i64 x = i64 (U' - U)"
    and "i64 T' = i64 (T1 + y + x)" and "O' = O1 + y"
  shows "i64 T' = i64 (N + (O' + U'))"
proof -
  have "i64 T1 = i64 (T1 - O1 + O1)" by simp
  also have "\<dots> = i64 (T - own + O1)" by (rule i64_add_cong [OF assms(1) refl])
  also have "\<dots> = i64 (T + (O1 - own))" by (simp add: algebra_simps)
  also have "\<dots> = i64 (N + (own + U) + (O1 - own))" by (rule i64_add_cong [OF assms(2) refl])
  finally have "i64 (T1 + (y + x)) = i64 (N + (own + U) + (O1 - own) + (y + (U' - U)))"
    by (intro i64_add_cong [OF _ i64_add_cong [OF refl assms(3)]])
  then show ?thesis by (simp add: assms(4,5) algebra_simps)
qed

lemma i64_if: "i64 (if b then x else 0) = (if b then i64 x else 0)"
  by simp

context asset_library
begin

lemma exec_effect:
  assumes run: "powerupexec c user n s = Inr s'" and c: "ctx_lib c = L"
    and inv: "market_books N C s" and time: "clock s \<le> seconds_of (ctx_now c)"
  shows "has_auth c user \<and> market_books N C s' \<and> clock s' = seconds_of (ctx_now c) \<and>
    by_expires (powerup_orders s') = drop (min n (length (expired (seconds_of (ctx_now c)) (powerup_orders s)))) (by_expires (powerup_orders s)) \<and>
    outbox s' = outbox s"
proof -
  let ?now = "seconds_of (ctx_now c)"
  obtain st core st1 na ca s1 s2 where st: "has_auth c user" "powerup_st s = Some st"
    and run1: "process_powerup_queue c ?now core st n 0 0 s = Inr (st1, na, ca, s1)"
    and run2: "adjust_resources c (ctx_self c) reserve_account core na ca True s1 = Inr s2"
    and s': "s' = s2\<lparr>powerup_st := Some st1\<rparr>"
    using run that by (auto simp: powerupexec_def)
  have ok: "market_ok s" using inv by (simp add: market_books_def)
  obtain t lim u where s1: "s1 = s\<lparr>userres := u, resource_limits := lim, powerup_orders := t\<rparr>"
      "by_expires t = drop (min n (length (expired ?now (powerup_orders s)))) (by_expires (powerup_orders s))"
      "orders_ok s1"
    and res: "resource_ok (sold po_net_weight s1) (ps_net st1)" "resource_ok (sold po_cpu_weight s1) (ps_cpu st1)"
      "utilization_timestamp (ps_net st1) = ?now" "utilization_timestamp (ps_cpu st1) = ?now"
    and av: "i64 na = i64 ((weight (ps_net st1) - sold po_net_weight s1) - unsold ps_net po_net_weight s)"
      "i64 ca = i64 ((weight (ps_cpu st1) - sold po_cpu_weight s1) - unsold ps_cpu po_cpu_weight s)"
    and tot: "\<And>a. i64 (total_of ur_net_weight a s1 - owned po_net_weight a s1) = i64 (total_of ur_net_weight a s - owned po_net_weight a s)"
      "\<And>a. i64 (total_of ur_cpu_weight a s1 - owned po_cpu_weight a s1) = i64 (total_of ur_cpu_weight a s - owned po_cpu_weight a s)"
    using process_effect [OF run1 c ok st(2) time] by blast
  obtain t2 lim2 where s2: "s2 = s1\<lparr>userres := t2, resource_limits := lim2\<rparr>"
    and adj: "\<And>b. i64 (total_of ur_net_weight b s2) = i64 (total_of ur_net_weight b s1 + (if b = reserve_account then na else 0))"
      "\<And>b. i64 (total_of ur_cpu_weight b s2) = i64 (total_of ur_cpu_weight b s1 + (if b = reserve_account then ca else 0))"
    by (rule adjust_effect [OF run2 c]) (rule that)
  have frames: "sold w s' = sold w s1" "owned w a s' = owned w a s1" "total_of g a s' = total_of g a s2"
      "powerup_st s' = Some st1" "powerup_orders s' = t" "outbox s' = outbox s" for w g a
    by (simp_all add: s' s2 s1(1) sold_def owned_def total_of_def)
  have books: "i64 (total_of ur_net_weight a s') = i64 (N a + market_share ps_net po_net_weight a s')"
    "i64 (total_of ur_cpu_weight a s') = i64 (C a + market_share ps_cpu po_cpu_weight a s')" for a
  proof -
    have old: "i64 (total_of ur_net_weight a s) = i64 (N a + (owned po_net_weight a s + (if a = reserve_account then unsold ps_net po_net_weight s else 0)))"
      "i64 (total_of ur_cpu_weight a s) = i64 (C a + (owned po_cpu_weight a s + (if a = reserve_account then unsold ps_cpu po_cpu_weight s else 0)))"
      using inv by (simp_all add: market_books_def market_share_def)
    show "i64 (total_of ur_net_weight a s') = i64 (N a + market_share ps_net po_net_weight a s')"
      unfolding market_share_def
      by (rule books_shift [OF tot(1) old(1), where x = "if a = reserve_account then na else 0" and y = 0])
        (simp_all add: frames av unsold_def [of _ _ s'] adj)
    show "i64 (total_of ur_cpu_weight a s') = i64 (C a + market_share ps_cpu po_cpu_weight a s')"
      unfolding market_share_def
      by (rule books_shift [OF tot(2) old(2), where x = "if a = reserve_account then ca else 0" and y = 0])
        (simp_all add: frames av unsold_def [of _ _ s'] adj)
  qed
  have "orders_ok s'" using s1(3) by (simp add: orders_ok_def frames s1(1))
  then show ?thesis
    using st(1) res books s1(2) by (simp add: market_books_def market_ok_def clock_def frames)
qed

end

text \<open>What a sale does, with the books.\<close>

definition new_order :: "int \<Rightarrow> name \<Rightarrow> int \<Rightarrow> int \<Rightarrow> int \<Rightarrow> powerup_order" where
  "new_order i receiver net cpu expires =
     \<lparr>po_id = i, po_owner = receiver, po_net_weight = net, po_cpu_weight = cpu, po_expires = expires\<rparr>"

lemma powerup_parts:
  assumes "powerup c payer receiver days nf cf maxp s = Inr s'" and "core_symbol s = Inr core"
  obtains st st1 na ca s1 zero dn net_fee net dc both cpu less i orders s2 s3
    where "has_auth c payer" "powerup_st s = Some st" "asset_symbol maxp = core" "days = powerup_days st"
      "nf \<ge> 0" "cf \<ge> 0" "nf \<le> powerup_frac" "cf \<le> powerup_frac"
    and "process_powerup_queue c (seconds_of (ctx_now c)) core st 2 0 0 s = Inr (st1, na, ca, s1)"
    and "mk_asset (ctx_lib c) 0 core = Some zero"
    and "sell_share c nf (amount zero) (ps_net st1) = Inr (dn, net_fee, net)"
      "sell_share c cf net_fee (ps_cpu st1) = Inr (dc, both, cpu)"
    and "asset_less (ctx_lib c) maxp (zero\<lparr>amount := both\<rparr>) = Some less" "\<not> less"
      "asset_less (ctx_lib c) (zero\<lparr>amount := both\<rparr>) (min_powerup_fee st1) = Some False"
    and "emplace_row payer i (new_order i receiver dn dc (order_expiry (seconds_of (ctx_now c)) days)) (powerup_orders s1) = Inr orders"
    and "adjust_resources c payer receiver core dn dc True (s1\<lparr>powerup_orders := orders\<rparr>) = Inr s2"
    and "adjust_resources c (ctx_self c) reserve_account core (i64 (na - dn)) (i64 (ca - dc)) True s2 = Inr s3"
    and "s' = (send_token [(payer, active_permission)]
           (Transfer payer fees_account (zero\<lparr>amount := both\<rparr>) (''powerup fee from '' @ name_to_string (ctx_lib c) payer)) s3)
        \<lparr>powerup_st := Some (st1\<lparr>ps_net := net, ps_cpu := cpu\<rparr>),
         outbox := outbox (send_token [(payer, active_permission)]
           (Transfer payer fees_account (zero\<lparr>amount := both\<rparr>) (''powerup fee from '' @ name_to_string (ctx_lib c) payer)) s3) @
           [\<lparr>in_auths = [], in_call = Powup_result (zero\<lparr>amount := both\<rparr>) dn dc\<rparr>]\<rparr>"
  using assms that by (auto simp: powerup_def check_at_least_def new_order_def Let_def split: prod.splits)

context asset_library
begin

lemma powerup_effect:
  assumes run: "powerup c payer receiver days nf cf maxp s = Inr s'" and c: "ctx_lib c = L"
    and inv: "market_books N C s" and time: "clock s \<le> seconds_of (ctx_now c)" and small: "small_market s'"
    and core: "core_symbol s = Inr core"
  obtains st st' fee i t where "has_auth c payer" "powerup_st s = Some st" "powerup_st s' = Some st'" "days = powerup_days st"
    "0 \<le> nf \<and> nf \<le> powerup_frac \<and> 0 \<le> cf \<and> cf \<le> powerup_frac" "asset_symbol maxp = core"
    "asset_symbol fee = core" "amount fee \<le> amount maxp" "amount (min_powerup_fee st) \<le> amount fee"
    "outbox s' = outbox s @
      [\<lparr>in_auths = [(payer, active_permission)], in_call = Token_call (Transfer payer fees_account fee
         (''powerup fee from '' @ name_to_string L payer))\<rparr>,
       \<lparr>in_auths = [], in_call = Powup_result fee ((nf * weight (ps_net st')) div powerup_frac) ((cf * weight (ps_cpu st')) div powerup_frac)\<rparr>]"
    "powerup_orders s' = put i payer (new_order i receiver ((nf * weight (ps_net st')) div powerup_frac)
       ((cf * weight (ps_cpu st')) div powerup_frac) (order_expiry (seconds_of (ctx_now c)) days)) t"
    "find_row t i = None"
    "by_expires t = drop (min 2 (length (expired (seconds_of (ctx_now c)) (powerup_orders s)))) (by_expires (powerup_orders s))"
    "market_books N C s'" "clock s' = seconds_of (ctx_now c)"
proof -
  let ?now = "seconds_of (ctx_now c)"
  obtain st st1 na ca s1 zero dn net_fee net dc both cpu less i orders s2 s3
    where pre: "has_auth c payer" "powerup_st s = Some st" "asset_symbol maxp = core" "days = powerup_days st"
      "nf \<ge> 0" "cf \<ge> 0" "nf \<le> powerup_frac" "cf \<le> powerup_frac"
    and run1: "process_powerup_queue c ?now core st 2 0 0 s = Inr (st1, na, ca, s1)"
    and zero: "mk_asset L 0 core = Some zero"
    and sell: "sell_share c nf (amount zero) (ps_net st1) = Inr (dn, net_fee, net)"
      "sell_share c cf net_fee (ps_cpu st1) = Inr (dc, both, cpu)"
    and fee: "asset_less L maxp (zero\<lparr>amount := both\<rparr>) = Some less" "\<not> less"
      "asset_less L (zero\<lparr>amount := both\<rparr>) (min_powerup_fee st1) = Some False"
    and i: "emplace_row payer i (new_order i receiver dn dc (order_expiry ?now days)) (powerup_orders s1) = Inr orders"
    and run2: "adjust_resources c payer receiver core dn dc True (s1\<lparr>powerup_orders := orders\<rparr>) = Inr s2"
    and run3: "adjust_resources c (ctx_self c) reserve_account core (i64 (na - dn)) (i64 (ca - dc)) True s2 = Inr s3"
    and s': "s' = (send_token [(payer, active_permission)]
           (Transfer payer fees_account (zero\<lparr>amount := both\<rparr>) (''powerup fee from '' @ name_to_string L payer)) s3)
        \<lparr>powerup_st := Some (st1\<lparr>ps_net := net, ps_cpu := cpu\<rparr>),
         outbox := outbox (send_token [(payer, active_permission)]
           (Transfer payer fees_account (zero\<lparr>amount := both\<rparr>) (''powerup fee from '' @ name_to_string L payer)) s3) @
           [\<lparr>in_auths = [], in_call = Powup_result (zero\<lparr>amount := both\<rparr>) dn dc\<rparr>]\<rparr>"
    by (rule powerup_parts [OF run core, unfolded c])
  have ok: "market_ok s" using inv by (simp add: market_books_def)
  obtain t lim u where s1: "s1 = s\<lparr>userres := u, resource_limits := lim, powerup_orders := t\<rparr>"
      "by_expires t = drop (min 2 (length (expired ?now (powerup_orders s)))) (by_expires (powerup_orders s))"
      "orders_ok s1" "st1 = st\<lparr>ps_net := ps_net st1, ps_cpu := ps_cpu st1\<rparr>"
    and res: "resource_ok (sold po_net_weight s1) (ps_net st1)" "resource_ok (sold po_cpu_weight s1) (ps_cpu st1)"
      "utilization_timestamp (ps_net st1) = ?now" "utilization_timestamp (ps_cpu st1) = ?now"
    and av: "i64 na = i64 ((weight (ps_net st1) - sold po_net_weight s1) - unsold ps_net po_net_weight s)"
      "i64 ca = i64 ((weight (ps_cpu st1) - sold po_cpu_weight s1) - unsold ps_cpu po_cpu_weight s)"
    and tot: "\<And>a. i64 (total_of ur_net_weight a s1 - owned po_net_weight a s1) = i64 (total_of ur_net_weight a s - owned po_net_weight a s)"
      "\<And>a. i64 (total_of ur_cpu_weight a s1 - owned po_cpu_weight a s1) = i64 (total_of ur_cpu_weight a s - owned po_cpu_weight a s)"
    using process_effect [OF run1 c ok pre(2) time] by blast
  let ?new = "new_order i receiver dn dc (order_expiry ?now days)"
  have fresh: "find_row t i = None" and orders: "orders = put i payer ?new t" using i by (simp_all add: s1(1))
  obtain t2 lim2 where s2: "s2 = s1\<lparr>powerup_orders := orders, userres := t2, resource_limits := lim2\<rparr>"
    and adj2: "\<And>b. i64 (total_of ur_net_weight b s2) = i64 (total_of ur_net_weight b (s1\<lparr>powerup_orders := orders\<rparr>) + (if b = receiver then dn else 0))"
      "\<And>b. i64 (total_of ur_cpu_weight b s2) = i64 (total_of ur_cpu_weight b (s1\<lparr>powerup_orders := orders\<rparr>) + (if b = receiver then dc else 0))"
    by (rule adjust_effect [OF run2 c]) (rule that, simp_all)
  obtain t3 lim3 where s3: "s3 = s2\<lparr>userres := t3, resource_limits := lim3\<rparr>"
    and adj3: "\<And>b. i64 (total_of ur_net_weight b s3) = i64 (total_of ur_net_weight b s2 + (if b = reserve_account then i64 (na - dn) else 0))"
      "\<And>b. i64 (total_of ur_cpu_weight b s3) = i64 (total_of ur_cpu_weight b s2 + (if b = reserve_account then i64 (ca - dc) else 0))"
    by (rule adjust_effect [OF run3 c]) (rule that)
  let ?st' = "st1\<lparr>ps_net := net, ps_cpu := cpu\<rparr>"
  have frames: "powerup_st s' = Some ?st'" "powerup_orders s' = orders" "total_of g a s' = total_of g a s3" for g a
    by (simp_all add: s' s3 s2 total_of_def send_token_def)
  have tot1: "total_of g a (s1\<lparr>powerup_orders := orders\<rparr>) = total_of g a s1" for g a by (simp add: total_of_def)
  have sold': "sold w s' = sold w s1 + w ?new" and owned': "owned w a s' = owned w a s1 + (if a = receiver then w ?new else 0)" for w a
    using fresh by (simp_all add: sold_def owned_def frames orders sum_rows_put s1(1) new_order_def)
  have same_weight: "weight net = weight (ps_net st1)" "weight cpu = weight (ps_cpu st1)"
    using sell by (auto simp: sell_share_def Let_def split: if_splits)
  have small1: "weight (ps_net st1) < 2 ^ 62" "weight (ps_cpu st1) < 2 ^ 62"
    using small same_weight by (simp_all add: small_market_def frames)
  note net = sell_effect [OF sell(1) res(1) small1(1) pre(5,7)] and cpu = sell_effect [OF sell(2) res(2) small1(2) pre(6,8)]
  have new: "po_net_weight ?new = dn" "po_cpu_weight ?new = dc" by (simp_all add: new_order_def)
  have books: "i64 (total_of ur_net_weight a s') = i64 (N a + market_share ps_net po_net_weight a s')"
    "i64 (total_of ur_cpu_weight a s') = i64 (C a + market_share ps_cpu po_cpu_weight a s')" for a
  proof -
    have old: "i64 (total_of ur_net_weight a s) = i64 (N a + (owned po_net_weight a s + (if a = reserve_account then unsold ps_net po_net_weight s else 0)))"
      "i64 (total_of ur_cpu_weight a s) = i64 (C a + (owned po_cpu_weight a s + (if a = reserve_account then unsold ps_cpu po_cpu_weight s else 0)))"
      using inv by (simp_all add: market_books_def market_share_def)
    have move: "i64 (total_of g a s') = i64 (total_of g a s1 + (if a = receiver then d else 0) + (if a = reserve_account then x - d else 0))"
      if "i64 (total_of g a s2) = i64 (total_of g a s1 + (if a = receiver then d else 0))"
        "i64 (total_of g a s3) = i64 (total_of g a s2 + (if a = reserve_account then i64 (x - d) else 0))" for g d x
    proof -
      have "i64 (if a = reserve_account then i64 (x - d) else 0) = i64 (if a = reserve_account then x - d else 0)"
        by (simp add: in_i64_id)
      from i64_add_cong [OF that(1) this] show ?thesis using that(2) by (simp add: frames)
    qed
    have change: "i64 (if a = reserve_account then x - d else 0) =
        i64 ((if a = reserve_account then w - (so + d) else 0) - (if a = reserve_account then un else 0))"
      if "i64 x = i64 ((w - so) - un)" for x d w so un
    proof (cases "a = reserve_account")
      case True
      from i64_diff_cong [OF that refl, of d] show ?thesis using True by (simp add: algebra_simps)
    qed simp
    have uns: "unsold ps_net po_net_weight s' = weight (ps_net st1) - (sold po_net_weight s1 + dn)"
      "unsold ps_cpu po_cpu_weight s' = weight (ps_cpu st1) - (sold po_cpu_weight s1 + dc)"
      by (simp_all add: unsold_def frames sold' new same_weight)
    show "i64 (total_of ur_net_weight a s') = i64 (N a + market_share ps_net po_net_weight a s')"
      unfolding market_share_def uns
      by (rule books_shift [OF tot(1) old(1) change [OF av(1)] move [OF adj2(1) [unfolded tot1] adj3(1)]])
        (simp add: owned' new)
    show "i64 (total_of ur_cpu_weight a s') = i64 (C a + market_share ps_cpu po_cpu_weight a s')"
      unfolding market_share_def uns
      by (rule books_shift [OF tot(2) old(2) change [OF av(2)] move [OF adj2(2) [unfolded tot1] adj3(2)]])
        (simp add: owned' new)
  qed
  have orders': "orders_ok s'"
    using s1(3) net cpu by (simp add: orders_ok_def frames orders s1(1) all_rows_iff new_order_def)
  have sold_ok: "resource_ok (sold po_net_weight s') net" "resource_ok (sold po_cpu_weight s') cpu"
    using net cpu unfolding sold' new by blast+
  have ts: "utilization_timestamp net = ?now" "utilization_timestamp cpu = ?now" using net cpu res by simp_all
  have mb: "market_books N C s'"
    using books orders' sold_ok ts by (simp add: market_books_def market_ok_def frames)
  have clk: "clock s' = ?now" using net res by (simp add: clock_def frames)
  have st1_fee: "min_powerup_fee st1 = min_powerup_fee st" by (subst s1(4)) simp
  have z: "asset_symbol zero = core" "amount zero = 0" using mk_Some [OF zero] by simp_all
  have cost: "amount (zero\<lparr>amount := both\<rparr>) \<le> amount maxp"
    "amount (min_powerup_fee st) \<le> amount (zero\<lparr>amount := both\<rparr>)"
    using fee unfolding less_ok by (auto simp: st1_fee split: if_splits)
  show ?thesis
  proof (rule that [OF pre(1,2) frames(1) pre(4) _ pre(3) _ cost _ _ fresh s1(2) mb clk])
    show "0 \<le> nf \<and> nf \<le> powerup_frac \<and> 0 \<le> cf \<and> cf \<le> powerup_frac" using pre by simp
    show "asset_symbol (zero\<lparr>amount := both\<rparr>) = core" using z by simp
    show "outbox s' = outbox s @
      [\<lparr>in_auths = [(payer, active_permission)], in_call = Token_call (Transfer payer fees_account (zero\<lparr>amount := both\<rparr>)
         (''powerup fee from '' @ name_to_string L payer))\<rparr>,
       \<lparr>in_auths = [], in_call = Powup_result (zero\<lparr>amount := both\<rparr>) ((nf * weight (ps_net ?st')) div powerup_frac)
         ((cf * weight (ps_cpu ?st')) div powerup_frac)\<rparr>]"
      using net cpu by (simp add: s' s3 s2 s1(1) send_token_def same_weight)
    show "powerup_orders s' = put i payer (new_order i receiver ((nf * weight (ps_net ?st')) div powerup_frac)
       ((cf * weight (ps_cpu ?st')) div powerup_frac) (order_expiry ?now days)) t"
      using net cpu by (simp add: frames orders same_weight)
  qed
qed

end

text \<open>A configuration that the code accepts starts from a state that is up to date.\<close>

definition up_to_date :: "int \<Rightarrow> int \<Rightarrow> int \<Rightarrow> int \<Rightarrow> powerup_state_resource \<Rightarrow> bool" where
  "up_to_date now u un d r \<longleftrightarrow> utilization r = u \<and> 0 \<le> adjusted_utilization r \<and> utilization_timestamp r = now \<and>
     target_timestamp r < 2 ^ 32 \<and> i64 d = i64 ((weight r - u) - un)"

lemma refreshed_up_to_date:
  assumes ok: "resource_ok u r" and time: "utilization_timestamp r \<le> now"
    and one: "update_utilization c now r = Inr r1" and two: "update_weight now r1 0 = Inr (r2, d)"
  shows "up_to_date now u (weight r - u) d r2"
proof -
  have u: "utilization r = u" "0 \<le> u" using ok by (simp_all add: resource_ok_def)
  note range = resource_range [OF ok]
  have "utilization r1 = utilization r"
    by (rule update_utilization_effect [OF one _ range(2,3)]) (simp_all add: u)
  then have "r1 = r1\<lparr>utilization := i64 (utilization r1 - 0)\<rparr>" using range(2) by (cases r1) (simp add: in_i64_id)
  then have "update_weight now (r1\<lparr>utilization := i64 (utilization r1 - 0)\<rparr>) 0 = Inr (r2, d)" using two by simp
  from refresh_effect [OF ok time one this u(2)] show ?thesis
    by (simp add: up_to_date_def resource_ok_def params_ok_def)
qed

lemma configured:
  assumes old: "up_to_date now u un d r" "0 \<le> u" and now: "0 \<le> now" "now < 2 ^ 32"
    and conf: "configure now core r args = Inr r1" and w: "update_weight now r1 d = Inr (r2, av)" "weight r2 \<ge> utilization r2"
    and args: "\<And>t. cfg_target_timestamp args = Some t \<Longrightarrow> t < 2 ^ 32"
  shows "resource_ok u (r2\<lparr>adjusted_utilization := min (adjusted_utilization r2) (weight r2)\<rparr>) \<and>
    utilization_timestamp r2 = now \<and> i64 av = i64 ((weight r2 - u) - un)"
proof -
  have u: "utilization r = u" "0 \<le> adjusted_utilization r" "utilization_timestamp r = now" "target_timestamp r < 2 ^ 32"
    and d: "i64 d = i64 ((weight r - u) - un)"
    using old by (simp_all add: up_to_date_def)
  have c: "params_ok r1 \<and> initial_timestamp r1 = now \<and> weight r1 = weight r \<and> utilization r1 = utilization r \<and>
    adjusted_utilization r1 = adjusted_utilization r \<and> utilization_timestamp r1 = utilization_timestamp r"
    by (rule configure_effect [OF conf now]) (use args u in \<open>auto split: option.split\<close>)
  have r: "resource_ok u (r2\<lparr>adjusted_utilization := min (adjusted_utilization r2) (weight r2)\<rparr>) \<and>
    utilization_timestamp r2 = now \<and> i64 av = i64 (d + (weight r2 - weight r1))"
    by (rule reconfigured [OF _ _ _ w(1) _ old(2) w(2)]) (use c u in simp_all)
  moreover have "i64 (d + (weight r2 - weight r1)) = i64 ((weight r - u) - un + (weight r2 - weight r1))"
    by (rule i64_add_cong [OF d refl])
  moreover have "(weight r - u) - un + (weight r2 - weight r1) = (weight r2 - u) - un" using c by simp
  ultimately show ?thesis by simp
qed

lemma cfgpowerup_parts:
  assumes "cfgpowerup c args s = Inr s'"
  obtains core state nd cd days fee net cpu net1 na cpu1 ca s1 where "has_auth c (ctx_self c)"
    and "current_powerup_state c (seconds_of (ctx_now c)) (powerup_st s) = Inr (state, nd, cd)"
    and "configure (seconds_of (ctx_now c)) core (ps_net state) (cfg_net args) = Inr net" "configure (seconds_of (ctx_now c)) core (ps_cpu state) (cfg_cpu args) = Inr cpu"
    and "update_weight (seconds_of (ctx_now c)) net nd = Inr (net1, na)" "weight net1 \<ge> utilization net1"
      "update_weight (seconds_of (ctx_now c)) cpu cd = Inr (cpu1, ca)" "weight cpu1 \<ge> utilization cpu1"
    and "adjust_resources c (ctx_self c) reserve_account core na ca True s = Inr s1"
    and "s' = s1\<lparr>powerup_st := Some (state\<lparr>
       ps_net := net1\<lparr>adjusted_utilization := min (adjusted_utilization net1) (weight net1)\<rparr>,
       ps_cpu := cpu1\<lparr>adjusted_utilization := min (adjusted_utilization cpu1) (weight cpu1)\<rparr>,
       powerup_days := days, min_powerup_fee := fee\<rparr>)\<rparr>"
  using assms that by (auto simp: cfgpowerup_def Let_def split: prod.splits)

context asset_library
begin

lemma cfg_effect:
  assumes run: "cfgpowerup c args s = Inr s'" and c: "ctx_lib c = L"
    and inv: "market_books N C s" and time: "clock s \<le> seconds_of (ctx_now c)"
    and args: "\<And>t. cfg_target_timestamp (cfg_net args) = Some t \<or> cfg_target_timestamp (cfg_cpu args) = Some t \<Longrightarrow> t < 2 ^ 32"
  shows "has_auth c (ctx_self c) \<and> market_books N C s' \<and> clock s' = seconds_of (ctx_now c) \<and> outbox s' = outbox s \<and>
    powerup_orders s' = powerup_orders s"
proof -
  let ?now = "seconds_of (ctx_now c)"
  obtain core state nd cd days fee net cpu net1 na cpu1 ca s1 where auth: "has_auth c (ctx_self c)"
    and cur: "current_powerup_state c ?now (powerup_st s) = Inr (state, nd, cd)"
    and conf: "configure ?now core (ps_net state) (cfg_net args) = Inr net" "configure ?now core (ps_cpu state) (cfg_cpu args) = Inr cpu"
    and w: "update_weight ?now net nd = Inr (net1, na)" "weight net1 \<ge> utilization net1"
      "update_weight ?now cpu cd = Inr (cpu1, ca)" "weight cpu1 \<ge> utilization cpu1"
    and adj: "adjust_resources c (ctx_self c) reserve_account core na ca True s = Inr s1"
    and s': "s' = s1\<lparr>powerup_st := Some (state\<lparr>
       ps_net := net1\<lparr>adjusted_utilization := min (adjusted_utilization net1) (weight net1)\<rparr>,
       ps_cpu := cpu1\<lparr>adjusted_utilization := min (adjusted_utilization cpu1) (weight cpu1)\<rparr>,
       powerup_days := days, min_powerup_fee := fee\<rparr>)\<rparr>"
    by (rule cfgpowerup_parts [OF run])
  have ok: "market_ok s" using inv by (simp add: market_books_def)
  have orders: "orders_ok s" using ok by (simp add: market_ok_def)
  have now: "0 \<le> ?now" "?now < 2 ^ 32" by (simp_all only: seconds_of_def u_ranges)
  have old: "up_to_date ?now (sold po_net_weight s) (unsold ps_net po_net_weight s) nd (ps_net state) \<and>
      up_to_date ?now (sold po_cpu_weight s) (unsold ps_cpu po_cpu_weight s) cd (ps_cpu state)"
  proof (cases "powerup_st s")
    case None
    then have "powerup_orders s = no_rows" using ok by (simp add: market_ok_def)
    then show ?thesis
      using cur None by (auto simp: current_powerup_state_def Let_def up_to_date_def sold_def unsold_def default_resource_def)
  next
    case (Some st)
    have res: "resource_ok (sold po_net_weight s) (ps_net st)" "resource_ok (sold po_cpu_weight s) (ps_cpu st)"
      and times: "utilization_timestamp (ps_net st) \<le> ?now" "utilization_timestamp (ps_cpu st) \<le> ?now"
      using ok time by (simp_all add: market_ok_def Some clock_def)
    show ?thesis
      using cur refreshed_up_to_date [OF res(1) times(1)] refreshed_up_to_date [OF res(2) times(2)]
      by (auto simp: current_powerup_state_def Some unsold_def split: prod.splits)
  qed
  have net: "resource_ok (sold po_net_weight s) (net1\<lparr>adjusted_utilization := min (adjusted_utilization net1) (weight net1)\<rparr>) \<and>
      utilization_timestamp net1 = ?now \<and> i64 na = i64 ((weight net1 - sold po_net_weight s) - unsold ps_net po_net_weight s)"
    by (rule configured [OF conjunct1 [OF old] conjunct1 [OF sold_nonneg [OF orders]] now conf(1) w(1,2)]) (rule args, simp)
  have cpu: "resource_ok (sold po_cpu_weight s) (cpu1\<lparr>adjusted_utilization := min (adjusted_utilization cpu1) (weight cpu1)\<rparr>) \<and>
      utilization_timestamp cpu1 = ?now \<and> i64 ca = i64 ((weight cpu1 - sold po_cpu_weight s) - unsold ps_cpu po_cpu_weight s)"
    by (rule configured [OF conjunct2 [OF old] conjunct2 [OF sold_nonneg [OF orders]] now conf(2) w(3,4)]) (rule args, simp)
  obtain t lim where s1: "s1 = s\<lparr>userres := t, resource_limits := lim\<rparr>"
    and tot: "\<And>b. i64 (total_of ur_net_weight b s1) = i64 (total_of ur_net_weight b s + (if b = reserve_account then na else 0))"
      "\<And>b. i64 (total_of ur_cpu_weight b s1) = i64 (total_of ur_cpu_weight b s + (if b = reserve_account then ca else 0))"
    by (rule adjust_effect [OF adj c]) (rule that)
  have frames: "sold v s' = sold v s" "owned v a s' = owned v a s" "total_of g a s' = total_of g a s1"
      "powerup_orders s' = powerup_orders s" "outbox s' = outbox s" for v g a
    by (simp_all add: s' s1 sold_def owned_def total_of_def)
  have uns: "unsold ps_net po_net_weight s' = weight net1 - sold po_net_weight s"
      "unsold ps_cpu po_cpu_weight s' = weight cpu1 - sold po_cpu_weight s"
    by (simp_all add: unsold_def s' sold_def s1)
  have books: "i64 (total_of ur_net_weight a s') = i64 (N a + market_share ps_net po_net_weight a s')"
    "i64 (total_of ur_cpu_weight a s') = i64 (C a + market_share ps_cpu po_cpu_weight a s')" for a
  proof -
    have prior: "i64 (total_of ur_net_weight a s) = i64 (N a + (owned po_net_weight a s + (if a = reserve_account then unsold ps_net po_net_weight s else 0)))"
      "i64 (total_of ur_cpu_weight a s) = i64 (C a + (owned po_cpu_weight a s + (if a = reserve_account then unsold ps_cpu po_cpu_weight s else 0)))"
      using inv by (simp_all add: market_books_def market_share_def)
    show "i64 (total_of ur_net_weight a s') = i64 (N a + market_share ps_net po_net_weight a s')"
      unfolding market_share_def
      by (rule books_shift [OF refl prior(1), where x = "if a = reserve_account then na else 0" and y = 0])
        (simp_all add: frames uns net tot)
    show "i64 (total_of ur_cpu_weight a s') = i64 (C a + market_share ps_cpu po_cpu_weight a s')"
      unfolding market_share_def
      by (rule books_shift [OF refl prior(2), where x = "if a = reserve_account then ca else 0" and y = 0])
        (simp_all add: frames uns cpu tot)
  qed
  have ok': "orders_ok s'" using orders by (simp add: orders_ok_def frames)
  obtain st' where st': "powerup_st s' = Some st'"
      "ps_net st' = net1\<lparr>adjusted_utilization := min (adjusted_utilization net1) (weight net1)\<rparr>"
      "ps_cpu st' = cpu1\<lparr>adjusted_utilization := min (adjusted_utilization cpu1) (weight cpu1)\<rparr>"
    by (simp add: s')
  have "market_ok s'" using ok' net cpu by (simp add: market_ok_def frames st')
  moreover have "clock s' = ?now" using net by (simp add: clock_def st')
  ultimately show ?thesis using auth books frames(4,5) by (simp add: market_books_def)
qed

end

section \<open>Nothing keeps an expired order\<close>

text \<open>The last element taken and the first that stays.\<close>

lemma rest_is_later:
  assumes "length (expired now t) \<le> n" and "by_expires t' = drop (min n (length (expired now t))) (by_expires t)"
    and "find_row t' i = Some order"
  shows "now < po_expires order"
proof -
  let ?P = "\<lambda>(i, order). po_expires order \<le> now"
  have "by_expires t' = dropWhile ?P (by_expires t)"
    using assms(1,2) by (simp add: expired_def dropWhile_eq_drop min_absorb2)
  moreover have "(i, order) \<in> set (by_expires t')" using assms(3) by (simp add: by_expires_def in_rows_iff)
  ultimately have mem: "(i, order) \<in> set (dropWhile ?P (by_expires t))" by simp
  have sorted: "sorted (map (\<lambda>(i, order). po_expires order) (by_expires t))" by (simp add: by_expires_def)
  have later: "now < po_expires b" if "sorted (map (\<lambda>(i, order). po_expires order) xs)" "(j, b) \<in> set (dropWhile ?P xs)" for xs j b
    using that by (induction xs) (auto split: if_splits)
  show ?thesis by (rule later [OF sorted mem])
qed

lemma orders_okD: "orders_ok s \<Longrightarrow> find_row (powerup_orders s) i = Some order \<Longrightarrow> 0 \<le> po_net_weight order \<and> 0 \<le> po_cpu_weight order"
  unfolding orders_ok_def by (drule all_rowsD) auto

lemma owned_bounds:
  assumes "orders_ok s" and "w = po_net_weight \<or> w = po_cpu_weight"
  shows "0 \<le> owned w a s" and "owned w a s \<le> sold w s"
    and "find_row (powerup_orders s) i = Some order \<Longrightarrow> po_owner order = a \<Longrightarrow> w order \<le> owned w a s"
proof -
  have nn: "all_rows (\<lambda>i order. 0 \<le> of_bool (po_owner order = a) * w order) t"
    if "all_rows (\<lambda>i order. 0 \<le> po_net_weight order \<and> 0 \<le> po_cpu_weight order) t" for t :: "(int, powerup_order) table"
    using that assms(2) by (auto simp: all_rows_iff)
  note ok = assms(1) [unfolded orders_ok_def]
  show "0 \<le> owned w a s" unfolding owned_def by (rule sum_rows_nonneg [OF nn [OF ok]])
  show "owned w a s \<le> sold w s"
  proof -
    have "0 \<le> sum_rows (\<lambda>i order. (1 - of_bool (po_owner order = a)) * w order) (powerup_orders s)"
      by (rule sum_rows_nonneg) (use ok assms(2) in \<open>auto simp: all_rows_iff\<close>)
    then have "0 \<le> (\<Sum>(i, order) \<leftarrow> rows (powerup_orders s). w order - of_bool (po_owner order = a) * w order)"
      by (simp add: sum_rows_def left_diff_distrib)
    then show ?thesis unfolding sold_def owned_def sum_rows_def by (simp add: case_prod_unfold sum_list_subtractf)
  qed
  assume row: "find_row (powerup_orders s) i = Some order" "po_owner order = a"
  have "0 \<le> sum_rows (\<lambda>i order. of_bool (po_owner order = a) * w order) (erase_row i (powerup_orders s))"
    by (rule sum_rows_nonneg [OF nn]) (use ok in \<open>auto simp: all_rows_iff\<close>)
  then show "w order \<le> owned w a s" using row by (simp add: owned_def sum_rows_erase)
qed

lemma expire_succeeds:
  assumes "orders_ok s"
    and "\<And>a. total_of ur_net_weight a s = N a + owned po_net_weight a s" "\<And>a. total_of ur_cpu_weight a s = C a + owned po_cpu_weight a s"
    and "\<And>a. 0 \<le> N a \<and> 0 \<le> C a"
    and "\<And>a. N a + owned po_net_weight a s < 2 ^ 63" "\<And>a. C a + owned po_cpu_weight a s < 2 ^ 63"
  shows "\<exists>r s'. expire_orders n c now core (net, cpu, s) = Inr (fst r, snd r, s') \<and>
    (\<forall>a. total_of ur_net_weight a s' = N a + owned po_net_weight a s' \<and> total_of ur_cpu_weight a s' = C a + owned po_cpu_weight a s')"
  using assms(1-3,5,6)
proof (induction n arbitrary: net cpu s)
  case 0
  then show ?case by simp
next
  case (Suc n)
  have stop: ?case if "expire_orders (Suc n) c now core (net, cpu, s) = Inr (net, cpu, s)"
    using that Suc.prems(2,3) by (intro exI [of _ "(net, cpu)"] exI [of _ s]) simp
  show ?case
  proof (cases "by_expires (powerup_orders s)")
    case Nil
    then show ?thesis by (intro stop) simp
  next
    case (Cons x rest)
    obtain i it where x: "x = (i, it)" by (cases x)
    note q = Cons [unfolded x]
    show ?thesis
    proof (cases "po_expires it > now")
      case True
      then show ?thesis by (intro stop) (simp add: q)
    next
      case False
      let ?a = "po_owner it"
      have row: "find_row (powerup_orders s) i = Some it" by (rule by_expires_head [OF q])
      have w: "0 \<le> po_net_weight it" "0 \<le> po_cpu_weight it" using orders_okD [OF Suc.prems(1) row] by simp_all
      have most: "po_net_weight it \<le> owned po_net_weight ?a s" "po_cpu_weight it \<le> owned po_cpu_weight ?a s"
        by (rule owned_bounds(3) [OF Suc.prems(1) _ row refl], simp)+
      have neg: "i64 (- po_net_weight it) = - po_net_weight it" "i64 (- po_cpu_weight it) = - po_cpu_weight it"
        using w most Suc.prems(4,5) [of ?a] assms(4) [of ?a] by (intro i64_id; linarith)+
      obtain s1 where adj: "adjust_resources c (ctx_self c) ?a core (i64 (- po_net_weight it)) (i64 (- po_cpu_weight it)) False s = Inr s1"
        and orders: "powerup_orders s1 = powerup_orders s"
        and tot: "\<And>b. total_of ur_net_weight b s1 = total_of ur_net_weight b s - (if b = ?a then po_net_weight it else 0)"
         "\<And>b. total_of ur_cpu_weight b s1 = total_of ur_cpu_weight b s - (if b = ?a then po_cpu_weight it else 0)"
      proof (cases "po_net_weight it = 0 \<and> po_cpu_weight it = 0")
        case True
        then show ?thesis by (intro that [of s]) (simp_all add: adjust_resources_def)
      next
        case False
        have nz: "\<not> (- po_net_weight it = 0 \<and> - po_cpu_weight it = 0)" using False by simp
        have "0 < total_of ur_net_weight ?a s \<or> 0 < total_of ur_cpu_weight ?a s"
          using False w most Suc.prems(2,3) assms(4) [of ?a] by auto
        then obtain r where r: "find_row (userres s) ?a = Some r" by (auto simp: total_of_def split: option.splits)
        let ?row = "r\<lparr>ur_net_weight := (ur_net_weight r)\<lparr>amount := amount (ur_net_weight r) - po_net_weight it\<rparr>,
            ur_cpu_weight := (ur_cpu_weight r)\<lparr>amount := amount (ur_cpu_weight r) - po_cpu_weight it\<rparr>\<rparr>"
        let ?s1 = "(apply_limits ?a ?row s)\<lparr>userres := keep_row (ctx_self c) same_payer (ur_is_empty ?row) ?a ?row (userres s)\<rparr>"
        have am: "amount (ur_net_weight r) = N ?a + owned po_net_weight ?a s" "amount (ur_cpu_weight r) = C ?a + owned po_cpu_weight ?a s"
          using Suc.prems(2,3) [of ?a] by (simp_all add: total_of_def r)
        have left: "0 \<le> amount (ur_net_weight r) - po_net_weight it" "0 \<le> amount (ur_cpu_weight r) - po_cpu_weight it"
          "i64 (amount (ur_net_weight r) - po_net_weight it) = amount (ur_net_weight r) - po_net_weight it"
          "i64 (amount (ur_cpu_weight r) - po_cpu_weight it) = amount (ur_cpu_weight r) - po_cpu_weight it"
          unfolding am using w most assms(4) [of ?a] Suc.prems(4,5) [of ?a] by (auto intro!: i64_id)
        have "adjust_resources c (ctx_self c) ?a core (i64 (- po_net_weight it)) (i64 (- po_cpu_weight it)) False s = Inr ?s1"
          unfolding adjust_resources_def neg if_not_P [OF nz] using left by (simp add: r)
        moreover have "powerup_orders ?s1 = powerup_orders s"
          by (simp add: apply_limits_def set_resource_limits_def split: prod.split)
        moreover have "total_of g b ?s1 = (if b = ?a then amount (g ?row) else total_of g b s)" if "g = ur_net_weight \<or> g = ur_cpu_weight" for g b
          by (rule total_of_keep [OF refl that])
        ultimately show ?thesis by (intro that [of ?s1]) (simp_all add: total_of_def r)
      qed
      let ?s2 = "s1\<lparr>powerup_orders := erase_row i (powerup_orders s1)\<rparr>"
      have owned2: "owned v b ?s2 = owned v b s - (if b = ?a then v it else 0)" for v b
        by (simp add: owned_def orders sum_rows_erase row)
      have tot2: "total_of g b ?s2 = total_of g b s1" for g b by (simp add: total_of_def)
      have "orders_ok ?s2" using Suc.prems(1) by (auto simp: orders_ok_def orders all_rows_iff)
      moreover have "total_of ur_net_weight b ?s2 = N b + owned po_net_weight b ?s2" "total_of ur_cpu_weight b ?s2 = C b + owned po_cpu_weight b ?s2" for b
        by (simp_all add: tot2 owned2 tot Suc.prems(2,3))
      moreover have "N b + owned po_net_weight b ?s2 < 2 ^ 63" "C b + owned po_cpu_weight b ?s2 < 2 ^ 63" for b
        using Suc.prems(4,5) [of b] w unfolding owned2 by auto
      ultimately have "\<exists>r s'. expire_orders n c now core (i64 (net + po_net_weight it), i64 (cpu + po_cpu_weight it), ?s2) = Inr (fst r, snd r, s') \<and>
          (\<forall>a. total_of ur_net_weight a s' = N a + owned po_net_weight a s' \<and> total_of ur_cpu_weight a s' = C a + owned po_cpu_weight a s')"
        by (rule Suc.IH)
      then show ?thesis using False by (simp add: q adj)
    qed
  qed
qed

end
