(* ===== verification/PowerupProperties.thy ===== *)
theory PowerupProperties
  imports PowerupBooks
begin

text \<open>
  The market of resources over whole histories: its books, what a sale books and charges, and that whoever
  asks for it has the expired orders given back.
\<close>

section \<open>The queue never fails\<close>

lemma trunc_le: "0 \<le> x \<Longrightarrow> x \<le> of_int n \<Longrightarrow> 0 \<le> trunc_rat x \<and> trunc_rat x \<le> n"
  by (simp add: trunc_rat_def floor_le_iff)

lemma part_of_i64:
  assumes d: "0 \<le> d" "d < 2 ^ 62" and y: "0 \<le> y" "y \<le> 1"
  shows "\<exists>n. to_i64 (fmul (of_i64 d) (Fin y)) = Inr n"
proof -
  have dr: "0 \<le> (of_int d :: rat)" "(of_int d :: rat) \<le> 2 ^ 62"
    using d by (simp, metis less_imp_le of_int_le_iff of_int_power of_int_numeral)
  have rep: "representable ((2 :: rat) ^ 62)" using representable_powi [of 62] by (simp only: power_int_numeral)
  have r1: "0 \<le> rnd (of_int d)" "rnd (of_int d) \<le> 2 ^ 62" by (rule rnd_nonneg [OF dr(1)], rule rnd_le [OF dr(2) rep])
  have one: "of_i64 d = Fin (rnd (of_int d))"
    unfolding of_i64_def by (rule to_double_Fin) (use dr in simp)
  have p: "0 \<le> rnd (of_int d) * y" "rnd (of_int d) * y \<le> 2 ^ 62"
    using r1 y mult_mono [of "rnd (of_int d)" "2 ^ 62" y 1] by simp_all
  have two: "to_double (rnd (of_int d) * y) = Fin (rnd (rnd (of_int d) * y))"
    by (rule to_double_Fin) (use p in simp)
  have "0 \<le> rnd (rnd (of_int d) * y)" "rnd (rnd (of_int d) * y) \<le> of_int (2 ^ 62)"
    using rnd_nonneg [OF p(1)] rnd_le [OF p(2) rep] by simp_all
  from trunc_le [OF this] show ?thesis by (simp add: one two in_i64_def)
qed

lemma update_utilization_succeeds:
  assumes ok: "resource_ok u r" and small: "weight r < 2 ^ 62"
    and ex: "\<And>x. \<exists>y. math_exp (ctx_math c) x = Fin y \<and> 0 \<le> y \<and> y \<le> 1"
  shows "\<exists>r'. update_utilization c now r = Inr r'"
proof -
  let ?diff = "adjusted_utilization r - utilization r"
  have b: "0 \<le> utilization r" "adjusted_utilization r \<le> weight r" using ok by (simp_all add: resource_ok_def)
  have "\<exists>d. to_i64 (fmul (of_i64 (i64 ?diff)) (math_exp (ctx_math c) x)) = Inr d" if "utilization r < adjusted_utilization r" for x
  proof -
    obtain y where y: "math_exp (ctx_math c) x = Fin y" "0 \<le> y" "y \<le> 1" using ex by blast
    have d: "0 \<le> ?diff" "?diff < 2 ^ 62" using that b small by linarith+
    then have "i64 ?diff = ?diff" by simp
    then show ?thesis using part_of_i64 [OF d y(2,3)] by (simp only: y(1))
  qed
  then show ?thesis by (auto simp: update_utilization_def Let_def)
qed

text \<open>Where the totals are what was there before, the orders and what is not sold, the action succeeds.\<close>

lemma exact_total:
  assumes "i64 t = i64 (n + m)" and "in_i64 t" and "0 \<le> n" "n \<le> 2 ^ 62" and "0 \<le> m" "m < 2 ^ 62"
  shows "t = n + m"
  using assms by (simp add: in_i64_id)

lemma market_share_bounds:
  assumes "market_ok s" and "powerup_st s = Some st" and "weight (ps_net st) < 2 ^ 62" and "weight (ps_cpu st) < 2 ^ 62"
  shows "0 \<le> market_share ps_net po_net_weight a s \<and> market_share ps_net po_net_weight a s < 2 ^ 62 \<and>
    0 \<le> market_share ps_cpu po_cpu_weight a s \<and> market_share ps_cpu po_cpu_weight a s < 2 ^ 62"
proof -
  have res: "orders_ok s" "resource_ok (sold po_net_weight s) (ps_net st)" "resource_ok (sold po_cpu_weight s) (ps_cpu st)"
    using assms(1,2) by (simp_all add: market_ok_def)
  have ok: "orders_ok s" "sold po_net_weight s \<le> weight (ps_net st)" "sold po_cpu_weight s \<le> weight (ps_cpu st)"
    using res unfolding resource_ok_def by blast+
  note net = owned_bounds [OF ok(1) disjI1 [OF refl], where a = a] and cpu = owned_bounds [OF ok(1) disjI2 [OF refl], where a = a]
  show ?thesis
    using net(1,2) cpu(1,2) ok(2,3) assms(3,4)
    by (cases "a = reserve_account") (simp_all add: market_share_def unsold_def assms(2))
qed

context asset_library
begin

lemma adjust_succeeds:
  assumes c: "ctx_lib c = L" and core: "symbol_valid L core"
    and free: "\<not> managed s a net_managed" "\<not> managed s a cpu_managed"
    and tot: "total_of ur_net_weight a s = t" "total_of ur_cpu_weight a s = v"
    and net: "in_i64 n" "i64 (t + n) = t'" "0 \<le> t'" "t = 0 \<longrightarrow> t' \<le> max_amount"
    and cpu: "in_i64 m" "i64 (v + m) = v'" "0 \<le> v'" "v = 0 \<longrightarrow> v' \<le> max_amount"
  shows "\<exists>s'. adjust_resources c p a core n m True s = Inr s'"
proof (cases "n = 0 \<and> m = 0")
  case True
  then show ?thesis by (simp add: adjust_resources_def)
next
  case False
  show ?thesis
  proof (cases "find_row (userres s) a")
    case None
    then have z: "t = 0" "v = 0" using tot by (simp_all add: total_of_def)
    then have "n = t'" "m = v'" using net(1,2) cpu(1,2) by (simp_all add: in_i64_id)
    then show ?thesis
      using False None net(3,4) cpu(3,4) z core free by (simp add: adjust_resources_def c mk_ok)
  next
    case (Some r)
    then show ?thesis
      using False net cpu free tot by (simp add: adjust_resources_def total_of_def)
  qed
qed

lemma exec_succeeds:
  assumes c: "ctx_lib c = L" and core: "core_symbol s = Inr core" "symbol_valid L core"
    and auth: "has_auth c user" and st: "powerup_st s = Some st"
    and inv: "market_books N C s" and time: "clock s \<le> seconds_of (ctx_now c)"
    and free: "\<not> managed s reserve_account net_managed" "\<not> managed s reserve_account cpu_managed"
    and base: "\<And>a. 0 \<le> N a \<and> N a \<le> 2 ^ 62 \<and> 0 \<le> C a \<and> C a \<le> 2 ^ 62"
    and width: "\<And>a. in_i64 (total_of ur_net_weight a s) \<and> in_i64 (total_of ur_cpu_weight a s)"
    and small: "weight_val (seconds_of (ctx_now c)) (ps_net st) < 2 ^ 62" "weight_val (seconds_of (ctx_now c)) (ps_cpu st) < 2 ^ 62"
    and ex: "\<And>x. \<exists>y. math_exp (ctx_math c) x = Fin y \<and> 0 \<le> y \<and> y \<le> 1"
  shows "\<exists>s'. powerupexec c user n s = Inr s'"
proof -
  let ?now = "seconds_of (ctx_now c)"
  have ok: "market_ok s" using inv by (simp add: market_books_def)
  have res: "resource_ok (sold po_net_weight s) (ps_net st)" "resource_ok (sold po_cpu_weight s) (ps_cpu st)"
    and times: "utilization_timestamp (ps_net st) \<le> ?now" "utilization_timestamp (ps_cpu st) \<le> ?now" and orders: "orders_ok s"
    using ok time by (simp_all add: market_ok_def st clock_def)
  have grown: "weight r < 2 ^ 62" "initial_timestamp r \<le> ?now" "params_ok r"
    if "resource_ok u r" "utilization_timestamp r \<le> ?now" "weight_val ?now r < 2 ^ 62" for r u
  proof -
    have p: "params_ok r" "initial_timestamp r \<le> utilization_timestamp r" "weight r = weight_val (utilization_timestamp r) r"
      using that(1) by (simp_all add: resource_ok_def)
    then show "weight r < 2 ^ 62" "initial_timestamp r \<le> ?now" "params_ok r"
      using weight_grows [OF p(1,2) that(2)] that(2,3) by simp_all
  qed
  note gn = grown [OF res(1) times(1) small(1)] and gc = grown [OF res(2) times(2) small(2)]
  obtain net cpu where upd: "update_utilization c ?now (ps_net st) = Inr net" "update_utilization c ?now (ps_cpu st) = Inr cpu"
    using update_utilization_succeeds [OF res(1) gn(1) ex] update_utilization_succeeds [OF res(2) gc(1) ex] by blast
  have same: "params_ok r' \<and> initial_timestamp r' = initial_timestamp r \<and> weight_val ?now r' = weight_val ?now r"
    if "update_utilization c ?now r = Inr r'" "resource_ok u r" for r r' u
  proof -
    have "params_ok r" "0 \<le> utilization r" using that(2) by (simp_all add: resource_ok_def)
    then show ?thesis
      by (auto intro: update_utilization_effect [OF that(1) _ resource_range(2,3) [OF that(2)]])
  qed
  let ?X = "\<lambda>a. if a = reserve_account then unsold ps_net po_net_weight s else 0"
  let ?Y = "\<lambda>a. if a = reserve_account then unsold ps_cpu po_cpu_weight s else 0"
  have share: "0 \<le> market_share ps_net po_net_weight a s \<and> market_share ps_net po_net_weight a s < 2 ^ 62 \<and>
      0 \<le> market_share ps_cpu po_cpu_weight a s \<and> market_share ps_cpu po_cpu_weight a s < 2 ^ 62" for a
    by (rule market_share_bounds [OF ok st gn(1) gc(1)])
  have uns: "0 \<le> unsold ps_net po_net_weight s" "0 \<le> unsold ps_cpu po_cpu_weight s"
    using res unfolding unsold_def st resource_ok_def by simp_all
  have tot: "total_of ur_net_weight a s = (N a + ?X a) + owned po_net_weight a s"
    "total_of ur_cpu_weight a s = (C a + ?Y a) + owned po_cpu_weight a s" for a
  proof -
    have b: "i64 (total_of ur_net_weight a s) = i64 (N a + market_share ps_net po_net_weight a s)"
      "i64 (total_of ur_cpu_weight a s) = i64 (C a + market_share ps_cpu po_cpu_weight a s)"
      using inv by (simp_all add: market_books_def)
    have "total_of ur_net_weight a s = N a + market_share ps_net po_net_weight a s"
      "total_of ur_cpu_weight a s = C a + market_share ps_cpu po_cpu_weight a s"
      by (rule exact_total [OF b(1)], use base width share in blast, use base in blast, use base in blast, use share in blast, use share in blast,
          rule exact_total [OF b(2)], use base width share in blast, use base in blast, use base in blast, use share in blast, use share in blast)
    then show "total_of ur_net_weight a s = (N a + ?X a) + owned po_net_weight a s"
      "total_of ur_cpu_weight a s = (C a + ?Y a) + owned po_cpu_weight a s"
      by (simp_all add: market_share_def)
  qed
  have below: "N a + ?X a + owned po_net_weight a s < 2 ^ 63" "C a + ?Y a + owned po_cpu_weight a s < 2 ^ 63" for a
    using base [of a] share [of a] unfolding market_share_def by auto
  have base': "0 \<le> N a + ?X a \<and> 0 \<le> C a + ?Y a" for a using base uns by auto
  obtain q s1 where exp: "expire_orders n c ?now core (0, 0, s) = Inr (fst q, snd q, s1)"
    and tot1: "\<And>a. total_of ur_net_weight a s1 = N a + ?X a + owned po_net_weight a s1"
      "\<And>a. total_of ur_cpu_weight a s1 = C a + ?Y a + owned po_cpu_weight a s1"
    using expire_succeeds [OF orders tot(1) tot(2) base' below(1) below(2), of n c ?now core 0 0] by blast
  let ?net = "net\<lparr>utilization := i64 (utilization net - fst q)\<rparr>" and ?cpu = "cpu\<lparr>utilization := i64 (utilization cpu - snd q)\<rparr>"
  have net: "params_ok ?net" "initial_timestamp ?net \<le> ?now" "weight_val ?now ?net = weight_val ?now (ps_net st)"
    using same [OF upd(1) res(1)] gn by simp_all
  have cpu: "params_ok ?cpu" "initial_timestamp ?cpu \<le> ?now" "weight_val ?now ?cpu = weight_val ?now (ps_cpu st)"
    using same [OF upd(2) res(2)] gc by simp_all
  obtain net1 na where un: "update_weight ?now ?net (fst q) = Inr (net1, na)" "weight net1 = weight_val ?now (ps_net st)" "in_i64 na"
    using update_weight_val [OF net(1,2), of "fst q"] net(3) by (simp add: that)
  obtain cpu1 ca where uc: "update_weight ?now ?cpu (snd q) = Inr (cpu1, ca)" "weight cpu1 = weight_val ?now (ps_cpu st)" "in_i64 ca"
    using update_weight_val [OF cpu(1,2), of "snd q"] cpu(3) by (simp add: that)
  let ?st1 = "st\<lparr>ps_net := net1, ps_cpu := cpu1\<rparr>"
  have run: "process_powerup_queue c ?now core st n 0 0 s = Inr (?st1, na, ca, s1)"
    by (simp add: process_powerup_queue_def upd exp un(1) uc(1))
  obtain t lim u where s1: "s1 = s\<lparr>userres := u, resource_limits := lim, powerup_orders := t\<rparr>" "orders_ok s1"
    and r1: "resource_ok (sold po_net_weight s1) net1" "resource_ok (sold po_cpu_weight s1) cpu1"
    and av: "i64 na = i64 ((weight net1 - sold po_net_weight s1) - unsold ps_net po_net_weight s)"
      "i64 ca = i64 ((weight cpu1 - sold po_cpu_weight s1) - unsold ps_cpu po_cpu_weight s)"
    using process_effect [OF run c ok st time] by auto
  let ?R = reserve_account
  have free1: "\<not> managed s1 ?R net_managed" "\<not> managed s1 ?R cpu_managed" using free by (simp_all add: managed_def s1(1))
  have left: "sold po_net_weight s1 \<le> weight net1" "sold po_cpu_weight s1 \<le> weight cpu1"
    using r1 unfolding resource_ok_def by blast+
  have ob: "0 \<le> owned po_net_weight ?R s1" "owned po_net_weight ?R s1 \<le> sold po_net_weight s1"
    "0 \<le> owned po_cpu_weight ?R s1" "owned po_cpu_weight ?R s1 \<le> sold po_cpu_weight s1"
    using owned_bounds(1,2) [OF s1(2) disjI1 [OF refl]] owned_bounds(1,2) [OF s1(2) disjI2 [OF refl]] by blast+
  have t1: "total_of ur_net_weight ?R s1 = N ?R + unsold ps_net po_net_weight s + owned po_net_weight ?R s1"
    "total_of ur_cpu_weight ?R s1 = C ?R + unsold ps_cpu po_cpu_weight s + owned po_cpu_weight ?R s1"
    using tot1 [of ?R] by simp_all
  have sum: "i64 (b + un + ow + x) = b + ow + (w - so)"
    if "i64 x = i64 ((w - so) - un)" "0 \<le> b" "b \<le> 2 ^ 62" "0 \<le> ow" "ow \<le> so" "so \<le> w" "w < 2 ^ 62" for b un ow x w so
  proof -
    have "i64 (b + un + ow + x) = i64 (b + un + ow + ((w - so) - un))" by (rule i64_add_cong [OF refl that(1)])
    also have "\<dots> = i64 (b + ow + (w - so))" by (simp add: algebra_simps)
    also have "\<dots> = b + ow + (w - so)" using that by (intro i64_id) simp_all
    finally show ?thesis .
  qed
  have "\<exists>s2. adjust_resources c (ctx_self c) ?R core na ca True s1 = Inr s2"
  proof (rule adjust_succeeds [OF c core(2) free1 t1(1) t1(2) un(3) _ _ _ uc(3)])
    show "i64 (N ?R + unsold ps_net po_net_weight s + owned po_net_weight ?R s1 + na) = N ?R + owned po_net_weight ?R s1 + (weight net1 - sold po_net_weight s1)"
      by (rule sum [OF av(1)]) (use base [of ?R] ob left small un(2) in simp_all)
    show "i64 (C ?R + unsold ps_cpu po_cpu_weight s + owned po_cpu_weight ?R s1 + ca) = C ?R + owned po_cpu_weight ?R s1 + (weight cpu1 - sold po_cpu_weight s1)"
      by (rule sum [OF av(2)]) (use base [of ?R] ob left small uc(2) in simp_all)
  qed (use base [of ?R] ob left small un(2) uc(2) uns in \<open>auto simp: max_amount_def\<close>)
  then show ?thesis
    unfolding powerupexec_def require_auth_def by (auto simp: auth st core(1) run)
qed

end

section \<open>Histories\<close>

fun powerup_admissible :: "ctx \<times> powerup_action \<Rightarrow> bool" where
  "powerup_admissible (c, Cfgpowerup args) \<longleftrightarrow> asset_library (ctx_lib c) \<and>
     (\<forall>t. cfg_target_timestamp (cfg_net args) = Some t \<or> cfg_target_timestamp (cfg_cpu args) = Some t \<longrightarrow> t < 2 ^ 32)"
| "powerup_admissible (c, _) \<longleftrightarrow> asset_library (ctx_lib c)"

definition second_of :: "ctx \<times> powerup_action \<Rightarrow> int" where
  "second_of a = seconds_of (ctx_now (fst a))"

lemma powerup_step_books:
  assumes adm: "powerup_admissible a" and inv: "market_books N C s" and time: "clock s \<le> second_of a"
    and run: "powerup_step a s = Inr s'" and small: "small_market s'"
  shows "market_books N C s' \<and> clock s' = second_of a"
proof -
  obtain c b where a: "a = (c, b)" by (cases a)
  have lib: "asset_library (ctx_lib c)" using adm by (cases b) (simp_all add: a)
  have t: "clock s \<le> seconds_of (ctx_now c)" using time by (simp add: a second_of_def)
  show ?thesis
  proof (cases b)
    case (Cfgpowerup args)
    have "cfgpowerup c args s = Inr s'" using run by (simp add: a Cfgpowerup)
    moreover have "t < 2 ^ 32" if "cfg_target_timestamp (cfg_net args) = Some t \<or> cfg_target_timestamp (cfg_cpu args) = Some t" for t
      using adm that unfolding a Cfgpowerup powerup_admissible.simps by blast
    ultimately show ?thesis
      using asset_library.cfg_effect [OF lib _ refl inv t, of args s'] by (simp add: a second_of_def)
  next
    case (Powerupexec user n)
    have "powerupexec c user n s = Inr s'" using run by (simp add: a Powerupexec)
    from asset_library.exec_effect [OF lib this refl inv t] show ?thesis by (simp add: a second_of_def)
  next
    case (Powerup payer receiver days nf cf maxp)
    have run1: "powerup c payer receiver days nf cf maxp s = Inr s'" using run by (simp add: a Powerup)
    then obtain core where core: "core_symbol s = Inr core" by (cases "core_symbol s") (auto simp: powerup_def Let_def)
    show ?thesis
      by (rule asset_library.powerup_effect [OF lib run1 refl inv t small core]) (simp add: a second_of_def)
  qed
qed

text \<open>Before the market is configured.\<close>

definition market_start :: "sys \<Rightarrow> bool" where
  "market_start s \<longleftrightarrow> powerup_st s = None \<and> powerup_orders s = no_rows"

lemma market_start_books:
  "market_start s \<Longrightarrow> market_books (\<lambda>a. total_of ur_net_weight a s) (\<lambda>a. total_of ur_cpu_weight a s) s \<and> clock s = 0"
  by (simp add: market_start_def market_books_def market_ok_def orders_ok_def market_share_def owned_def unsold_def clock_def)

lemma history_market:
  assumes "list_all powerup_admissible as" and "sorted (map second_of as)"
    and "\<And>n. small_market (run powerup_step (take n as) s0)" and "market_start s0"
  shows "market_books (\<lambda>a. total_of ur_net_weight a s0) (\<lambda>a. total_of ur_cpu_weight a s0) (run powerup_step as s0) \<and>
    (\<forall>t \<ge> 0. (\<forall>a \<in> set as. second_of a \<le> t) \<longrightarrow> clock (run powerup_step as s0) \<le> t)"
  using assms(1-3)
proof (induction as rule: rev_induct)
  case Nil
  then show ?case using market_start_books [OF assms(4)] by simp
next
  case (snoc a as)
  let ?s = "run powerup_step as s0"
  have "small_market (run powerup_step (take n as) s0)" for n
    using snoc.prems(3) [of "min n (length as)"] by (cases "n \<le> length as") (simp_all add: min_def)
  then have ih: "market_books (\<lambda>a. total_of ur_net_weight a s0) (\<lambda>a. total_of ur_cpu_weight a s0) ?s"
    "\<And>t. 0 \<le> t \<Longrightarrow> (\<forall>a \<in> set as. second_of a \<le> t) \<Longrightarrow> clock ?s \<le> t"
    using snoc.IH snoc.prems by (simp_all add: sorted_append)
  have pos: "0 \<le> second_of a" by (simp add: second_of_def seconds_of_def)
  have time: "clock ?s \<le> second_of a" by (rule ih(2) [OF pos]) (use snoc.prems(2) in \<open>simp add: sorted_append\<close>)
  show ?case
  proof (cases "powerup_step a ?s")
    case (Inl e)
    then show ?thesis using ih by (simp add: run_append)
  next
    case (Inr s')
    have "small_market s'" using snoc.prems(3) [of "length (as @ [a])"] Inr by (simp add: run_append)
    from powerup_step_books [OF _ ih(1) time Inr this] show ?thesis
      using snoc.prems(1) Inr by (simp add: run_append)
  qed
qed

section \<open>Properties\<close>

text \<open>
  C38: the market sells nothing it does not have, and keeps its books: after every history of configurations, sales
  and executions of the queue the utilization of each resource is the sum of what the orders hold, it is at most
  the weight, the adjusted utilization lies between 0 and the weight, and the total of every account is what it
  was before, plus its orders, plus, for \<open>eosio.reserv\<close>, the weight that is not sold (at the width of the field).
  Assumed: the toolkit behaves as documented, time does not run backwards, time stamps fit into their 32 bits,
  and no configuration makes the weight reach \<open>2 ^ 62\<close>.
\<close>

theorem market_is_sound:
  assumes "list_all powerup_admissible as" and "sorted (map second_of as)"
    and "\<And>n. small_market (run powerup_step (take n as) s0)" and "market_start s0" and "s = run powerup_step as s0"
  shows "(case powerup_st s of None \<Rightarrow> powerup_orders s = no_rows
      | Some st \<Rightarrow> (\<forall>(r, w) \<in> {(ps_net st, po_net_weight), (ps_cpu st, po_cpu_weight)}.
          utilization r = (\<Sum>(i, order) \<leftarrow> rows (powerup_orders s). w order) \<and>
          0 \<le> utilization r \<and> utilization r \<le> weight r \<and> 0 \<le> adjusted_utilization r \<and> adjusted_utilization r \<le> weight r)) \<and>
    (\<forall>a. i64 (total_of ur_net_weight a s) =
        i64 (total_of ur_net_weight a s0 + (owned po_net_weight a s + (if a = reserve_account then unsold ps_net po_net_weight s else 0))) \<and>
      i64 (total_of ur_cpu_weight a s) =
        i64 (total_of ur_cpu_weight a s0 + (owned po_cpu_weight a s + (if a = reserve_account then unsold ps_cpu po_cpu_weight s else 0))))"
proof -
  have inv: "market_books (\<lambda>a. total_of ur_net_weight a s0) (\<lambda>a. total_of ur_cpu_weight a s0) s"
    unfolding assms(5) by (rule conjunct1 [OF history_market [OF assms(1-4)]])
  have "case powerup_st s of None \<Rightarrow> powerup_orders s = no_rows
      | Some st \<Rightarrow> (\<forall>(r, w) \<in> {(ps_net st, po_net_weight), (ps_cpu st, po_cpu_weight)}.
          utilization r = (\<Sum>(i, order) \<leftarrow> rows (powerup_orders s). w order) \<and>
          0 \<le> utilization r \<and> utilization r \<le> weight r \<and> 0 \<le> adjusted_utilization r \<and> adjusted_utilization r \<le> weight r)"
  proof (cases "powerup_st s")
    case None
    then show ?thesis using inv by (simp add: market_books_def market_ok_def)
  next
    case (Some st)
    then have "resource_ok (sold po_net_weight s) (ps_net st)" "resource_ok (sold po_cpu_weight s) (ps_cpu st)"
      using inv by (simp_all add: market_books_def market_ok_def)
    then show ?thesis unfolding resource_ok_def sold_def sum_rows_def Some by simp
  qed
  moreover note inv [unfolded market_books_def market_share_def]
  ultimately show ?thesis by blast
qed

text \<open>
  C39: what \<open>powerup\<close> sells: with the payer's signature, for the configured number of days, and at most the whole of
  each resource, the receiver gets an order for \<open>net_frac\<close> and \<open>cpu_frac\<close> of \<open>10 ^ 15\<close> of the two weights (rounded
  down) that expires after that many days (as far as these fit the code's 64-bit microseconds); the payer pays at least the minimum fee and at most \<open>max_payment\<close> in the
  core symbol to \<open>eosio.fees\<close>, and nothing else is sent but the report; of the queue only expired orders leave,
  and at most two. Assumed as in \<open>market_is_sound\<close>.
\<close>

theorem powerup_sells:
  assumes "list_all powerup_admissible as" and "sorted (map second_of as)"
    and "\<And>n. small_market (run powerup_step (take n as) s0)" and "market_start s0" and "s = run powerup_step as s0"
    and "asset_library (ctx_lib c)" and "\<And>a. a \<in> set as \<Longrightarrow> second_of a \<le> seconds_of (ctx_now c)"
    and "powerup c payer receiver days nf cf maxp s = Inr s'" and "small_market s'"
  shows "has_auth c payer \<and>
    (0 \<le> days \<and> days \<le> 106700000 \<longrightarrow>
      order_expiry (seconds_of (ctx_now c)) days = u32 (seconds_of (ctx_now c) + days * 86400)) \<and>
    (\<exists>st st' fee i t net cpu. powerup_st s = Some st \<and> powerup_st s' = Some st' \<and> days = powerup_days st \<and>
      0 \<le> nf \<and> nf \<le> 10 ^ 15 \<and> 0 \<le> cf \<and> cf \<le> 10 ^ 15 \<and>
      net = (nf * weight (ps_net st')) div 10 ^ 15 \<and> cpu = (cf * weight (ps_cpu st')) div 10 ^ 15 \<and>
      core_symbol s = Inr (asset_symbol fee) \<and> asset_symbol maxp = asset_symbol fee \<and>
      amount (min_powerup_fee st) \<le> amount fee \<and> amount fee \<le> amount maxp \<and>
      outbox s' = outbox s @
        [\<lparr>in_auths = [(payer, active_permission)], in_call = Token_call (Transfer payer fees_account fee
           (''powerup fee from '' @ name_to_string (ctx_lib c) payer))\<rparr>,
         \<lparr>in_auths = [], in_call = Powup_result fee net cpu\<rparr>] \<and>
      powerup_orders s' = put i payer (new_order i receiver net cpu (order_expiry (seconds_of (ctx_now c)) days)) t \<and>
      find_row t i = None \<and>
      by_expires t = drop (min 2 (length (expired (seconds_of (ctx_now c)) (powerup_orders s)))) (by_expires (powerup_orders s)))"
proof -
  let ?now = "seconds_of (ctx_now c)"
  note h = history_market [OF assms(1-4), folded assms(5)]
  have "0 \<le> ?now" by (simp add: seconds_of_def)
  then have time: "clock s \<le> ?now" using h assms(7) by blast
  obtain core where core: "core_symbol s = Inr core"
    using assms(8) by (cases "core_symbol s") (auto simp: powerup_def Let_def)
  have frac: "powerup_frac = 10 ^ 15" by (simp add: powerup_frac_def)
  have expiry: "0 \<le> days \<and> days \<le> 106700000 \<longrightarrow> order_expiry ?now days = u32 (?now + days * 86400)"
    by (intro impI order_expiry_days) (simp_all only: seconds_of_def u_ranges)
  show ?thesis
  proof (rule asset_library.powerup_effect [OF assms(6) assms(8) refl conjunct1 [OF h] time assms(9) core], goal_cases)
    case (1 st st' fee i t)
    note sale = 1 [unfolded frac]
    have bounds: "0 \<le> nf" "nf \<le> 10 ^ 15" "0 \<le> cf" "cf \<le> 10 ^ 15" using sale(5) by blast+
    have symbols: "core_symbol s = Inr (asset_symbol fee)" "asset_symbol maxp = asset_symbol fee" using core sale(6,7) by simp_all
    show ?thesis
      by (intro conjI exI) (rule sale bounds symbols refl expiry)+
  qed
qed

text \<open>
  C40: expired orders are given back: after every history, whoever signs \<open>powerupexec\<close> makes it succeed, at any later
  time; it removes the first expired orders, at most as many as asked for, and sends nothing; when no more than
  that many have expired, every order that is left expires later. Assumed, beside what \<open>market_is_sound\<close>
  assumes: the resources of \<open>eosio.reserv\<close> are not managed by hand, the totals fit their width and were at most \<open>2 ^ 62\<close>
  before the market, the weights that the configuration leads to stay below \<open>2 ^ 62\<close>, and \<open>exp\<close> returns a number
  between 0 and 1, as it does for arguments that are not positive.
\<close>

theorem expired_orders_are_returned:
  assumes "list_all powerup_admissible as" and "sorted (map second_of as)"
    and "\<And>n. small_market (run powerup_step (take n as) s0)" and "market_start s0" and "s = run powerup_step as s0"
    and "asset_library (ctx_lib c)" and "\<And>a. a \<in> set as \<Longrightarrow> second_of a \<le> seconds_of (ctx_now c)"
    and "has_auth c user" and "powerup_st s = Some st" and "core_symbol s = Inr core" and "symbol_valid (ctx_lib c) core"
    and "\<not> managed s reserve_account net_managed" and "\<not> managed s reserve_account cpu_managed"
    and "\<And>a. 0 \<le> total_of ur_net_weight a s0 \<and> total_of ur_net_weight a s0 \<le> 2 ^ 62 \<and>
      0 \<le> total_of ur_cpu_weight a s0 \<and> total_of ur_cpu_weight a s0 \<le> 2 ^ 62"
    and "\<And>a. in_i64 (total_of ur_net_weight a s) \<and> in_i64 (total_of ur_cpu_weight a s)"
    and "weight_val (seconds_of (ctx_now c)) (ps_net st) < 2 ^ 62" and "weight_val (seconds_of (ctx_now c)) (ps_cpu st) < 2 ^ 62"
    and "\<And>x. \<exists>y. math_exp (ctx_math c) x = Fin y \<and> 0 \<le> y \<and> y \<le> 1"
  shows "\<exists>s'. powerupexec c user n s = Inr s' \<and> outbox s' = outbox s \<and>
    by_expires (powerup_orders s') =
      drop (min n (length (expired (seconds_of (ctx_now c)) (powerup_orders s)))) (by_expires (powerup_orders s)) \<and>
    (length (expired (seconds_of (ctx_now c)) (powerup_orders s)) \<le> n \<longrightarrow>
      (\<forall>i order. find_row (powerup_orders s') i = Some order \<longrightarrow> seconds_of (ctx_now c) < po_expires order))"
proof -
  let ?now = "seconds_of (ctx_now c)"
  note h = history_market [OF assms(1-4), folded assms(5)]
  have "0 \<le> ?now" by (simp add: seconds_of_def)
  then have time: "clock s \<le> ?now" using h assms(7) by blast
  obtain s' where run: "powerupexec c user n s = Inr s'"
    using asset_library.exec_succeeds [OF assms(6) refl assms(10,11,8,9) conjunct1 [OF h] time assms(12-18)] by blast
  note e = asset_library.exec_effect [OF assms(6) run refl conjunct1 [OF h] time]
  then show ?thesis using run rest_is_later [of ?now "powerup_orders s" n] by blast
qed

section \<open>Witnesses\<close>

text \<open>
  Both resources have a weight of 1024 and a price of 64 for the whole of it. Account 1 buys one half of the
  network weight for account 2, for a day and 32 units, and two days later has the queue executed.
\<close>

definition market_ctx :: "name \<Rightarrow> int \<Rightarrow> ctx" where
  "market_ctx w t = (sample_ctx 9 [w])\<lparr>ctx_now := t * 1000000\<rparr>"

definition sample_cfg_resource :: powerup_config_resource where
  "sample_cfg_resource = \<lparr>cfg_current_weight_ratio = Some (powerup_frac div 2), cfg_target_weight_ratio = Some (powerup_frac div 2),
     cfg_assumed_stake_weight = Some 1024, cfg_target_timestamp = None, cfg_exponent = Some (Fin 1), cfg_decay_secs = None,
     cfg_min_price = Some (wax_asset 64), cfg_max_price = Some (wax_asset 64)\<rparr>"

definition sample_cfg :: powerup_config where
  "sample_cfg = \<lparr>cfg_net = sample_cfg_resource, cfg_cpu = sample_cfg_resource, cfg_powerup_days = Some 1,
     cfg_min_powerup_fee = Some (wax_asset 1)\<rparr>"

lemma market_ctx_simps [simp]:
  "ctx_lib (market_ctx w t) = std_cdt" "ctx_self (market_ctx w t) = 9"
  "ctx_math (market_ctx w t) = std_libm" "ctx_is_account (market_ctx w t) a" "has_auth (market_ctx w t) v \<longleftrightarrow> v = w"
  by (auto simp: market_ctx_def sample_ctx_def has_auth_def)

lemma seconds_of_market [simp]: "0 \<le> t \<Longrightarrow> t < 2 ^ 32 \<Longrightarrow> seconds_of (ctx_now (market_ctx w t)) = t"
  by (simp add: market_ctx_def seconds_of_def sdiv_nonneg)

definition sample_resource :: "int \<Rightarrow> int \<Rightarrow> int \<Rightarrow> powerup_state_resource" where
  "sample_resource u a t = \<lparr>weight = 1024, weight_ratio = powerup_frac div 2, assumed_stake_weight = 1024,
     initial_weight_ratio = powerup_frac div 2, target_weight_ratio = powerup_frac div 2, initial_timestamp = 0, target_timestamp = 0,
     pw_exponent = Fin 1, decay_secs = seconds_per_day, min_price = wax_asset 64, max_price = wax_asset 64, utilization = u,
     adjusted_utilization = a, utilization_timestamp = t\<rparr>"

definition sample_state :: "powerup_state_resource \<Rightarrow> powerup_state_resource \<Rightarrow> powerup_state" where
  "sample_state net cpu = \<lparr>ps_net = net, ps_cpu = cpu, powerup_days = 1, min_powerup_fee = wax_asset 1\<rparr>"

definition totals_row :: "name \<Rightarrow> int \<Rightarrow> int \<Rightarrow> user_resources" where
  "totals_row a n m = \<lparr>ur_owner = a, ur_net_weight = wax_asset n, ur_cpu_weight = wax_asset m, ur_ram_bytes = 0\<rparr>"

definition market_at :: "(name, user_resources) table \<Rightarrow> (name \<Rightarrow> int \<times> int \<times> int) \<Rightarrow> (int, powerup_order) table \<Rightarrow>
    powerup_state \<Rightarrow> inline_action list \<Rightarrow> sys" where
  "market_at u l t st out = sample_sys\<lparr>userres := u, resource_limits := l, powerup_orders := t, powerup_st := Some st, outbox := out\<rparr>"

lemma market_at_simps [simp]:
  "userres (market_at u l t st out) = u" "powerup_orders (market_at u l t st out) = t"
  "powerup_st (market_at u l t st out) = Some st" "outbox (market_at u l t st out) = out"
  "core_symbol (market_at u l t st out) = Inr wax" "managed (market_at u l t st out) a f = False"
  by (simp_all add: market_at_def core_symbol_def sample_sys_def sample_market_def wax_asset_def managed_def empty_sys_def)

lemma market_at_updates [simp]:
  "(market_at u l t st out)\<lparr>userres := u'\<rparr> = market_at u' l t st out"
  "(market_at u l t st out)\<lparr>resource_limits := l'\<rparr> = market_at u l' t st out"
  "(market_at u l t st out)\<lparr>powerup_orders := t'\<rparr> = market_at u l t' st out"
  "(market_at u l t st out)\<lparr>powerup_st := Some st'\<rparr> = market_at u l t st' out"
  "(market_at u l t st out)\<lparr>outbox := out'\<rparr> = market_at u l t st out'"
  by (simp_all add: market_at_def)

lemma amount_wax: "amount (wax_asset n) = n" "asset_symbol (wax_asset n) = wax"
  by (simp_all add: wax_asset_def)

lemma sample_resource_simps [simp]:
  "weight (sample_resource u a t) = 1024" "utilization (sample_resource u a t) = u" "adjusted_utilization (sample_resource u a t) = a"
  "(sample_resource u a t)\<lparr>adjusted_utilization := b\<rparr> = sample_resource u b t"
  "(sample_resource u a t)\<lparr>utilization := v\<rparr> = sample_resource v a t"
  "t < now \<Longrightarrow> a \<le> u \<Longrightarrow> update_utilization c now (sample_resource u a t) = Inr (sample_resource u u now)"
  "0 \<le> now \<Longrightarrow> update_weight now (sample_resource u a t) d = Inr (sample_resource u a t, i64 d)"
  by (simp_all add: sample_resource_def update_utilization_def update_weight_def ratio_at_def powerup_frac_def)

lemma sample_state_simps [simp]:
  "ps_net (sample_state net cpu) = net" "ps_cpu (sample_state net cpu) = cpu"
  "(sample_state net cpu)\<lparr>ps_net := net'\<rparr> = sample_state net' cpu" "(sample_state net cpu)\<lparr>ps_cpu := cpu'\<rparr> = sample_state net cpu'"
  "powerup_days (sample_state net cpu) = 1" "min_powerup_fee (sample_state net cpu) = wax_asset 1"
  by (simp_all add: sample_state_def)

lemma apply_limits_eq: "apply_limits a row s = s\<lparr>resource_limits := resource_limits (apply_limits a row s)\<rparr>"
  by (simp add: apply_limits_def set_resource_limits_def split: prod.split)

lemma sample_adjust_new:
  assumes "\<And>f. managed s a f = False" and "n \<noteq> 0 \<or> m \<noteq> 0" and
    "find_row (userres s) a = None" "0 \<le> n" "n \<le> max_amount" "0 \<le> m" "m \<le> max_amount"
  shows "\<exists>l. adjust_resources (market_ctx w t) p a wax n m b s =
    Inr (s\<lparr>resource_limits := l, userres := put a p (totals_row a n m) (userres s)\<rparr>)"
proof
  have mk: "mk_asset std_cdt n wax = Some (wax_asset n)" "mk_asset std_cdt m wax = Some (wax_asset m)" and nz: "(n = 0 \<and> m = 0) = False"
    using assms(2,4-7) by (auto simp: std_cdt_simps)
  show "adjust_resources (market_ctx w t) p a wax n m b s =
    Inr (s\<lparr>resource_limits := resource_limits (apply_limits a (totals_row a n m) s), userres := put a p (totals_row a n m) (userres s)\<rparr>)"
    by (subst apply_limits_eq [symmetric])
      (simp add: adjust_resources_def mk nz assms(1,3,4,6) totals_row_def amount_wax ur_is_empty_def keep_row_def)
qed

lemma sample_adjust_old:
  assumes "\<And>f. managed s a f = False" and "n \<noteq> 0 \<or> m \<noteq> 0" and
    "find_row (userres s) a = Some (totals_row a x y)" "in_i64 (x + n)" "in_i64 (y + m)" "0 \<le> x + n" "0 \<le> y + m"
  shows "\<exists>l. adjust_resources (market_ctx w t) p a wax n m b s =
    Inr (s\<lparr>resource_limits := l, userres := keep_row p None (x + n = 0 \<and> y + m = 0) a (totals_row a (x + n) (y + m)) (userres s)\<rparr>)"
proof
  show "adjust_resources (market_ctx w t) p a wax n m b s =
    Inr (s\<lparr>resource_limits := resource_limits (apply_limits a (totals_row a (x + n) (y + m)) s),
      userres := keep_row p None (x + n = 0 \<and> y + m = 0) a (totals_row a (x + n) (y + m)) (userres s)\<rparr>)"
    using assms by (subst apply_limits_eq [symmetric]) (auto simp: adjust_resources_def totals_row_def wax_asset_def ur_is_empty_def in_i64_id)
qed

lemma sample_configure:
  obtains lim where "cfgpowerup (market_ctx 9 0) sample_cfg sample_sys =
    Inr (market_at (put reserve_account 9 (totals_row reserve_account 1024 1024) no_rows) lim no_rows
      (sample_state (sample_resource 0 0 0) (sample_resource 0 0 0)) [])"
proof -
  let ?fresh = "default_resource\<lparr>utilization_timestamp := 0\<rparr>"
  let ?conf = "(sample_resource 0 0 0)\<lparr>weight_ratio := 0, weight := 0\<rparr>"
  have none: "powerup_st sample_sys = None" "userres sample_sys = no_rows" "\<And>a f. managed sample_sys a f = False"
    "powerup_orders sample_sys = no_rows" "outbox sample_sys = []"
    by (simp_all add: sample_sys_def empty_sys_def managed_def)
  have conf: "configure 0 wax ?fresh sample_cfg_resource = Inr ?conf"
    by (simp add: configure_def given_or_def default_resource_def sample_cfg_resource_def sample_resource_def powerup_frac_def fle_def
      wax_asset_def seconds_per_day_def)
  have w: "update_weight 0 ?conf 0 = Inr (sample_resource 0 0 0, 1024)"
    by (simp add: update_weight_def ratio_at_def sample_resource_def powerup_frac_def)
  obtain lim where adj: "adjust_resources (market_ctx 9 0) 9 reserve_account wax 1024 1024 True sample_sys =
      Inr (sample_sys\<lparr>resource_limits := lim, userres := put reserve_account 9 (totals_row reserve_account 1024 1024) (userres sample_sys)\<rparr>)"
    using sample_adjust_new [of sample_sys reserve_account 1024 1024 9 0 9 True] by (auto simp: none max_amount_def)
  show ?thesis
    by (rule that [of lim]) (simp add: cfgpowerup_def current_powerup_state_def Let_def none conf w sample_cfg_def given_or_def
      default_powerup_state_def adj sample_state_def market_at_def is_default_asset_def amount_wax)
qed

lemma half_double: "to_double (1 / 2) = Fin (1 / 2)"
  using to_double_eval [of "- 1" "1 / 2" "2 ^ 52"] by (simp add: power_int_def power_divide)

lemma sample_fee: "calc_powerup_fee (market_ctx w t) (sample_resource 0 0 1) 512 = Inr 32"
  by (simp add: calc_powerup_fee_def price_integral_delta_def sample_resource_def amount_wax half_double std_libm_def fsub_def to_i64_Inr
    in_i64_def)

lemma sample_sell: "sell_share (market_ctx w t) (powerup_frac div 2) 0 (sample_resource 0 0 1) = Inr (512, 32, sample_resource 512 0 1)"
  by (simp add: sell_share_def powerup_frac_def sample_fee [unfolded powerup_frac_def])

definition sample_order :: powerup_order where
  "sample_order = new_order 0 2 512 0 86401"

lemma sample_sale:
  assumes "find_row u reserve_account = Some (totals_row reserve_account 1024 1024)" and "find_row u 2 = None"
  obtains l out where "powerup (market_ctx 1 1) 1 2 1 (powerup_frac div 2) 0 (wax_asset 100)
      (market_at u l0 no_rows (sample_state (sample_resource 0 0 0) (sample_resource 0 0 0)) []) =
    Inr (market_at (modify_row None reserve_account (totals_row reserve_account 512 1024) (put 2 1 (totals_row 2 512 0) u)) l
      (put 0 1 sample_order no_rows) (sample_state (sample_resource 512 0 1) (sample_resource 0 0 1)) out)"
proof -
  let ?c = "market_ctx 1 1" and ?s = "market_at u l0 no_rows (sample_state (sample_resource 0 0 0) (sample_resource 0 0 0)) []"
  have queue: "process_powerup_queue ?c 1 wax (sample_state (sample_resource 0 0 0) (sample_resource 0 0 0)) 2 0 0 ?s =
      Inr (sample_state (sample_resource 0 0 1) (sample_resource 0 0 1), 0, 0, ?s)"
    by (simp add: process_powerup_queue_def eval_nat_numeral by_expires_def)
  let ?st = "sample_state (sample_resource 0 0 0) (sample_resource 0 0 0)" and ?t = "put 0 1 sample_order no_rows"
  have ne: "(2 = reserve_account) = False" "(reserve_account = 2) = False" by (simp_all add: account_values)
  obtain l1 where one: "adjust_resources ?c 1 2 wax 512 0 True (market_at u l0 ?t ?st []) =
      Inr (market_at (put 2 1 (totals_row 2 512 0) u) l1 ?t ?st [])"
    using sample_adjust_new [of "market_at u l0 ?t ?st []" 2 512 0 1 1 1 True] assms(2) by (auto simp: max_amount_def)
  obtain l2 where two: "adjust_resources ?c 9 reserve_account wax (- 512) 0 True (market_at (put 2 1 (totals_row 2 512 0) u) l1 ?t ?st []) =
      Inr (market_at (modify_row None reserve_account (totals_row reserve_account 512 1024) (put 2 1 (totals_row 2 512 0) u)) l2 ?t ?st [])"
    using sample_adjust_old [of "market_at (put 2 1 (totals_row 2 512 0) u) l1 ?t ?st []" reserve_account "- 512" 0 1024 1024 1 1 9 True]
      assms(1) by (auto simp: keep_row_def ne in_i64_def)
  have half: "0 \<le> powerup_frac div 2" "powerup_frac div 2 \<le> powerup_frac" "0 \<le> powerup_frac" by (simp_all add: powerup_frac_def)
  have less: "asset_less std_cdt (wax_asset 100) (wax_asset 32) = Some False" "asset_less std_cdt (wax_asset 32) (wax_asset 1) = Some False"
    by (simp_all add: std_cdt_def wax_asset_def)
  have order: "\<lparr>po_id = 0, po_owner = 2, po_net_weight = 512, po_cpu_weight = 0, po_expires = order_expiry 1 1\<rparr> = sample_order"
    by (simp add: sample_order_def new_order_def order_expiry_days u32_def)
  have zero: "(wax_asset 0)\<lparr>amount := n\<rparr> = wax_asset n" for n by (simp add: wax_asset_def)
  have none: "sell_share ?c 0 f r = Inr (0, f, r)" for f r by (simp add: sell_share_def)
  show ?thesis
    by (rule that [of l2]) (simp add: powerup_def Let_def queue std_cdt_simps sample_sell none amount_wax zero less check_at_least_def
      next_order_id_def order one two half max_amount_def send_token_def)
qed

definition sample_market_actions :: "(ctx \<times> powerup_action) list" where
  "sample_market_actions = [(market_ctx 9 0, Cfgpowerup sample_cfg),
     (market_ctx 1 1, Powerup 1 2 1 (powerup_frac div 2) 0 (wax_asset 100))]"

lemma sample_market_run:
  obtains u1 u2 l1 l2 out where
    "run powerup_step (take 1 sample_market_actions) sample_sys =
       market_at u1 l1 no_rows (sample_state (sample_resource 0 0 0) (sample_resource 0 0 0)) []"
    and "powerup (market_ctx 1 1) 1 2 1 (powerup_frac div 2) 0 (wax_asset 100)
       (run powerup_step (take 1 sample_market_actions) sample_sys) =
       Inr (market_at u2 l2 (put 0 1 sample_order no_rows) (sample_state (sample_resource 512 0 1) (sample_resource 0 0 1)) out)"
    and "run powerup_step sample_market_actions sample_sys =
       market_at u2 l2 (put 0 1 sample_order no_rows) (sample_state (sample_resource 512 0 1) (sample_resource 0 0 1)) out"
    and "\<And>a. find_row u2 a = (if a = reserve_account then Some (totals_row a 512 1024) else if a = 2 then Some (totals_row a 512 0) else None)"
proof -
  let ?u1 = "put reserve_account 9 (totals_row reserve_account 1024 1024) no_rows"
  let ?st = "sample_state (sample_resource 0 0 0) (sample_resource 0 0 0)"
  obtain l1 where one: "cfgpowerup (market_ctx 9 0) sample_cfg sample_sys = Inr (market_at ?u1 l1 no_rows ?st [])"
    by (rule sample_configure)
  have ne: "(2 = reserve_account) = False" "(reserve_account = 2) = False" by (simp_all add: account_values)
  let ?u2 = "modify_row None reserve_account (totals_row reserve_account 512 1024) (put 2 1 (totals_row 2 512 0) ?u1)"
  obtain l2 out where two: "powerup (market_ctx 1 1) 1 2 1 (powerup_frac div 2) 0 (wax_asset 100) (market_at ?u1 l1 no_rows ?st []) =
      Inr (market_at ?u2 l2 (put 0 1 sample_order no_rows) (sample_state (sample_resource 512 0 1) (sample_resource 0 0 1)) out)"
    by (rule sample_sale [of ?u1 l1]) (simp_all add: ne)
  show ?thesis
    by (rule that [of ?u1 l1 ?u2 l2 out]) (simp_all add: sample_market_actions_def one two ne)
qed

lemma sample_market_hyps:
  "list_all powerup_admissible sample_market_actions" "sorted (map second_of sample_market_actions)"
  "market_start sample_sys" "powerup_admissible (market_ctx w t, Powerupexec a n)"
  "x \<in> set sample_market_actions \<Longrightarrow> second_of x \<le> 1"
  by (auto simp: sample_market_actions_def second_of_def market_start_def sample_sys_def empty_sys_def sample_cfg_def
      sample_cfg_resource_def std_library.asset_library_axioms)

lemma sample_small: "small_market (run powerup_step (take n sample_market_actions) sample_sys)"
proof -
  consider "n = 0" | "n = 1" | "n \<ge> 2" by linarith
  then show ?thesis
  proof cases
    case 1
    then show ?thesis by (simp add: small_market_def sample_sys_def empty_sys_def)
  next
    case 2
    then show ?thesis by (rule_tac sample_market_run) (simp add: small_market_def)
  next
    case 3
    then have "take n sample_market_actions = sample_market_actions" by (simp add: sample_market_actions_def)
    then show ?thesis by (rule_tac sample_market_run) (simp add: small_market_def)
  qed
qed

theorem market_is_sound_witness:
  "\<exists>s. s = run powerup_step sample_market_actions sample_sys \<and>
     (\<exists>st. powerup_st s = Some st \<and> utilization (ps_net st) = 512 \<and>
        (\<Sum>(i, order) \<leftarrow> rows (powerup_orders s). po_net_weight order) = 512) \<and>
     i64 (total_of ur_net_weight 2 s) = i64 (owned po_net_weight 2 s) \<and> total_of ur_net_weight 2 s = 512"
proof -
  note h = market_is_sound [OF sample_market_hyps(1,2) sample_small sample_market_hyps(3) refl]
  obtain u l t net cpu out where s: "run powerup_step sample_market_actions sample_sys = market_at u l t (sample_state net cpu) out"
    and net: "utilization net = 512" and u: "find_row u 2 = Some (totals_row 2 512 0)"
    by (rule sample_market_run, rule that, assumption) (simp_all add: account_values)
  have zero: "total_of ur_net_weight 2 sample_sys = 0" "total_of ur_net_weight 2 (market_at u l t (sample_state net cpu) out) = 512"
    by (simp_all add: total_of_def sample_sys_def empty_sys_def u totals_row_def amount_wax)
  have "utilization net = (\<Sum>(i, order) \<leftarrow> rows t. po_net_weight order)" using conjunct1 [OF h] unfolding s by simp
  moreover have "i64 (total_of ur_net_weight 2 (market_at u l t (sample_state net cpu) out)) =
      i64 (owned po_net_weight 2 (market_at u l t (sample_state net cpu) out))"
    using spec [OF conjunct2 [OF h], of 2] unfolding s zero by (simp add: account_values)
  ultimately show ?thesis using net by (intro exI [of _ "market_at u l t (sample_state net cpu) out"]) (simp add: s zero)
qed

theorem powerup_sells_witness:
  "\<exists>s'. powerup (market_ctx 1 1) 1 2 1 (powerup_frac div 2) 0 (wax_asset 100)
       (run powerup_step (take 1 sample_market_actions) sample_sys) = Inr s' \<and>
     (\<exists>fee net cpu. Powup_result fee net cpu = in_call (last (outbox s')) \<and> net = 512 \<and> amount fee \<le> 100)"
proof -
  obtain u1 u2 l1 l2 out where
    s: "run powerup_step (take 1 sample_market_actions) sample_sys =
       market_at u1 l1 no_rows (sample_state (sample_resource 0 0 0) (sample_resource 0 0 0)) []"
    and r: "powerup (market_ctx 1 1) 1 2 1 (powerup_frac div 2) 0 (wax_asset 100)
       (run powerup_step (take 1 sample_market_actions) sample_sys) =
       Inr (market_at u2 l2 (put 0 1 sample_order no_rows) (sample_state (sample_resource 512 0 1) (sample_resource 0 0 1)) out)"
    by (rule sample_market_run, rule that, assumption+)
  let ?s' = "market_at u2 l2 (put 0 1 sample_order no_rows) (sample_state (sample_resource 512 0 1) (sample_resource 0 0 1)) out"
  have p: "list_all powerup_admissible (take 1 sample_market_actions)" "sorted (map second_of (take 1 sample_market_actions))"
    and q: "\<And>n. small_market (run powerup_step (take n (take 1 sample_market_actions)) sample_sys)"
    "\<And>x. x \<in> set (take 1 sample_market_actions) \<Longrightarrow> second_of x \<le> seconds_of (ctx_now (market_ctx 1 1))"
    using sample_market_hyps(1,2) sample_market_hyps(5) sample_small
    by (auto simp: list_all_iff take_map [symmetric] sorted_wrt_take dest: in_set_takeD)
  have lib: "asset_library (ctx_lib (market_ctx 1 1))" and small: "small_market ?s'"
    by (simp_all add: std_library.asset_library_axioms small_market_def)
  show ?thesis
    using powerup_sells [OF p q(1) sample_market_hyps(3) refl lib q(2) r small] r
    by (auto simp: s amount_wax powerup_frac_def)
qed

theorem expired_orders_are_returned_witness:
  "\<exists>s s'. s = run powerup_step sample_market_actions sample_sys \<and> find_row (powerup_orders s) 0 = Some sample_order \<and>
     powerupexec (market_ctx 1 200000) 1 1 s = Inr s' \<and> by_expires (powerup_orders s') = []"
proof -
  obtain u l out where s: "run powerup_step sample_market_actions sample_sys =
       market_at u l (put 0 1 sample_order no_rows) (sample_state (sample_resource 512 0 1) (sample_resource 0 0 1)) out"
    and u: "\<And>a. find_row u a = (if a = reserve_account then Some (totals_row a 512 1024) else if a = 2 then Some (totals_row a 512 0) else None)"
    by (rule sample_market_run, rule that, assumption+)
  let ?s = "market_at u l (put 0 1 sample_order no_rows) (sample_state (sample_resource 512 0 1) (sample_resource 0 0 1)) out"
  have start: "total_of g a sample_sys = 0" for g a by (simp add: total_of_def sample_sys_def empty_sys_def)
  have tot: "in_i64 (total_of ur_net_weight a ?s) \<and> in_i64 (total_of ur_cpu_weight a ?s)" for a
    by (simp add: total_of_def u totals_row_def amount_wax in_i64_def)
  have w: "weight_val 200000 (sample_resource a b d) < 2 ^ 62" for a b d
    by (simp add: weight_val_def ratio_val_def sample_resource_def powerup_frac_def)
  have lib: "asset_library (ctx_lib (market_ctx 1 200000))" "symbol_valid (ctx_lib (market_ctx 1 200000)) wax"
    "has_auth (market_ctx 1 200000) 1" "\<exists>y. math_exp (ctx_math (market_ctx 1 200000)) x = Fin y \<and> 0 \<le> y \<and> y \<le> 1" for x
    by (simp add: std_library.asset_library_axioms) (simp_all add: std_cdt_def wax_def std_libm_def)
  have later: "x \<in> set sample_market_actions \<Longrightarrow> second_of x \<le> seconds_of (ctx_now (market_ctx 1 200000))" for x
    using sample_market_hyps(5) [of x] by simp
  have st: "powerup_st ?s = Some (sample_state (sample_resource 512 0 1) (sample_resource 0 0 1))" "core_symbol ?s = Inr wax"
    "\<not> managed ?s reserve_account f" for f
    by simp_all
  have orders: "by_expires (powerup_orders ?s) = [(0, sample_order)]" "po_expires sample_order = 86401"
    by (simp_all add: by_expires_def sample_order_def new_order_def)
  have "expired 200000 (powerup_orders ?s) = [(0, sample_order)]" unfolding expired_def orders(1) by (simp add: orders(2))
  with expired_orders_are_returned [OF sample_market_hyps(1,2) sample_small sample_market_hyps(3) s [symmetric] lib(1) later lib(3)
      st(1,2) lib(2) st(3,3) _ tot _ _ lib(4), of 1]
  show ?thesis using orders(1) by (auto simp: s start w [simplified])
qed

end
