(* ===== verification/Contract.thy ===== *)
theory Contract
  imports Admin LimitAuth ProducerPay Powerup Ram
begin

text \<open>
  The system contract as a whole: every action that \<open>eosio.system.hpp\<close> and \<open>native.hpp\<close> declare, in their
  order, and one step of the contract. The components model the handlers; here is what an action can be and
  which handler it reaches. Where a constructor has the name of one of a component's own histories, the
  one of this theory is meant.
\<close>

section \<open>The host\<close>

text \<open>What the handlers ask the toolkit and the chain, beside the context of an action.\<close>

record host =
  sha256 :: "bytes \<Rightarrow> bytes"
  accepts_schedule :: "(name \<times> block_signing_authority) list \<Rightarrow> bool"
  authority_valid :: "block_signing_authority \<Rightarrow> bool"

section \<open>Actions\<close>

text \<open>
  An action carries its parameters as the handler reads them; those that read the token contract carry its
  state. \<open>onblock\<close> unpacks three fields of the block header.
\<close>

datatype setup_action =
    Init token_state int symbol
  | Onblock bytes int name
  | Setalimits name int int int
  | Setacctram name "int option"
  | Setacctnet name "int option"
  | Setacctcpu name "int option"
  | Activate bytes

datatype resource_action =
    Delegatebw name name asset asset bool
  | Undelegatebw name name asset asset
  | Removerefund name asset
  | Claimgenesis name
  | Buyram name name asset
  | Buyrambytes name name int
  | Sellram name int
  | Refund name

datatype producer_action =
    Regproducer name bytes string int
  | Regproducer2 name block_signing_authority string int
  | Unregprod name
  | Setram int
  | Setramrate int
  | Voteproducer name name "name list"
  | Regproxy name bool

datatype chain_action =
    Setparams blockchain_parameters "int option"
  | Voterclaim token_state name
  | Wasmcfg name
  | Claimrewards token_state name
  | Claimgbmvote token_state name
  | Claimgbmprod token_state name
  | Setpriv name int
  | Rmvproducer name
  | Updtrevision int

datatype auction_action =
    Bidname name name asset
  | Bidrefund name name

text \<open>
  The native actions. What they do to accounts, permissions and code is the chain's; \<open>authority\<close> and the
  other ignored parameters are not read.
\<close>

datatype native_action =
    Newaccount name name
  | Updateauth name name name "name option"
  | Deleteauth name name "name option"
  | Linkauth name name name name "name option"
  | Unlinkauth name name name "name option"
  | Canceldelay
  | Onerror
  | Setabi name bytes
  | Setcode name int int bytes

datatype system_action =
    Setup setup_action
  | Resource resource_action
  | Producer producer_action
  | Chain chain_action
  | Auction auction_action
  | Worker wps_action
  | Power powerup_action
  | Guard limit_action
  | Native native_action

section \<open>Steps\<close>

fun setup_step :: "host \<Rightarrow> ctx \<Rightarrow> setup_action \<Rightarrow> sys \<Rightarrow> sys result" where
  "setup_step h c (Init tok version core) s = init c tok version core s"
| "setup_step h c (Onblock previous timestamp producer) s = onblock (accepts_schedule h) c previous timestamp producer s"
| "setup_step h c (Setalimits account ram net cpu) s = setalimits c account ram net cpu s"
| "setup_step h c (Setacctram account x) s = setacctram c account x s"
| "setup_step h c (Setacctnet account x) s = setacctnet c account x s"
| "setup_step h c (Setacctcpu account x) s = setacctcpu c account x s"
| "setup_step h c (Activate digest) s = activate c digest s"

fun resource_step :: "ctx \<Rightarrow> resource_action \<Rightarrow> sys \<Rightarrow> sys result" where
  "resource_step c (Delegatebw f r n p t) s = delegatebw c f r n p t s"
| "resource_step c (Undelegatebw f r n p) s = undelegatebw c f r n p s"
| "resource_step c (Removerefund w q) s = removerefund c w q s"
| "resource_step c (Claimgenesis w) s = claimgenesis c w s"
| "resource_step c (Buyram p r q) s = buyram c p r q s"
| "resource_step c (Buyrambytes p r b) s = buyrambytes c p r b s"
| "resource_step c (Sellram w b) s = sellram c w b s"
| "resource_step c (Refund w) s = refund c w s"

fun producer_step :: "host \<Rightarrow> ctx \<Rightarrow> producer_action \<Rightarrow> sys \<Rightarrow> sys result" where
  "producer_step h c (Regproducer w k u l) s = regproducer c w k u l s"
| "producer_step h c (Regproducer2 w a u l) s = regproducer2 (authority_valid h) c w a u l s"
| "producer_step h c (Unregprod w) s = unregprod c w s"
| "producer_step h c (Setram n) s = setram c n s"
| "producer_step h c (Setramrate r) s = setramrate c r s"
| "producer_step h c (Voteproducer w p ps) s = voteproducer c w p ps s"
| "producer_step h c (Regproxy w b) s = regproxy c w b s"

fun chain_step :: "ctx \<Rightarrow> chain_action \<Rightarrow> sys \<Rightarrow> sys result" where
  "chain_step c (Setparams p v) s = setparams c p v s"
| "chain_step c (Voterclaim tok w) s = voterclaim c tok w s"
| "chain_step c (Wasmcfg settings) s = wasmcfg c settings s"
| "chain_step c (Claimrewards tok w) s = claimrewards c tok w s"
| "chain_step c (Claimgbmvote tok w) s = claimgbmvote c tok w s"
| "chain_step c (Claimgbmprod tok w) s = claimgbmprod c tok w s"
| "chain_step c (Setpriv w b) s = setpriv c w b s"
| "chain_step c (Rmvproducer w) s = rmvproducer c w s"
| "chain_step c (Updtrevision r) s = updtrevision c r s"

fun auction_step :: "ctx \<Rightarrow> auction_action \<Rightarrow> sys \<Rightarrow> sys result" where
  "auction_step c (Bidname b n q) s = bidname c b n q s"
| "auction_step c (Bidrefund b n) s = bidrefund c b n s"

text \<open>The chain reports a failed deferred transaction by this notification; as an action it fails.\<close>

definition onerror :: "sys \<Rightarrow> sys result" where
  "onerror s = check False ''the onerror action cannot be called directly'' (Inr s)"

text \<open>An action that only asks whether it may run leaves the state as it is.\<close>

definition allowed :: "unit result \<Rightarrow> sys \<Rightarrow> sys result" where
  "allowed r s = bind_result r (\<lambda>_. Inr s)"

fun native_step :: "host \<Rightarrow> ctx \<Rightarrow> native_action \<Rightarrow> sys \<Rightarrow> sys result" where
  "native_step h c (Newaccount creator n) s = newaccount c creator n s"
| "native_step h c (Updateauth w p parent au) s = allowed (updateauth c w p parent () au (limitauth s)) s"
| "native_step h c (Deleteauth w p au) s = allowed (deleteauth c w p au (limitauth s)) s"
| "native_step h c (Linkauth w code t r au) s = allowed (linkauth c w code t r au (limitauth s)) s"
| "native_step h c (Unlinkauth w code t au) s = allowed (unlinkauth c w code t au (limitauth s)) s"
| "native_step h c Canceldelay s = Inr s"
| "native_step h c Onerror s = onerror s"
| "native_step h c (Setabi w abi) s = Inr (setabi (sha256 h) w abi s)"
| "native_step h c (Setcode w vmtype vmversion code) s = Inr s"

fun system_step :: "host \<Rightarrow> ctx \<times> system_action \<Rightarrow> sys \<Rightarrow> sys result" where
  "system_step h (c, Setup a) s = setup_step h c a s"
| "system_step h (c, Resource a) s = resource_step c a s"
| "system_step h (c, Producer a) s = producer_step h c a s"
| "system_step h (c, Chain a) s = chain_step c a s"
| "system_step h (c, Auction a) s = auction_step c a s"
| "system_step h (c, Worker a) s = wps_step (c, a) s"
| "system_step h (c, Power a) s = powerup_step (c, a) s"
| "system_step h (c, Guard a) s = bind_result (limit_step (c, a) (limitauth s)) (\<lambda>t. Inr (s\<lparr>limitauth := t\<rparr>))"
| "system_step h (c, Native a) s = native_step h c a s"

end
