(* ===== verification/ContractFrames.thy ===== *)
theory ContractFrames
  imports Contract StakeLemmas PayLemmas WpsLemmas PowerupBooks
begin

text \<open>
  What every action of the contract leaves alone. An action may send messages, each of them authorised; the
  RAM market and its counters change only by the actions on RAM; the power-up market only by its own; and
  what an account has beyond what was delegated to it only by a power-up. Two locales carry the walk through the
  actions: \<open>quiet_frame\<close>, which \<open>worker_frame\<close> extends, for those that only touch tables of their own, and
  \<open>market_frame\<close> for those of the market.
\<close>

section \<open>Messages\<close>

text \<open>The accounts that the contract holds tokens in.\<close>

definition own_accounts :: "ctx \<Rightarrow> name list" where
  "own_accounts c = [ctx_self c, ram_account, stake_account, bpay_account, names_account, saving_account,
     voters_account, genesis_account, fees_account]"

text \<open>Who spends tokens signed the action, or is the contract's own account; only the contract issues and retires.\<close>

definition spender_ok :: "ctx \<Rightarrow> permission_level list \<Rightarrow> name \<Rightarrow> bool" where
  "spender_ok c auths w \<longleftrightarrow> List.member auths (w, active_permission) \<and> (has_auth c w \<or> List.member (own_accounts c) w)"

fun authorised_call :: "ctx \<Rightarrow> permission_level list \<Rightarrow> inline_call \<Rightarrow> bool" where
  "authorised_call c auths (Token_call (Transfer f t q memo)) = spender_ok c auths f"
| "authorised_call c auths (Token_call (Issue to q memo)) = spender_ok c auths (ctx_self c)"
| "authorised_call c auths (Token_call (Retire q memo)) = spender_ok c auths (ctx_self c)"
| "authorised_call c auths (Token_call _) = False"
| "authorised_call c auths (Powup_result fee n p) = (auths = [])"

definition authorised :: "ctx \<Rightarrow> inline_action \<Rightarrow> bool" where
  "authorised c m = authorised_call c (in_auths m) (in_call m)"

definition sends :: "ctx \<Rightarrow> sys \<Rightarrow> sys \<Rightarrow> bool" where
  "sends c s s' \<longleftrightarrow> (\<exists>ms. outbox s' = outbox s @ ms \<and> list_all (authorised c) ms)"

lemma sends_refl: "outbox s' = outbox s \<Longrightarrow> sends c s s'"
  unfolding sends_def by (rule exI [of _ "[]"]) simp

lemma sends_more: "sends c s t \<Longrightarrow> outbox u = outbox t @ ms \<Longrightarrow> list_all (authorised c) ms \<Longrightarrow> sends c s u"
  unfolding sends_def by (elim exE, rule exI) auto

lemma sends_trans: "sends c s t \<Longrightarrow> sends c t u \<Longrightarrow> sends c s u"
  unfolding sends_def by (elim exE, rule exI) auto

section \<open>Views\<close>

text \<open>The books of RAM, and what the totals are beyond the delegated stake (at the width of the field).\<close>

definition ram_view :: "sys \<Rightarrow> exchange_state option \<times> int \<times> int \<times> int" where
  "ram_view s = (rammarket s, max_ram_size (gs s), total_ram_bytes_reserved (gs s), owned_ram s)"

definition net_gap :: "name \<Rightarrow> sys \<Rightarrow> int" where
  "net_gap a s = i64 (total_of ur_net_weight a s - net_staked_to a s)"

definition cpu_gap :: "name \<Rightarrow> sys \<Rightarrow> int" where
  "cpu_gap a s = i64 (total_of ur_cpu_weight a s - cpu_staked_to a s)"

definition power_view :: "sys \<Rightarrow> powerup_state option \<times> (int, powerup_order) table \<times> (name \<Rightarrow> int) \<times> (name \<Rightarrow> int)" where
  "power_view s = (powerup_st s, powerup_orders s, \<lambda>a. net_gap a s, \<lambda>a. cpu_gap a s)"

text \<open>The weights on record are 64-bit numbers.\<close>

definition weights_typed :: "sys \<Rightarrow> bool" where
  "weights_typed s \<longleftrightarrow>
     all_rows (\<lambda>k d. in_i64 (amount (db_net_weight d)) \<and> in_i64 (amount (db_cpu_weight d))) (delband s) \<and>
     all_rows (\<lambda>k r. in_i64 (amount (ur_net_weight r)) \<and> in_i64 (amount (ur_cpu_weight r))) (userres s)"

definition calm :: "ctx \<Rightarrow> sys \<Rightarrow> sys \<Rightarrow> bool" where
  "calm c s s' \<longleftrightarrow> sends c s s' \<and> ram_view s' = ram_view s \<and> power_view s' = power_view s \<and>
     (weights_typed s \<longrightarrow> weights_typed s')"

lemma calm_trans: "calm c s t \<Longrightarrow> calm c t u \<Longrightarrow> calm c s u"
  by (auto simp: calm_def intro: sends_trans)

text \<open>The holdings of \<open>VotingLemmas\<close> decide all of it.\<close>

lemma calm_holdings:
  assumes "holdings s' = holdings s"
  shows "calm c s s'"
  using holdingsD [OF assms]
  by (simp add: calm_def ram_view_def power_view_def owned_ram_def net_gap_def cpu_gap_def total_of_def
      net_staked_to_def cpu_staked_to_def weights_typed_def sends_refl)

lemmas calm_unfold = calm_def sends_def ram_view_def power_view_def owned_ram_def net_gap_def cpu_gap_def total_of_def
  net_staked_to_def cpu_staked_to_def weights_typed_def

lemma calm_updates [simp]:
  "calm c s (t\<lparr>gs2 := a2\<rparr>) = calm c s t" "calm c s (t\<lparr>gs3 := a3\<rparr>) = calm c s t"
  "calm c s (t\<lparr>wps_total_stake := a4\<rparr>) = calm c s t" "calm c s (t\<lparr>voters := a5\<rparr>) = calm c s t"
  "calm c s (t\<lparr>wpsvoters := a6\<rparr>) = calm c s t" "calm c s (t\<lparr>producers := a7\<rparr>) = calm c s t"
  "calm c s (t\<lparr>producers2 := a8\<rparr>) = calm c s t" "calm c s (t\<lparr>proposers := a9\<rparr>) = calm c s t"
  "calm c s (t\<lparr>proposals := b1\<rparr>) = calm c s t" "calm c s (t\<lparr>committees := b2\<rparr>) = calm c s t"
  "calm c s (t\<lparr>reviewers := b3\<rparr>) = calm c s t" "calm c s (t\<lparr>wps_env := b4\<rparr>) = calm c s t"
  "calm c s (t\<lparr>refunds := b5\<rparr>) = calm c s t" "calm c s (t\<lparr>genesis := b6\<rparr>) = calm c s t"
  "calm c s (t\<lparr>namebids := b7\<rparr>) = calm c s t" "calm c s (t\<lparr>bidrefunds := b8\<rparr>) = calm c s t"
  "calm c s (t\<lparr>abihash := b9\<rparr>) = calm c s t" "calm c s (t\<lparr>limitauth := d1\<rparr>) = calm c s t"
  "calm c s (t\<lparr>blockinfo := d2\<rparr>) = calm c s t" "calm c s (t\<lparr>resource_limits := d3\<rparr>) = calm c s t"
  "calm c s (t\<lparr>host_calls := d4\<rparr>) = calm c s t"
  by (simp_all add: calm_unfold)

lemma calm_gs [simp]:
  "max_ram_size a = max_ram_size (gs t) \<Longrightarrow> total_ram_bytes_reserved a = total_ram_bytes_reserved (gs t) \<Longrightarrow>
   calm c s (t\<lparr>gs := a\<rparr>) = calm c s t"
  by (simp add: calm_unfold)

lemma calm_send [simp]:
  assumes "authorised_call c auths (Token_call a)" and "calm c s t"
  shows "calm c s (send_token auths a t)"
proof -
  have "sends c s (send_token auths a t)"
    by (rule sends_more [where t = t and ms = "[\<lparr>in_auths = auths, in_call = Token_call a\<rparr>]"]) (use assms in \<open>simp_all add: calm_def send_token_def authorised_def\<close>)
  then show ?thesis using assms(2) by (simp add: calm_unfold send_token_def)
qed

lemma own_account [simp]:
  "spender_ok c [(ctx_self c, active_permission)] (ctx_self c)"
  "spender_ok c ((ram_account, active_permission) # auths) ram_account" "spender_ok c ((stake_account, active_permission) # auths) stake_account"
  "spender_ok c ((bpay_account, active_permission) # auths) bpay_account" "spender_ok c ((names_account, active_permission) # auths) names_account"
  "spender_ok c ((saving_account, active_permission) # auths) saving_account" "spender_ok c ((voters_account, active_permission) # auths) voters_account"
  "spender_ok c ((genesis_account, active_permission) # auths) genesis_account" "spender_ok c ((fees_account, active_permission) # auths) fees_account"
  "has_auth c w \<Longrightarrow> spender_ok c ((w, active_permission) # auths) w"
  by (simp_all add: spender_ok_def own_accounts_def)

section \<open>Quiet actions\<close>

text \<open>
  Most actions change neither stakes, nor RAM, nor the market of resources. What such an action may do is a contract
  of its own: \<open>F\<close> relates the states before and after it, \<open>may\<close> says which messages it may send. Whatever \<open>F\<close> is, if
  it is kept by updates of the tables these actions write and by messages that their signers and the contract's
  paying accounts may send, it holds of all of them.
\<close>

definition quiet_action :: "system_action \<Rightarrow> bool" where
  "quiet_action a \<longleftrightarrow>
     (case a of
        Setup b \<Rightarrow> (case b of Init tok v core \<Rightarrow> False | _ \<Rightarrow> True)
      | Resource b \<Rightarrow> (case b of Claimgenesis w \<Rightarrow> True | _ \<Rightarrow> False)
      | Producer b \<Rightarrow> (case b of Setram n \<Rightarrow> False | Setramrate r \<Rightarrow> False | _ \<Rightarrow> True)
      | Power b \<Rightarrow> False
      | _ \<Rightarrow> True)"

definition paying_accounts :: "ctx \<Rightarrow> name list" where
  "paying_accounts c = [ctx_self c, ram_account, bpay_account, names_account, saving_account, voters_account,
     genesis_account, fees_account]"

locale quiet_frame =
  fixes F :: "ctx \<Rightarrow> sys \<Rightarrow> sys \<Rightarrow> bool" and may :: "ctx \<Rightarrow> permission_level list \<Rightarrow> token_action \<Rightarrow> bool"
  assumes F_trans: "F c s t \<Longrightarrow> F c t u \<Longrightarrow> F c s u"
    and F_refl [simp]: "F c s s"
    and F_votes: "update_votes c w p ps b s = Inr s' \<Longrightarrow> F c s s'"
    and F_proxies: "regproxy c w b s = Inr s' \<Longrightarrow> F c s s'"
    and F_updates [simp]: "F c s (t\<lparr>gs2 := a2\<rparr>) = F c s t" "F c s (t\<lparr>gs3 := a3\<rparr>) = F c s t"
      "F c s (t\<lparr>wps_total_stake := a4\<rparr>) = F c s t" "F c s (t\<lparr>voters := a5\<rparr>) = F c s t"
      "F c s (t\<lparr>wpsvoters := a6\<rparr>) = F c s t" "F c s (t\<lparr>producers := a7\<rparr>) = F c s t"
      "F c s (t\<lparr>producers2 := a8\<rparr>) = F c s t" "F c s (t\<lparr>proposers := a9\<rparr>) = F c s t"
      "F c s (t\<lparr>committees := b2\<rparr>) = F c s t"
      "F c s (t\<lparr>reviewers := b3\<rparr>) = F c s t" "F c s (t\<lparr>wps_env := b4\<rparr>) = F c s t"
      "F c s (t\<lparr>genesis := b6\<rparr>) = F c s t" "F c s (t\<lparr>namebids := b7\<rparr>) = F c s t"
      "F c s (t\<lparr>bidrefunds := b8\<rparr>) = F c s t" "F c s (t\<lparr>abihash := b9\<rparr>) = F c s t"
      "F c s (t\<lparr>limitauth := d1\<rparr>) = F c s t" "F c s (t\<lparr>blockinfo := d2\<rparr>) = F c s t"
      "F c s (t\<lparr>resource_limits := d3\<rparr>) = F c s t" "F c s (t\<lparr>host_calls := d4\<rparr>) = F c s t"
    and F_gs [simp]: "max_ram_size g = max_ram_size (gs t) \<Longrightarrow> total_ram_bytes_reserved g = total_ram_bytes_reserved (gs t) \<Longrightarrow>
      F c s (t\<lparr>gs := g\<rparr>) = F c s t"
    and F_send [simp]: "may c auths x \<Longrightarrow> F c s t \<Longrightarrow> F c s (send_token auths x t)"
    and new_account: "find_row (userres s) n = None \<Longrightarrow> amount zero = 0 \<Longrightarrow>
      F c s (s\<lparr>userres := put n n \<lparr>ur_owner = n, ur_net_weight = zero, ur_cpu_weight = zero, ur_ram_bytes = 0\<rparr> (userres s)\<rparr>)"
    and may_sign [simp]: "has_auth c w \<Longrightarrow> may c ((w, active_permission) # auths) (Transfer w r q m)"
    and may_pay: "List.member (paying_accounts c) w \<Longrightarrow> may c ((w, active_permission) # auths) (Transfer w r q m)"
    and may_issue [simp]: "may c [(ctx_self c, active_permission)] (Issue (ctx_self c) q m)"
      "may c [(ctx_self c, active_permission)] (Retire q m)"
begin

lemma own_payments [simp]:
  "may c ((ctx_self c, active_permission) # auths) (Transfer (ctx_self c) t q m)"
  "may c ((ram_account, active_permission) # auths) (Transfer ram_account t q m)"
  "may c ((bpay_account, active_permission) # auths) (Transfer bpay_account t q m)"
  "may c ((names_account, active_permission) # auths) (Transfer names_account t q m)"
  "may c ((saving_account, active_permission) # auths) (Transfer saving_account t q m)"
  "may c ((voters_account, active_permission) # auths) (Transfer voters_account t q m)"
  "may c ((genesis_account, active_permission) # auths) (Transfer genesis_account t q m)"
  "may c ((fees_account, active_permission) # auths) (Transfer fees_account t q m)"
  by (rule may_pay, simp add: paying_accounts_def)+

lemma F_host [simp]: "F c s (call_host h t) = F c s t" "F c s (set_resource_limits a r n p t) = F c s t"
  by (simp_all add: call_host_def set_resource_limits_def)

lemma quiet_total_share [simp]: "F c s (update_total_votepay_share ct a b t) = F c s t"
  by (simp add: update_total_votepay_share_def Let_def)

lemma quiet_register: "register_producer c w au u l s = Inr s' \<Longrightarrow> F c s s'"
  by (auto simp: register_producer_def Let_def split: option.splits if_splits)

lemma quiet_managed [simp]: "F c s (set_managed w f t) = F c s t" "F c s (unset_managed w f t) = F c s t"
  by (simp_all add: set_managed_def unset_managed_def split: option.split)

lemma quiet_close [simp]: "F c s (close_auction d t x) = F c s x"
  by (simp add: close_auction_def split: option.split)

lemma quiet_elected [simp]: "F c s (update_elected_producers f t x) = F c s x"
  by (simp add: update_elected_producers_def Let_def)

lemma quiet_count [simp]: "F c s (count_block w x) = F c s x"
  by (simp add: count_block_def split: option.split)

lemma quiet_onblock: "onblock f c prev t w s = Inr s' \<Longrightarrow> F c s s'"
  by (auto simp: onblock_def Let_def split: if_splits)

lemma quiet_limits:
  "setalimits c w r n p s = Inr s' \<Longrightarrow> F c s s'" "setacctram c w x s = Inr s' \<Longrightarrow> F c s s'"
  "setacctnet c w x s = Inr s' \<Longrightarrow> F c s s'" "setacctcpu c w x s = Inr s' \<Longrightarrow> F c s s'"
  by (auto simp: setalimits_def setacctram_def setacctnet_def setacctcpu_def Let_def split: prod.splits option.splits)

lemma quiet_admin:
  "activate c d s = Inr s' \<Longrightarrow> F c s s'" "setparams c p v s = Inr s' \<Longrightarrow> F c s s'" "wasmcfg c n s = Inr s' \<Longrightarrow> F c s s'"
  "setpriv c w b s = Inr s' \<Longrightarrow> F c s s'" "rmvproducer c w s = Inr s' \<Longrightarrow> F c s s'" "updtrevision c r s = Inr s' \<Longrightarrow> F c s s'"
  "F c s (setabi f w abi s)"
  by (auto simp: activate_def setparams_def wasmcfg_def set_wasm_parameters_def setpriv_def rmvproducer_def updtrevision_def
      setabi_def Let_def split: if_splits option.splits)

lemma quiet_producers:
  "regproducer c w k u l s = Inr s' \<Longrightarrow> F c s s'" "regproducer2 f c w a u l s = Inr s' \<Longrightarrow> F c s s'"
  "unregprod c w s = Inr s' \<Longrightarrow> F c s s'" "voteproducer c w p ps s = Inr s' \<Longrightarrow> F c s s'" "regproxy c w b s = Inr s' \<Longrightarrow> F c s s'"
  by (auto simp: regproducer2_def regproducer_def unregprod_def voteproducer_def intro: quiet_register F_votes F_proxies)

lemma quiet_auction:
  "bidname c b n q s = Inr s' \<Longrightarrow> F c s s'" "bidrefund c b n s = Inr s' \<Longrightarrow> F c s s'"
  by (auto simp: bidname_def bidrefund_def Let_def split: option.splits)

lemma quiet_wps_others:
  "regproposer c k f s = Inr s' \<Longrightarrow> F c s s'" "editproposer c k f s = Inr s' \<Longrightarrow> F c s s'"
  "rmvproposer c k s = Inr s' \<Longrightarrow> F c s s'" "regreviewer c m k n l s = Inr s' \<Longrightarrow> F c s s'"
  "editreviewer c m k n l s = Inr s' \<Longrightarrow> F c s s'" "rmvreviewer c m k s = Inr s' \<Longrightarrow> F c s s'"
  "setwpsenv c x1 x2 x3 x4 s = Inr s' \<Longrightarrow> F c s s'" "setwpsstate c t s = Inr s' \<Longrightarrow> F c s s'"
  "regcommittee c m g b s = Inr s' \<Longrightarrow> F c s s'" "edcommittee c m g b s = Inr s' \<Longrightarrow> F c s s'"
  "rmvcommittee c m s = Inr s' \<Longrightarrow> F c s s'" "cleanvotes c r k x1 x2 s = Inr s' \<Longrightarrow> F c s s'"
  by (auto simp: regproposer_def editproposer_def rmvproposer_def regreviewer_def editreviewer_def
      rmvreviewer_def setwpsenv_def setwpsstate_def regcommittee_def edcommittee_def rmvcommittee_def cleanvotes_def
      with_reviewer_def Let_def dest!: check_form_Inr split: if_splits)

text \<open>Pay and genesis tokens.\<close>

lemma quiet_core_send:
  "send_core c auths n f t = Inr s' \<Longrightarrow> (\<And>q. may c auths (f q)) \<Longrightarrow> F c s t \<Longrightarrow> F c s s'"
  "send_if b c auths n f t = Inr s' \<Longrightarrow> (\<And>q. may c auths (f q)) \<Longrightarrow> F c s t \<Longrightarrow> F c s s'"
  by (auto simp: send_if_def send_core_def split: if_splits)

lemma quiet_fill:
  assumes "fill_buckets c tok s = Inr s'"
  shows "F c s s'"
proof (cases "0 < i64 (ctx_now c - last_pervote_bucket_fill (gs s)) \<and> 0 < last_pervote_bucket_fill (gs s)")
  case True
  show ?thesis
    using assms unfolding fill_buckets_def Let_def if_P [OF True] bind_result_Inr
    by (elim exE conjE) (erule quiet_core_send; simp?)+
next
  case False
  then show ?thesis using assms by (auto simp: fill_buckets_def Let_def)
qed

lemma quiet_record_claim [simp]: "F c s (record_claim d w p p2 b n t) = F c s t"
  by (simp add: record_claim_def update_producer_votepay_share_def update_total_votepay_share_def Let_def)

lemma quiet_pay: "pay_producer c w p t = Inr s' \<Longrightarrow> F c s t \<Longrightarrow> F c s s'"
  by (auto simp: pay_producer_def producer2_row_def Let_def split: prod.splits option.splits elim!: quiet_core_send)

lemma quiet_claims:
  "claimrewards c tok w s = Inr s' \<Longrightarrow> F c s s'" "claimgbmprod c tok w s = Inr s' \<Longrightarrow> F c s s'"
  "voterclaim c tok w s = Inr s' \<Longrightarrow> F c s s'" "claimgbmvote c tok w s = Inr s' \<Longrightarrow> F c s s'"
proof -
  show "claimrewards c tok w s = Inr s' \<Longrightarrow> F c s s'" "claimgbmprod c tok w s = Inr s' \<Longrightarrow> F c s s'"
    by (auto simp: claimrewards_def claimgbmprod_def claim_producer_rewards_def intro: quiet_pay quiet_fill)
  have votes: "voterclaim c tok w s = Inr s' \<Longrightarrow> F c s s'"
    by (auto simp: voterclaim_def collect_voter_reward_def Let_def elim!: quiet_core_send intro: quiet_fill)
  show "voterclaim c tok w s = Inr s' \<Longrightarrow> F c s s'" "claimgbmvote c tok w s = Inr s' \<Longrightarrow> F c s s'"
    using votes by (simp_all add: claimgbmvote_def)
qed

lemma quiet_burn: "burn_unvested c w t = Inr s' \<Longrightarrow> F c s t \<Longrightarrow> F c s s'"
  by (auto simp: burn_unvested_def Let_def split: if_splits)

lemma quiet_change_genesis:
  assumes run: "change_genesis c w t = Inr s'" and calm: "F c s t"
  shows "F c s s'"
proof (cases "has_genesis_balance w t = Inr False")
  case True
  then show ?thesis using assms by (simp add: change_genesis_def)
next
  case False
  then have has: "has_genesis_balance w t = Inr True" using run by (auto simp: change_genesis_def)
  show ?thesis
    using run unfolding change_genesis_def has genesis_row_def Let_def bind_result_Inr some_or_Inr bind_result_simps
      if_False not_True_eq_False split_paired_Ex prod.case
    by (elim exE conjE) (erule quiet_burn, simp add: calm)
qed

lemma quiet_claimgenesis: "claimgenesis c w s = Inr s' \<Longrightarrow> F c s s'"
  unfolding claimgenesis_def genesis_row_def Let_def require_auth_Inr bind_result_Inr some_or_Inr check_Inr sum.inject
  by (elim exE conjE) auto

text \<open>New accounts, and the other native actions.\<close>

lemma quiet_newaccount:
  assumes "newaccount c w n s = Inr s'" and lib: "asset_library (ctx_lib c)"
  shows "F c s s'"
proof -
  obtain s1 core zero t where one: "claim_name c w n s = Inr s1" and mk: "mk_asset (ctx_lib c) 0 core = Some zero"
    and t: "find_row (userres s1) n = None"
      "t = put n n \<lparr>ur_owner = n, ur_net_weight = zero, ur_cpu_weight = zero, ur_ram_bytes = 0\<rparr> (userres s1)"
    and s': "s' = set_resource_limits n 0 0 0 (s1\<lparr>userres := t\<rparr>)"
    using assms(1) by (auto simp: newaccount_def)
  have zero: "amount zero = 0" using asset_library.mk_Some [OF lib mk] by simp
  have "F c s s1" using one by (auto simp: claim_name_def Let_def split: if_splits)
  moreover have "F c s1 (s1\<lparr>userres := t\<rparr>)" unfolding t(2) by (rule new_account [OF t(1) zero])
  ultimately show ?thesis unfolding s' by (auto intro: F_trans)
qed

lemma quiet_native: "native_step h c a s = Inr s' \<Longrightarrow> asset_library (ctx_lib c) \<Longrightarrow> F c s s'"
  by (cases a) (auto simp: allowed_def onerror_def quiet_newaccount quiet_admin)

text \<open>Altogether, worker proposals aside.\<close>

lemma other_step:
  assumes "system_step h (c, a) s = Inr s'" and "asset_library (ctx_lib c)" and "quiet_action a" and "\<And>b. a \<noteq> Worker b"
  shows "F c s s'"
proof (cases a)
  case (Setup b)
  then show ?thesis using assms quiet_onblock quiet_limits quiet_admin by (cases b) (auto simp: quiet_action_def)
next
  case (Resource b)
  then show ?thesis using assms quiet_claimgenesis by (cases b) (auto simp: quiet_action_def)
next
  case (Producer b)
  then show ?thesis using assms quiet_producers by (cases b) (auto simp: quiet_action_def)
next
  case (Chain b)
  then show ?thesis using assms quiet_admin quiet_claims by (cases b) auto
next
  case (Auction b)
  then show ?thesis using assms quiet_auction by (cases b) auto
next
  case (Native b)
  then show ?thesis using assms quiet_native by simp
qed (use assms in \<open>auto simp: quiet_action_def\<close>)

end

text \<open>The actions on worker proposals are quiet for whatever is kept by changes of the proposals, too.\<close>

locale worker_frame = quiet_frame +
  assumes F_proposals [simp]: "F c s (t\<lparr>proposals := x\<rparr>) = F c s t"
begin

lemma quiet_proposals:
  "acceptprop c r k s = Inr s' \<Longrightarrow> F c s s'" "rejectprop c r k t s = Inr s' \<Longrightarrow> F c s s'"
  "approve c r k s = Inr s' \<Longrightarrow> F c s s'" "rmvreject c r k s = Inr s' \<Longrightarrow> F c s s'"
  "rmvcompleted c r k s = Inr s' \<Longrightarrow> F c s s'" "rejectfund c m k t s = Inr s' \<Longrightarrow> F c s s'"
  by (auto simp: acceptprop_def rejectprop_def approve_def rmvreject_def rmvcompleted_def rejectfund_def with_reviewer_def Let_def
      split: if_splits)

lemma quiet_claimfunds: "claimfunds c k s = Inr s' \<Longrightarrow> F c s s'"
  by (auto simp: claimfunds_def pay_proposer_def Let_def)

lemma quiet_forms: "regproposal c k f s = Inr s' \<Longrightarrow> F c s s'" "editproposal c k f s = Inr s' \<Longrightarrow> F c s s'"
  by (auto simp: regproposal_def editproposal_def check_texts_def check_sizes_def Let_def)

lemma quiet_wps_votes:
  assumes "update_wps_votes c w ps s = Inr s'"
  shows "F c s s'"
  using assms
proof (rule update_wps_votes_Inr)
  assume s': "s' = s\<lparr>proposals := proposals s', wpsvoters := wpsvoters s'\<rparr>"
  show ?thesis by (subst s') simp
qed

lemma quiet_wps: "wps_step (c, a) s = Inr s' \<Longrightarrow> F c s s'"
  by (cases a) (auto simp: quiet_wps_others quiet_proposals quiet_claimfunds quiet_forms voteproposal_def quiet_wps_votes)

lemma quiet_step:
  assumes "system_step h (c, a) s = Inr s'" and "asset_library (ctx_lib c)" and "quiet_action a"
  shows "F c s s'"
proof (cases "\<exists>b. a = Worker b")
  case True
  then show ?thesis using assms(1) quiet_wps by auto
qed (use assms other_step in blast)

end

interpretation calming: worker_frame calm "\<lambda>c auths a. authorised_call c auths (Token_call a)"
proof unfold_locales
  show "calm c s t \<Longrightarrow> calm c t u \<Longrightarrow> calm c s u" for c s t u by (rule calm_trans)
  show "calm c s s" for c s by (rule calm_holdings) simp
  show "update_votes c w p ps b s = Inr s' \<Longrightarrow> calm c s s'" for c w p ps b s s'
    by (erule update_votes_effect) (rule calm_holdings)
  show "regproxy c w b s = Inr s' \<Longrightarrow> calm c s s'" for c w b s s'
    by (erule regproxy_effect) (rule calm_holdings)
  fix c :: ctx and s :: sys and n :: name and zero :: asset
  assume "find_row (userres s) n = None" "amount zero = 0"
  then show "calm c s (s\<lparr>userres := put n n \<lparr>ur_owner = n, ur_net_weight = zero, ur_cpu_weight = zero, ur_ram_bytes = 0\<rparr> (userres s)\<rparr>)"
    by (auto simp: calm_unfold sum_rows_put fun_eq_iff in_i64_def intro: all_rows_put)
qed (auto simp: spender_ok_def own_accounts_def paying_accounts_def)

section \<open>Refunds\<close>

lemma calm_refund: "refund c w s = Inr s' \<Longrightarrow> calm c s s'"
  by (auto simp: refund_def)

lemma calm_removerefund: "removerefund c w q s = Inr s' \<Longrightarrow> calm c s s'"
  unfolding removerefund_def check_at_least_def require_auth_Inr bind_result_Inr some_or_Inr check_Inr
  by (elim exE conjE) (auto split: if_splits)

section \<open>Stakes\<close>

lemma i64_moved: "i64 (x + of_bool b * (i64 (old + d) - old)) = i64 (x + of_bool b * d)"
proof (cases b)
  case True
  have "i64 (x + (i64 (old + d) - old)) = i64 ((x - old) + i64 (old + d))" by (simp add: algebra_simps)
  also have "\<dots> = i64 ((x - old) + (old + d))" by (rule i64_congs(2))
  finally show ?thesis using True by simp
qed simp

context asset_library
begin

lemma plus_amount:
  assumes "asset_plus L a b = Some r" and "in_i64 (amount a)" and "in_i64 (amount b)"
  shows "amount r = i64 (amount a + amount b)"
  using assms by (auto simp: plus_wrap split: if_splits)

lemma delband_weights:
  assumes run: "update_delband c f r dn dc s = Inr s'" and c: "ctx_lib c = L" and typed: "weights_typed s"
    and d: "in_i64 (amount dn)" "in_i64 (amount dc)"
  obtains t where "s' = s\<lparr>delband := t\<rparr>" and "weights_typed s'"
    and "\<And>a. i64 (net_staked_to a s') = i64 (net_staked_to a s + of_bool (r = a) * amount dn)"
    and "\<And>a. i64 (cpu_staked_to a s') = i64 (cpu_staked_to a s + of_bool (r = a) * amount dc)"
proof -
  let ?old = "\<lambda>g. case find_row (delband s) (f, r) of None \<Rightarrow> 0 | Some w \<Rightarrow> amount (g w)"
  obtain row where new: "(case find_row (delband s) (f, r) of
          None \<Rightarrow> Inr \<lparr>db_from = f, db_to = r, db_net_weight = dn, db_cpu_weight = dc\<rparr>
        | Some dbo \<Rightarrow>
            some_or (asset_plus L (db_net_weight dbo) dn) overflow (\<lambda>net.
            some_or (asset_plus L (db_cpu_weight dbo) dc) overflow (\<lambda>cpu.
            Inr (dbo\<lparr>db_net_weight := net, db_cpu_weight := cpu\<rparr>)))) = Inr row"
    and s': "s' = s\<lparr>delband := keep_row f same_payer (db_is_empty row) (f, r) row (delband s)\<rparr>"
    using run unfolding update_delband_def c bind_result_Inr check_Inr sum.inject
    by (elim exE conjE) (rule that, assumption, rule sym)
  have row: "amount (db_net_weight row) = i64 (?old db_net_weight + amount dn) \<and>
      amount (db_cpu_weight row) = i64 (?old db_cpu_weight + amount dc)"
  proof (cases "find_row (delband s) (f, r)")
    case (Some dbo)
    then have "in_i64 (amount (db_net_weight dbo))" "in_i64 (amount (db_cpu_weight dbo))"
      using typed all_rowsD unfolding weights_typed_def by fastforce+
    then show ?thesis using new Some d by (auto dest!: plus_amount)
  qed (use new d in \<open>auto simp: in_i64_id\<close>)
  have w: "weighed u v (delband s') = weighed u v (delband s) +
      (u (f, r) * (i64 (?old db_net_weight + amount dn) - ?old db_net_weight) +
       v (f, r) * (i64 (?old db_cpu_weight + amount dc) - ?old db_cpu_weight))" for u v
    unfolding weighed_def s'
    by (simp, subst sum_rows_keep) (use row in \<open>auto simp: db_is_empty_def algebra_simps split: option.split\<close>)
  show ?thesis
  proof (rule that [OF s'])
    show "weights_typed s'"
      using typed row unfolding weights_typed_def s' by (auto intro!: all_rows_keep)
  qed (simp_all add: net_staked_to_def cpu_staked_to_def w i64_moved)
qed

lemma totals_weights:
  assumes run: "update_totals c f r dn dc s = Inr s'" and c: "ctx_lib c = L" and typed: "weights_typed s"
    and d: "in_i64 (amount dn)" "in_i64 (amount dc)"
  obtains l t where "s' = s\<lparr>resource_limits := l, userres := t\<rparr>" and "weights_typed s'" and "owned_ram s' = owned_ram s"
    and "\<And>a. i64 (total_of ur_net_weight a s') = i64 (total_of ur_net_weight a s + of_bool (r = a) * amount dn)"
    and "\<And>a. i64 (total_of ur_cpu_weight a s') = i64 (total_of ur_cpu_weight a s + of_bool (r = a) * amount dc)"
proof -
  let ?old = "\<lambda>g. case find_row (userres s) r of None \<Rightarrow> 0 | Some w \<Rightarrow> g w"
  obtain row where new: "(case find_row (userres s) r of
          None \<Rightarrow> Inr \<lparr>ur_owner = r, ur_net_weight = dn, ur_cpu_weight = dc, ur_ram_bytes = 0\<rparr>
        | Some tot \<Rightarrow>
            some_or (asset_plus L (ur_net_weight tot) dn) overflow (\<lambda>net.
            some_or (asset_plus L (ur_cpu_weight tot) dc) overflow (\<lambda>cpu.
            Inr (tot\<lparr>ur_net_weight := net, ur_cpu_weight := cpu\<rparr>)))) = Inr row"
    and s': "s' = (apply_limits r row s)\<lparr>userres :=
      keep_row f (if f = r then Some f else same_payer) (ur_is_empty row) r row (userres s)\<rparr>"
    using run unfolding update_totals_def c bind_result_Inr check_Inr sum.inject
    by (elim exE conjE) (rule that, assumption, rule sym)
  have row: "amount (ur_net_weight row) = i64 (?old (\<lambda>w. amount (ur_net_weight w)) + amount dn) \<and>
      amount (ur_cpu_weight row) = i64 (?old (\<lambda>w. amount (ur_cpu_weight w)) + amount dc) \<and> ur_ram_bytes row = ?old ur_ram_bytes"
  proof (cases "find_row (userres s) r")
    case (Some tot)
    then have "in_i64 (amount (ur_net_weight tot))" "in_i64 (amount (ur_cpu_weight tot))"
      using typed all_rowsD unfolding weights_typed_def by fastforce+
    then show ?thesis using new Some d by (auto dest!: plus_amount)
  qed (use new d in \<open>auto simp: in_i64_id\<close>)
  show ?thesis
  proof (rule that)
    show "s' = s\<lparr>resource_limits := resource_limits (apply_limits r row s),
        userres := keep_row f (if f = r then Some f else same_payer) (ur_is_empty row) r row (userres s)\<rparr>"
      by (simp add: s' apply_limits_def set_resource_limits_def split: prod.split)
    show "weights_typed s'" using typed row unfolding weights_typed_def s' by (auto intro!: all_rows_keep)
    have "sum_rows (\<lambda>_. ur_ram_bytes) (keep_row f m (ur_is_empty row) r row (userres s)) = sum_rows (\<lambda>_. ur_ram_bytes) (userres s)" for m
      by (subst sum_rows_keep) (use row in \<open>auto simp: ur_is_empty_def split: option.split\<close>)
    then show "owned_ram s' = owned_ram s" by (simp add: owned_ram_def s')
    show "i64 (total_of ur_net_weight a s') = i64 (total_of ur_net_weight a s + of_bool (r = a) * amount dn)"
      "i64 (total_of ur_cpu_weight a s') = i64 (total_of ur_cpu_weight a s + of_bool (r = a) * amount dc)" for a
      using row by (auto simp: total_of_def s' ur_is_empty_def in_i64_id split: option.splits)
  qed
qed

lemma calm_changebw:
  assumes run: "changebw c src r dn dc tr s = Inr s'" and c: "ctx_lib c = L" and typed: "weights_typed s"
    and d: "in_i64 (amount dn)" "in_i64 (amount dc)"
  shows "calm c s s'"
proof -
  define f where "f = (if tr then r else src)"
  obtain q s1 s2 s3 where auth: "has_auth c src"
    and one: "update_delband c f r dn dc s = Inr s1" and two: "update_totals c f r dn dc s1 = Inr s2"
    and three: "settle_stake c src f r dn dc tr s2 = Inr s3"
    and four: "update_voting_power c f q (s3\<lparr>wps_total_stake := fadd (wps_total_stake s3)
          (of_i64 (i64 (amount dn + amount dc)))\<rparr>) = Inr s'"
    using run by (auto simp: changebw_def Let_def f_def)
  obtain t1 where s1: "s1 = s\<lparr>delband := t1\<rparr>" "weights_typed s1"
    and D: "\<And>a. i64 (net_staked_to a s1) = i64 (net_staked_to a s + of_bool (r = a) * amount dn)"
      "\<And>a. i64 (cpu_staked_to a s1) = i64 (cpu_staked_to a s + of_bool (r = a) * amount dc)"
    by (rule delband_weights [OF one c typed d]) (rule that)
  obtain l t2 where s2: "s2 = s1\<lparr>resource_limits := l, userres := t2\<rparr>" "weights_typed s2" "owned_ram s2 = owned_ram s1"
    and T: "\<And>a. i64 (total_of ur_net_weight a s2) = i64 (total_of ur_net_weight a s1 + of_bool (r = a) * amount dn)"
      "\<And>a. i64 (total_of ur_cpu_weight a s2) = i64 (total_of ur_cpu_weight a s1 + of_bool (r = a) * amount dc)"
    by (rule totals_weights [OF two c s1(2) d]) (rule that)
  have same: "total_of g a s1 = total_of g a s" "net_staked_to a s2 = net_staked_to a s1" "cpu_staked_to a s2 = cpu_staked_to a s1" for g a
    by (simp_all add: s1(1) s2(1) total_of_def net_staked_to_def cpu_staked_to_def)
  have gaps: "net_gap a s2 = net_gap a s" "cpu_gap a s2 = cpu_gap a s" for a
    using i64_diff_cong [OF T(1) D(1), of a a] i64_diff_cong [OF T(2) D(2), of a a] by (simp_all add: net_gap_def cpu_gap_def same)
  have "owned_ram s1 = owned_ram s" by (simp add: s1(1) owned_ram_def)
  then have "ram_view s2 = ram_view s" using s2(3) by (simp add: ram_view_def) (simp add: s2(1) s1(1))
  moreover have "power_view s2 = power_view s" by (simp add: power_view_def gaps) (simp add: s2(1) s1(1))
  moreover have "sends c s s2" by (rule sends_refl) (simp add: s2(1) s1(1))
  ultimately have "calm c s s2" using s2(2) by (simp add: calm_def)
  then have "calm c s s3"
    using three auth by (auto simp: settle_stake_def update_refund_def Let_def split: if_splits option.splits)
  moreover have "calm c s3 s'" by (rule voting_power_effect [OF four]) (auto intro: calm_holdings)
  ultimately show ?thesis by (rule calm_trans)
qed

lemma calm_stakes:
  assumes c: "ctx_lib c = L" and typed: "weights_typed s" and d: "in_i64 (amount n)" "in_i64 (amount p)"
  shows "delegatebw c f r n p tr s = Inr s' \<Longrightarrow> calm c s s'" "undelegatebw c f r n p s = Inr s' \<Longrightarrow> calm c s s'"
proof -
  show "delegatebw c f r n p tr s = Inr s' \<Longrightarrow> calm c s s'"
    unfolding delegatebw_def check_at_least_def bind_result_Inr some_or_Inr check_Inr
    by (elim exE conjE) (rule calm_changebw [OF _ c typed d])
  have "in_i64 (amount (asset_neg L n))" "in_i64 (amount (asset_neg L p))" using d by (simp_all add: neg_wrap)
  note change = calm_changebw [OF _ c typed this]
  show "undelegatebw c f r n p s = Inr s' \<Longrightarrow> calm c s s'"
    unfolding undelegatebw_def check_at_least_def bind_result_Inr some_or_Inr check_Inr c
    by (elim exE conjE) (erule calming.quiet_change_genesis, rule change)
qed

end

section \<open>The RAM market\<close>

definition ram_only :: "ctx \<Rightarrow> sys \<Rightarrow> sys \<Rightarrow> bool" where
  "ram_only c s s' \<longleftrightarrow> sends c s s' \<and> power_view s' = power_view s \<and> (weights_typed s \<longrightarrow> weights_typed s')"

lemma ram_only_trans: "ram_only c s t \<Longrightarrow> ram_only c t u \<Longrightarrow> ram_only c s u"
  by (auto simp: ram_only_def intro: sends_trans)

lemma ram_onlyI:
  assumes "outbox s' = outbox s @ ms" and "list_all (authorised c) ms" and "powerup_st s' = powerup_st s"
    and "powerup_orders s' = powerup_orders s" and "delband s' = delband s"
    and "\<And>a. total_of ur_net_weight a s' = total_of ur_net_weight a s \<and> total_of ur_cpu_weight a s' = total_of ur_cpu_weight a s"
    and "weights_typed s \<Longrightarrow> weights_typed s'"
  shows "ram_only c s s'"
  using assms by (auto simp: ram_only_def sends_def power_view_def net_gap_def cpu_gap_def net_staked_to_def cpu_staked_to_def)

lemma ram_only_same:
  assumes "outbox s' = outbox s" and "powerup_st s' = powerup_st s" and "powerup_orders s' = powerup_orders s"
    and "delband s' = delband s" and "userres s' = userres s"
  shows "ram_only c s s'"
  by (rule ram_onlyI [where ms = "[]"]) (use assms in \<open>simp_all add: total_of_def weights_typed_def\<close>)

lemma ram_only_supply: "update_ram_supply c s = Inr s1 \<Longrightarrow> ram_only c s s1"
  by (rule ram_only_same) (auto simp: update_ram_supply_def Let_def split: if_splits)

lemma ram_only_setup:
  "setram c n s = Inr s' \<Longrightarrow> ram_only c s s'" "setramrate c r s = Inr s' \<Longrightarrow> ram_only c s s'" "init c tok v core s = Inr s' \<Longrightarrow> ram_only c s s'"
proof -
  show "setram c n s = Inr s' \<Longrightarrow> ram_only c s s'" by (rule ram_only_same) (auto simp: setram_def Let_def)
  show "init c tok v core s = Inr s' \<Longrightarrow> ram_only c s s'" by (rule ram_only_same) (auto simp: init_def)
  have "ram_only c s s'" if "update_ram_supply c s = Inr s1" "s' = s1\<lparr>gs2 := g\<rparr>" for s1 g
    by (rule ram_only_trans [OF ram_only_supply [OF that(1)] ram_only_same]) (simp_all add: that(2))
  then show "setramrate c r s = Inr s' \<Longrightarrow> ram_only c s s'" by (auto simp: setramrate_def)
qed

text \<open>Rows of \<open>userres\<close> whose weights stay.\<close>

lemma same_weights:
  assumes "find_row t k = Some r \<and> ur_net_weight r' = ur_net_weight r \<and> ur_cpu_weight r' = ur_cpu_weight r"
    and "userres s' = modify_row p k r' t" and "userres s = t" and "delband s' = delband s"
  shows "total_of ur_net_weight a s' = total_of ur_net_weight a s \<and> total_of ur_cpu_weight a s' = total_of ur_cpu_weight a s"
    and "weights_typed s \<Longrightarrow> weights_typed s'"
  using assms all_rowsD by (fastforce simp: total_of_def weights_typed_def intro!: all_rows_modify)+

lemma ram_only_credit:
  assumes "credit_ram c w n s = Inr (row, s')" and lib: "asset_library (ctx_lib c)"
  shows "ram_only c s s'"
proof (rule ram_onlyI [where ms = "[]"])
  note eff = credit_ram_Inr [OF assms(1)]
  have zero: "amount (ur_net_weight row) = 0 \<and> amount (ur_cpu_weight row) = 0" if "find_row (userres s) w = None"
    using assms(1) that asset_library.mk_Some [OF lib] by (fastforce simp: credit_ram_def Let_def)
  have del: "delband s' = delband s" by (subst eff(2)) simp
  show "outbox s' = outbox s @ []" "powerup_st s' = powerup_st s" "powerup_orders s' = powerup_orders s" "delband s' = delband s"
    by (subst eff(2), simp)+
  show "total_of ur_net_weight a s' = total_of ur_net_weight a s \<and> total_of ur_cpu_weight a s' = total_of ur_cpu_weight a s" for a
  proof (cases "find_row (userres s) w")
    case None
    then show ?thesis using eff(1) zero by (simp add: total_of_def)
  next
    case (Some r)
    then show ?thesis using eff(1,3) by (simp add: total_of_def)
  qed
  show "weights_typed s'" if "weights_typed s"
  proof (cases "find_row (userres s) w")
    case None
    then show ?thesis
      using that eff(1) zero del by (auto simp: weights_typed_def in_i64_def intro!: all_rows_put)
  next
    case (Some r)
    then show ?thesis
      by (intro same_weights(2) [OF _ _ refl del that, of w r row "Some w"]) (use eff(1,3) in auto)
  qed
qed simp

lemma ram_only_buyram:
  assumes "buyram c p r q s = Inr s'" and lib: "asset_library (ctx_lib c)"
  shows "ram_only c s s'"
  using assms(1)
proof (rule buyram_Inr)
  fix s1 m out m' row s6 paid fee
  assume a: "has_auth c p" "update_ram_supply c s = Inr s1"
    and credit: "credit_ram c r (amount out) (book_ram (amount out) (amount paid)
       (s1\<lparr>outbox := outbox s1 @ purchase p paid fee, rammarket := Some m'\<rparr>)) = Inr (row, s6)"
    and s': "s' = apply_ram_limit (ur_owner row) (ur_ram_bytes row) s6"
  have "ram_only c s1 (book_ram (amount out) (amount paid) (s1\<lparr>outbox := outbox s1 @ purchase p paid fee, rammarket := Some m'\<rparr>))"
    by (rule ram_onlyI [where ms = "purchase p paid fee"])
      (use a(1) in \<open>simp_all add: purchase_def authorised_def book_ram_def total_of_def weights_typed_def\<close>)
  moreover have "ram_only c s6 s'"
    by (rule ram_only_same) (simp_all add: s' apply_ram_limit_def set_resource_limits_def split: prod.split)
  ultimately show ?thesis
    using ram_only_supply [OF a(2)] ram_only_credit [OF credit lib] ram_only_trans by blast
qed

lemma ram_only_sellram:
  assumes "sellram c w n s = Inr s'"
  shows "ram_only c s s'"
  using assms
proof (rule sellram_Inr)
  fix s1 m res sold out m' row s5
  assume a: "has_auth c w" "update_ram_supply c s = Inr s1" and res: "find_row (userres s1) w = Some res"
    and row: "row = res\<lparr>ur_ram_bytes := i64 (ur_ram_bytes res - n)\<rparr>"
    and s5: "s5 = book_ram (- n) (- amount out) (s1\<lparr>rammarket := Some m'\<rparr>)"
    and pay: "pay_for_sale (ctx_lib c) w out (asset_symbol (con_balance (ex_quote m)))
       (apply_ram_limit (ur_owner row) (ur_ram_bytes row) (s5\<lparr>userres := modify_row (Some w) w row (userres s1)\<rparr>)) = Inr s'"
  let ?t = "apply_ram_limit (ur_owner row) (ur_ram_bytes row) (s5\<lparr>userres := modify_row (Some w) w row (userres s1)\<rparr>)"
  have same: "powerup_st ?t = powerup_st s1" "powerup_orders ?t = powerup_orders s1" "delband ?t = delband s1"
    by (simp_all add: s5 book_ram_def apply_ram_limit_def set_resource_limits_def split: prod.split)
  have rows: "userres ?t = modify_row (Some w) w row (userres s1)"
    "find_row (userres s1) w = Some res \<and> ur_net_weight row = ur_net_weight res \<and> ur_cpu_weight row = ur_cpu_weight res"
    by (simp_all add: res row)
  have one: "ram_only c s1 ?t"
    by (rule ram_onlyI [where ms = "[]"]) (simp_all only: same same_weights [OF rows(2) rows(1) refl same(3)], simp_all add: s5)
  obtain ms where ms: "s' = ?t\<lparr>outbox := outbox ?t @ ms\<rparr>" "list_all (authorised c) ms"
    using pay a(1) that unfolding pay_for_sale_def Let_def
    by (auto simp: send_token_def authorised_def split: if_splits)
  have "ram_only c ?t s'"
    by (rule ram_onlyI [where ms = ms]) (simp_all add: ms total_of_def weights_typed_def)
  then show ?thesis using one ram_only_supply [OF a(2)] ram_only_trans by blast
qed

lemma ram_only_buyrambytes: "buyrambytes c p r n s = Inr s' \<Longrightarrow> asset_library (ctx_lib c) \<Longrightarrow> ram_only c s s'"
  by (auto simp: buyrambytes_def Let_def intro: ram_only_buyram)

section \<open>The power-up market\<close>

text \<open>
  The market writes the totals, its queue and its state, and charges who signed. Whatever is kept by these is kept by
  every action of the market.
\<close>

definition charge :: "name \<Rightarrow> asset \<Rightarrow> string \<Rightarrow> int \<Rightarrow> int \<Rightarrow> inline_action list" where
  "charge payer fee memo n p =
     [\<lparr>in_auths = [(payer, active_permission)], in_call = Token_call (Transfer payer fees_account fee memo)\<rparr>,
      \<lparr>in_auths = [], in_call = Powup_result fee n p\<rparr>]"

locale market_frame =
  fixes F :: "ctx \<Rightarrow> sys \<Rightarrow> sys \<Rightarrow> bool"
  assumes F_refl: "F c s s" and F_trans: "F c s t \<Longrightarrow> F c t u \<Longrightarrow> F c s u"
    and F_adjust: "adjust_resources c p w core n m b s = Inr s' \<Longrightarrow> asset_library (ctx_lib c) \<Longrightarrow> F c s s'"
    and F_state: "F c s (s\<lparr>powerup_st := x\<rparr>)" and F_orders: "F c s (s\<lparr>powerup_orders := y\<rparr>)"
    and F_charge: "has_auth c payer \<Longrightarrow> F c s (s\<lparr>outbox := outbox s @ charge payer fee memo i j\<rparr>)"
begin

lemma expire_frame:
  "expire_orders n c now core (a, b, s) = Inr (a', b', s') \<Longrightarrow> asset_library (ctx_lib c) \<Longrightarrow> F c s s'"
proof (induction n arbitrary: a b s)
  case 0
  then show ?case by (auto intro: F_refl)
next
  case (Suc n)
  show ?case
  proof (cases "by_expires (powerup_orders s)")
    case Nil
    then show ?thesis using Suc.prems by (auto intro: F_refl)
  next
    case (Cons x rest)
    obtain i it where x: "x = (i, it)" by (cases x)
    show ?thesis
    proof (cases "now < po_expires it")
      case True
      then show ?thesis using Suc.prems Cons x by (auto intro: F_refl)
    next
      case False
      then obtain s1 where one: "adjust_resources c (ctx_self c) (po_owner it) core (i64 (- po_net_weight it)) (i64 (- po_cpu_weight it)) False s = Inr s1"
        and rest: "expire_orders n c now core (i64 (a + po_net_weight it), i64 (b + po_cpu_weight it),
            s1\<lparr>powerup_orders := erase_row i (powerup_orders s1)\<rparr>) = Inr (a', b', s')"
        using Suc.prems(1) Cons x by auto
      show ?thesis
        using F_adjust [OF one Suc.prems(2)] F_orders Suc.IH [OF rest Suc.prems(2)] F_trans by blast
    qed
  qed
qed

lemma process_frame:
  assumes "process_powerup_queue c now core st n a b s = Inr (st', na, ca, s')" and "asset_library (ctx_lib c)"
  shows "F c s s'"
proof -
  obtain dn dc where "expire_orders n c now core (a, b, s) = Inr (dn, dc, s')"
  proof (cases "expire_orders n c now core (a, b, s)")
    case (Inr x)
    obtain dn dc t where x: "x = (dn, dc, t)" by (cases x)
    have "t = s'"
      using assms(1) unfolding process_powerup_queue_def bind_result_Inr Inr x by (auto split: prod.splits)
    then show ?thesis using Inr x that by blast
  qed (use assms(1) in \<open>simp add: process_powerup_queue_def\<close>)
  then show ?thesis using assms(2) by (rule expire_frame)
qed

lemma cfgpowerup_frame:
  assumes run: "cfgpowerup c args s = Inr s'" and lib: "asset_library (ctx_lib c)"
  shows "F c s s'"
proof -
  obtain core n m t x where one: "adjust_resources c (ctx_self c) reserve_account core n m True s = Inr t"
    and s': "s' = t\<lparr>powerup_st := x\<rparr>"
    by (rule cfgpowerup_parts [OF run]) (rule that)
  show ?thesis unfolding s' by (rule F_trans [OF F_adjust [OF one lib] F_state])
qed

lemma powerupexec_frame:
  assumes run: "powerupexec c user k s = Inr s'" and lib: "asset_library (ctx_lib c)"
  shows "F c s s'"
proof -
  obtain core st st1 n m s1 t x
    where one: "process_powerup_queue c (seconds_of (ctx_now c)) core st k 0 0 s = Inr (st1, n, m, s1)"
      and two: "adjust_resources c (ctx_self c) reserve_account core n m True s1 = Inr t" and s': "s' = t\<lparr>powerup_st := x\<rparr>"
    using run by (auto simp: powerupexec_def)
  show ?thesis
    unfolding s' by (rule F_trans [OF process_frame [OF one lib] F_trans [OF F_adjust [OF two lib] F_state]])
qed

lemma powerup_frame:
  assumes run: "powerup c payer receiver days nf cf maxp s = Inr s'" and lib: "asset_library (ctx_lib c)"
  shows "F c s s'"
proof -
  obtain core where core: "core_symbol s = Inr core"
    using run by (cases "core_symbol s") (auto simp: powerup_def Let_def)
  obtain st st1 na ca s1 orders dn dc s2 s3 x zero both where auth: "has_auth c payer"
    and one: "process_powerup_queue c (seconds_of (ctx_now c)) core st 2 0 0 s = Inr (st1, na, ca, s1)"
    and two: "adjust_resources c payer receiver core dn dc True (s1\<lparr>powerup_orders := orders\<rparr>) = Inr s2"
    and three: "adjust_resources c (ctx_self c) reserve_account core (i64 (na - dn)) (i64 (ca - dc)) True s2 = Inr s3"
    and s': "s' = (send_token [(payer, active_permission)]
         (Transfer payer fees_account (zero\<lparr>amount := both\<rparr>) (''powerup fee from '' @ name_to_string (ctx_lib c) payer)) s3)
      \<lparr>powerup_st := x,
       outbox := outbox (send_token [(payer, active_permission)]
         (Transfer payer fees_account (zero\<lparr>amount := both\<rparr>) (''powerup fee from '' @ name_to_string (ctx_lib c) payer)) s3) @
         [\<lparr>in_auths = [], in_call = Powup_result (zero\<lparr>amount := both\<rparr>) dn dc\<rparr>]\<rparr>"
    by (rule powerup_parts [OF run core]) (rule that)
  have "s' = (s3\<lparr>outbox := outbox s3 @ charge payer (zero\<lparr>amount := both\<rparr>) (''powerup fee from '' @ name_to_string (ctx_lib c) payer) dn dc\<rparr>)
      \<lparr>powerup_st := x\<rparr>"
    by (simp add: s' charge_def send_token_def)
  then have "F c s3 s'" using F_trans [OF F_charge [OF auth] F_state] by simp
  with F_adjust [OF three lib] have "F c s2 s'" by (rule F_trans)
  with F_adjust [OF two lib] have "F c (s1\<lparr>powerup_orders := orders\<rparr>) s'" by (rule F_trans)
  with F_orders have "F c s1 s'" by (rule F_trans)
  with process_frame [OF one lib] show ?thesis by (rule F_trans)
qed

lemma market_step:
  "powerup_step (c, a) s = Inr s' \<Longrightarrow> asset_library (ctx_lib c) \<Longrightarrow> F c s s'"
  by (cases a) (auto intro: cfgpowerup_frame powerupexec_frame powerup_frame)

end

definition power_only :: "ctx \<Rightarrow> sys \<Rightarrow> sys \<Rightarrow> bool" where
  "power_only c s s' \<longleftrightarrow> sends c s s' \<and> ram_view s' = ram_view s \<and> delband s' = delband s \<and> (weights_typed s \<longrightarrow> weights_typed s')"

lemma power_only_trans: "power_only c s t \<Longrightarrow> power_only c t u \<Longrightarrow> power_only c s u"
  by (auto simp: power_only_def intro: sends_trans)

lemma power_onlyI:
  assumes "outbox s' = outbox s @ ms" and "list_all (authorised c) ms" and "rammarket s' = rammarket s" and "gs s' = gs s"
    and "delband s' = delband s" and "userres s' = userres s"
  shows "power_only c s s'"
  using assms by (auto simp: power_only_def sends_def ram_view_def owned_ram_def weights_typed_def)

lemma adjust_power_only:
  assumes run: "adjust_resources c p w core n m b s = Inr s'" and lib: "asset_library (ctx_lib c)"
  shows "power_only c s s'"
proof (cases "n = 0 \<and> m = 0")
  case True
  then show ?thesis using run by (auto simp: adjust_resources_def intro: power_onlyI [where ms = "[]"])
next
  case False
  obtain row where new: "(case find_row (userres s) w of
             None \<Rightarrow>
               some_or (mk_asset (ctx_lib c) n core) overflow (\<lambda>net.
               some_or (mk_asset (ctx_lib c) m core) overflow (\<lambda>cpu.
               Inr \<lparr>ur_owner = w, ur_net_weight = net, ur_cpu_weight = cpu, ur_ram_bytes = 0\<rparr>))
           | Some tot \<Rightarrow>
               Inr (tot\<lparr>ur_net_weight := (ur_net_weight tot)\<lparr>amount := i64 (amount (ur_net_weight tot) + n)\<rparr>,
                        ur_cpu_weight := (ur_cpu_weight tot)\<lparr>amount := i64 (amount (ur_cpu_weight tot) + m)\<rparr>\<rparr>)) = Inr row"
    and s': "s' = (apply_limits w row s)\<lparr>userres := keep_row p same_payer (ur_is_empty row) w row (userres s)\<rparr>"
    using run False unfolding adjust_resources_def if_not_P [OF False] bind_result_Inr check_Inr sum.inject
    by (elim exE conjE) (rule that, assumption, rule sym)
  have row: "in_i64 (amount (ur_net_weight row)) \<and> in_i64 (amount (ur_cpu_weight row)) \<and>
      ur_ram_bytes row = (case find_row (userres s) w of None \<Rightarrow> 0 | Some r \<Rightarrow> ur_ram_bytes r)"
  proof (cases "find_row (userres s) w")
    case None
    then show ?thesis using new asset_library.mk_Some [OF lib] in_range_i64 by fastforce
  qed (use new in auto)
  have "sum_rows (\<lambda>_. ur_ram_bytes) (keep_row p same_payer (ur_is_empty row) w row (userres s)) = sum_rows (\<lambda>_. ur_ram_bytes) (userres s)"
    by (subst sum_rows_keep) (use row in \<open>auto simp: ur_is_empty_def split: option.split\<close>)
  moreover have "weights_typed s'" if "weights_typed s"
    using that row unfolding weights_typed_def s' by (auto intro!: all_rows_keep)
  ultimately show ?thesis
    by (simp add: power_only_def ram_view_def owned_ram_def sends_refl s')
qed

interpretation powering: market_frame power_only
proof unfold_locales
  show "power_only c s t \<Longrightarrow> power_only c t u \<Longrightarrow> power_only c s u" for c s t u by (rule power_only_trans)
  show "adjust_resources c p w core n m b s = Inr s' \<Longrightarrow> asset_library (ctx_lib c) \<Longrightarrow> power_only c s s'" for c p w core n m b s s'
    by (rule adjust_power_only)
  show "has_auth c payer \<Longrightarrow> power_only c s (s\<lparr>outbox := outbox s @ charge payer fee memo i j\<rparr>)" for c payer s fee memo i j
    by (rule power_onlyI [where ms = "charge payer fee memo i j"]) (simp_all add: charge_def authorised_def)
qed (rule power_onlyI [where ms = "[]"]; simp)+

end
