(* ===== verification/ContractProperties.thy ===== *)
theory ContractProperties
  imports ContractFrames PowerupProperties
begin

text \<open>
  Properties of the contract as a whole, over histories of any of its actions in any order: who pays for the
  messages it sends, the bytes of RAM, and the totals of the accounts, which three components change.
\<close>

section \<open>Which component an action belongs to\<close>

fun ram_action_of :: "system_action \<Rightarrow> ram_action option" where
  "ram_action_of (Setup (setup_action.Init tok v core)) = Some (ram_action.Init tok v core)"
| "ram_action_of (Producer (producer_action.Setram n)) = Some (ram_action.Setram n)"
| "ram_action_of (Producer (producer_action.Setramrate r)) = Some (ram_action.Setramrate r)"
| "ram_action_of (Resource (resource_action.Buyram p r q)) = Some (ram_action.Buyram p r q)"
| "ram_action_of (Resource (resource_action.Buyrambytes p r n)) = Some (ram_action.Buyrambytes p r n)"
| "ram_action_of (Resource (resource_action.Sellram w n)) = Some (ram_action.Sellram w n)"
| "ram_action_of _ = None"

text \<open>
  What is assumed of an action: the toolkit's assets behave as documented, and amounts and times are numbers of
  their types.
\<close>

fun supported :: "ctx \<times> system_action \<Rightarrow> bool" where
  "supported (c, Setup (setup_action.Init tok v core)) \<longleftrightarrow> asset_library (ctx_lib c) \<and> ram_supported (c, ram_action.Init tok v core)"
| "supported (c, Resource (resource_action.Delegatebw f r n p t)) \<longleftrightarrow> asset_library (ctx_lib c) \<and> in_i64 (amount n) \<and> in_i64 (amount p)"
| "supported (c, Resource (resource_action.Undelegatebw f r n p)) \<longleftrightarrow> asset_library (ctx_lib c) \<and> in_i64 (amount n) \<and> in_i64 (amount p)"
| "supported (c, Power a) \<longleftrightarrow> asset_library (ctx_lib c) \<and> powerup_admissible (c, a)"
| "supported (c, _) \<longleftrightarrow> asset_library (ctx_lib c)"

lemma supported_lib: "supported (c, a) \<Longrightarrow> asset_library (ctx_lib c)"
  by (cases "(c, a)" rule: supported.cases) auto

lemma supported_ram: "supported (c, a) \<Longrightarrow> ram_action_of a = Some r \<Longrightarrow> ram_supported (c, r)"
  by (cases a rule: ram_action_of.cases) auto

section \<open>The kinds of steps\<close>

text \<open>Each action is of one of three kinds: the quiet ones, those on RAM, and those of the market of resources.\<close>

lemma resource_kinds:
  assumes "resource_step c a s = Inr s'" and "supported (c, Resource a)" and "weights_typed s" and "\<not> quiet_action (Resource a)"
  shows "calm c s s' \<or> (\<exists>r. ram_action_of (Resource a) = Some r \<and> ram_step (c, r) s = Inr s' \<and> ram_only c s s')"
proof -
  have lib: "asset_library (ctx_lib c)" using assms(2) by (rule supported_lib)
  show ?thesis
    using assms asset_library.calm_stakes [OF lib refl assms(3)]
    by (cases a) (auto simp: quiet_action_def calm_refund calm_removerefund ram_only_buyram ram_only_buyrambytes ram_only_sellram lib)
qed

lemma step_kinds [consumes 3, case_names calm ram power]:
  assumes run: "system_step h (c, a) s = Inr s'" and sup: "supported (c, a)" and typed: "weights_typed s"
  obtains (calm) "calm c s s'"
    | (ram) r where "ram_action_of a = Some r" and "ram_step (c, r) s = Inr s'" and "ram_only c s s'"
    | (power) b where "a = Power b" and "powerup_step (c, b) s = Inr s'" and "power_only c s s'"
proof -
  have lib: "asset_library (ctx_lib c)" using sup by (rule supported_lib)
  have "calm c s s' \<or> (\<exists>r. ram_action_of a = Some r \<and> ram_step (c, r) s = Inr s' \<and> ram_only c s s') \<or>
    (\<exists>b. a = Power b \<and> powerup_step (c, b) s = Inr s' \<and> power_only c s s')"
  proof (cases "quiet_action a")
    case True
    from calming.quiet_step [OF run lib this] show ?thesis by simp
  next
    case False
    show ?thesis
    proof (cases a)
      case (Setup b)
      then show ?thesis using False run ram_only_setup(3) by (cases b) (auto simp: quiet_action_def)
    next
      case (Resource b)
      then show ?thesis using resource_kinds [of c b s s'] run sup typed False by simp
    next
      case (Producer b)
      then show ?thesis using False run ram_only_setup(1,2) by (cases b) (auto simp: quiet_action_def)
    next
      case (Power b)
      then show ?thesis using powering.market_step [of c b s s'] run lib by simp
    qed (use False in \<open>auto simp: quiet_action_def\<close>)
  qed
  then show ?thesis using that by blast
qed

section \<open>Histories\<close>

text \<open>Before the first account buys, stakes or votes.\<close>

definition fresh :: "sys \<Rightarrow> bool" where
  "fresh s \<longleftrightarrow> market_start s \<and> userres s = no_rows \<and> delband s = no_rows \<and> outbox s = []"

lemma fresh_empty: "fresh empty_sys"
  by (simp add: fresh_def market_start_def empty_sys_def)

lemma fresh_typed: "fresh s \<Longrightarrow> weights_typed s"
  by (simp add: fresh_def weights_typed_def)

lemma step_sends:
  assumes "system_step h (c, a) s = Inr s'" and "supported (c, a)" and "weights_typed s"
  shows "sends c s s' \<and> weights_typed s'"
  using assms(3) by (rule_tac step_kinds [OF assms]) (auto simp: calm_def ram_only_def power_only_def)

interpretation weighing: contract_machine "system_step h" supported weights_typed for h
proof unfold_locales
  fix a s s'
  assume "supported a" and "weights_typed s" and "system_step h a s = Inr s'"
  then show "weights_typed s'" using step_sends by (cases a) blast
qed

text \<open>The RAM books depend on the view of RAM alone.\<close>

lemma ram_books_view: "ram_view s' = ram_view s \<Longrightarrow> ram_books False s' \<longleftrightarrow> ram_books False s"
  by (simp add: ram_books_def market_inv_def ram_view_def)

lemma step_ram:
  assumes "system_step h (c, a) s = Inr s'" and "supported (c, a)" and "weights_typed s" and "ram_books False s"
  shows "ram_books False s'"
  using assms(1-3)
proof (cases rule: step_kinds)
  case calm
  then have "ram_view s' = ram_view s" by (simp add: calm_def)
  from ram_books_view [OF this] show ?thesis using assms(4) by blast
next
  case (ram r)
  show ?thesis by (rule ram_step_books [OF supported_ram [OF assms(2) ram(1)] _ assms(4) ram(2)]) simp
next
  case (power b)
  then have "ram_view s' = ram_view s" by (simp add: power_only_def)
  from ram_books_view [OF this] show ?thesis using assms(4) by blast
qed

interpretation ram_keeping: contract_machine "system_step h" supported "\<lambda>s. weights_typed s \<and> ram_books False s" for h
proof unfold_locales
  fix a s s'
  assume "supported a" and "weights_typed s \<and> ram_books False s" and "system_step h a s = Inr s'"
  then show "weights_typed s' \<and> ram_books False s'" using step_sends step_ram by (cases a) blast
qed

text \<open>
  The books of the power-up market with what is staked: an action that leaves what the totals are beyond the
  stake leaves the books, and a power-up leaves the stake.
\<close>

definition shared_books :: "sys \<Rightarrow> bool" where
  "shared_books s \<longleftrightarrow> market_books (\<lambda>a. net_staked_to a s) (\<lambda>a. cpu_staked_to a s) s"

lemma gap_books:
  assumes "i64 (t' - d') = i64 (t - d)" and "i64 t = i64 (d + m)"
  shows "i64 t' = i64 (d' + m)"
proof -
  have "i64 ((t' - d') + d') = i64 ((t - d) + d')" by (rule i64_add_cong [OF assms(1) refl])
  moreover have "i64 (t + (d' - d)) = i64 ((d + m) + (d' - d))" by (rule i64_add_cong [OF assms(2) refl])
  ultimately show ?thesis by (simp add: algebra_simps)
qed

lemma books_view:
  assumes view: "power_view s' = power_view s" and books: "shared_books s"
  shows "shared_books s'" and "clock s' = clock s"
proof -
  have st: "powerup_st s' = powerup_st s" "powerup_orders s' = powerup_orders s" using view by (simp_all add: power_view_def)
  have gap: "net_gap a s' = net_gap a s" "cpu_gap a s' = cpu_gap a s" for a
    using view by (simp_all add: power_view_def fun_eq_iff)
  have sold: "sold w s' = sold w s" for w by (simp add: sold_def st)
  have share: "market_share r w a s' = market_share r w a s" for r w a
    by (simp add: market_share_def owned_def unsold_def sold st split: option.split)
  have ok: "market_ok s' = market_ok s" by (simp add: market_ok_def orders_ok_def sold st split: option.split)
  have "i64 (total_of ur_net_weight a s') = i64 (net_staked_to a s' + market_share ps_net po_net_weight a s)" for a
    by (rule gap_books [where t = "total_of ur_net_weight a s" and d = "net_staked_to a s"])
      (use gap(1) [of a] books in \<open>simp_all add: net_gap_def shared_books_def market_books_def\<close>)
  moreover have "i64 (total_of ur_cpu_weight a s') = i64 (cpu_staked_to a s' + market_share ps_cpu po_cpu_weight a s)" for a
    by (rule gap_books [where t = "total_of ur_cpu_weight a s" and d = "cpu_staked_to a s"])
      (use gap(2) [of a] books in \<open>simp_all add: cpu_gap_def shared_books_def market_books_def\<close>)
  ultimately show "shared_books s'" using books by (simp add: shared_books_def market_books_def ok share)
  show "clock s' = clock s" by (simp add: clock_def st)
qed

definition time_of :: "ctx \<times> system_action \<Rightarrow> int" where
  "time_of a = seconds_of (ctx_now (fst a))"

lemma step_shared:
  assumes run: "system_step h (c, a) s = Inr s'" and sup: "supported (c, a)" and typed: "weights_typed s"
    and books: "shared_books s" and time: "clock s \<le> time_of (c, a)" and small: "small_market s'"
  shows "shared_books s' \<and> clock s' \<le> time_of (c, a)"
  using run sup typed
proof (cases rule: step_kinds)
  case calm
  then have "power_view s' = power_view s" by (simp add: calm_def)
  from books_view [OF this books] show ?thesis using time by simp
next
  case (ram r)
  then have "power_view s' = power_view s" by (simp add: ram_only_def)
  from books_view [OF this books] show ?thesis using time by simp
next
  case (power b)
  have adm: "powerup_admissible (c, b)" using sup by (simp add: power(1))
  have now: "clock s \<le> second_of (c, b)" using time by (simp add: time_of_def second_of_def)
  have "net_staked_to v s' = net_staked_to v s" "cpu_staked_to v s' = cpu_staked_to v s" for v
    using power(3) by (simp_all add: power_only_def net_staked_to_def cpu_staked_to_def)
  then show ?thesis
    using powerup_step_books [OF adm books [unfolded shared_books_def] now power(2) small]
    by (simp add: shared_books_def time_of_def second_of_def)
qed

lemma history_shared:
  assumes "list_all supported as" and "sorted (map time_of as)"
    and "\<And>n. small_market (run (system_step h) (take n as) s0)" and "fresh s0"
  shows "shared_books (run (system_step h) as s0) \<and>
    (\<forall>t \<ge> 0. (\<forall>a \<in> set as. time_of a \<le> t) \<longrightarrow> clock (run (system_step h) as s0) \<le> t)"
  using assms(1-3)
proof (induction as rule: rev_induct)
  case Nil
  have "total_of g a s0 = 0" "net_staked_to a s0 = 0" "cpu_staked_to a s0 = 0" for g a
    using assms(4) by (simp_all add: fresh_def total_of_def net_staked_to_def cpu_staked_to_def weighed_def)
  then show ?case
    using assms(4) market_start_books [of s0] by (simp add: fresh_def shared_books_def)
next
  case (snoc a as)
  let ?s = "run (system_step h) as s0"
  have "small_market (run (system_step h) (take n as) s0)" for n
    using snoc.prems(3) [of "min n (length as)"] by (cases "n \<le> length as") (simp_all add: min_def)
  then have ih: "shared_books ?s" "\<And>t. 0 \<le> t \<Longrightarrow> (\<forall>a \<in> set as. time_of a \<le> t) \<Longrightarrow> clock ?s \<le> t"
    using snoc.IH snoc.prems by (simp_all add: sorted_append)
  obtain c b where a: "a = (c, b)" by (cases a)
  have pos: "0 \<le> time_of a" by (simp add: time_of_def seconds_of_def)
  have time: "clock ?s \<le> time_of (c, b)"
    unfolding a [symmetric] by (rule ih(2) [OF pos]) (use snoc.prems(2) in \<open>simp add: sorted_append\<close>)
  show ?case
  proof (cases "system_step h a ?s")
    case (Inl e)
    then show ?thesis using ih by (simp add: run_append)
  next
    case (Inr s')
    have small: "small_market s'" using snoc.prems(3) [of "length (as @ [a])"] Inr by (simp add: run_append)
    have typed: "weights_typed ?s"
      using weighing.run_inv [OF _ fresh_typed [OF assms(4)]] snoc.prems(1) by simp
    have "system_step h (c, b) ?s = Inr s'" "supported (c, b)" using Inr snoc.prems(1) by (simp_all add: a)
    from step_shared [OF this typed ih(1) time small] show ?thesis
      using Inr by (auto simp: run_append a intro: order_trans)
  qed
qed

section \<open>Properties\<close>

text \<open>
  C4: the contract spends nobody's tokens but its signers': after every history of its actions, of any component
  and in any order, the messages that were sent are, in order, those of the actions that succeeded, and each of
  them is authorised: a transfer is sent with the active permission of its source, which signed the action or is
  one of the accounts that the contract holds tokens in; only the contract's own account issues and retires, and
  nothing else is called on a token contract. Assumed: the toolkit's assets behave as documented and amounts and
  times fit into their types.
\<close>

theorem only_signers_pay:
  assumes "list_all supported as" and "fresh s0"
  shows "\<exists>mss. outbox (run (system_step h) as s0) = concat mss \<and>
    list_all2 (\<lambda>(c, a). list_all (authorised c)) (effective (system_step h) as s0) mss"
proof -
  have "weights_typed (run (system_step h) as s0) \<and> (\<exists>mss. outbox (run (system_step h) as s0) = concat mss \<and>
    list_all2 (\<lambda>(c, a). list_all (authorised c)) (effective (system_step h) as s0) mss)"
    using assms(1)
  proof (induction rule: effective_induct [where P = "\<lambda>es s. weights_typed s \<and>
      (\<exists>mss. outbox s = concat mss \<and> list_all2 (\<lambda>(c, a). list_all (authorised c)) es mss)"])
    case Nil
    have "outbox s0 = concat []" using assms(2) by (simp add: fresh_def)
    then show ?case using fresh_typed [OF assms(2)] by blast
  next
    case (Snoc es s a s')
    obtain c b where a: "a = (c, b)" by (cases a)
    obtain mss where old: "weights_typed s" "outbox s = concat mss" "list_all2 (\<lambda>(c, a). list_all (authorised c)) es mss"
      using Snoc(1) by blast
    obtain ms where "weights_typed s'" "outbox s' = outbox s @ ms" "list_all (authorised c) ms"
      using step_sends [of h c b s s'] Snoc(2,3) old(1) by (auto simp: a sends_def)
    then show ?case
      using old by (intro conjI exI [of _ "mss @ [ms]"]) (simp_all add: a list_all2_appendI)
  qed
  then show ?thesis by blast
qed

text \<open>
  C6: no action makes or loses a byte of RAM: after every history of the contract's actions the bytes that accounts
  own add up to \<open>total_ram_bytes_reserved\<close>, and these and the bytes for sale make up \<open>max_ram_size\<close> (modulo
  \<open>2 ^ 64\<close>, as the code counts).
\<close>

theorem ram_survives_every_action:
  assumes "list_all supported as" and "s = run (system_step h) as empty_sys"
  shows "u64 (owned_ram s) = u64 (total_ram_bytes_reserved (gs s)) \<and>
    (\<forall>m. rammarket s = Some m \<longrightarrow> u64 (reserve (ex_base m) + owned_ram s) = u64 (max_ram_size (gs s)))"
proof -
  have "ram_books False empty_sys" using ram_inv_empty by (simp add: ram_books_def)
  then have inv: "ram_books False s"
    unfolding assms(2) using ram_keeping.run_inv [OF assms(1)] fresh_typed [OF fresh_empty] by blast
  then have own: "u64 (owned_ram s) = u64 (total_ram_bytes_reserved (gs s))" by (simp add: ram_books_def)
  have "u64 (reserve (ex_base m) + owned_ram s) = u64 (max_ram_size (gs s))" if m: "rammarket s = Some m" for m
    using ram_books_parts(3) [OF inv m] u64_add_cong [OF refl own, of "reserve (ex_base m)"] by simp
  then show ?thesis using own by blast
qed

text \<open>
  C5: the totals that limit an account's bandwidth are accounted for: after every history of the contract's actions
  the total of every account, for either resource, is what is delegated to it, plus what its power-up orders
  hold, plus, for \<open>eosio.reserv\<close>, what the market has not sold (at the width of the field). Staking, RAM, the
  creation of accounts and the market all write these rows. Assumed as above, that time does not run backwards, and
  that no configuration makes a weight of the market reach \<open>2 ^ 62\<close>.
\<close>

theorem totals_are_accounted_for:
  assumes "list_all supported as" and "sorted (map time_of as)"
    and "\<And>n. small_market (run (system_step h) (take n as) s0)" and "fresh s0" and "s = run (system_step h) as s0"
  shows "i64 (total_of ur_net_weight a s) = i64 (net_staked_to a s +
      (owned po_net_weight a s + (if a = reserve_account then unsold ps_net po_net_weight s else 0))) \<and>
    i64 (total_of ur_cpu_weight a s) = i64 (cpu_staked_to a s +
      (owned po_cpu_weight a s + (if a = reserve_account then unsold ps_cpu po_cpu_weight s else 0)))"
  using conjunct1 [OF history_shared [OF assms(1-4)]]
  unfolding assms(5) [symmetric] shared_books_def market_books_def market_share_def by blast

section \<open>Witnesses\<close>

definition sample_host :: host where
  "sample_host = \<lparr>sha256 = (\<lambda>b. b), accepts_schedule = (\<lambda>_. True), authority_valid = (\<lambda>_. True)\<rparr>"

text \<open>The market is set up, and an account buys RAM for another.\<close>

definition sample_contract :: "(ctx \<times> system_action) list" where
  "sample_contract = [(sample_ctx 7 [7], Setup (setup_action.Init sample_tokens 0 wax)),
     (sample_ctx 7 [1], Resource (resource_action.Buyram 1 2 (wax_asset 49)))]"

lemma sample_supported: "list_all supported sample_contract"
  using sample_ram_admissible by (simp add: sample_contract_def sample_ram_def)

lemma sample_contract_run:
  obtains s m where "run (system_step h) sample_contract empty_sys = s" and "owned_ram s = 1610612736"
    and "effective (system_step h) sample_contract empty_sys = sample_contract" and "rammarket s = Some m"
    and "max_ram_size (gs s) = 68719476736"
proof -
  let ?t = "run ram_step (take 1 sample_ram) empty_sys"
  obtain s m where s: "buyram (sample_ctx 7 [1]) 1 2 (wax_asset 49) ?t = Inr s" "owned_ram s = 1610612736" "rammarket s = Some m"
    using sample_bought by blast
  have one: "init (sample_ctx 7 [7]) sample_tokens 0 wax empty_sys = Inr ?t"
    unfolding sample_initialized
    by (simp add: init_def get_supply_def sample_tokens_def require_auth_def sample_simps
      empty_sys_def default_gstate_def free_ram_def sdiv_nonneg)
  have "max_ram_size (gs s) = 68719476736"
    using s(1) unfolding sample_initialized
    by (rule buyram_Inr)
       (auto simp: update_ram_supply_def sample_ctx_def empty_sys_def default_gstate_def
         dest!: credit_ram_Inr(2) [THEN arg_cong [of _ _ "\<lambda>s. max_ram_size (gs s)"]])
  then show ?thesis
    using s one by (intro that [of s m]) (simp_all add: sample_contract_def)
qed

theorem only_signers_pay_witness:
  "\<exists>mss. outbox (run (system_step sample_host) sample_contract empty_sys) = concat mss \<and>
    list_all2 (\<lambda>(c, a). list_all (authorised c)) sample_contract mss"
  by (rule sample_contract_run [of sample_host])
    (use only_signers_pay [OF sample_supported fresh_empty, of sample_host] in simp)

theorem ram_survives_every_action_witness:
  "\<exists>m. rammarket (run (system_step sample_host) sample_contract empty_sys) = Some m \<and>
    u64 (reserve (ex_base m) + 1610612736) = 68719476736"
proof (rule sample_contract_run [of sample_host])
  fix s m
  assume s: "run (system_step sample_host) sample_contract empty_sys = s" "owned_ram s = 1610612736" "rammarket s = Some m"
    "max_ram_size (gs s) = 68719476736"
  show ?thesis
    using ram_survives_every_action [OF sample_supported s(1) [symmetric]] s(2-4) by (simp add: s(1))
qed

text \<open>The power-up market is configured, and an account buys for another.\<close>

definition sample_powerups :: "(ctx \<times> system_action) list" where
  "sample_powerups = map (\<lambda>(c, a). (c, Power a)) sample_market_actions"

lemma run_powerups: "run (system_step h) (map (\<lambda>(c, a). (c, Power a)) as) s = run powerup_step as s"
  by (induction as arbitrary: s) (auto split: sum.split)

lemma sample_powerups_hyps:
  "list_all supported sample_powerups" "sorted (map time_of sample_powerups)" "fresh sample_sys"
proof -
  show "list_all supported sample_powerups"
    using sample_market_hyps(1) by (auto simp: sample_powerups_def sample_market_actions_def std_library.asset_library_axioms)
  show "sorted (map time_of sample_powerups)"
    by (simp add: sample_powerups_def sample_market_actions_def time_of_def)
  show "fresh sample_sys" using sample_market_hyps(3) by (simp add: fresh_def sample_sys_def empty_sys_def)
qed

theorem totals_are_accounted_for_witness:
  "\<exists>s. s = run (system_step sample_host) sample_powerups sample_sys \<and> total_of ur_net_weight 2 s = 512 \<and>
    i64 (total_of ur_net_weight 2 s) = i64 (net_staked_to 2 s + owned po_net_weight 2 s)"
proof -
  have same: "run (system_step sample_host) (take n sample_powerups) sample_sys = run powerup_step (take n sample_market_actions) sample_sys" for n
    by (simp add: sample_powerups_def take_map run_powerups)
  have small: "small_market (run (system_step sample_host) (take n sample_powerups) sample_sys)" for n
    by (simp only: same sample_small)
  obtain u l t net cpu out where s: "run powerup_step sample_market_actions sample_sys = market_at u l t (sample_state net cpu) out"
    and u: "find_row u 2 = Some (totals_row 2 512 0)"
    by (rule sample_market_run, rule that, assumption) (simp_all add: account_values)
  have "total_of ur_net_weight 2 (market_at u l t (sample_state net cpu) out) = 512"
    by (simp add: total_of_def u totals_row_def amount_wax)
  moreover have "run (system_step sample_host) sample_powerups sample_sys = market_at u l t (sample_state net cpu) out"
    by (simp add: sample_powerups_def run_powerups s)
  ultimately show ?thesis
    using totals_are_accounted_for [OF sample_powerups_hyps(1,2) small sample_powerups_hyps(3) refl, of 2]
    by (simp add: account_values)
qed

end
