(* ===== verification/VoteFrames.thy ===== *)
theory VoteFrames
  imports VotingLemmas
begin

text \<open>
  What voting for producers leaves alone: any part of the state that it does not write, stated once for all such
  parts in the locale \<open>vote_frame\<close>. The two instances are the tables of the worker proposals and of the votes for
  them.
\<close>

locale vote_frame =
  fixes view :: "sys \<Rightarrow> 'v"
  assumes view_gs [simp]: "view (s\<lparr>gs := a\<rparr>) = view s"
    and view_gs2 [simp]: "view (s\<lparr>gs2 := b\<rparr>) = view s"
    and view_gs3 [simp]: "view (s\<lparr>gs3 := d\<rparr>) = view s"
    and view_voters [simp]: "view (s\<lparr>voters := v\<rparr>) = view s"
    and view_producers [simp]: "view (s\<lparr>producers := p\<rparr>) = view s"
    and view_producers2 [simp]: "view (s\<lparr>producers2 := q\<rparr>) = view s"
begin

lemma view_totals [simp]: "view (update_total_votepay_share t x y s) = view s"
  by (simp add: update_total_votepay_share_def Let_def)

lemma view_settle: "settle_votepay ct k p v d acc = (r, i, s') \<Longrightarrow> view s' = view (snd (snd acc))"
  by (auto simp: settle_votepay_def update_producer_votepay_share_def Let_def split: prod.splits option.splits if_splits)

lemma view_shift: "shift_producer ct d k acc = Inr acc' \<Longrightarrow> view (snd (snd acc')) = view (snd (snd acc))"
  by (cases acc') (auto simp: shift_producer_def Let_def dest!: view_settle split: prod.splits)

lemma view_vote_on: "vote_on_producer c b pd acc = Inr acc' \<Longrightarrow> view (snd (snd acc')) = view (snd (snd acc))"
  by (cases acc') (auto simp: vote_on_producer_def Let_def dest!: view_settle split: prod.splits option.splits)

lemma view_folds:
  "fold_result (shift_producer ct d) ks acc = Inr acc' \<Longrightarrow> view (snd (snd acc')) = view (snd (snd acc))"
  "fold_result (vote_on_producer c b) pds acc = Inr acc' \<Longrightarrow> view (snd (snd acc')) = view (snd (snd acc))"
  by (erule fold_result_inv [where I = "\<lambda>x. view (snd (snd x)) = view (snd (snd acc))"]; auto dest: view_shift view_vote_on)+

lemma view_last [simp]: "view (set_last_weight w x s) = view s" "view (add_proxied w x v s) = view s"
  by (simp_all add: set_last_weight_def add_proxied_def split: option.split)

lemma view_propagate: "propagate_weight_change n c w s = Inr s' \<Longrightarrow> view s' = view s"
proof (induction n arbitrary: w s s')
  case (Suc n)
  then show ?case by (auto simp: Let_def split: if_splits dest!: view_folds(1))
qed simp

lemma view_votes:
  assumes "update_votes c w proxy ps voting s = Inr s'"
  shows "view s' = view s"
proof -
  obtain v d1 s1 d2 s2 r i s3 where "find_row (voters s) w = Some v"
    and one: "withdraw_old_vote c v (activate_stake c v s) = Inr (d1, s1)"
    and two: "cast_new_vote c (full_weight c v) proxy ps voting (d1, s1) = Inr (d2, s2)"
    and three: "fold_result (vote_on_producer c voting) (entries d2) (Fin 0, Fin 0, s2) = Inr (r, i, s3)"
    and s': "s' = record_vote w (full_weight c v) proxy ps c (update_total_votepay_share (ctx_now c) (fneg i) r s3)"
    using assms unfolding update_votes_def Let_def check_Inr bind_result_Inr some_or_Inr split_paired_Ex prod.case sum.inject
    by (elim exE conjE) (rule that, assumption+, rule sym)
  have "view s1 = view s"
    using one by (auto simp: withdraw_old_vote_def propagate_def activate_stake_def Let_def dest!: view_propagate split: if_splits)
  moreover have "view s2 = view s1"
    using two by (auto simp: cast_new_vote_def propagate_def dest!: view_propagate split: if_splits)
  moreover have "view s3 = view s2" using view_folds(2) [OF three] by simp
  moreover have "view s' = view s3"
    by (simp add: s' record_vote_def update_voter_votepay_share_def Let_def split: option.split)
  ultimately show ?thesis by simp
qed

lemma view_regproxy: "regproxy c w b s = Inr s' \<Longrightarrow> view s' = view s"
  by (auto simp: regproxy_def propagate_def dest!: view_propagate split: option.splits)

end

interpretation proposal_votes: vote_frame wpsvoters
  by unfold_locales simp_all

interpretation voted_proposals: vote_frame proposals
  by unfold_locales simp_all

end
