(* ===== verification/ProposalVoters.thy ===== *)
theory ProposalVoters
  imports StakeProperties VoteFrames
begin

text \<open>
  Where votes for producers and votes for worker proposals meet. An account that votes for proposals may become a
  proxy, but a change of its stake then repeats its proposal votes, which a proxy may not cast. Such an
  account can change its stake no more.
\<close>

section \<open>Proxies with votes for proposals\<close>

lemma proxy_cannot_vote:
  "find_row (voters s) w = Some v \<Longrightarrow> is_proxy v \<Longrightarrow> update_wps_votes c w ps s \<noteq> Inr s'"
  by (auto simp: update_wps_votes_def Let_def)

lemma proxy_power_fails:
  assumes "find_row (voters s) w = Some v" and "is_proxy v" and "find_row (wpsvoters s) w = Some p"
  shows "update_voting_power c w q s \<noteq> Inr s'"
proof
  assume run: "update_voting_power c w q s = Inr s'"
  define v1 where "v1 = v\<lparr>staked := i64 (staked v + amount q)\<rparr>"
  define s1 where "s1 = s\<lparr>voters := modify_row same_payer w v1 (voters s)\<rparr>"
  obtain s2 s3 where two: "(if w = b1_account then validate_b1_vesting c (staked v1) (Inr s1) else Inr s1) = Inr s2"
    and three: "(if vi_producers v1 \<noteq> [] \<or> vi_proxy v1 \<noteq> 0
                 then update_votes c w (vi_proxy v1) (vi_producers v1) False s2 else Inr s2) = Inr s3"
    and four: "(case find_row (wpsvoters s3) w of None \<Rightarrow> Inr s3
                | Some wv \<Rightarrow> update_wps_votes c w (wv_proposals wv) s3) = Inr s'"
    using run unfolding update_voting_power_def assms(1) option.case Let_def v1_def [symmetric] s1_def [symmetric] by auto
  have s2: "s2 = s1" using two by (auto simp: validate_b1_vesting_def Let_def split: if_splits)
  have s1: "find_row (voters s1) w = Some v1" "is_proxy v1" "wpsvoters s1 = wpsvoters s"
    using assms(1,2) by (simp_all add: s1_def v1_def)
  have "wpsvoters s3 = wpsvoters s1 \<and> (\<exists>v3. find_row (voters s3) w = Some v3 \<and> is_proxy v3)"
  proof (cases "vi_producers v1 \<noteq> [] \<or> vi_proxy v1 \<noteq> 0")
    case True
    then have up: "update_votes c w (vi_proxy v1) (vi_producers v1) False s1 = Inr s3" using three s2 by simp
    obtain h where h: "shapes s1 w = Some h" "shapes s3 = (shapes s1)(w \<mapsto> h\<lparr>sh_proxy := vi_proxy v1, sh_producers := vi_producers v1\<rparr>)"
      by (rule update_votes_effect [OF up]) (rule that)
    have "h = voter_shape v1" using h(1) s1(1) by (simp add: shapes_def)
    then have "shapes s3 w = Some (voter_shape v1)" using h(2) by (simp add: voter_shape_def)
    then obtain v3 where "find_row (voters s3) w = Some v3" "voter_shape v3 = voter_shape v1"
      using shape_found by metis
    moreover from this have "is_proxy v3" using s1(2) by (simp add: voter_shape_def)
    ultimately show ?thesis using proposal_votes.view_votes [OF up] by blast
  qed (use three s2 s1 in auto)
  then obtain v3 where "find_row (voters s3) w = Some v3" "is_proxy v3" "find_row (wpsvoters s3) w = Some p"
    using s1(3) assms(3) by auto
  then show False using four proxy_cannot_vote by auto
qed

lemma refund_voters: "update_refund c f n m s = Inr (a, b, s') \<Longrightarrow> voters s' = voters s \<and> wpsvoters s' = wpsvoters s \<and> proposals s' = proposals s"
  by (auto simp: update_refund_def Let_def split: if_splits option.splits)

lemma settle_voters:
  "settle_stake c src f r dn dc tr s = Inr s' \<Longrightarrow> voters s' = voters s \<and> wpsvoters s' = wpsvoters s \<and> proposals s' = proposals s"
  by (auto simp: settle_stake_def send_token_def Let_def split: if_splits dest!: refund_voters)

lemma changebw_ends:
  assumes "changebw c src r dn dc tr s = Inr s'"
  obtains q t where "update_voting_power c (if tr then r else src) q t = Inr s'"
    and "voters t = voters s" and "wpsvoters t = wpsvoters s" and "proposals t = proposals s"
proof -
  define f where "f = (if tr then r else src)"
  obtain q s1 s2 s3 where one: "update_delband c f r dn dc s = Inr s1" and two: "update_totals c f r dn dc s1 = Inr s2"
    and three: "settle_stake c src f r dn dc tr s2 = Inr s3"
    and four: "update_voting_power c f q (s3\<lparr>wps_total_stake := fadd (wps_total_stake s3)
          (of_i64 (i64 (amount dn + amount dc)))\<rparr>) = Inr s'"
    using assms by (auto simp: changebw_def Let_def f_def)
  obtain t1 where "s1 = s\<lparr>delband := t1\<rparr>"
    using one unfolding update_delband_def bind_result_Inr check_Inr sum.inject by (elim exE conjE) (rule that, erule sym)
  then have s1: "voters s1 = voters s" "wpsvoters s1 = wpsvoters s" "proposals s1 = proposals s" by simp_all
  obtain row t2 where s2: "s2 = (apply_limits r row s1)\<lparr>userres := t2\<rparr>"
    using two unfolding update_totals_def bind_result_Inr check_Inr sum.inject by (elim exE conjE) (rule that, erule sym)
  then have "voters s2 = voters s \<and> wpsvoters s2 = wpsvoters s \<and> proposals s2 = proposals s"
    by (simp add: s1 apply_limits_def set_resource_limits_def split: prod.split)
  moreover have "voters s3 = voters s2 \<and> wpsvoters s3 = wpsvoters s2 \<and> proposals s3 = proposals s2"
    using three by (rule settle_voters)
  ultimately show ?thesis by (intro that [OF four [unfolded f_def]]) simp_all
qed

lemma proxy_stake_fails:
  assumes "find_row (voters s) w = Some v" and "is_proxy v" and "find_row (wpsvoters s) w = Some p"
    and "(if tr then r else src) = w"
  shows "changebw c src r dn dc tr s \<noteq> Inr s'"
proof
  assume "changebw c src r dn dc tr s = Inr s'"
  then obtain q t where "update_voting_power c w q t = Inr s'" "voters t = voters s" "wpsvoters t = wpsvoters s"
    unfolding assms(4) [symmetric] by (rule changebw_ends)
  then show False using proxy_power_fails assms(1-3) by metis
qed

text \<open>
  C23: an account that voted for worker proposals and then becomes a proxy is stuck with its stake: it can neither
  undelegate nor delegate, and nobody can delegate to it with transfer of ownership, whatever the amounts and
  whoever signs, because each of these repeats its votes for proposals and a proxy may not vote for proposals.
\<close>

theorem proxies_with_proposal_votes_are_stuck:
  assumes "regproxy c w True s = Inr s'" and "find_row (wpsvoters s) w = Some p"
  shows "\<not> is_ok (undelegatebw d w r n q s') \<and> \<not> is_ok (delegatebw d w r n q False s') \<and> \<not> is_ok (delegatebw d x w n q True s')"
proof -
  obtain h where "shapes s' = (shapes s)(w \<mapsto> h\<lparr>sh_is_proxy := True\<rparr>)"
    by (rule regproxy_effect [OF assms(1)]) (rule that)
  then obtain v where found: "find_row (voters s') w = Some v" "h\<lparr>sh_is_proxy := True\<rparr> = voter_shape v"
    using shape_found [of s' w] by auto
  have "sh_is_proxy (voter_shape v)" by (simp flip: found(2))
  then have v: "find_row (voters s') w = Some v" "is_proxy v" using found(1) by (simp_all add: voter_shape_def)
  have p: "find_row (wpsvoters s') w = Some p"
    using assms(2) proposal_votes.view_regproxy [OF assms(1)] by simp
  note fails = proxy_stake_fails [OF v p]
  have "undelegatebw d w r n q s' \<noteq> Inr t" for t
    unfolding undelegatebw_def check_at_least_def bind_result_Inr some_or_Inr check_Inr using fails [of False] by auto
  moreover have "delegatebw d w r n q False s' \<noteq> Inr t" "delegatebw d x w n q True s' \<noteq> Inr t" for t
    unfolding delegatebw_def check_at_least_def bind_result_Inr some_or_Inr check_Inr using fails [of False] fails [of True] by auto
  ultimately show ?thesis by (simp add: is_ok_iff)
qed

text \<open>An account with a stake that voted for proposals.\<close>

definition proposal_voter :: sys where
  "proposal_voter = stake_start\<lparr>voters := put 1 1 ((default_voter 1)\<lparr>staked := 150\<rparr>) no_rows,
     wpsvoters := put 1 1 \<lparr>wv_owner = 1, wv_proposals = [7], wv_last_vote_weight = Fin 150\<rparr> no_rows\<rparr>"

theorem proxies_with_proposal_votes_are_stuck_witness:
  "\<exists>s'. regproxy (stake_ctx 1 0) 1 True proposal_voter = Inr s' \<and>
     \<not> is_ok (undelegatebw (stake_ctx 1 2500000) 1 2 (wax_asset 40) (wax_asset 50) s')"
proof -
  obtain s' where s': "regproxy (stake_ctx 1 0) 1 True proposal_voter = Inr s'"
    by (simp add: proposal_voter_def vote_evals require_auth_def stake_weight)
  have "find_row (wpsvoters proposal_voter) 1 = Some \<lparr>wv_owner = 1, wv_proposals = [7], wv_last_vote_weight = Fin 150\<rparr>"
    by (simp add: proposal_voter_def)
  from proxies_with_proposal_votes_are_stuck [OF s' this] show ?thesis using s' by blast
qed

end
