(* ===== verification/ProposalReview.thy ===== *)
theory ProposalReview
  imports ContractProperties ProposalVoters WpsProperties
begin

text \<open>
  What a worker proposal has behind it when its funds are claimed, over histories of the whole contract. Proposals
  change by the actions on them and by changes of stake, which repeat the votes on record; every other action leaves
  them alone (an instance of \<open>quiet_frame\<close>, one of \<open>market_frame\<close>, and the actions on RAM). So a proposal that is paid
  was registered, accepted, counted and approved, in this order. It may be counted without a vote of its own: the
  last lemma is a history in which a stake does it.
\<close>

section \<open>In order\<close>

fun in_order :: "('a \<Rightarrow> bool) list \<Rightarrow> 'a list \<Rightarrow> bool" where
  "in_order [] xs \<longleftrightarrow> True"
| "in_order (P # Ps) [] \<longleftrightarrow> False"
| "in_order (P # Ps) (x # xs) \<longleftrightarrow> (if P x then in_order Ps xs else in_order (P # Ps) xs)"

lemma in_order_append: "in_order Ps xs \<Longrightarrow> in_order Ps (xs @ ys)"
  by (induction Ps xs rule: in_order.induct) auto

lemma in_order_snoc: "in_order Ps xs \<Longrightarrow> P x \<Longrightarrow> in_order (Ps @ [P]) (xs @ [x])"
proof (induction Ps xs rule: in_order.induct)
  case (1 xs)
  then show ?case by (induction xs) auto
qed auto

section \<open>What leaves the proposals alone\<close>

definition same_proposals :: "ctx \<Rightarrow> sys \<Rightarrow> sys \<Rightarrow> bool" where
  "same_proposals c s s' \<longleftrightarrow> proposals s' = proposals s"

interpretation unproposing: quiet_frame same_proposals "\<lambda>_ _ _. True"
  by unfold_locales
    (auto simp: same_proposals_def send_token_def dest: voted_proposals.view_votes voted_proposals.view_regproxy)

interpretation unmarketed: market_frame same_proposals
proof unfold_locales
  fix c p w core n m b and s s' :: sys
  assume "adjust_resources c p w core n m b s = Inr s'"
  then show "same_proposals c s s'"
    unfolding same_proposals_def adjust_resources_def bind_result_Inr check_Inr
    by (auto simp: apply_limits_def set_resource_limits_def Let_def split: if_splits prod.splits option.splits)
qed (simp_all add: same_proposals_def)

lemma supply_proposals: "update_ram_supply c s = Inr s1 \<Longrightarrow> proposals s1 = proposals s"
  using update_ram_supply_Inr by fastforce

lemma ram_limit_proposals [simp]: "proposals (apply_ram_limit w n s) = proposals s" "proposals (book_ram n m s) = proposals s"
  by (simp_all add: apply_ram_limit_def set_resource_limits_def book_ram_def split: prod.split)

lemma ram_proposals:
  "init c tok v core s = Inr s' \<Longrightarrow> proposals s' = proposals s" "setram c n s = Inr s' \<Longrightarrow> proposals s' = proposals s"
  "setramrate c r s = Inr s' \<Longrightarrow> proposals s' = proposals s"
  by (auto simp: init_def setram_def setramrate_def Let_def dest: supply_proposals)

lemma buyram_proposals:
  assumes "buyram c p r q s = Inr s'"
  shows "proposals s' = proposals s"
  using assms
proof (rule buyram_Inr)
  fix s1 m out m' row s6 paid fee
  assume one: "update_ram_supply c s = Inr s1"
    and credit: "credit_ram c r (amount out) (book_ram (amount out) (amount paid)
       (s1\<lparr>outbox := outbox s1 @ purchase p paid fee, rammarket := Some m'\<rparr>)) = Inr (row, s6)"
    and s': "s' = apply_ram_limit (ur_owner row) (ur_ram_bytes row) s6"
  have "proposals s6 = proposals s1" by (subst credit_ram_Inr(2) [OF credit]) simp
  then show ?thesis using supply_proposals [OF one] by (simp add: s')
qed

lemma sellram_proposals:
  assumes "sellram c w n s = Inr s'"
  shows "proposals s' = proposals s"
  using assms
proof (rule sellram_Inr)
  fix s1 m res sold out m' row s5
  assume one: "update_ram_supply c s = Inr s1"
    and s5: "s5 = book_ram (- n) (- amount out) (s1\<lparr>rammarket := Some m'\<rparr>)"
    and pay: "pay_for_sale (ctx_lib c) w out (asset_symbol (con_balance (ex_quote m)))
       (apply_ram_limit (ur_owner row) (ur_ram_bytes row) (s5\<lparr>userres := modify_row (Some w) w row (userres s1)\<rparr>)) = Inr s'"
  have "proposals s' = proposals s5"
    using pay by (auto simp: pay_for_sale_def Let_def send_token_def split: if_splits)
  then show ?thesis using supply_proposals [OF one] by (simp add: s5)
qed

lemma refund_proposals:
  "refund c w s = Inr s' \<Longrightarrow> proposals s' = proposals s" "removerefund c w q s = Inr s' \<Longrightarrow> proposals s' = proposals s"
proof -
  show "refund c w s = Inr s' \<Longrightarrow> proposals s' = proposals s" by (auto simp: refund_def send_token_def)
  show "removerefund c w q s = Inr s' \<Longrightarrow> proposals s' = proposals s"
    unfolding removerefund_def check_at_least_def require_auth_Inr bind_result_Inr some_or_Inr check_Inr
    by (elim exE conjE) (auto split: if_splits)
qed

section \<open>Counting\<close>

text \<open>Counting votes moves a proposal from \<open>ON_VOTE\<close> alone.\<close>

definition counted :: "sys \<Rightarrow> sys \<Rightarrow> bool" where
  "counted s s' \<longleftrightarrow> (\<forall>w. status_of s' w = status_of s w \<or>
     status_of s w = Some ON_VOTE \<and> status_of s' w \<in> {Some FINISHED_VOTING, Some REJECTED})"

lemma counted_same: "proposals s' = proposals s \<Longrightarrow> counted s s'"
  by (simp add: counted_def status_of_def)

lemma votes_count:
  assumes "update_wps_votes c w ps s = Inr s'"
  shows "counted s s'"
  using assms
proof (rule update_wps_votes_Inr)
  fix voter
  assume rows: "\<And>k. find_row (proposals s') k =
     (case entry (proposal_deltas (find_row (wpsvoters s) w) (stake2vote c (staked voter)) ps) k of
        None \<Rightarrow> find_row (proposals s) k | Some (d, b) \<Rightarrow> map_option (voted c s d) (find_row (proposals s) k))"
  have "status_of s' k = status_of s k \<or>
     status_of s k = Some ON_VOTE \<and> status_of s' k \<in> {Some FINISHED_VOTING, Some REJECTED}" for k
    unfolding status_of_def rows
    by (cases "find_row (proposals s) k") (auto simp: voted_def Let_def split: option.splits prod.splits)
  then show ?thesis by (simp add: counted_def)
qed

lemma power_counts:
  assumes "update_voting_power c w q s = Inr s'"
  shows "counted s s'"
proof -
  define v where "v = (case find_row (voters s) w of None \<Rightarrow> (default_voter w)\<lparr>staked := amount q\<rparr>
     | Some v \<Rightarrow> v\<lparr>staked := i64 (staked v + amount q)\<rparr>)"
  define s1 where "s1 = s\<lparr>voters := (case find_row (voters s) w of None \<Rightarrow> put w w v (voters s)
     | Some _ \<Rightarrow> modify_row same_payer w v (voters s))\<rparr>"
  obtain s2 s3 where two: "(if w = b1_account then validate_b1_vesting c (staked v) (Inr s1) else Inr s1) = Inr s2"
    and three: "(if vi_producers v \<noteq> [] \<or> vi_proxy v \<noteq> 0
                 then update_votes c w (vi_proxy v) (vi_producers v) False s2 else Inr s2) = Inr s3"
    and four: "(case find_row (wpsvoters s3) w of None \<Rightarrow> Inr s3
                | Some wv \<Rightarrow> update_wps_votes c w (wv_proposals wv) s3) = Inr s'"
    using assms unfolding update_voting_power_def Let_def v_def [symmetric] s1_def [symmetric] by auto
  have "s2 = s1" using two by (auto simp: validate_b1_vesting_def Let_def split: if_splits)
  then have "proposals s2 = proposals s" by (simp add: s1_def)
  moreover have "proposals s3 = proposals s2"
    using three by (auto dest: voted_proposals.view_votes split: if_splits)
  ultimately have "proposals s3 = proposals s" by simp
  moreover have "counted s3 s'" using four by (auto dest: votes_count intro: counted_same split: option.splits)
  ultimately show ?thesis by (simp add: counted_def status_of_def)
qed

lemma changebw_counts:
  assumes "changebw c src r dn dc tr s = Inr s'"
  shows "has_auth c src \<and> counted s s'"
proof (rule changebw_ends [OF assms])
  fix q t
  assume run: "update_voting_power c (if tr then r else src) q t = Inr s'" and t: "proposals t = proposals s"
  from power_counts [OF run] t have "counted s s'" by (simp add: counted_def status_of_def)
  moreover have "has_auth c src" using assms by (simp add: changebw_def)
  ultimately show ?thesis by simp
qed

lemma stakes_count:
  "delegatebw c f r n p tr s = Inr s' \<Longrightarrow> has_auth c f \<and> counted s s'"
  "undelegatebw c f r n p s = Inr s' \<Longrightarrow> has_auth c f \<and> counted s s'"
proof -
  show "delegatebw c f r n p tr s = Inr s' \<Longrightarrow> has_auth c f \<and> counted s s'"
    unfolding delegatebw_def check_at_least_def bind_result_Inr some_or_Inr check_Inr
    by (elim exE conjE) (rule changebw_counts)
  have "has_auth c f \<and> counted s u" if "changebw c f r dn dc False s = Inr t" "change_genesis c r t = Inr u" for dn dc t u
  proof -
    have "same_proposals c t u"
      by (rule unproposing.quiet_change_genesis [OF that(2)]) (simp add: same_proposals_def)
    then show ?thesis using changebw_counts [OF that(1)] by (simp add: counted_def status_of_def same_proposals_def)
  qed
  then show "undelegatebw c f r n p s = Inr s' \<Longrightarrow> has_auth c f \<and> counted s s'"
    unfolding undelegatebw_def check_at_least_def bind_result_Inr some_or_Inr check_Inr
    by (elim exE conjE) blast
qed

section \<open>The stages before a payment\<close>

text \<open>
  Since it was registered a proposal of each status has these successful actions behind it, in order. Its votes are
  counted by a vote for proposals or by a change of stake.
\<close>

type_synonym event = "ctx \<times> system_action"

fun accepts :: "name \<Rightarrow> event \<Rightarrow> bool" where
  "accepts w (c, Worker (Acceptprop r k)) \<longleftrightarrow> k = w \<and> has_auth c r"
| "accepts w (c, a) \<longleftrightarrow> False"

fun counts_votes :: "event \<Rightarrow> bool" where
  "counts_votes (c, Worker (Voteproposal v ps)) \<longleftrightarrow> has_auth c v"
| "counts_votes (c, Resource (Delegatebw f r n p tr)) \<longleftrightarrow> has_auth c f"
| "counts_votes (c, Resource (Undelegatebw f r n p)) \<longleftrightarrow> has_auth c f"
| "counts_votes (c, a) \<longleftrightarrow> False"

fun approves :: "name \<Rightarrow> event \<Rightarrow> bool" where
  "approves w (c, Worker (Approve r k)) \<longleftrightarrow> k = w \<and> has_auth c r"
| "approves w (c, a) \<longleftrightarrow> False"

fun registers :: "name \<Rightarrow> event \<Rightarrow> bool" where
  "registers w (c, Worker (Regproposal k f)) \<longleftrightarrow> k = w"
| "registers w (c, a) \<longleftrightarrow> False"

definition stages :: "name \<Rightarrow> int \<Rightarrow> (event \<Rightarrow> bool) list" where
  "stages w st =
     (if st = ON_VOTE then [accepts w] else if st = FINISHED_VOTING then [accepts w, counts_votes]
      else if st = APPROVED \<or> st = COMPLETED then [accepts w, counts_votes, approves w] else [])"

definition registered :: "event list \<Rightarrow> name \<Rightarrow> (event \<Rightarrow> bool) list \<Rightarrow> bool" where
  "registered es w Ps \<longleftrightarrow> (\<exists>before d f after. es = before @ (d, Worker (Regproposal w f)) # after \<and> has_auth d w \<and>
     \<not> list_ex (registers w) after \<and> in_order Ps after)"

definition staged :: "event list \<Rightarrow> sys \<Rightarrow> bool" where
  "staged es s \<longleftrightarrow> (\<forall>w st. status_of s w = Some st \<longrightarrow> registered es w (stages w st))"

lemma registered_stage:
  assumes "registered es w Ps" and "\<not> registers w a" and "P a"
  shows "registered (es @ [a]) w (Ps @ [P])"
proof -
  obtain before d f after where "es = before @ (d, Worker (Regproposal w f)) # after" "has_auth d w"
    "\<not> list_ex (registers w) after" "in_order Ps after"
    using assms(1) unfolding registered_def by blast
  then show ?thesis
    unfolding registered_def using assms(2,3) in_order_snoc [of Ps after P a]
    by (intro exI [of _ before] exI [of _ d] exI [of _ f] exI [of _ "after @ [a]"]) simp
qed

lemma registered_more:
  assumes "registered es w Ps" and "\<not> registers w a"
  shows "registered (es @ [a]) w Ps"
proof -
  obtain before d f after where "es = before @ (d, Worker (Regproposal w f)) # after" "has_auth d w"
    "\<not> list_ex (registers w) after" "in_order Ps after"
    using assms(1) unfolding registered_def by blast
  then show ?thesis
    unfolding registered_def using assms(2) in_order_append [of Ps after "[a]"]
    by (intro exI [of _ before] exI [of _ d] exI [of _ f] exI [of _ "after @ [a]"]) simp
qed

lemma registered_none: "registered es w Ps \<Longrightarrow> registered es w []"
  by (auto simp: registered_def)

lemma stages_simps [simp]:
  "stages w PENDING = []" "stages w ON_VOTE = [accepts w]" "stages w FINISHED_VOTING = [accepts w, counts_votes]"
  "stages w APPROVED = [accepts w, counts_votes, approves w]" "stages w COMPLETED = [accepts w, counts_votes, approves w]"
  "stages w REJECTED = []"
  by (simp_all add: stages_def)

lemma stages_move:
  assumes "moves (c, b) s w old (Some st)" and "\<And>o'. old = Some o' \<Longrightarrow> registered es w (stages w o')"
  shows "registered (es @ [(c, Worker b)]) w (stages w st)"
  using assms(1)
proof (cases rule: moves.cases)
  case (submit f)
  have "registered (es @ [(c, Worker (Regproposal w f))]) w []"
    unfolding registered_def by (intro exI [of _ es] exI [of _ c] exI [of _ f] exI [of _ "[]"]) (simp add: submit)
  then show ?thesis by (simp add: submit)
next
  case (accept r)
  then show ?thesis
    using registered_stage [OF assms(2) [OF accept(2)], of "(c, Worker b)" "accepts w"] by (simp add: reviewed_by_def)
next
  case (reject r st' t)
  then show ?thesis using registered_none [OF registered_more [OF assms(2) [OF reject(2)], of "(c, Worker b)"]] by simp
next
  case (expire v p ps)
  then show ?thesis using registered_none [OF registered_more [OF assms(2) [OF expire(2)], of "(c, Worker b)"]] by simp
next
  case (pass v p x ps)
  then show ?thesis using registered_stage [OF assms(2) [OF pass(2)], of "(c, Worker b)" counts_votes] by simp
next
  case (approved r)
  then show ?thesis
    using registered_stage [OF assms(2) [OF approved(2)], of "(c, Worker b)" "approves w"] by (simp add: reviewed_by_def)
next
  case (paid p)
  then show ?thesis using registered_more [OF assms(2) [OF paid(2)], of "(c, Worker b)"] by simp
next
  case (defund m com p t)
  then show ?thesis using registered_none [OF registered_more [OF assms(2) [OF defund(2)], of "(c, Worker b)"]] by simp
qed

text \<open>A registration succeeds only where there is no proposal.\<close>

lemma worker_staged:
  assumes run: "wps_step (c, b) s = Inr s'" and staged: "staged es s"
  shows "staged (es @ [(c, Worker b)]) s'"
  unfolding staged_def
proof (intro allI impI)
  fix w st
  assume new: "status_of s' w = Some st"
  have old: "registered es w (stages w o')" if "status_of s w = Some o'" for o'
    using staged that by (simp add: staged_def)
  have fresh: "status_of s w = None" if "registers w (c, Worker b)"
    using run that by (cases b) (auto simp: regproposal_def check_texts_def check_sizes_def status_of_def)
  from wps_step_lives [OF run, of w] consider "status_of s' w = status_of s w"
    | "moves (c, b) s w (status_of s w) (Some st)" by (auto simp: lives_def new)
  then show "registered (es @ [(c, Worker b)]) w (stages w st)"
  proof cases
    case 1
    then show ?thesis using old [of st] fresh new registered_more by fastforce
  next
    case 2
    then show ?thesis by (rule stages_move) (rule old)
  qed
qed

lemma counted_staged:
  assumes counted: "counted s s'" and a: "counts_votes (c, a)" and staged: "staged es s"
  shows "staged (es @ [(c, a)]) s'"
  unfolding staged_def
proof (intro allI impI)
  fix w st
  assume new: "status_of s' w = Some st"
  have no: "\<not> registers w (c, a)" using a by (cases "(c, a)" rule: counts_votes.cases) simp_all
  consider "status_of s w = Some st" | "status_of s w = Some ON_VOTE" "st = FINISHED_VOTING"
    | "status_of s w = Some ON_VOTE" "st = REJECTED"
    using counted new by (auto simp: counted_def dest: spec [of _ w])
  then show "registered (es @ [(c, a)]) w (stages w st)"
  proof cases
    case 1
    then show ?thesis using staged no registered_more by (simp add: staged_def)
  next
    case 2
    then have "registered es w [accepts w]" using staged by (fastforce simp: staged_def)
    from registered_stage [where P = counts_votes, OF this no a] show ?thesis by (simp add: 2)
  next
    case 3
    then have "registered es w [accepts w]" using staged by (fastforce simp: staged_def)
    from registered_none [OF registered_more [OF this no]] show ?thesis by (simp add: 3)
  qed
qed

lemma unchanged_staged:
  assumes "proposals s' = proposals s" and "\<And>w. \<not> registers w a" and "staged es s"
  shows "staged (es @ [a]) s'"
  using assms registered_more by (simp add: staged_def status_of_def)

lemma step_staged:
  assumes run: "system_step h (c, a) s = Inr s'" and lib: "asset_library (ctx_lib c)" and staged: "staged es s"
  shows "staged (es @ [(c, a)]) s'"
proof -
  consider (worker) b where "a = Worker b"
    | (stake) "counts_votes (c, a)" "counted s s'"
    | (rest) "proposals s' = proposals s" "\<And>w. \<not> registers w (c, a)"
  proof (cases a)
    case (Worker b)
    then show ?thesis using that(1) by blast
  next
    case (Resource b)
    then show ?thesis
      using run stakes_count buyram_proposals sellram_proposals refund_proposals that
        unproposing.other_step [OF run lib] unfolding same_proposals_def
      by (cases b) (auto simp: quiet_action_def buyrambytes_def Let_def)
  next
    case (Power b)
    then show ?thesis using run lib unmarketed.market_step that(3) by (auto simp: same_proposals_def)
  next
    case (Setup b)
    then show ?thesis using run ram_proposals that(3) unproposing.other_step [OF run lib] unfolding same_proposals_def
      by (cases b) (auto simp: quiet_action_def)
  next
    case (Producer b)
    then show ?thesis using run ram_proposals that(3) unproposing.other_step [OF run lib] unfolding same_proposals_def
      by (cases b) (auto simp: quiet_action_def)
  qed (use that(3) unproposing.other_step [OF run lib] in \<open>auto simp: quiet_action_def same_proposals_def\<close>)
  then show ?thesis
  proof cases
    case worker
    then show ?thesis using worker_staged [OF _ staged] run by simp
  next
    case stake
    then show ?thesis using counted_staged staged by blast
  next
    case rest
    then show ?thesis using unchanged_staged staged by blast
  qed
qed

section \<open>Properties\<close>

text \<open>
  C29: no funds without review: whenever a claim succeeds after a history of the whole contract from a state without
  proposals, then the proposal was registered, signed by the proposer, and since its last registration there were,
  among the successful actions and in this order, its acceptance signed by a reviewer, a count of votes, and its
  approval signed by a reviewer. Votes are counted by a vote for proposals that the voter signed, or by a
  \<open>delegatebw\<close> or \<open>undelegatebw\<close> that its first account signed, which repeats the votes on record. The toolkit behaves as documented.
\<close>

theorem funds_only_after_review:
  assumes "list_all (\<lambda>a. asset_library (ctx_lib (fst a))) as" and "proposals start = no_rows"
    and "system_step h (c, Worker (Claimfunds w)) (run (system_step h) as start) = Inr s'"
  shows "\<exists>before d f after. effective (system_step h) as start = before @ (d, Worker (Regproposal w f)) # after \<and>
    has_auth d w \<and> \<not> list_ex (registers w) after \<and> in_order [accepts w, counts_votes, approves w] after"
proof -
  have "staged (effective (system_step h) as start) (run (system_step h) as start)"
  proof (rule effective_induct [OF assms(1)])
    show "staged [] start" by (simp add: staged_def status_of_def assms(2))
    fix es s a s'
    assume "staged es s" "asset_library (ctx_lib (fst a))" "system_step h a s = Inr s'"
    then show "staged (es @ [a]) s'" using step_staged by (cases a) simp
  qed
  moreover have "status_of (run (system_step h) as start) w = Some APPROVED"
    using assms(3) by (auto elim!: claimfunds_Inr simp: status_of_def)
  ultimately have "registered (effective (system_step h) as start) w (stages w APPROVED)" unfolding staged_def by blast
  then show ?thesis by (simp add: registered_def)
qed

section \<open>A proposal that a stake counts\<close>

text \<open>
  Account 50 votes for the proposal of account 40 before there is one, so this vote is not counted, but its weight
  is on record. Then the proposal is registered and accepted, and account 50 stakes 100 tokens more: the difference
  is counted, and is enough. Nobody votes after the proposal was accepted.
\<close>

definition review_start :: sys where
  "review_start = (run wps_step wps_setup wps_start)\<lparr>rammarket := Some sample_market\<rparr>"

definition sample_review :: "event list" where
  "sample_review =
     [(wps_ctx 50 0, Worker (Voteproposal 50 [40])), (wps_ctx 40 0, Worker (Regproposal 40 sample_proposal)),
      (wps_ctx 30 0, Worker (Acceptprop 30 40)),
      (wps_ctx 50 0, Resource (Delegatebw 50 50 (wax_asset 100) (wax_asset 0) False)),
      (wps_ctx 30 0, Worker (Approve 30 40))]"

lemmas vote_count_evals = update_wps_votes_def proposal_deltas_def cast_votes_def withdraw_votes_def add_delta_def
  vote_on_proposal_def sample_weight put_entry.rep_eq default_voter_def seconds_per_day_def Let_def fle_def sample_epoch

lemma early_vote:
  "voteproposal (wps_ctx 50 0) 50 [40] review_start = Inr (review_start\<lparr>wpsvoters := put 50 50
     \<lparr>wv_owner = 50, wv_proposals = [40], wv_last_vote_weight = Fin 60\<rparr> no_rows\<rparr>)"
  unfolding review_start_def setup_run
  by (simp add: voteproposal_def vote_count_evals require_auth_def wps_start_def empty_sys_def in_i64_def)

lemma review_rows:
  assumes "s = review_start\<lparr>wpsvoters := put 50 50 \<lparr>wv_owner = 50, wv_proposals = [40], wv_last_vote_weight = Fin 60\<rparr> no_rows\<rparr>"
  shows "\<exists>s1 p. regproposal (wps_ctx 40 0) 40 sample_proposal s = Inr s1 \<and>
    acceptprop (wps_ctx 30 0) 30 40 s1 = Inr (s\<lparr>proposals := put 40 40 p no_rows\<rparr>) \<and>
    wp_status p = ON_VOTE \<and> wp_total_votes p = Fin 0 \<and> wp_vote_start_time p = 946684800 \<and> wp_committee p = 20 \<and>
    wp_iteration_of_funding p = 1 \<and> wp_total_iterations p = 2 \<and> wp_funding_goal p = wax_asset 1001 \<and> wp_duration p = 30"
  unfolding assms review_start_def setup_run
  by (simp add: regproposal_def acceptprop_def with_reviewer_def require_auth_def available_primary_key_def wps_start_def
      empty_sys_def sample_epoch modify_row_def, intro exI conjI, rule refl, simp_all)

lemma stake_counts:
  assumes "s = review_start\<lparr>wpsvoters := put 50 50 \<lparr>wv_owner = 50, wv_proposals = [40], wv_last_vote_weight = Fin 60\<rparr> no_rows,
      proposals := put 40 40 p no_rows\<rparr>"
    and "wp_status p = ON_VOTE" "wp_total_votes p = Fin 0" "wp_vote_start_time p = 946684800"
  shows "\<exists>s'. delegatebw (wps_ctx 50 0) 50 50 (wax_asset 100) (wax_asset 0) False s = Inr s' \<and>
     proposals s' = put 40 40 (p\<lparr>wp_total_votes := Fin 100, wp_status := FINISHED_VOTING\<rparr>) no_rows \<and>
     reviewers s' = reviewers s \<and> proposers s' = proposers s"
proof -
  let ?c = "wps_ctx 50 0" let ?n = "wax_asset 100" let ?p = "wax_asset 0"
  have s: "rammarket s = Some sample_market" "delband s = no_rows" "userres s = no_rows" "refunds s = no_rows" "genesis s = no_rows"
    "voters s = put 50 50 ((default_voter 50)\<lparr>staked := 60\<rparr>) no_rows" "wps_total_stake s = Fin 1000"
    "wps_env s = Some \<lparr>total_voting_percent = 5, duration_of_voting = 30, max_duration_of_funding = 500, total_iteration_of_funding = 6\<rparr>"
    "min_activated_stake \<le> total_activated_stake (gs s)"
    "wpsvoters s = put 50 50 \<lparr>wv_owner = 50, wv_proposals = [40], wv_last_vote_weight = Fin 60\<rparr> no_rows"
    "proposals s = put 40 40 p no_rows"
    unfolding assms(1) review_start_def setup_run by (simp_all add: wps_start_def empty_sys_def)
  let ?t1 = "s\<lparr>delband := put (50, 50) 50 \<lparr>db_from = 50, db_to = 50, db_net_weight = ?n, db_cpu_weight = ?p\<rparr> no_rows\<rparr>"
  have one: "update_delband ?c 50 50 ?n ?p s = Inr ?t1"
    using s by (simp add: stake_evals)
  obtain t2 where two: "update_totals ?c 50 50 ?n ?p ?t1 = Inr t2"
    and t2: "refunds t2 = no_rows" "voters t2 = voters s" "wpsvoters t2 = wpsvoters s" "proposals t2 = proposals s" "reviewers t2 = reviewers s" "proposers t2 = proposers s"
      "wps_total_stake t2 = Fin 1000" "wps_env t2 = wps_env s" "gs t2 = gs s"
    using s by (cases "resource_limits s 50") (simp add: stake_evals)
  let ?t3 = "t2\<lparr>outbox := outbox t2 @ [\<lparr>in_auths = [(50, active_permission)],
       in_call = Token_call (Transfer 50 stake_account (wax_asset 100) ''stake bandwidth'')\<rparr>]\<rparr>"
  have three: "settle_stake ?c 50 50 50 ?n ?p False t2 = Inr ?t3"
    using t2 by (simp add: stake_evals)
  let ?t4 = "?t3\<lparr>wps_total_stake := Fin 1100\<rparr>"
  let ?t5 = "?t4\<lparr>voters := put 50 50 ((default_voter 50)\<lparr>staked := 160\<rparr>) no_rows\<rparr>"
  have "\<exists>s'. update_wps_votes ?c 50 [40] ?t5 = Inr s' \<and>
     proposals s' = put 40 40 (p\<lparr>wp_total_votes := Fin 100, wp_status := FINISHED_VOTING\<rparr>) no_rows \<and>
     reviewers s' = reviewers s \<and> proposers s' = proposers s"
    using s t2 assms(2-4) by (simp add: vote_count_evals entry_put_entry fsub_def in_i64_def)
  then obtain s' where votes: "update_wps_votes ?c 50 [40] ?t5 = Inr s'"
    and s': "proposals s' = put 40 40 (p\<lparr>wp_total_votes := Fin 100, wp_status := FINISHED_VOTING\<rparr>) no_rows"
      "reviewers s' = reviewers s" "proposers s' = proposers s"
    by blast
  have four: "update_voting_power ?c 50 (wax_asset 100) ?t4 = Inr s'"
    using s t2 votes by (simp add: update_voting_power_def Let_def b1_account_def name_of_def char_value_def default_voter_def modify_row_def)
  have "changebw ?c 50 50 ?n ?p False s = Inr s'"
    using t2 by (simp add: changebw_def require_auth_def one two three four max_amount_def)
  then show ?thesis
    using s s' by (simp add: delegatebw_def core_asset_def stake_core max_amount_def check_at_least_def)
qed

lemma review_run:
  obtains s p where "run (system_step h) sample_review review_start = s"
    and "effective (system_step h) sample_review review_start = sample_review"
    and "proposals s = put 40 40 p no_rows" "wp_status p = APPROVED" "wp_iteration_of_funding p = 1" "wp_total_iterations p = 2"
      "wp_funding_goal p = wax_asset 1001" "wp_duration p = 30" "wp_fund_start_time p = 946684800" "find_row (proposers s) 40 \<noteq> None"
proof -
  define s1 where "s1 = review_start\<lparr>wpsvoters := put 50 50 \<lparr>wv_owner = 50, wv_proposals = [40], wv_last_vote_weight = Fin 60\<rparr> no_rows\<rparr>"
  have one: "voteproposal (wps_ctx 50 0) 50 [40] review_start = Inr s1"
    by (simp only: early_vote s1_def)
  obtain s2 p where two: "regproposal (wps_ctx 40 0) 40 sample_proposal s1 = Inr s2"
    and three: "acceptprop (wps_ctx 30 0) 30 40 s2 = Inr (s1\<lparr>proposals := put 40 40 p no_rows\<rparr>)"
    and p: "wp_status p = ON_VOTE" "wp_total_votes p = Fin 0" "wp_vote_start_time p = 946684800" "wp_committee p = 20"
      "wp_iteration_of_funding p = 1" "wp_total_iterations p = 2" "wp_funding_goal p = wax_asset 1001" "wp_duration p = 30"
    using review_rows [OF s1_def] by blast
  let ?s3 = "s1\<lparr>proposals := put 40 40 p no_rows\<rparr>"
  have s3: "?s3 = review_start\<lparr>wpsvoters := put 50 50 \<lparr>wv_owner = 50, wv_proposals = [40], wv_last_vote_weight = Fin 60\<rparr> no_rows,
      proposals := put 40 40 p no_rows\<rparr>"
    by (simp add: s1_def)
  obtain s4 where four: "delegatebw (wps_ctx 50 0) 50 50 (wax_asset 100) (wax_asset 0) False ?s3 = Inr s4"
    and s4: "proposals s4 = put 40 40 (p\<lparr>wp_total_votes := Fin 100, wp_status := FINISHED_VOTING\<rparr>) no_rows"
      "reviewers s4 = reviewers ?s3" "proposers s4 = proposers ?s3"
    using stake_counts [OF s3 p(1-3)] by blast
  let ?p = "p\<lparr>wp_total_votes := Fin 100, wp_fund_start_time := 946684800, wp_status := APPROVED\<rparr>"
  have rows: "find_row (reviewers s4) 30 = Some \<lparr>rv_account = 30, rv_committee = 20, rv_first_name = ''n'', rv_last_name = ''l''\<rparr>"
    "find_row (proposers s4) 40 \<noteq> None"
    unfolding s4 s1_def review_start_def setup_run by simp_all
  have five: "approve (wps_ctx 30 0) 30 40 s4 = Inr (s4\<lparr>proposals := put 40 40 ?p no_rows\<rparr>)"
    using rows by (simp add: approve_def with_reviewer_def require_auth_def s4(1) p(4) sample_epoch modify_row_def)
  show ?thesis
    by (rule that [of "s4\<lparr>proposals := put 40 40 ?p no_rows\<rparr>" ?p])
       (use rows p in \<open>simp_all add: sample_review_def one two three four five\<close>)
qed

text \<open>The proposal is paid, though the only vote came before it.\<close>

theorem funds_only_after_review_witness:
  "(\<exists>s'. system_step sample_host (wps_ctx 40 20, Worker (Claimfunds 40)) (run (system_step sample_host) sample_review review_start) = Inr s') \<and>
   (\<exists>before d f after. sample_review = before @ (d, Worker (Regproposal 40 f)) # after \<and>
     has_auth d 40 \<and> \<not> list_ex (registers 40) after \<and> in_order [accepts 40, counts_votes, approves 40] after)"
proof (rule review_run [of sample_host])
  fix s p
  assume s: "run (system_step sample_host) sample_review review_start = s"
    "effective (system_step sample_host) sample_review review_start = sample_review"
    and p: "proposals s = put 40 40 p no_rows" "wp_status p = APPROVED" "wp_iteration_of_funding p = 1" "wp_total_iterations p = 2"
      "wp_funding_goal p = wax_asset 1001" "wp_duration p = 30" "wp_fund_start_time p = 946684800" "find_row (proposers s) 40 \<noteq> None"
  have claim: "\<exists>s'. system_step sample_host (wps_ctx 40 20, Worker (Claimfunds 40)) s = Inr s'"
    using p by (auto simp: claimfunds_def require_auth_def claim_interval_def start_funding_round_def
        seconds_per_day_def wax_asset_def std_cdt_def Let_def simp del: sample_time)
       (auto simp: seconds_of_def sdiv_nonneg)
  have lib: "list_all (\<lambda>a. asset_library (ctx_lib (fst a))) sample_review"
    by (simp add: sample_review_def std_library.asset_library_axioms)
  have start: "proposals review_start = no_rows" unfolding review_start_def setup_run by simp
  show ?thesis
    using funds_only_after_review [OF lib start, of sample_host, unfolded s] claim by (auto simp: s)
qed

end
