(* ===== verification/SmallContracts.thy ===== *)
theory SmallContracts
  imports Admin BlockInfo
begin

text \<open>
  The contracts beside the system contract: \<open>eosio.bios\<close> and \<open>eosio.boot\<close>, which run a chain before
  \<open>eosio.system\<close> does, \<open>eosio.wrap\<close>, which sends a transaction past the usual checks, the test contract that
  calls the query on the block table, and the receiver of the reports of \<open>powerup\<close>. The lemmas show that nothing
  privileged is asked for without the contract's own signature, that \<open>setabi\<close> keeps the hashes that the system
  contract would keep, that the id of a wrapped transaction tells who sent it and when, and that the test
  contract reports the query's answer.
\<close>

unbundle bit_operations_syntax

section \<open>eosio.bios\<close>

text \<open>The requests to the chain, in order, and the table of hashes.\<close>

datatype privileged_request =
    Make_privileged name int
  | Limit_resources name int int int
  | Propose_producers "(name \<times> block_signing_authority) list"
  | Change_parameters blockchain_parameters
  | Preactivate bytes

record bios_abi_hash =
  bh_owner :: name
  bh_hash :: bytes

record bios_state =
  bios_hashes :: "(name, bios_abi_hash) table"
  bios_requests :: "privileged_request list"

text \<open>Parameters of type \<open>ignore\<close> are not read.\<close>

datatype bios_action =
    Bios_newaccount name name
  | Bios_updateauth
  | Bios_deleteauth
  | Bios_linkauth
  | Bios_unlinkauth
  | Bios_canceldelay
  | Bios_setcode name int int bytes
  | Bios_setabi name bytes
  | Bios_onerror
  | Bios_setpriv name int
  | Bios_setalimits name int int int
  | Bios_setprods "(name \<times> block_signing_authority) list"
  | Bios_setparams blockchain_parameters
  | Bios_reqauth name
  | Bios_activate bytes
  | Bios_reqactivated bytes

definition request :: "privileged_request \<Rightarrow> bios_state \<Rightarrow> bios_state" where
  "request r s = s\<lparr>bios_requests := bios_requests s @ [r]\<rparr>"

definition bios_setabi :: "(bytes \<Rightarrow> bytes) \<Rightarrow> name \<Rightarrow> bytes \<Rightarrow> bios_state \<Rightarrow> bios_state" where
  "bios_setabi sha256 account abi s =
     (case find_row (bios_hashes s) account of
        None \<Rightarrow> s\<lparr>bios_hashes := put account account \<lparr>bh_owner = account, bh_hash = sha256 abi\<rparr> (bios_hashes s)\<rparr>
      | Some row \<Rightarrow> s\<lparr>bios_hashes := modify_row same_payer account (row\<lparr>bh_hash := sha256 abi\<rparr>) (bios_hashes s)\<rparr>)"

definition bios_onerror :: "bios_state \<Rightarrow> bios_state result" where
  "bios_onerror s = check False ''the onerror action cannot be called directly'' (Inr s)"

definition bios_setpriv :: "ctx \<Rightarrow> name \<Rightarrow> int \<Rightarrow> bios_state \<Rightarrow> bios_state result" where
  "bios_setpriv c account is_priv s = require_auth c (ctx_self c) (Inr (request (Make_privileged account is_priv) s))"

definition bios_setalimits :: "ctx \<Rightarrow> name \<Rightarrow> int \<Rightarrow> int \<Rightarrow> int \<Rightarrow> bios_state \<Rightarrow> bios_state result" where
  "bios_setalimits c account ram net cpu s =
     require_auth c (ctx_self c) (Inr (request (Limit_resources account ram net cpu) s))"

definition bios_setprods :: "ctx \<Rightarrow> (name \<times> block_signing_authority) list \<Rightarrow> bios_state \<Rightarrow> bios_state result" where
  "bios_setprods c schedule s = require_auth c (ctx_self c) (Inr (request (Propose_producers schedule) s))"

definition bios_setparams :: "ctx \<Rightarrow> blockchain_parameters \<Rightarrow> bios_state \<Rightarrow> bios_state result" where
  "bios_setparams c params s = require_auth c (ctx_self c) (Inr (request (Change_parameters params) s))"

definition bios_reqauth :: "ctx \<Rightarrow> name \<Rightarrow> bios_state \<Rightarrow> bios_state result" where
  "bios_reqauth c w s = require_auth c w (Inr s)"

definition bios_activate :: "ctx \<Rightarrow> bytes \<Rightarrow> bios_state \<Rightarrow> bios_state result" where
  "bios_activate c feature_digest s = require_auth c (ctx_self c) (Inr (request (Preactivate feature_digest) s))"

definition bios_reqactivated :: "(bytes \<Rightarrow> bool) \<Rightarrow> bytes \<Rightarrow> bios_state \<Rightarrow> bios_state result" where
  "bios_reqactivated is_feature_activated feature_digest s =
     check (is_feature_activated feature_digest) ''protocol feature is not activated'' (Inr s)"

fun bios_step :: "(bytes \<Rightarrow> bytes) \<Rightarrow> (bytes \<Rightarrow> bool) \<Rightarrow> ctx \<times> bios_action \<Rightarrow> bios_state \<Rightarrow> bios_state result" where
  "bios_step sha active (c, Bios_setabi account abi) s = Inr (bios_setabi sha account abi s)"
| "bios_step sha active (c, Bios_onerror) s = bios_onerror s"
| "bios_step sha active (c, Bios_setpriv account b) s = bios_setpriv c account b s"
| "bios_step sha active (c, Bios_setalimits account r n p) s = bios_setalimits c account r n p s"
| "bios_step sha active (c, Bios_setprods schedule) s = bios_setprods c schedule s"
| "bios_step sha active (c, Bios_setparams params) s = bios_setparams c params s"
| "bios_step sha active (c, Bios_reqauth w) s = bios_reqauth c w s"
| "bios_step sha active (c, Bios_activate d) s = bios_activate c d s"
| "bios_step sha active (c, Bios_reqactivated d) s = bios_reqactivated active d s"
| "bios_step sha active (c, _) s = Inr s"

section \<open>eosio.boot\<close>

text \<open>The native actions, and the activation of features; the state is what was asked of the chain.\<close>

datatype boot_action =
    Boot_newaccount name name
  | Boot_updateauth
  | Boot_deleteauth
  | Boot_linkauth
  | Boot_unlinkauth
  | Boot_canceldelay
  | Boot_setcode name int int bytes
  | Boot_setabi name bytes
  | Boot_onerror
  | Boot_activate bytes
  | Boot_reqactivated bytes

definition boot_onerror :: "privileged_request list \<Rightarrow> privileged_request list result" where
  "boot_onerror s = check False ''the onerror action cannot be called directly'' (Inr s)"

definition boot_activate :: "ctx \<Rightarrow> bytes \<Rightarrow> privileged_request list \<Rightarrow> privileged_request list result" where
  "boot_activate c feature_digest s = require_auth c (ctx_self c) (Inr (s @ [Preactivate feature_digest]))"

definition boot_reqactivated :: "(bytes \<Rightarrow> bool) \<Rightarrow> bytes \<Rightarrow> privileged_request list \<Rightarrow> privileged_request list result" where
  "boot_reqactivated is_feature_activated feature_digest s =
     check (is_feature_activated feature_digest) ''protocol feature is not activated'' (Inr s)"

fun boot_step :: "(bytes \<Rightarrow> bool) \<Rightarrow> ctx \<times> boot_action \<Rightarrow> privileged_request list \<Rightarrow> privileged_request list result" where
  "boot_step active (c, Boot_onerror) s = boot_onerror s"
| "boot_step active (c, Boot_activate d) s = boot_activate c d s"
| "boot_step active (c, Boot_reqactivated d) s = boot_reqactivated active d s"
| "boot_step active (c, _) s = Inr s"

section \<open>eosio.wrap\<close>

text \<open>A deferred transaction: the id that the sender chose, who pays for it, and the packed transaction.\<close>

record deferred =
  df_sender_id :: "128 word"
  df_payer :: name
  df_trx :: bytes

definition wrap_sender_id :: "name \<Rightarrow> int \<Rightarrow> 128 word" where
  "wrap_sender_id executer now = push_bit 64 (ucast executer) OR ucast (word_of_int now :: 64 word)"

definition wrap_exec :: "ctx \<Rightarrow> name \<Rightarrow> bytes \<Rightarrow> deferred list \<Rightarrow> deferred list result" where
  "wrap_exec c executer trx sent =
     require_auth c (ctx_self c) (
     require_auth c executer (
     Inr (sent @ [\<lparr>df_sender_id = wrap_sender_id executer (ctx_now c), df_payer = executer, df_trx = trx\<rparr>])))"

section \<open>The receiver of reports\<close>

definition powupresult :: "asset \<Rightarrow> int \<Rightarrow> int \<Rightarrow> 's \<Rightarrow> 's result" where
  "powupresult fee powup_net_weight powup_cpu_weight s = Inr s"

section \<open>The test contract of the block table\<close>

record tester_result =
  tr_result :: "block_batch_info option"
  tr_error_code :: int

fun batch_error_code :: "batch_error \<Rightarrow> int" where
  "batch_error_code invalid_input = 1"
| "batch_error_code unsupported_version = 2"
| "batch_error_code insufficient_data = 3"

definition tester_process :: "32 word \<times> 32 word \<Rightarrow> block_info_table \<Rightarrow> tester_result" where
  "tester_process input t =
     (case get_latest_block_batch_info (fst input) (snd input) t of
        Inl e \<Rightarrow> \<lparr>tr_result = None, tr_error_code = batch_error_code e\<rparr>
      | Inr r \<Rightarrow> \<lparr>tr_result = Some r, tr_error_code = 0\<rparr>)"

definition has_error :: "tester_result \<Rightarrow> bool" where
  "has_error r \<longleftrightarrow> \<not> (tr_error_code r = 0 \<and> tr_result r \<noteq> None)"

text \<open>Reading and writing of the data of actions is the toolkit's.\<close>

definition tester_apply ::
  "(bytes \<Rightarrow> (32 word \<times> 32 word) option) \<Rightarrow> (tester_result \<Rightarrow> bytes) \<Rightarrow> name \<Rightarrow> name \<Rightarrow> name \<Rightarrow> bytes \<Rightarrow>
   block_info_table \<Rightarrow> (name \<times> name \<times> bytes) list \<Rightarrow> (name \<times> name \<times> bytes) list result" where
  "tester_apply unpack pack receiver code action data t sent =
     (if receiver = code then
        if action = name_of ''call'' then
          some_or (unpack data) (Library ''unpack'') (\<lambda>input.
          Inr (sent @ [(receiver, name_of ''return'', pack (tester_process input t))]))
        else if action = name_of ''abort'' then check False ''0'' (Inr sent)
        else Inr sent
      else Inr sent)"

section \<open>Only the contract's own signature is privileged\<close>

fun requests_of :: "ctx \<times> bios_action \<Rightarrow> privileged_request list" where
  "requests_of (c, Bios_setpriv account b) = [Make_privileged account b]"
| "requests_of (c, Bios_setalimits account r n p) = [Limit_resources account r n p]"
| "requests_of (c, Bios_setprods schedule) = [Propose_producers schedule]"
| "requests_of (c, Bios_setparams params) = [Change_parameters params]"
| "requests_of (c, Bios_activate d) = [Preactivate d]"
| "requests_of (c, _) = []"

lemmas bios_defs = bios_setabi_def bios_onerror_def bios_setpriv_def bios_setalimits_def bios_setprods_def
  bios_setparams_def bios_reqauth_def bios_activate_def bios_reqactivated_def request_def

lemma bios_step_requests:
  "bios_step sha active a s = Inr s' \<Longrightarrow> bios_requests s' = bios_requests s @ requests_of a \<and>
     (requests_of a = [] \<or> has_auth (fst a) (ctx_self (fst a)))"
  by (cases a rule: requests_of.cases) (auto simp: bios_defs split: option.splits)

text \<open>
  What a history asked of the chain is what its successful actions asked, in order, and each of those that ask
  for anything was signed by the contract's account.
\<close>

lemma bios_requests_are_signed:
  "bios_requests (run (bios_step sha active) as s0) =
     bios_requests s0 @ concat (map requests_of (effective (bios_step sha active) as s0)) \<and>
   (\<forall>a \<in> set (effective (bios_step sha active) as s0). requests_of a = [] \<or> has_auth (fst a) (ctx_self (fst a)))"
proof -
  have "list_all (\<lambda>_. True) as" by (simp add: list_all_iff)
  then show ?thesis
  proof (induction rule: effective_induct [where P = "\<lambda>es s. bios_requests s = bios_requests s0 @ concat (map requests_of es) \<and>
      (\<forall>a \<in> set es. requests_of a = [] \<or> has_auth (fst a) (ctx_self (fst a)))"])
    case Nil
    then show ?case by simp
  next
    case (Snoc es s a s')
    then have "bios_step sha active a s = Inr s'" by simp
    from bios_step_requests [OF this] show ?case using Snoc by auto
  qed
qed

text \<open>The same of \<open>eosio.boot\<close>: a boot history is a bios history of the actions they share.\<close>

fun as_bios :: "boot_action \<Rightarrow> bios_action" where
  "as_bios Boot_onerror = Bios_onerror"
| "as_bios (Boot_activate d) = Bios_activate d"
| "as_bios (Boot_reqactivated d) = Bios_reqactivated d"
| "as_bios _ = Bios_canceldelay"

lemma boot_is_bios:
  "boot_step active (c, a) (bios_requests s) = bind_result (bios_step sha active (c, as_bios a) s) (\<lambda>s'. Inr (bios_requests s'))"
  by (cases a) (simp_all add: boot_onerror_def boot_activate_def boot_reqactivated_def bios_defs check_def require_auth_def)

section \<open>Hashes of interfaces\<close>

text \<open>The table of the bios contract and that of the system contract, row by row.\<close>

definition same_hashes :: "bios_state \<Rightarrow> sys \<Rightarrow> bool" where
  "same_hashes b s \<longleftrightarrow> (\<forall>w. map_option (\<lambda>r. (bh_owner r, bh_hash r)) (find_row (bios_hashes b) w) =
     map_option (\<lambda>r. (ah_owner r, ah_hash r)) (find_row (abihash s) w))"

lemma setabi_refines:
  assumes "same_hashes b s"
  shows "same_hashes (bios_setabi sha w abi b) (setabi sha w abi s)"
proof -
  have at: "map_option (\<lambda>r. (bh_owner r, bh_hash r)) (find_row (bios_hashes b) w) =
      map_option (\<lambda>r. (ah_owner r, ah_hash r)) (find_row (abihash s) w)"
    using assms by (simp add: same_hashes_def)
  show ?thesis
  proof (cases "find_row (bios_hashes b) w")
    case None
    then show ?thesis using at assms by (simp add: same_hashes_def bios_setabi_def setabi_def)
  next
    case (Some r)
    then obtain q where "find_row (abihash s) w = Some q" "ah_owner q = bh_owner r"
      using at by (cases "find_row (abihash s) w") auto
    then show ?thesis using Some assms by (simp add: same_hashes_def bios_setabi_def setabi_def)
  qed
qed

section \<open>Ids of wrapped transactions\<close>

lemma wrap_id_parts:
  "(ucast (drop_bit 64 (wrap_sender_id executer now)) :: 64 word) = executer \<and>
   (ucast (wrap_sender_id executer now) :: 64 word) = word_of_int now"
  unfolding wrap_sender_id_def by (auto intro!: bit_word_eqI simp: bit_simps)

lemma wrap_ids_differ:
  "wrap_sender_id v t = wrap_sender_id w u \<Longrightarrow> v = w \<and> (word_of_int t :: 64 word) = word_of_int u"
  using wrap_id_parts by metis

section \<open>What the test contract reports\<close>

lemma tester_reports:
  "has_error (tester_process (offset, width) t) \<longleftrightarrow> (\<exists>e. get_latest_block_batch_info offset width t = Inl e)"
  "tr_result (tester_process (offset, width) t) = Some r \<longleftrightarrow> get_latest_block_batch_info offset width t = Inr r"
proof -
  have code: "batch_error_code e \<noteq> 0" for e by (cases e) simp_all
  show "has_error (tester_process (offset, width) t) \<longleftrightarrow> (\<exists>e. get_latest_block_batch_info offset width t = Inl e)"
    "tr_result (tester_process (offset, width) t) = Some r \<longleftrightarrow> get_latest_block_batch_info offset width t = Inr r"
    by (auto simp: has_error_def tester_process_def code split: sum.split)
qed

end
