(* ===== verification/StakeFrames.thy ===== *)
theory StakeFrames
  imports ContractFrames StakeProperties
begin

text \<open>
  What the actions that are not about stakes leave alone: the records of stakes and refunds, the core symbol, and
  the tokens of \<open>eosio.stake\<close>, as long as that account signs nothing itself. Quiet actions are an instance of
  \<open>worker_frame\<close>; the RAM market and the market of resources are taken apart here.
\<close>

section \<open>Messages that leave \<open>eosio.stake\<close> its tokens\<close>

fun harmless_call :: "permission_level list \<Rightarrow> inline_call \<Rightarrow> bool" where
  "harmless_call auths (Token_call (Transfer f t q memo)) \<longleftrightarrow> f \<noteq> stake_account"
| "harmless_call auths (Token_call (Issue to q memo)) \<longleftrightarrow> True"
| "harmless_call auths (Token_call (Retire q memo)) \<longleftrightarrow> \<not> list_ex (\<lambda>p. fst p = stake_account) auths"
| "harmless_call auths (Token_call _) \<longleftrightarrow> False"
| "harmless_call auths (Powup_result fee n p) \<longleftrightarrow> True"

definition harmless :: "inline_action \<Rightarrow> bool" where
  "harmless m = harmless_call (in_auths m) (in_call m)"

definition stake_view :: "sys \<Rightarrow> symbol result \<times> (name \<times> name, delegated_bandwidth) table \<times> (name, refund_request) table" where
  "stake_view s = (core_symbol s, delband s, refunds s)"

definition outsider :: "ctx \<Rightarrow> bool" where
  "outsider c \<longleftrightarrow> ctx_self c \<noteq> stake_account \<and> \<not> has_auth c stake_account"

definition still :: "ctx \<Rightarrow> sys \<Rightarrow> sys \<Rightarrow> bool" where
  "still c s s' \<longleftrightarrow> (outsider c \<longrightarrow>
     stake_view s' = stake_view s \<and> (\<exists>ms. outbox s' = outbox s @ ms \<and> list_all harmless ms))"

lemma still_trans:
  assumes "still c s t" and "still c t u"
  shows "still c s u"
proof -
  have "\<exists>ms. outbox u = outbox s @ ms \<and> list_all harmless ms"
    if "outbox t = outbox s @ xs" "list_all harmless xs" "outbox u = outbox t @ ys" "list_all harmless ys" for xs ys
    by (rule exI [of _ "xs @ ys"]) (use that in simp)
  then show ?thesis using assms by (auto simp: still_def)
qed

lemma stillI:
  assumes "stake_view s' = stake_view s" and "outbox s' = outbox s @ ms" and "outsider c \<Longrightarrow> list_all harmless ms"
  shows "still c s s'"
  using assms by (auto simp: still_def)

lemma still_same: "stake_view s' = stake_view s \<Longrightarrow> outbox s' = outbox s \<Longrightarrow> still c s s'"
  by (rule stillI [where ms = "[]"]) simp_all

lemma still_update: "stake_view u = stake_view t \<Longrightarrow> outbox u = outbox t \<Longrightarrow> still c s u = still c s t"
  by (simp add: still_def)

interpretation stilling: worker_frame still "\<lambda>c auths a. outsider c \<longrightarrow> harmless_call auths (Token_call a)"
proof unfold_locales
  show "still c s t \<Longrightarrow> still c t u \<Longrightarrow> still c s u" for c s t u by (rule still_trans)
  fix c :: ctx and s s' t :: sys
  have same: "still d a b" if "holdings b = holdings a" for d :: ctx and a b :: sys
    by (rule still_same) (use that in \<open>auto dest: holdingsD simp: stake_view_def core_symbol_def\<close>)
  show "still c s s" by (rule same) simp
  show "update_votes c w p ps b s = Inr s' \<Longrightarrow> still c s s'" for w p ps b
    by (erule update_votes_effect) (rule same)
  show "regproxy c w b s = Inr s' \<Longrightarrow> still c s s'" for w b
    by (erule regproxy_effect) (rule same)
  fix auths :: "permission_level list" and x :: token_action
  assume "outsider c \<longrightarrow> harmless_call auths (Token_call x)" "still c s t"
  moreover have "still c t (send_token auths x t)" if "outsider c \<longrightarrow> harmless_call auths (Token_call x)"
    by (rule stillI [where ms = "[\<lparr>in_auths = auths, in_call = Token_call x\<rparr>]"])
      (use that in \<open>simp_all add: send_token_def stake_view_def harmless_def\<close>)
  ultimately show "still c s (send_token auths x t)" by (blast intro: still_trans)
next
  fix c :: ctx and w r :: name and auths :: "permission_level list" and q :: asset and m :: string
  assume "List.member (paying_accounts c) w"
  then show "outsider c \<longrightarrow> harmless_call ((w, active_permission) # auths) (Token_call (Transfer w r q m))"
    by (auto simp: paying_accounts_def outsider_def)
qed ((rule still_update; simp add: stake_view_def core_symbol_def) | (rule still_same; simp add: stake_view_def core_symbol_def)
    | (simp add: outsider_def; blast)+)+

section \<open>The RAM market\<close>

lemma still_supply:
  assumes "update_ram_supply c s = Inr s1"
  shows "still c s s1"
  using update_ram_supply_Inr [OF assms]
  by (auto intro!: still_same simp: stake_view_def core_symbol_def)

lemma still_credit:
  assumes "credit_ram c w n s = Inr (row, s')"
  shows "still c s s'"
proof (rule still_same)
  note s' = credit_ram_Inr(2) [OF assms]
  show "stake_view s' = stake_view s" by (subst s') (simp add: stake_view_def core_symbol_def)
  show "outbox s' = outbox s" by (subst s') simp
qed

lemma still_ram_limit: "still c s (apply_ram_limit w n s)"
  by (rule still_same) (simp_all add: apply_ram_limit_def set_resource_limits_def stake_view_def core_symbol_def split: prod.split)

lemma still_buyram:
  assumes run: "buyram c p r q s = Inr s'" and lib: "asset_library (ctx_lib c)" and books: "ram_books False s"
  shows "still c s s'"
  using run
proof (rule buyram_Inr)
  fix s1 m out m' row s6 paid fee
  assume a: "has_auth c p" "update_ram_supply c s = Inr s1" "rammarket s1 = Some m" "paid = q\<lparr>amount := i64 (amount q - amount fee)\<rparr>"
    and conv: "direct_convert (ctx_lib c) paid ram_symbol m = Inr (out, m')"
    and credit: "credit_ram c r (amount out) (book_ram (amount out) (amount paid)
       (s1\<lparr>outbox := outbox s1 @ purchase p paid fee, rammarket := Some m'\<rparr>)) = Inr (row, s6)"
    and s': "s' = apply_ram_limit (ur_owner row) (ur_ram_bytes row) s6"
  have typed: "in_i64 (amount paid)" by (simp add: a(4))
  note sym = direct_convert_Inr(7) [OF lib ram_books_parts(1) [OF update_ram_supply_inv [OF books a(2)] a(3)] typed conv]
  have "still c s1 (book_ram (amount out) (amount paid) (s1\<lparr>outbox := outbox s1 @ purchase p paid fee, rammarket := Some m'\<rparr>))"
    by (rule stillI [where ms = "purchase p paid fee"])
      (use a(1,3) sym in \<open>auto simp: purchase_def harmless_def book_ram_def stake_view_def core_symbol_def outsider_def\<close>)
  with still_supply [OF a(2)] have "still c s (book_ram (amount out) (amount paid) (s1\<lparr>outbox := outbox s1 @ purchase p paid fee, rammarket := Some m'\<rparr>))"
    by (rule still_trans)
  then have "still c s s6" using still_credit [OF credit] by (rule still_trans)
  then show ?thesis unfolding s' using still_ram_limit by (rule still_trans)
qed

lemma still_sellram:
  assumes run: "sellram c w n s = Inr s'" and lib: "asset_library (ctx_lib c)" and books: "ram_books False s"
  shows "still c s s'"
  using run
proof (rule sellram_Inr)
  fix s1 m res sold out m' row s5
  assume a: "has_auth c w" "update_ram_supply c s = Inr s1" "rammarket s1 = Some m"
    and mk: "mk_asset (ctx_lib c) n ram_symbol = Some sold"
    and conv: "direct_convert (ctx_lib c) sold (asset_symbol (con_balance (ex_quote m))) m = Inr (out, m')"
    and s5: "s5 = book_ram (- n) (- amount out) (s1\<lparr>rammarket := Some m'\<rparr>)"
    and pay: "pay_for_sale (ctx_lib c) w out (asset_symbol (con_balance (ex_quote m)))
       (apply_ram_limit (ur_owner row) (ur_ram_bytes row) (s5\<lparr>userres := modify_row (Some w) w row (userres s1)\<rparr>)) = Inr s'"
  let ?u = "s5\<lparr>userres := modify_row (Some w) w row (userres s1)\<rparr>"
  let ?t = "apply_ram_limit (ur_owner row) (ur_ram_bytes row) ?u"
  have typed: "in_i64 (amount sold)" using asset_library.mk_Some [OF lib mk] in_range_i64 by auto
  note conv = direct_convert_Inr [OF lib ram_books_parts(1) [OF update_ram_supply_inv [OF books a(2)] a(3)] typed conv]
  have "still c s1 ?u"
    by (rule still_same) (use a(3) conv(7) in \<open>simp_all add: s5 book_ram_def stake_view_def core_symbol_def\<close>)
  moreover have "still c ?t s'"
    unfolding pay_for_sale_Inr [OF lib pay conv(2)]
    by (rule stillI [where ms = "sale w out"])
      (use a(1) in \<open>auto simp: sale_def harmless_def stake_view_def core_symbol_def outsider_def\<close>)
  ultimately show ?thesis
    using still_trans [OF still_trans [OF still_trans [OF still_supply [OF a(2)]] still_ram_limit]] by simp
qed

lemma still_ram:
  assumes "ram_step (c, a) s = Inr s'" and "asset_library (ctx_lib c)" and "ram_books False s" and "\<forall>tok v core. a \<noteq> ram_action.Init tok v core"
  shows "still c s s'"
proof (cases a)
  case (Setram n)
  then show ?thesis
    using assms(1) by (auto intro!: still_same simp: setram_def Let_def stake_view_def core_symbol_def)
next
  case (Setramrate r)
  then obtain s1 g where s1: "update_ram_supply c s = Inr s1" and s': "s' = s1\<lparr>gs2 := g\<rparr>"
    using assms(1) by (auto simp: setramrate_def)
  then show ?thesis using still_supply [OF s1] by simp
next
  case (Buyram p r q)
  then show ?thesis using assms still_buyram by simp
next
  case (Buyrambytes p r n)
  then show ?thesis using assms still_buyram by (auto simp: buyrambytes_def Let_def)
next
  case (Sellram w n)
  then show ?thesis using assms still_sellram by simp
qed (use assms(4) in auto)

section \<open>The market of resources\<close>

lemma still_adjust: "adjust_resources c p w core n m b s = Inr s' \<Longrightarrow> still c s s'"
  by (rule still_same)
    (auto simp: adjust_resources_def apply_limits_def set_resource_limits_def stake_view_def core_symbol_def split: if_splits prod.splits)

interpretation still_market: market_frame still
proof unfold_locales
  show "still c s t \<Longrightarrow> still c t u \<Longrightarrow> still c s u" for c s t u by (rule still_trans)
  show "adjust_resources c p w core n m b s = Inr s' \<Longrightarrow> asset_library (ctx_lib c) \<Longrightarrow> still c s s'" for c p w core n m b s s'
    by (rule still_adjust)
  show "has_auth c payer \<Longrightarrow> still c s (s\<lparr>outbox := outbox s @ charge payer fee memo i j\<rparr>)" for c payer s fee memo i j
    by (rule stillI [where ms = "charge payer fee memo i j"])
      (auto simp: charge_def harmless_def stake_view_def core_symbol_def outsider_def)
qed (rule still_same; simp add: stake_view_def core_symbol_def)+

end
