(* ===== verification/Solvency.thy ===== *)
theory Solvency
  imports ContractProperties StakeFrames Token
begin

text \<open>
  The system contract and the token contract together. An action of the system contract sends its messages to the
  token contract in the same transaction, so it takes effect only if the token contract accepts every one of
  them, and the token contract it reads is the one it sends to; between these, anybody may use the token contract
  directly. The lemmas carry the records of the system contract over to the balances of the token contract:
  \<open>eosio.stake\<close> really holds what is staked and owed, whatever the other actions of the contract do.
\<close>

section \<open>Delivery\<close>

definition token_account :: name where "token_account = name_of ''eosio.token''"

text \<open>A message is a token action in its own right, with the permissions it was sent with.\<close>

definition deliver :: "ctx \<Rightarrow> inline_action \<Rightarrow> token_state \<Rightarrow> token_state result" where
  "deliver c m t =
     (case in_call m of
        Token_call a \<Rightarrow> token_step (c\<lparr>ctx_self := token_account, ctx_auths := in_auths m\<rparr>, a) t
      | Powup_result fee n p \<Rightarrow> Inr t)"

datatype ledger_action = On_system system_action | On_token token_action

text \<open>The actions that read the token contract read its state.\<close>

fun with_tokens :: "token_state \<Rightarrow> system_action \<Rightarrow> system_action" where
  "with_tokens t (Setup (setup_action.Init tok v core)) = Setup (setup_action.Init t v core)"
| "with_tokens t (Chain (chain_action.Voterclaim tok w)) = Chain (chain_action.Voterclaim t w)"
| "with_tokens t (Chain (chain_action.Claimrewards tok w)) = Chain (chain_action.Claimrewards t w)"
| "with_tokens t (Chain (chain_action.Claimgbmvote tok w)) = Chain (chain_action.Claimgbmvote t w)"
| "with_tokens t (Chain (chain_action.Claimgbmprod tok w)) = Chain (chain_action.Claimgbmprod t w)"
| "with_tokens t a = a"

fun ledger_step :: "host \<Rightarrow> ctx \<times> ledger_action \<Rightarrow> sys \<times> token_state \<Rightarrow> (sys \<times> token_state) result" where
  "ledger_step h (c, On_system a) (s, t) =
     bind_result (system_step h (c, with_tokens t a) s) (\<lambda>s'.
     bind_result (fold_result (deliver c) (drop (length (outbox s)) (outbox s')) t) (\<lambda>t'.
     Inr (s', t')))"
| "ledger_step h (c, On_token a) (s, t) = bind_result (token_step (c, a) t) (\<lambda>t'. Inr (s, t'))"

text \<open>
  What is assumed of an action: the toolkit behaves as documented, amounts and times are numbers of their types, the
  system takes no negative number of tokens out of a refund, and \<open>eosio.stake\<close> is neither the contract nor a signer.
\<close>

fun sensible :: "ctx \<Rightarrow> system_action \<Rightarrow> bool" where
  "sensible c (Setup (setup_action.Init tok v core)) \<longleftrightarrow> asset_library (ctx_lib c)"
| "sensible c (Resource (resource_action.Removerefund w q)) \<longleftrightarrow> asset_library (ctx_lib c) \<and> in_i64 (amount q) \<and> 0 \<le> amount q"
| "sensible c a \<longleftrightarrow> supported (c, a)"

fun ledger_admissible :: "ctx \<times> ledger_action \<Rightarrow> bool" where
  "ledger_admissible (c, On_system a) \<longleftrightarrow> outsider c \<and> sensible c a"
| "ledger_admissible (c, On_token a) \<longleftrightarrow> asset_library (ctx_lib c) \<and> \<not> has_auth c stake_account"

lemma sensible_supported:
  assumes "sensible c a" and "token_inv t"
  shows "supported (c, with_tokens t a)"
proof -
  have "in_i64 (amount x)" if "get_supply t k = Inr x" for k x
  proof -
    obtain st where "find_row (stats t) (k, k) = Some st" "x = st_supply st" using \<open>get_supply t k = Inr x\<close> by (auto simp: get_supply_def)
    then show ?thesis using stats_okD [of t k k st] assms(2) by (simp add: token_inv_def in_i64_def max_amount_def)
  qed
  then show ?thesis
    using assms(1) by (cases "(t, a)" rule: with_tokens.cases) (auto split: sum.split elim: sensible.elims)
qed

section \<open>One message\<close>

lemma token_keeps_balance:
  assumes lib: "asset_library (ctx_lib c)" and inv: "token_inv t" and run: "token_step (c, a) t = Inr t'"
    and auth: "\<not> has_auth c w"
  shows "token_inv t' \<and> balance_of t w k \<le> balance_of t' w k"
proof (rule ccontr)
  have ok: "token_inv t'" by (rule token_step_inv [OF _ inv run]) (simp add: lib_ok_def lib)
  assume "\<not> (token_inv t' \<and> balance_of t w k \<le> balance_of t' w k)"
  then have less: "balance_of t' w k < balance_of t w k" using ok by simp
  show False
  proof (cases a)
    case (Create i m)
    then show ?thesis using less run create_effect(2) [OF lib inv] by (auto simp: balance_of_def)
  next
    case (Issue to q memo)
    then show ?thesis using less run issue_effect(3,5) [OF lib inv] by (fastforce simp: amount_for_def split: if_splits)
  next
    case (Retire q memo)
    then have "token_retire c q memo t = Inr t'" using run by simp
    then obtain issuer where "has_auth c issuer" "balance_of t' w k = balance_of t w k - amount_for issuer q w k"
      using retire_effect(3) [OF lib inv] by blast
    then show ?thesis using less auth by (auto simp: amount_for_def split: if_splits)
  next
    case (Transfer f x q memo)
    then have tr: "token_transfer c f x q memo t = Inr t'" using run by simp
    show ?thesis
      using less auth transfer_effect(3,5,7) [OF lib inv tr] by (auto simp: amount_for_def split: if_splits)
  next
    case (Open x y z)
    then show ?thesis using less run open_effect(4) [OF lib inv] by auto
  next
    case (Close x y)
    then show ?thesis using less run close_effect(4) [OF inv] by auto
  qed
qed

lemma deliver_balance:
  assumes lib: "asset_library (ctx_lib c)" and inv: "token_inv t" and run: "deliver c m t = Inr t'"
    and core: "core_message core m"
  shows "token_inv t' \<and>
    balance_of t stake_account (sym_code core) + flow_of_call stake_account (in_call m) \<le> balance_of t' stake_account (sym_code core)"
proof (cases "in_call m")
  case (Powup_result fee n p)
  then show ?thesis using run inv by (simp add: deliver_def)
next
  case (Token_call a)
  define d where "d = c\<lparr>ctx_self := token_account, ctx_auths := in_auths m\<rparr>"
  have step: "token_step (d, a) t = Inr t'" using run Token_call by (simp add: deliver_def d_def)
  have dl: "asset_library (ctx_lib d)" using lib by (simp add: d_def)
  have ok: "token_inv t'" by (rule token_step_inv [OF _ inv step]) (simp add: lib_ok_def dl)
  have call: "core_call core (in_auths m) (Token_call a)" using core Token_call by (simp add: core_message_def)
  show ?thesis
  proof (cases a)
    case (Transfer f x q memo)
    then have tr: "token_transfer d f x q memo t = Inr t'" using step by simp
    have ne: "f \<noteq> x" by (rule transfer_effect(4) [OF dl inv tr])
    note bal = transfer_effect(7) [OF dl inv tr, of stake_account "sym_code core"]
    consider "f = stake_account" "x \<noteq> stake_account" | "x = stake_account" "f \<noteq> stake_account"
      | "f \<noteq> stake_account" "x \<noteq> stake_account" using ne by blast
    then show ?thesis
      by cases (use ok call bal in \<open>simp_all add: Transfer Token_call amount_for_def\<close>)
  next
    case (Issue to q memo)
    then have issued: "token_issue d to q memo t = Inr t'" using step by simp
    show ?thesis
      using ok call issue_effect(3) [OF dl inv issued] by (simp add: Issue Token_call amount_for_def)
  next
    case (Retire q memo)
    have "\<not> has_auth d stake_account" using call by (simp add: Retire has_auth_def d_def)
    then show ?thesis using token_keeps_balance [OF dl inv step] by (simp add: Retire Token_call)
  qed (use call in simp_all)
qed

lemma harmless_balance:
  assumes lib: "asset_library (ctx_lib c)" and inv: "token_inv t" and run: "deliver c m t = Inr t'" and safe: "harmless m"
  shows "token_inv t' \<and> balance_of t stake_account k \<le> balance_of t' stake_account k"
proof (cases "in_call m")
  case (Powup_result fee n p)
  then show ?thesis using run inv by (simp add: deliver_def)
next
  case (Token_call a)
  define d where "d = c\<lparr>ctx_self := token_account, ctx_auths := in_auths m\<rparr>"
  have step: "token_step (d, a) t = Inr t'" using run Token_call by (simp add: deliver_def d_def)
  have dl: "asset_library (ctx_lib d)" using lib by (simp add: d_def)
  have ok: "token_inv t'" by (rule token_step_inv [OF _ inv step]) (simp add: lib_ok_def dl)
  have call: "harmless_call (in_auths m) (Token_call a)" using safe Token_call by (simp add: harmless_def)
  show ?thesis
  proof (cases a)
    case (Transfer f x q memo)
    then have tr: "token_transfer d f x q memo t = Inr t'" using step by simp
    show ?thesis
      using ok call transfer_effect(5,7) [OF dl inv tr] by (auto simp: Transfer amount_for_def)
  next
    case (Issue to q memo)
    then have issued: "token_issue d to q memo t = Inr t'" using step by simp
    show ?thesis using ok issue_effect(3,5) [OF dl inv issued] by (auto simp: amount_for_def)
  next
    case (Retire q memo)
    have "\<not> has_auth d stake_account" using call by (simp add: Retire has_auth_def d_def)
    then show ?thesis using token_keeps_balance [OF dl inv step] by simp
  qed (use call in simp_all)
qed

text \<open>All messages of an action, one after the other.\<close>

lemma delivery:
  assumes "fold_result (deliver c) ms t = Inr t'" and "token_inv t" and "list_all P ms"
    and "\<And>m t t'. deliver c m t = Inr t' \<Longrightarrow> token_inv t \<Longrightarrow> P m \<Longrightarrow>
      token_inv t' \<and> balance_of t stake_account k + g m \<le> balance_of t' stake_account k"
  shows "token_inv t' \<and> balance_of t stake_account k + sum_list (map g ms) \<le> balance_of t' stake_account k"
  using assms(1-3)
proof (induction ms arbitrary: t)
  case (Cons m ms)
  then obtain t1 where one: "deliver c m t = Inr t1" and rest: "fold_result (deliver c) ms t1 = Inr t'" by auto
  have "token_inv t1 \<and> balance_of t stake_account k + g m \<le> balance_of t1 stake_account k"
    by (rule assms(4) [OF one Cons.prems(2)]) (use Cons.prems(3) in simp)
  then show ?case using Cons.IH [OF rest] Cons.prems(3) by fastforce
qed simp

lemma core_delivery:
  assumes "fold_result (deliver c) ms t = Inr t'" and "token_inv t" and "list_all (core_message core) ms" and lib: "asset_library (ctx_lib c)"
  shows "token_inv t' \<and> balance_of t stake_account (sym_code core) + net_flow stake_account ms \<le> balance_of t' stake_account (sym_code core)"
  using delivery [OF assms(1-3), of "sym_code core" "\<lambda>m. flow_of_call stake_account (in_call m)"] deliver_balance [OF lib]
  by (simp add: net_flow_def)

lemma harmless_delivery:
  assumes "fold_result (deliver c) ms t = Inr t'" and "token_inv t" and "list_all harmless ms" and lib: "asset_library (ctx_lib c)"
  shows "token_inv t' \<and> balance_of t stake_account k \<le> balance_of t' stake_account k"
  using delivery [OF assms(1-3), of k "\<lambda>m. 0"] harmless_balance [OF lib] by (simp add: sum_list_triv)

section \<open>The steps\<close>

text \<open>Who moves a stake signed for it.\<close>

lemma stakers_sign:
  "changebw c f r n p tr s = Inr s' \<Longrightarrow> has_auth c f" "delegatebw c f r n p tr s = Inr s' \<Longrightarrow> has_auth c f"
  "undelegatebw c f r n p s = Inr s' \<Longrightarrow> has_auth c f"
proof -
  show change: "has_auth c f" if "changebw c f r n p tr s = Inr s'" for n p tr s'
    using that by (simp add: changebw_def)
  show "delegatebw c f r n p tr s = Inr s' \<Longrightarrow> has_auth c f"
    unfolding delegatebw_def check_at_least_def bind_result_Inr some_or_Inr check_Inr
    by (elim exE conjE) (rule change)
  show "undelegatebw c f r n p s = Inr s' \<Longrightarrow> has_auth c f"
    unfolding undelegatebw_def check_at_least_def bind_result_Inr some_or_Inr check_Inr
    by (elim exE conjE) (rule change)
qed

definition moves_stake :: "resource_action \<Rightarrow> bool" where
  "moves_stake a \<longleftrightarrow>
     (case a of
        resource_action.Delegatebw f r n p t \<Rightarrow> True
      | resource_action.Undelegatebw f r n p \<Rightarrow> True
      | resource_action.Removerefund w q \<Rightarrow> True
      | resource_action.Refund w \<Rightarrow> True
      | _ \<Rightarrow> False)"

lemma stake_moves_settle:
  assumes run: "resource_step c a s = Inr s'" and moves: "moves_stake a" and out: "outsider c"
    and sense: "sensible c (Resource a)" and rec: "stake_records core s"
  shows "\<exists>k \<ge> 0. settled core k s s'"
proof -
  have self: "ctx_self c \<noteq> stake_account" and signer: "f \<noteq> stake_account" if "has_auth c f" for f
    using out that by (auto simp: outsider_def)
  have self: "ctx_self c \<noteq> stake_account" using out by (simp add: outsider_def)
  show ?thesis
  proof (cases a)
    case (Delegatebw f r n p t)
    then have r: "delegatebw c f r n p t s = Inr s'" using run by simp
    show ?thesis
      using asset_library.delegatebw_settled [OF _ r refl signer [OF stakers_sign(2) [OF r]] _ _ rec] sense
      by (auto simp: Delegatebw)
  next
    case (Undelegatebw f r n p)
    then have r: "undelegatebw c f r n p s = Inr s'" using run by simp
    show ?thesis
      using asset_library.undelegatebw_settled [OF _ r refl signer [OF stakers_sign(3) [OF r]] self _ _ rec] sense
      by (auto simp: Undelegatebw)
  next
    case (Removerefund w q)
    then have r: "removerefund c w q s = Inr s'" using run by simp
    show ?thesis
      using asset_library.removerefund_settled [OF _ r refl _ rec] sense by (auto simp: Removerefund)
  next
    case (Refund w)
    then have r: "refund c w s = Inr s'" using run by simp
    show ?thesis
      using asset_library.refund_settled [OF _ r refl rec] sense by (auto simp: Refund)
  qed (use moves in \<open>simp_all add: moves_stake_def\<close>)
qed

text \<open>Before the market is open nothing can be staked.\<close>

lemma unopened_stakes_fail:
  assumes "resource_step c a s = Inr s'" and "moves_stake a" and "rammarket s = None" and "refunds s = no_rows"
  shows False
  using assms
  by (cases a) (auto simp: moves_stake_def delegatebw_def undelegatebw_def removerefund_def refund_def core_asset_def core_symbol_def)

text \<open>Everything else leaves the stakes alone, but for the action that opens the market.\<close>

lemma others_are_still:
  assumes run: "system_step h (c, a) s = Inr s'" and lib: "asset_library (ctx_lib c)" and books: "ram_books False s"
    and other: "\<And>b. a = Resource b \<Longrightarrow> \<not> moves_stake b"
  shows "still c s s' \<or> (rammarket s = None \<and> delband s' = delband s \<and> refunds s' = refunds s \<and> outbox s' = outbox s)"
proof (cases "quiet_action a")
  case True
  from stilling.quiet_step [OF run lib this] show ?thesis ..
next
  case False
  have ram: ?thesis if "ram_step (c, r) s = Inr s'" for r
  proof (cases "\<exists>tok v core. r = ram_action.Init tok v core")
    case True
    then show ?thesis using that by (auto simp: init_def)
  next
    case False
    then have "still c s s'" using still_ram [OF that lib books] by blast
    then show ?thesis ..
  qed
  show ?thesis
  proof (cases a)
    case (Setup b)
    then show ?thesis using False run ram [of "ram_action.Init _ _ _"] by (cases b) (auto simp: quiet_action_def)
  next
    case (Resource b)
    then show ?thesis
      using False run other ram [of "ram_action.Buyram _ _ _"] ram [of "ram_action.Buyrambytes _ _ _"] ram [of "ram_action.Sellram _ _"]
      by (cases b) (auto simp: quiet_action_def moves_stake_def)
  next
    case (Producer b)
    then show ?thesis
      using False run ram [of "ram_action.Setram _"] ram [of "ram_action.Setramrate _"] by (cases b) (auto simp: quiet_action_def)
  next
    case (Power b)
    then show ?thesis using run still_market.market_step [OF _ lib] by simp
  qed (use False in \<open>auto simp: quiet_action_def\<close>)
qed

section \<open>The invariant of both contracts\<close>

definition treasury :: "sys \<times> token_state \<Rightarrow> bool" where
  "treasury = (\<lambda>(s, t). weights_typed s \<and> ram_books False s \<and> token_inv t \<and>
     (case core_symbol s of
        Inl e \<Rightarrow> delband s = no_rows \<and> refunds s = no_rows
      | Inr core \<Rightarrow> stake_records core s \<and> all_staked s + all_refunds s \<le> balance_of t stake_account (sym_code core)))"

lemma unopened_iff: "(\<exists>e. core_symbol s = Inl e) \<longleftrightarrow> rammarket s = None"
  by (cases "rammarket s") (simp_all add: core_symbol_def)

lemma still_treasury:
  assumes still: "stake_view s' = stake_view s" and bal: "\<And>k. balance_of t stake_account k \<le> balance_of t' stake_account k"
    and inv: "treasury (s, t)" and rest: "weights_typed s'" "ram_books False s'" "token_inv t'"
  shows "treasury (s', t')"
proof -
  have v: "core_symbol s' = core_symbol s" "delband s' = delband s" "refunds s' = refunds s" using still by (simp_all add: stake_view_def)
  show ?thesis
  proof (cases "core_symbol s")
    case (Inr core)
    have "balance_of t stake_account (sym_code core) \<le> balance_of t' stake_account (sym_code core)" by (rule bal)
    then show ?thesis
      using inv rest by (simp add: treasury_def v Inr stake_records_def all_staked_def all_refunds_def)
  qed (use inv rest in \<open>simp add: treasury_def v\<close>)
qed

lemma settled_treasury:
  assumes settled: "settled core k s s'" and k: "0 \<le> k" and core: "core_symbol s = Inr core" and inv: "treasury (s, t)"
    and run: "fold_result (deliver c) (drop (length (outbox s)) (outbox s')) t = Inr t'" and lib: "asset_library (ctx_lib c)"
    and rest: "weights_typed s'" "ram_books False s'"
  shows "treasury (s', t')"
proof -
  obtain x where x: "outbox s' = outbox s @ x" "list_all (core_message core) x" using settled by (auto simp: settled_def)
  have tok: "token_inv t" and funds: "all_staked s + all_refunds s \<le> balance_of t stake_account (sym_code core)"
    using inv by (simp_all add: treasury_def core)
  have "token_inv t' \<and> balance_of t stake_account (sym_code core) + net_flow stake_account x \<le> balance_of t' stake_account (sym_code core)"
    by (rule core_delivery [OF _ tok x(2) lib]) (use run x(1) in simp)
  moreover have "core_symbol s' = Inr core" using settled by (simp add: settled_def stake_records_def)
  ultimately show ?thesis
    using settled k funds rest by (simp add: treasury_def settled_def unclaimed_stake_def x(1))
qed

lemma ledger_step_treasury:
  assumes adm: "ledger_admissible a" and inv: "treasury st" and run: "ledger_step h a st = Inr st'"
  shows "treasury st'"
proof -
  obtain c b where a: "a = (c, b)" by (cases a)
  obtain s t where st: "st = (s, t)" by (cases st)
  have typed: "weights_typed s" "ram_books False s" and tok: "token_inv t" using inv by (simp_all add: treasury_def st)
  show ?thesis
  proof (cases b)
    case (On_system e)
    have out: "outsider c" and sense: "sensible c e" using adm by (simp_all add: a On_system)
    have sup: "supported (c, with_tokens t e)" by (rule sensible_supported [OF sense tok])
    then have lib: "asset_library (ctx_lib c)" by (rule supported_lib)
    obtain s' t' where step: "system_step h (c, with_tokens t e) s = Inr s'"
      and sent: "fold_result (deliver c) (drop (length (outbox s)) (outbox s')) t = Inr t'" and st': "st' = (s', t')"
      using run unfolding a On_system st ledger_step.simps bind_result_Inr by blast
    have rest: "weights_typed s'" "ram_books False s'"
      using step_sends [OF step sup typed(1)] step_ram [OF step sup typed] by blast+
    show ?thesis
    proof (cases "\<exists>d. e = Resource d \<and> moves_stake d")
      case True
      then obtain d where d: "e = Resource d" "moves_stake d" by blast
      then have move: "resource_step c d s = Inr s'" using step by simp
      show ?thesis
      proof (cases "core_symbol s")
        case (Inl x)
        then have "rammarket s = None" "refunds s = no_rows" using unopened_iff inv by (auto simp: treasury_def st)
        then show ?thesis using unopened_stakes_fail [OF move d(2)] by blast
      next
        case (Inr core)
        then have "stake_records core s" using inv by (simp add: treasury_def st)
        then obtain k where "0 \<le> k" "settled core k s s'"
          using stake_moves_settle [OF move d(2) out sense [unfolded d(1)]] by blast
        then show ?thesis using settled_treasury [OF _ _ Inr inv [unfolded st] sent lib rest] by (simp add: st')
      qed
    next
      case False
      then have other: "\<And>d. with_tokens t e = Resource d \<Longrightarrow> \<not> moves_stake d"
        by (cases "(t, e)" rule: with_tokens.cases) auto
      from others_are_still [OF step lib typed(2) other] show ?thesis
      proof
        assume "still c s s'"
        then obtain ms where view: "stake_view s' = stake_view s" and ms: "outbox s' = outbox s @ ms" "list_all harmless ms"
          using out by (auto simp: still_def)
        have bal: "token_inv t' \<and> balance_of t stake_account k \<le> balance_of t' stake_account k" for k
          by (rule harmless_delivery [OF _ tok ms(2) lib]) (use sent ms(1) in simp)
        show ?thesis unfolding st' by (rule still_treasury [OF view _ inv [unfolded st] rest]) (use bal in blast)+
      next
        assume opened: "rammarket s = None \<and> delband s' = delband s \<and> refunds s' = refunds s \<and> outbox s' = outbox s"
        then have rows: "delband s' = no_rows" "refunds s' = no_rows" using inv unopened_iff [of s] by (auto simp: treasury_def st)
        have "t' = t" using sent opened by simp
        moreover have "0 \<le> balance_of t stake_account k" for k using balance_nonneg tok by (simp add: token_inv_def)
        ultimately show ?thesis
          using rest tok rows
          by (auto simp: treasury_def st' stake_records_def all_staked_def all_refunds_def weighed_def split: sum.split)
      qed
    qed
  next
    case (On_token e)
    then obtain t' where step: "token_step (c, e) t = Inr t'" and st': "st' = (s, t')"
      using run by (auto simp: a st)
    have auth: "asset_library (ctx_lib c)" "\<not> has_auth c stake_account" using adm by (simp_all add: a On_token)
    show ?thesis
      unfolding st' by (rule still_treasury [OF refl _ inv [unfolded st] typed]) (use token_keeps_balance [OF auth(1) tok step auth(2)] in blast)+
  qed
qed

interpretation both_contracts: contract_machine "ledger_step h" ledger_admissible treasury for h
  by unfold_locales (rule ledger_step_treasury)

text \<open>Before the first stake: no rows, and the books of RAM in order, as they are in a new contract.\<close>

definition no_stakes :: "sys \<Rightarrow> bool" where
  "no_stakes s \<longleftrightarrow> userres s = no_rows \<and> delband s = no_rows \<and> refunds s = no_rows \<and> ram_books False s"

lemma no_stakes_treasury: "no_stakes s \<Longrightarrow> token_inv t \<Longrightarrow> treasury (s, t)"
  using balance_nonneg [of t stake_account]
  by (auto simp: no_stakes_def treasury_def weights_typed_def stake_records_def token_inv_def all_staked_def all_refunds_def
      weighed_def split: sum.split)

lemma refund_covered:
  assumes "treasury (s, t)" and core: "core_symbol s = Inr core" and "find_row (refunds s) w = Some r"
  shows "amount (net_amount r) + amount (cpu_amount r) \<le> balance_of t stake_account (sym_code core)"
proof -
  have ok: "all_rows (refund_ok core) (refunds s)" "all_rows (delband_ok core) (delband s)"
    and funds: "all_staked s + all_refunds s \<le> balance_of t stake_account (sym_code core)"
    using assms(1) by (simp_all add: treasury_def core stake_records_def)
  have "amount (net_amount r) + amount (cpu_amount r) \<le> all_refunds s"
    unfolding all_refunds_def
    by (rule row_le_sum_rows [OF _ assms(3)]) (use ok(1) in \<open>auto simp: all_rows_iff refund_ok_def holding_def\<close>)
  moreover have "0 \<le> all_staked s"
    unfolding all_staked_def weighed_def
    by (rule sum_rows_nonneg) (use ok(2) in \<open>auto simp: all_rows_iff delband_ok_def holding_def\<close>)
  ultimately show ?thesis using funds by simp
qed

section \<open>A refund with its transfer\<close>

definition unstake_of :: "name \<Rightarrow> asset \<Rightarrow> sys \<Rightarrow> sys" where
  "unstake_of w q s = s\<lparr>refunds := erase_row w (refunds s), outbox := outbox s @
     [\<lparr>in_auths = [(stake_account, active_permission), (w, active_permission)],
       in_call = Token_call (Transfer stake_account w q ''unstake'')\<rparr>]\<rparr>"

definition sent_by_stake :: "ctx \<Rightarrow> name \<Rightarrow> ctx" where
  "sent_by_stake c w = c\<lparr>ctx_self := token_account, ctx_auths := [(stake_account, active_permission), (w, active_permission)]\<rparr>"

lemma refund_with_transfer:
  assumes "asset_library (ctx_lib c)" and "stake_records core s" and "find_row (refunds s) w = Some r"
    and "q = \<lparr>amount = amount (net_amount r) + amount (cpu_amount r), asset_symbol = core\<rparr>"
  shows "ledger_step h (c, On_system (Resource (resource_action.Refund w))) (s, t) = Inr (x, y) \<longleftrightarrow> has_auth c w \<and>
      i64 (request_time r * 1000000 + refund_delay_sec * 1000000) \<le> ctx_now c \<and> amount q \<le> max_amount \<and>
      x = unstake_of w q s \<and> token_transfer (sent_by_stake c w) stake_account w q ''unstake'' t = Inr y"
proof -
  have "refund c w s = Inr z \<longleftrightarrow> has_auth c w \<and>
      i64 (request_time r * 1000000 + refund_delay_sec * 1000000) \<le> ctx_now c \<and> amount q \<le> max_amount \<and> z = unstake_of w q s" for z
    using asset_library.refund_iff [OF assms(1) refl assms(2), of w z] by (simp add: assms(3,4) unstake_of_def)
  then show ?thesis
    unfolding ledger_step.simps with_tokens.simps system_step.simps resource_step.simps bind_result_Inr
    by (auto simp: deliver_def sent_by_stake_def unstake_of_def)
qed

lemma stake_can_transfer:
  assumes "asset_library (ctx_lib c)" and "token_inv t" and "w \<noteq> stake_account"
    and "find_row (stats t) (sym_code (asset_symbol q), sym_code (asset_symbol q)) = Some st"
  shows "is_ok (token_transfer (sent_by_stake c w) stake_account w q ''unstake'' t) \<longleftrightarrow>
    ctx_is_account c w \<and> asset_valid (ctx_lib c) q \<and> 0 < amount q \<and> asset_symbol q = asset_symbol (st_supply st) \<and>
    amount q \<le> balance_of t stake_account (sym_code (asset_symbol q))"
proof -
  have lib: "asset_library (ctx_lib (sent_by_stake c w))" using assms(1) by (simp add: sent_by_stake_def)
  show ?thesis
    unfolding transfer_succeeds_iff [OF lib assms(2)]
    using assms(3,4) by (auto simp: sent_by_stake_def has_auth_def)
qed

section \<open>Properties\<close>

text \<open>
  C2: \<open>eosio.stake\<close> is solvent: after every history of actions of the system contract, of any component and in any
  order, whose messages the token contract carries out in the same transaction, and of token actions by anybody else
  in between, its balance in the token contract is at least all that is staked and all that is owed as a refund; so it
  covers every single refund. An action counts only if the token contract accepts each of its messages. Assumed: the
  toolkit behaves as documented, amounts and times are numbers of their types, the system takes no negative number
  of tokens out of a refund, and \<open>eosio.stake\<close> neither is the contract nor signs actions.
\<close>

theorem stake_account_is_solvent:
  assumes "list_all ledger_admissible as" and "no_stakes s0" and "token_inv t0"
    and "run (ledger_step h) as (s0, t0) = (s, t)" and "core_symbol s = Inr core"
  shows "all_staked s + all_refunds s \<le> balance_of t stake_account (sym_code core) \<and>
    (\<forall>w r. find_row (refunds s) w = Some r \<longrightarrow>
       amount (net_amount r) + amount (cpu_amount r) \<le> balance_of t stake_account (sym_code core))"
proof -
  have "treasury (s, t)"
    using both_contracts.run_inv [OF assms(1) no_stakes_treasury [OF assms(2,3)], of h] by (simp add: assms(4))
  then show ?thesis using refund_covered [OF _ assms(5)] by (auto simp: treasury_def assms(5))
qed

text \<open>
  C3: a refund that is due is paid: after every such history \<open>refund\<close>, together with the transfer it sends,
  succeeds exactly for an owner who signed, three days after the second of the request, who still exists, and for a sum that
  is a valid asset and not zero; it never fails for lack of tokens. Then the request is gone, the owner's
  balance grows by the sum and that of \<open>eosio.stake\<close> shrinks by it. The core token exists; assumed as above.
\<close>

theorem due_refunds_are_paid:
  assumes "list_all ledger_admissible as" and "no_stakes s0" and "token_inv t0"
    and "run (ledger_step h) as (s0, t0) = (s, t)" and "core_symbol s = Inr core"
    and "asset_library (ctx_lib c)" and "find_row (refunds s) w = Some r"
    and "find_row (stats t) (sym_code core, sym_code core) = Some st" and "asset_symbol (st_supply st) = core"
    and "q = \<lparr>amount = amount (net_amount r) + amount (cpu_amount r), asset_symbol = core\<rparr>"
  shows "(is_ok (ledger_step h (c, On_system (Resource (resource_action.Refund w))) (s, t)) \<longleftrightarrow>
      has_auth c w \<and> i64 (request_time r * 1000000 + refund_delay_sec * 1000000) \<le> ctx_now c \<and> ctx_is_account c w \<and>
      asset_valid (ctx_lib c) q \<and> 0 < amount q) \<and>
    (\<forall>s' t'. ledger_step h (c, On_system (Resource (resource_action.Refund w))) (s, t) = Inr (s', t') \<longrightarrow>
      refunds s' = erase_row w (refunds s) \<and>
      balance_of t' w (sym_code core) = balance_of t w (sym_code core) + amount q \<and>
      balance_of t' stake_account (sym_code core) = balance_of t stake_account (sym_code core) - amount q)"
proof -
  let ?refund = "On_system (Resource (resource_action.Refund w))"
  have sol: "treasury (s, t)"
    using both_contracts.run_inv [OF assms(1) no_stakes_treasury [OF assms(2,3)], of h] by (simp add: assms(4))
  then have rec: "stake_records core s" and inv: "token_inv t" by (simp_all add: treasury_def assms(5))
  have ok: "refund_ok core w r" by (rule all_rowsD [OF _ assms(7)]) (use rec in \<open>simp add: stake_records_def\<close>)
  then have w: "w \<noteq> stake_account" by (simp add: refund_ok_def)
  have step: "ledger_step h (c, ?refund) (s, t) = Inr (x, y) \<longleftrightarrow> has_auth c w \<and>
      i64 (request_time r * 1000000 + refund_delay_sec * 1000000) \<le> ctx_now c \<and> amount q \<le> max_amount \<and>
      x = unstake_of w q s \<and> token_transfer (sent_by_stake c w) stake_account w q ''unstake'' t = Inr y" for x y
    by (rule refund_with_transfer [OF assms(6) rec assms(7,10)])
  have pay: "is_ok (token_transfer (sent_by_stake c w) stake_account w q ''unstake'' t) \<longleftrightarrow>
      ctx_is_account c w \<and> asset_valid (ctx_lib c) q \<and> 0 < amount q"
    using refund_covered [OF sol assms(5,7)] stake_can_transfer [OF assms(6) inv w, of q st] by (auto simp: assms(8,9,10))
  have small: "amount q \<le> max_amount" if "asset_valid (ctx_lib c) q"
    using asset_library.valid_in_range [OF assms(6) that] by (simp add: asset_in_range_def)
  show ?thesis
  proof (intro conjI allI impI)
    show "is_ok (ledger_step h (c, ?refund) (s, t)) \<longleftrightarrow>
        has_auth c w \<and> i64 (request_time r * 1000000 + refund_delay_sec * 1000000) \<le> ctx_now c \<and> ctx_is_account c w \<and>
        asset_valid (ctx_lib c) q \<and> 0 < amount q"
      using pay small step unfolding is_ok_iff split_paired_Ex by blast
    fix s' t' assume "ledger_step h (c, ?refund) (s, t) = Inr (s', t')"
    then have s': "s' = unstake_of w q s" and tr: "token_transfer (sent_by_stake c w) stake_account w q ''unstake'' t = Inr t'"
      unfolding step by blast+
    note pays = transfer_effect(7) [OF _ inv tr]
    show "refunds s' = erase_row w (refunds s)" by (simp add: s' unstake_of_def)
    show "balance_of t' w (sym_code core) = balance_of t w (sym_code core) + amount q"
      using pays [of w "sym_code core"] w assms(6) by (simp add: amount_for_def assms(10) sent_by_stake_def)
    show "balance_of t' stake_account (sym_code core) = balance_of t stake_account (sym_code core) - amount q"
      using pays [of stake_account "sym_code core"] w assms(6) by (auto simp: amount_for_def assms(10) sent_by_stake_def)
  qed
qed

section \<open>A history\<close>

text \<open>
  Account 1 holds 1000 tokens, stakes 150 of them for account 2, spends 25 and takes 90 back; three days later
  these are paid out.
\<close>

definition wax_ledger :: token_state where
  "wax_ledger = run token_step
     [(sample_ctx 7 [7], Create 1 (wax_asset 1000)), (sample_ctx 7 [1], Issue 1 (wax_asset 1000) '''')] empty_token"

definition sample_refunding :: "(ctx \<times> ledger_action) list" where
  "sample_refunding =
     [(stake_ctx 1 0, On_system (Resource (resource_action.Delegatebw 1 2 (wax_asset 100) (wax_asset 50) False))),
      (sample_ctx 7 [1], On_token (Transfer 1 2 (wax_asset 25) '''')),
      (stake_ctx 1 2500000, On_system (Resource (resource_action.Undelegatebw 1 2 (wax_asset 40) (wax_asset 50))))]"

lemma sample_refunding_admissible: "list_all ledger_admissible sample_refunding"
  by (simp add: sample_refunding_def outsider_def account_values has_auth_def sample_ctx_def stake_ctx_def wax_asset_def
      in_i64_def std_library.asset_library_axioms)

lemma stake_start_empty: "no_stakes stake_start"
  by (simp add: no_stakes_def ram_books_def market_inv_def market_typed_def sample_market_def reserve_def owned_ram_def
      default_gstate_def in_i64_def ram_symbol_def)

lemma wax_ledger_inv: "token_inv wax_ledger"
  unfolding wax_ledger_def by (rule ledger.run_inv) (simp_all add: lib_ok_def token_inv_empty)

lemma wax_ledger_eq:
  "wax_ledger = \<lparr>stats = put (5783895, 5783895) 7
      \<lparr>st_supply = wax_asset 1000, st_max_supply = wax_asset 1000, st_issuer = 1\<rparr> no_rows,
    accounts = put (1, 5783895) 1 \<lparr>acc_balance = wax_asset 1000\<rparr> no_rows, notified = []\<rparr>"
  by (simp add: wax_ledger_def empty_token_def token_defs sample_simps modify_row_def)

text \<open>The transfer that comes with the stake, and the one that account 1 makes itself.\<close>

lemma stake_is_paid:
  "deliver (stake_ctx 1 0) \<lparr>in_auths = [(1, active_permission)],
     in_call = Token_call (Transfer 1 stake_account (wax_asset 150) ''stake bandwidth'')\<rparr> wax_ledger =
   Inr (wax_ledger\<lparr>accounts := put (stake_account, 5783895) 1 \<lparr>acc_balance = wax_asset 150\<rparr>
     (put (1, 5783895) 1 \<lparr>acc_balance = wax_asset 850\<rparr> no_rows), notified := [1, stake_account]\<rparr>)"
  by (simp add: deliver_def wax_ledger_eq token_defs sample_simps stake_ctx_def modify_row_def account_values)

lemma tokens_are_spent:
  assumes "t = wax_ledger\<lparr>accounts := put (stake_account, 5783895) 1 \<lparr>acc_balance = wax_asset 150\<rparr>
     (put (1, 5783895) 1 \<lparr>acc_balance = wax_asset 850\<rparr> no_rows), notified := [1, stake_account]\<rparr>"
  shows "\<exists>t'. token_transfer (sample_ctx 7 [1]) 1 2 (wax_asset 25) '''' t = Inr t' \<and> stats t' = stats wax_ledger \<and>
    balance_of t' 1 5783895 = 825 \<and> balance_of t' stake_account 5783895 = 150"
  unfolding assms by (simp add: wax_ledger_eq token_defs sample_simps modify_row_def account_values balance_of_def)

lemma sample_refunding_run:
  obtains s t where "run (ledger_step sample_host) sample_refunding (stake_start, wax_ledger) = (s, t)"
    and "delband s = put (1, 2) 1 (sample_stake 60 0) no_rows" and "refunds s = put 1 1 (sample_refund 40 50) no_rows"
    and "find_row (stats t) (5783895, 5783895) =
      Some \<lparr>st_supply = wax_asset 1000, st_max_supply = wax_asset 1000, st_issuer = 1\<rparr>"
    and "core_symbol s = Inr wax" and "balance_of t 1 5783895 = 825" and "balance_of t stake_account 5783895 = 150"
proof -
  obtain s1 where one: "delegatebw (stake_ctx 1 0) 1 2 (wax_asset 100) (wax_asset 50) False stake_start = Inr s1"
    and s1: "delband s1 = put (1, 2) 1 (sample_stake 100 50) no_rows"
    "userres s1 = put 2 1 \<lparr>ur_owner = 2, ur_net_weight = wax_asset 100, ur_cpu_weight = wax_asset 50, ur_ram_bytes = 0\<rparr> no_rows"
    "refunds s1 = no_rows" "voters s1 = put 1 1 ((default_voter 1)\<lparr>staked := 150\<rparr>) no_rows"
    "wpsvoters s1 = no_rows" "genesis s1 = no_rows" "rammarket s1 = Some sample_market" "gs s1 = gs stake_start"
    and sent: "outbox s1 = [\<lparr>in_auths = [(1, active_permission)],
       in_call = Token_call (Transfer 1 stake_account (wax_asset 150) ''stake bandwidth'')\<rparr>]"
    using sample_delegation by blast
  obtain s2 where two: "undelegatebw (stake_ctx 1 2500000) 1 2 (wax_asset 40) (wax_asset 50) s1 = Inr s2"
    and s2: "delband s2 = put (1, 2) 1 (sample_stake 60 0) no_rows" "refunds s2 = put 1 1 (sample_refund 40 50) no_rows"
      "outbox s2 = outbox s1" "rammarket s2 = Some sample_market"
    using sample_undelegation [OF s1] by blast
  note paid = stake_is_paid
  obtain t where spent: "token_transfer (sample_ctx 7 [1]) 1 2 (wax_asset 25) '''' (wax_ledger\<lparr>accounts :=
      put (stake_account, 5783895) 1 \<lparr>acc_balance = wax_asset 150\<rparr> (put (1, 5783895) 1 \<lparr>acc_balance = wax_asset 850\<rparr> no_rows),
      notified := [1, stake_account]\<rparr>) = Inr t"
    and t: "stats t = stats wax_ledger" "balance_of t 1 5783895 = 825" "balance_of t stake_account 5783895 = 150"
    using tokens_are_spent [OF refl] by blast
  have "run (ledger_step sample_host) sample_refunding (stake_start, wax_ledger) = (s2, t)"
    by (simp add: sample_refunding_def one two sent paid spent s2(3))
  then show ?thesis by (rule that) (simp_all add: s2 t wax_ledger_eq stake_core)
qed

text \<open>Why the number of removed tokens has to be assumed: a negative one adds to the refund.\<close>

lemma negative_removal_adds:
  assumes "rammarket s = Some sample_market" and "refunds s = put 1 1 (sample_refund 40 50) no_rows"
  shows "removerefund (stake_ctx 9 3000000) 1 (wax_asset (- 10)) s = Inr (s\<lparr>refunds := put 1 1 (sample_refund 50 50) no_rows\<rparr>)"
  using assms by (simp add: removerefund_def reduce_refund_def stake_evals)

theorem stake_account_is_solvent_witness:
  "\<exists>s t. run (ledger_step sample_host) sample_refunding (stake_start, wax_ledger) = (s, t) \<and>
     all_staked s + all_refunds s \<le> balance_of t stake_account 5783895 \<and> all_staked s = 60 \<and> all_refunds s = 90"
proof (rule sample_refunding_run)
  fix s t
  assume s: "run (ledger_step sample_host) sample_refunding (stake_start, wax_ledger) = (s, t)"
    "delband s = put (1, 2) 1 (sample_stake 60 0) no_rows" "refunds s = put 1 1 (sample_refund 40 50) no_rows" "core_symbol s = Inr wax"
  have "all_staked s + all_refunds s \<le> balance_of t stake_account (sym_code wax)"
    using stake_account_is_solvent [OF sample_refunding_admissible stake_start_empty wax_ledger_inv s(1,4)] by blast
  then show ?thesis
    using s by (simp add: all_staked_def all_refunds_def weighed_def sum_rows_put wax_def)
qed

theorem due_refunds_are_paid_witness:
  "\<exists>s t s' t'. run (ledger_step sample_host) sample_refunding (stake_start, wax_ledger) = (s, t) \<and>
     ledger_step sample_host (stake_ctx 1 259202000000, On_system (Resource (resource_action.Refund 1))) (s, t) = Inr (s', t') \<and>
     balance_of t' 1 5783895 = 915 \<and> balance_of t' stake_account 5783895 = 60"
proof (rule sample_refunding_run)
  fix s t
  let ?c = "stake_ctx 1 259202000000"
    and ?st = "\<lparr>st_supply = wax_asset 1000, st_max_supply = wax_asset 1000, st_issuer = 1\<rparr>"
  assume s: "run (ledger_step sample_host) sample_refunding (stake_start, wax_ledger) = (s, t)"
    "refunds s = put 1 1 (sample_refund 40 50) no_rows" "find_row (stats t) (5783895, 5783895) = Some ?st"
    "core_symbol s = Inr wax" "balance_of t 1 5783895 = 825" "balance_of t stake_account 5783895 = 150"
  have lib: "asset_library (ctx_lib ?c)" by (simp add: std_library.asset_library_axioms)
  have row: "find_row (refunds s) 1 = Some (sample_refund 40 50)" by (simp add: s(2))
  have token: "find_row (stats t) (sym_code wax, sym_code wax) = Some ?st" "asset_symbol (st_supply ?st) = wax"
    using s(3) by (simp_all add: wax_def wax_asset_def)
  note pays = due_refunds_are_paid [OF sample_refunding_admissible stake_start_empty wax_ledger_inv s(1,4) lib row token refl]
  have "is_ok (ledger_step sample_host (?c, On_system (Resource (resource_action.Refund 1))) (s, t))"
    using pays by (simp add: refund_delay_sec_def seconds_per_day_def sample_simps stake_ctx_def)
  then obtain s' t' where "ledger_step sample_host (?c, On_system (Resource (resource_action.Refund 1))) (s, t) = Inr (s', t')"
    by (auto simp: is_ok_iff)
  then show ?thesis using pays s by (force simp: wax_def)
qed

end
