(* ===== verification/ProducerRows.thy ===== *)
theory ProducerRows
  imports SystemState
begin

text \<open>
  How a row of \<open>producers\<close> is stored: \<open>producer_info\<close> is the one structure that is written and read by operators of its
  own (\<open>eosio.system.hpp\<close>), because its last field came with an upgrade. A row without an authority is written as it
  was before the upgrade, so actions that others pay for do not make it longer. The streams are the toolkit's: each
  field has a \<open>codec\<close>, of which only the documented round trip is assumed.
\<close>

section \<open>Streams\<close>

text \<open>What is written for a value, what is read from the front of a stream, and which values the type has.\<close>

record 'a codec =
  pack :: "'a \<Rightarrow> bytes"
  unpack :: "bytes \<Rightarrow> ('a \<times> bytes) option"
  storable :: "'a \<Rightarrow> bool"

definition codec_ok :: "'a codec \<Rightarrow> bool" where
  "codec_ok c \<longleftrightarrow> (\<forall>x rest. storable c x \<longrightarrow> unpack c (pack c x @ rest) = Some (x, rest))"

record row_codecs =
  c_name :: "name codec"
  c_double :: "f64 codec"
  c_key :: "bytes codec"
  c_bool :: "bool codec"
  c_string :: "string codec"
  c_uint32 :: "int codec"
  c_time :: "int codec"
  c_uint16 :: "int codec"
  c_extension :: "block_signing_authority option codec"

text \<open>\<open>binary_extension\<close>: a field that is absent when the stream ends before it.\<close>

definition codecs_ok :: "row_codecs \<Rightarrow> bool" where
  "codecs_ok C \<longleftrightarrow> codec_ok (c_name C) \<and> codec_ok (c_double C) \<and> codec_ok (c_key C) \<and> codec_ok (c_bool C) \<and>
     codec_ok (c_string C) \<and> codec_ok (c_uint32 C) \<and> codec_ok (c_time C) \<and> codec_ok (c_uint16 C) \<and>
     unpack (c_extension C) [] = Some (None, []) \<and>
     (\<forall>a. storable (c_extension C) (Some a) \<longrightarrow> unpack (c_extension C) (pack (c_extension C) (Some a)) = Some (Some a, []))"

section \<open>The operators\<close>

definition write_producer :: "row_codecs \<Rightarrow> producer_info \<Rightarrow> bytes" where
  "write_producer C t =
     (let ds = pack (c_name C) (pi_owner t) @ pack (c_double C) (total_votes t) @ pack (c_key C) (producer_key t) @
        pack (c_bool C) (is_active t) @ pack (c_string C) (pi_url t) @ pack (c_uint32 C) (unpaid_blocks t) @
        pack (c_time C) (pi_last_claim_time t) @ pack (c_uint16 C) (pi_location t) in
      if producer_authority t = None then ds else ds @ pack (c_extension C) (producer_authority t))"

definition read_producer :: "row_codecs \<Rightarrow> bytes \<Rightarrow> (producer_info \<times> bytes) option" where
  "read_producer C ds =
     Option.bind (unpack (c_name C) ds) (\<lambda>(owner, ds).
     Option.bind (unpack (c_double C) ds) (\<lambda>(votes, ds).
     Option.bind (unpack (c_key C) ds) (\<lambda>(key, ds).
     Option.bind (unpack (c_bool C) ds) (\<lambda>(active, ds).
     Option.bind (unpack (c_string C) ds) (\<lambda>(url, ds).
     Option.bind (unpack (c_uint32 C) ds) (\<lambda>(unpaid, ds).
     Option.bind (unpack (c_time C) ds) (\<lambda>(claimed, ds).
     Option.bind (unpack (c_uint16 C) ds) (\<lambda>(location, ds).
     Option.bind (unpack (c_extension C) ds) (\<lambda>(authority, ds).
     Some (\<lparr>pi_owner = owner, total_votes = votes, producer_key = key, is_active = active, pi_url = url,
        unpaid_blocks = unpaid, pi_last_claim_time = claimed, pi_location = location, producer_authority = authority\<rparr>, ds))))))))))"

section \<open>What is stored is read back\<close>

definition row_storable :: "row_codecs \<Rightarrow> producer_info \<Rightarrow> bool" where
  "row_storable C t \<longleftrightarrow> storable (c_name C) (pi_owner t) \<and> storable (c_double C) (total_votes t) \<and>
     storable (c_key C) (producer_key t) \<and> storable (c_bool C) (is_active t) \<and> storable (c_string C) (pi_url t) \<and>
     storable (c_uint32 C) (unpaid_blocks t) \<and> storable (c_time C) (pi_last_claim_time t) \<and>
     storable (c_uint16 C) (pi_location t) \<and>
     (producer_authority t \<noteq> None \<longrightarrow> storable (c_extension C) (producer_authority t))"

lemma unpack_pack: "codec_ok c \<Longrightarrow> storable c x \<Longrightarrow> unpack c (pack c x @ rest) = Some (x, rest)"
  by (simp add: codec_ok_def)

lemma unpack_pack_end: "codec_ok c \<Longrightarrow> storable c x \<Longrightarrow> unpack c (pack c x) = Some (x, [])"
  using unpack_pack [of c x "[]"] by simp

lemma producer_round_trip:
  assumes "codecs_ok C" and "row_storable C t"
  shows "read_producer C (write_producer C t) = Some (t, [])"
proof (cases "producer_authority t")
  case None
  then show ?thesis
    using assms by (simp add: read_producer_def write_producer_def Let_def codecs_ok_def row_storable_def unpack_pack unpack_pack_end)
next
  case (Some a)
  then show ?thesis
    using assms by (simp add: read_producer_def write_producer_def Let_def codecs_ok_def row_storable_def unpack_pack)
qed

text \<open>
  Deactivating a producer, as \<open>rmvproducer\<close> does at the cost of nobody, never makes its row longer than the default
  key does: the authority goes.
\<close>

lemma deactivated_row_is_no_longer:
  assumes "length (pack (c_key C) []) \<le> length (pack (c_key C) (producer_key t))"
    and "length (pack (c_bool C) False) = length (pack (c_bool C) (is_active t))"
  shows "length (write_producer C (deactivate t)) \<le> length (write_producer C t)"
  using assms by (auto simp: write_producer_def deactivate_def Let_def)

text \<open>A counter of a fixed width leaves the length alone, whether there is an authority or not (\<open>onblock\<close>).\<close>

lemma counting_keeps_the_length:
  assumes "length (pack (c_uint32 C) n) = length (pack (c_uint32 C) (unpaid_blocks t))"
  shows "length (write_producer C (t\<lparr>unpaid_blocks := n\<rparr>)) = length (write_producer C t)"
  using assms by (simp add: write_producer_def Let_def)

end
