(* ===== verification/Spec2Isabelle.thy ===== *)
theory Spec2Isabelle
  imports Token Msig Exchange LimitAuth BlockInfo Ram NameBid Admin WpsProperties StakeProperties Schedule PayProperties PowerupProperties ContractProperties ProposalVoters ProposalReview SmallContracts Solvency ProducerRows
begin

text \<open>
  The system contracts of the WAX chain (\<open>src/contracts\<close>), with the theorems that make them correct.

  \<^bold>\<open>The program.\<close> The chain runs each contract as a set of actions on tables that the chain stores. An action
  checks who authorised it, reads and writes rows, may send actions to other contracts (\<open>inline actions\<close>) and call
  privileged functions of the host; when a \<open>check\<close> fails the whole transaction is undone. \<open>eosio.token\<close> is the
  ledger of tokens. \<open>eosio.msig\<close> collects approvals and sends a transaction once they suffice. \<open>eosio.system\<close> is the
  large one: it sells RAM, accepts stakes for bandwidth and votes for producers and for worker proposals, elects the
  producers, creates and distributes the inflation, auctions account names, rents bandwidth (\<open>powerup\<close>), keeps the last
  blocks, guards permission changes and administers the chain. Its parts share \<open>userres\<close> (totals of an account), \<open>voters\<close>,
  the global singletons and the accounts it holds tokens in (\<open>eosio.stake\<close>, \<open>eosio.ram\<close>, \<open>eosio.names\<close>, the pay
  buckets), and all of them move tokens by inline actions to \<open>eosio.token\<close>. \<open>eosio.bios\<close> and \<open>eosio.boot\<close> precede it on a
  new chain, \<open>eosio.wrap\<close> lets producers run a transaction past the usual checks.

  \<^bold>\<open>Shape of the model.\<close> A contract's tables are one record; an action is a function
  \<open>ctx \<Rightarrow> arguments \<Rightarrow> state \<Rightarrow> state result\<close>, where \<open>Inl\<close> is the abort with its message and \<open>Inr\<close> the new state, so
  every check and early return of the code is a branch. A component ends in a datatype of its actions and a step
  function; a history is a list of steps, an aborted one leaving the state alone (\<open>run\<close> in \<open>Prelude\<close>). Invariants are
  laws of the locale \<open>contract_machine\<close>, interpreted on each step function.

  \<^item> \<open>Prelude\<close>: results, the integers of C++ at their widths (\<open>i64\<close>, \<open>u64\<close>, \<open>u32\<close> wrap), histories.
  \<^item> \<open>Tables\<close>: \<open>eosio::multi_index\<close>, rows in the order of the key, with payers; locale \<open>multi_index\<close>.
  \<^item> \<open>Float64\<close>: doubles, rounded to nearest even, with the bounds that the proofs about prices use.
  \<^item> \<open>Chain\<close>: names, assets, the toolkit as the record \<open>cdt\<close> with its documented laws in the locale
    \<open>asset_library\<close>, the context of an action.
  \<^item> \<open>Token\<close>: \<open>eosio.token\<close>; supply, balances, authority, and exactly when a transfer succeeds.
  \<^item> \<open>Msig\<close>: \<open>eosio.msig\<close>; what was approved and still is when a transaction is sent, once, not before its delay.
  \<^item> \<open>SystemState\<close>: tables, singletons, constants and inline actions of \<open>eosio.system\<close> (\<open>eosio.system.hpp\<close>).
  \<^item> \<open>ProducerRows\<close>: the stream operators of \<open>producer_info\<close>, with their round trip for rows of either format.
  \<^item> \<open>Exchange\<close>, \<open>Ram\<close>: \<open>exchange_state.cpp\<close> and the RAM actions; what a conversion and its reverse return, bytes
    and tokens conserved.
  \<^item> \<open>NameBid\<close>: \<open>name_bidding.cpp\<close>, \<open>newaccount\<close> and the daily close; refunds are funded, names go to the winner.
  \<^item> \<open>Admin\<close>, \<open>LimitAuth\<close>, \<open>BlockInfo\<close>: parameters and limits; permission changes; the table of recent blocks.
  \<^item> \<open>VoteWeight\<close>, \<open>Wps\<close>, \<open>WpsLemmas\<close>, \<open>WpsProperties\<close>: \<open>wps.cpp\<close>; every action refines the life cycle of a
    proposal, instalments stay within the goal.
  \<^item> \<open>Voting\<close>, \<open>VotingLemmas\<close>, \<open>Schedule\<close>: \<open>voting.cpp\<close>; chains of proxies end, the schedule holds the best.
  \<^item> \<open>VoteFrames\<close>: what voting leaves alone, in the locale \<open>vote_frame\<close>.
  \<^item> \<open>Bandwidth\<close>, \<open>StakeLemmas\<close>, \<open>StakeProperties\<close>: \<open>delegate_bandwidth.cpp\<close>; the books of stakes and refunds.
  \<^item> \<open>ProducerPay\<close>, \<open>PayLemmas\<close>, \<open>PayProperties\<close>: \<open>producer_pay.cpp\<close> and the claims in \<open>voting.cpp\<close>.
  \<^item> \<open>Powerup\<close>, \<open>PowerupLemmas\<close>, \<open>PowerupBooks\<close>, \<open>PowerupProperties\<close>: \<open>powerup.cpp\<close>; utilization, orders, the queue.
  \<^item> \<open>SmallContracts\<close>: \<open>eosio.bios\<close>, \<open>eosio.boot\<close>, \<open>eosio.wrap\<close>, the receiver of \<open>powerup\<close> reports, the test contract.
  \<^item> \<open>Contract\<close>, \<open>ContractFrames\<close>, \<open>ContractProperties\<close>: all actions that \<open>eosio.system.hpp\<close> and \<open>native.hpp\<close> declare as
    one step; the frame of every action (what it leaves alone), and properties of histories of any actions in any
    order: who pays, the bytes of RAM, the totals that three components write. The locales \<open>quiet_frame\<close>, its
    extension \<open>worker_frame\<close> and \<open>market_frame\<close> say what a property must survive to hold across the actions that neither
    stake, trade RAM nor rent bandwidth (without and with the actions on proposals), and across those of the market.
  \<^item> \<open>ProposalVoters\<close>, \<open>ProposalReview\<close>: votes for proposals, proxies and stakes together; what a proposal has behind it
    when it is paid, over histories of the whole contract, in which changes of stake repeat votes.
  \<^item> \<open>StakeFrames\<close>, \<open>Solvency\<close>: the system contract with the token contract it sends to, in one transaction: whatever
    actions come in between, \<open>eosio.stake\<close> owns what is staked and owed, and refunds that are due are paid.

  \<^bold>\<open>Loops and fuel.\<close> Loops over rows or arguments are folds. \<open>propagate_weight_change\<close> calls itself along a chain of
  proxies; the model counts the calls down from the number of voters, and \<open>propagation_ends\<close> shows that no reachable
  state uses them up, because the proxies form no cycle. \<open>expire_orders\<close> counts down \<open>max_items\<close>, as the code's loop does.
  Everything else is structural.

  \<^bold>\<open>Numbers.\<close> 64-bit, 32-bit and 16-bit fields wrap where the code computes in them; sums in \<open>__int128\<close> are exact.
  Times of
  type \<open>time_point_sec\<close> are whole seconds, cut where the code converts. Theorems that need a range say so: assets within \<open>2 ^ 62\<close> are the toolkit's own bound, the market of resources is
  assumed to have weights below \<open>2 ^ 62\<close> (above, its check can wrap). \<open>Undefined\<close> is a result of its own, used where
  the code would dereference an end iterator, read an empty \<open>std::optional\<close> or convert a double out of range.

  \<^bold>\<open>Assumptions.\<close> Code outside the repository is a parameter: the toolkit (\<open>cdt\<close>; the asset laws in \<open>asset_library\<close>, with
  the instance \<open>std_cdt\<close> for the witnesses), \<open>exp\<close> and \<open>pow\<close> (\<open>libm\<close>), \<open>sha256\<close>, the host's answers to a proposed schedule
  and to an authority, the unpacking of transactions. The state of the token contract that an action reads is an argument.

  \<^bold>\<open>Not modelled.\<close> Serialization and ABI generation (\<open>EOSLIB_SERIALIZE\<close>), the \<open>X_action\<close> aliases of
  action wrappers and the table typedefs, which carry no behaviour beyond the types here; that the constructor loads and
  the destructor stores the singletons, which the model has as one state per action; the caching of the core symbol
  in a static variable (it cannot change); printing; what the chain does on native actions (\<open>updateauth\<close> and the
  others only check here, as in the code); billing of RAM to payers, beyond recording the payer of a row; structures that only
  name serialized fields (\<open>authority\<close>, \<open>block_header\<close>); tests and build files.
\<close>

end
